(* ===== verification/Prelude.thy ===== *)
theory Prelude
  imports Main "HOL-Library.Word" "HOL-Library.Char_ord" "HOL-Library.List_Lexorder"
    "HOL-Library.Product_Lexorder" Complex_Main
begin

text \<open>
  Shared vocabulary of the development.

  \<^item> Types.  A Rust \<open>String\<close> or \<open>&str\<close> is a \<open>string\<close>: the list of its UTF-8 bytes (a HOL
    \<open>char\<close> is one byte), so \<open>len()\<close> is \<open>length\<close>, \<open>as_bytes()\<close> is a byte-for-byte copy and the
    byte-wise \<open>Ord\<close> of strings is the lexicographic order.  \<open>chars\<close> decodes the Unicode scalar
    values (code points, as \<open>nat\<close>) where the source iterates over characters.
    \<open>Uuid\<close> is its 128-bit value, a \<open>Timestamp\<close> its nanoseconds since the epoch, and \<open>f64\<close>
    values are a \<open>datatype\<close> with the non-finite values made explicit.
  \<^item> A \<open>Result<T, E>\<close> is the sum \<open>'e + 'a\<close>, \<open>Inl\<close> holding the error.
  \<^item> A method on shared mutable state is a function \<open>'s \<Rightarrow> ('e + 'a) \<times> 's\<close>; \<open>bindE\<close> is the
    \<open>?\<close> operator: the first error is returned with the state reached so far.
  \<^item> The standard-library text functions the source uses (\<open>trim\<close>, \<open>starts_with\<close>,
    \<open>to_string\<close> of integers, \<open>slice::windows(2)\<close>) and the generic lemmas over lists.
\<close>

named_theorems monadE "unfolding of the error and state combinators"

type_synonym u8 = "8 word"
type_synonym u32 = "32 word"
type_synonym u64 = "64 word"
type_synonym bytes = "8 word list"
type_synonym uuid = "128 word"
type_synonym timestamp = int
type_synonym codepoint = nat

subsection \<open>Results and stateful results\<close>

type_synonym ('s, 'e, 'a) op = "'s \<Rightarrow> ('e + 'a) \<times> 's"

definition retE :: "'a \<Rightarrow> ('s, 'e, 'a) op" where
  "retE a = (\<lambda>s. (Inr a, s))"

definition throwE :: "'e \<Rightarrow> ('s, 'e, 'a) op" where
  "throwE e = (\<lambda>s. (Inl e, s))"

definition bindE :: "('s, 'e, 'a) op \<Rightarrow> ('a \<Rightarrow> ('s, 'e, 'b) op) \<Rightarrow> ('s, 'e, 'b) op" where
  "bindE m f = (\<lambda>s. case m s of (Inl e, s') \<Rightarrow> (Inl e, s') | (Inr a, s') \<Rightarrow> f a s')"

text \<open>\<open>map_err\<close>: the error of a stateful result is translated, its state is kept.\<close>

definition map_err :: "('e \<Rightarrow> 'f) \<Rightarrow> ('s, 'e, 'a) op \<Rightarrow> ('s, 'f, 'a) op" where
  "map_err g m = (\<lambda>s. case m s of (Inl e, s') \<Rightarrow> (Inl (g e), s') | (Inr a, s') \<Rightarrow> (Inr a, s'))"

text \<open>A pure \<open>Result\<close> used inside a stateful operation.\<close>

definition liftE :: "'e + 'a \<Rightarrow> ('s, 'e, 'a) op" where
  "liftE r = (\<lambda>s. (r, s))"

definition is_ok :: "'e + 'a \<Rightarrow> bool" where
  "is_ok r = (case r of Inl _ \<Rightarrow> False | Inr _ \<Rightarrow> True)"

fun mapE :: "('a \<Rightarrow> ('s, 'e, 'b) op) \<Rightarrow> 'a list \<Rightarrow> ('s, 'e, 'b list) op" where
  "mapE f [] = retE []"
| "mapE f (x # xs) = bindE (f x) (\<lambda>y. bindE (mapE f xs) (\<lambda>ys. retE (y # ys)))"

text \<open>The pure counterpart: \<open>iter().map(f).collect::<Result<Vec<_>, _>>()\<close>.\<close>

fun traverse :: "('a \<Rightarrow> 'e + 'b) \<Rightarrow> 'a list \<Rightarrow> 'e + 'b list" where
  "traverse f [] = Inr []"
| "traverse f (x # xs) =
     (case f x of Inl e \<Rightarrow> Inl e
      | Inr y \<Rightarrow> (case traverse f xs of Inl e \<Rightarrow> Inl e | Inr ys \<Rightarrow> Inr (y # ys)))"

text \<open>\<open>check()?\<close> followed by the rest of a function that returns a pure \<open>Result\<close>.\<close>

definition thenE :: "'e + 'a \<Rightarrow> 'e + 'b \<Rightarrow> 'e + 'b" where
  "thenE r s = (case r of Inl e \<Rightarrow> Inl e | Inr _ \<Rightarrow> s)"

definition ok_or :: "'e \<Rightarrow> 'a option \<Rightarrow> 'e + 'a" where
  "ok_or e x = (case x of None \<Rightarrow> Inl e | Some a \<Rightarrow> Inr a)"

lemma retE_apply [simp, monadE]: "retE a s = (Inr a, s)"
  by (simp add: retE_def)

lemma throwE_apply [simp, monadE]: "throwE e s = (Inl e, s)"
  by (simp add: throwE_def)

lemma liftE_apply [simp, monadE]: "liftE r s = (r, s)"
  by (simp add: liftE_def)

lemma is_ok_simps [simp]: "is_ok (Inr a)" "\<not> is_ok (Inl e)"
  by (simp_all add: is_ok_def)

lemma is_ok_iff: "is_ok r \<longleftrightarrow> (\<exists>a. r = Inr a)"
  by (cases r) auto

lemma thenE_simps [simp]: "thenE (Inl e) s = Inl e" "thenE (Inr a) s = s"
  by (simp_all add: thenE_def)

lemma thenE_Inr [simp]: "thenE r s = Inr b \<longleftrightarrow> (\<exists>a. r = Inr a) \<and> s = Inr b"
  by (cases r) auto

lemma ok_or_simps [simp]: "ok_or e (Some a) = Inr a" "ok_or e None = Inl e"
  by (simp_all add: ok_or_def)

lemma ok_or_Inr [simp]: "ok_or e x = Inr a \<longleftrightarrow> x = Some a"
  by (cases x) auto

lemma ok_or_Inl [simp]: "ok_or e x = Inl f \<longleftrightarrow> x = None \<and> f = e"
  by (cases x) auto

lemma bindE_Inr [monadE]:
  "bindE m f s = (Inr b, s') \<longleftrightarrow> (\<exists>a s1. m s = (Inr a, s1) \<and> f a s1 = (Inr b, s'))"
  by (auto simp: bindE_def split: prod.splits sum.splits)

lemma bindE_Inl [monadE]:
  "bindE m f s = (Inl e, s') \<longleftrightarrow>
     m s = (Inl e, s') \<or> (\<exists>a s1. m s = (Inr a, s1) \<and> f a s1 = (Inl e, s'))"
  by (auto simp: bindE_def split: prod.splits sum.splits)

lemma bindE_step: "m s = (Inr a, s1) \<Longrightarrow> bindE m f s = f a s1"
  by (simp add: bindE_def)

lemma map_err_Inr [monadE]: "map_err g m s = (Inr a, s') \<longleftrightarrow> m s = (Inr a, s')"
  by (auto simp: map_err_def split: prod.splits sum.splits)

lemma map_err_Inl [monadE]:
  "map_err g m s = (Inl e, s') \<longleftrightarrow> (\<exists>e0. m s = (Inl e0, s') \<and> e = g e0)"
  by (auto simp: map_err_def split: prod.splits sum.splits)

text \<open>
  An operation keeps a predicate of the state when every run does, whatever its result.
  The rules let the frame of a composed operation be proved from the frames of its steps.
\<close>

definition keeps :: "('s \<Rightarrow> 's \<Rightarrow> bool) \<Rightarrow> ('s, 'e, 'a) op \<Rightarrow> bool" where
  "keeps R m \<longleftrightarrow> (\<forall>s. R s (snd (m s)))"

named_theorems frame "operations that keep a relation between the states"

lemma keepsD: "keeps R m \<Longrightarrow> m s = (r, s') \<Longrightarrow> R s s'"
  by (metis keeps_def snd_conv)

lemma keeps_retE [frame]: "reflp R \<Longrightarrow> keeps R (retE a)"
  by (simp add: keeps_def reflpD)

lemma keeps_throwE [frame]: "reflp R \<Longrightarrow> keeps R (throwE e)"
  by (simp add: keeps_def reflpD)

lemma keeps_liftE [frame]: "reflp R \<Longrightarrow> keeps R (liftE r)"
  by (simp add: keeps_def reflpD)

lemma keeps_Pair [frame]: "reflp R \<Longrightarrow> keeps R (Pair r)"
  by (simp add: keeps_def reflpD)

lemma keeps_bindE [frame]:
  assumes "transp R" "keeps R m" "\<And>a. keeps R (f a)"
  shows "keeps R (bindE m f)"
  unfolding keeps_def
proof
  fix s
  obtain r s1 where m: "m s = (r, s1)" by (cases "m s")
  then have s1: "R s s1" using assms(2) by (rule keepsD [rotated])
  show "R s (snd (bindE m f s))"
  proof (cases r)
    case (Inl e)
    then show ?thesis using m s1 by (simp add: bindE_def)
  next
    case (Inr a)
    have "R s1 (snd (f a s1))" using assms(3) by (simp add: keeps_def)
    then show ?thesis using m s1 Inr assms(1) by (simp add: bindE_def transpD [OF assms(1) s1])
  qed
qed

lemma keeps_map_err [frame]: "keeps R m \<Longrightarrow> keeps R (map_err g m)"
  unfolding keeps_def map_err_def by (metis (mono_tags, lifting) prod.case_eq_if snd_conv sum.case_eq_if)

lemma keeps_mapE [frame]:
  assumes "reflp R" "transp R" "\<And>x. keeps R (f x)"
  shows "keeps R (mapE f xs)"
  by (induction xs) (simp_all only: mapE.simps, (intro frame assms | assumption)+)

lemma traverse_Inr: "traverse f xs = Inr ys \<longleftrightarrow> list_all2 (\<lambda>x y. f x = Inr y) xs ys"
proof (induction xs arbitrary: ys)
  case Nil
  then show ?case by (auto simp: list_all2_conv_all_nth)
next
  case (Cons x xs)
  show ?case
  proof (cases ys)
    case (Cons y zs)
    then show ?thesis using Cons.IH [of zs] by (auto split: sum.splits)
  qed (simp split: sum.splits)
qed

lemma traverse_total: "(\<And>x. x \<in> set xs \<Longrightarrow> f x = Inr (g x)) \<Longrightarrow> traverse f xs = Inr (map g xs)"
  by (induction xs) auto

lemma traverse_append:
  "traverse f (xs @ ys) =
     (case traverse f xs of Inl e \<Rightarrow> Inl e
      | Inr us \<Rightarrow> (case traverse f ys of Inl e \<Rightarrow> Inl e | Inr vs \<Rightarrow> Inr (us @ vs)))"
  by (induction xs) (auto split: sum.splits)

subsection \<open>Lists\<close>

text \<open>\<open>slice::windows(2)\<close>: the adjacent pairs, in order.\<close>

fun windows2 :: "'a list \<Rightarrow> ('a \<times> 'a) list" where
  "windows2 (x # y # zs) = (x, y) # windows2 (y # zs)"
| "windows2 _ = []"

lemma windows2_zip: "windows2 xs = zip xs (tl xs)"
  by (induction xs rule: windows2.induct) auto

lemma length_windows2 [simp]: "length (windows2 xs) = length xs - 1"
  by (simp add: windows2_zip)

lemma nth_windows2: "Suc i < length xs \<Longrightarrow> windows2 xs ! i = (xs ! i, xs ! Suc i)"
  by (simp add: windows2_zip nth_tl)

lemma set_windows2: "set (windows2 xs) = {(xs ! i, xs ! Suc i) | i. Suc i < length xs}"
proof (intro set_eqI iffI)
  fix p
  assume "p \<in> set (windows2 xs)"
  then obtain i where "i < length (windows2 xs)" "p = windows2 xs ! i"
    by (auto simp: in_set_conv_nth)
  then have "Suc i < length xs" "p = (xs ! i, xs ! Suc i)"
    by (simp_all add: nth_windows2)
  then show "p \<in> {(xs ! i, xs ! Suc i) | i. Suc i < length xs}" by blast
next
  fix p
  assume "p \<in> {(xs ! i, xs ! Suc i) | i. Suc i < length xs}"
  then obtain i where "Suc i < length xs" "p = windows2 xs ! i"
    by (auto simp: nth_windows2)
  then show "p \<in> set (windows2 xs)" by (metis length_windows2 less_diff_conv nth_mem Suc_eq_plus1)
qed

lemma windows2_snoc:
  "windows2 (xs @ [y]) = windows2 xs @ (if xs = [] then [] else [(last xs, y)])"
  by (induction xs rule: windows2.induct) auto

text \<open>
  \<open>UPDATE \<dots> SET \<dots> WHERE\<close>: the rows that match are rewritten in place.  A lookup by a key the
  rewrite leaves alone sees the rewritten row.
\<close>

definition update_where :: "('r \<Rightarrow> bool) \<Rightarrow> ('r \<Rightarrow> 'r) \<Rightarrow> 'r list \<Rightarrow> 'r list" where
  "update_where P f rs = map (\<lambda>r. if P r then f r else r) rs"

lemma length_update_where [simp]: "length (update_where P f rs) = length rs"
  by (simp add: update_where_def)

lemma map_update_where:
  "(\<And>r. key (f r) = key r) \<Longrightarrow> map key (update_where P f rs) = map key rs"
  by (simp add: update_where_def)

lemma find_update_where:
  assumes "\<And>r. key (f r) = key r"
  shows "find (\<lambda>r. key r = k) (update_where (\<lambda>r. key r = k0 \<and> Q r) f rs) =
     map_option (\<lambda>r. if k = k0 \<and> Q r then f r else r) (find (\<lambda>r. key r = k) rs)"
  by (induction rs) (auto simp: update_where_def assms)

lemma find_update_where_key:
  assumes "\<And>r. key (f r) = key r"
  shows "find (\<lambda>r. key r = k) (update_where (\<lambda>r. key r = k0) f rs) =
     map_option (\<lambda>r. if k = k0 then f r else r) (find (\<lambda>r. key r = k) rs)"
  using find_update_where [where Q = "\<lambda>_. True" and key = key and f = f] assms by simp

lemma find_snoc:
  "find P (xs @ [x]) = (case find P xs of None \<Rightarrow> if P x then Some x else None | Some y \<Rightarrow> Some y)"
  by (induction xs) auto

subsection \<open>Machine integers\<close>

lemma u32_less: "unat (w :: u32) < 2 ^ 32"
  using unsigned_less [of w] by simp

lemma u64_less: "unat (w :: u64) < 2 ^ 64"
  using unsigned_less [of w] by simp

end
