(* ===== verification/Text.thy ===== *)
theory Text
  imports Prelude "HOL-Library.Sublist"
begin

text \<open>
  Text as the standard library sees it, and the terminal-injection filters built on it.

  \<open>chars\<close> and \<open>of_chars\<close> are UTF-8 decoding and encoding; \<open>trim\<close>, \<open>is_control\<close>,
  \<open>nat_str\<close> and the like are the standard-library functions the crates call.  The second half
  models \<open>core/src/util.rs\<close> (\<open>strip_control\<close> with its escape-sequence state machine),
  \<open>core/src/storage.rs\<close> (\<open>validate_db_path\<close>) and \<open>core/src/persistence.rs\<close>
  (\<open>is_valid_identifier\<close>).
\<close>

subsection \<open>UTF-8\<close>

fun utf8_encode_char :: "codepoint \<Rightarrow> nat list" where
  "utf8_encode_char c =
     (if c < 0x80 then [c]
      else if c < 0x800 then [0xC0 + c div 0x40, 0x80 + c mod 0x40]
      else if c < 0x10000 then
        [0xE0 + c div 0x1000, 0x80 + (c div 0x40) mod 0x40, 0x80 + c mod 0x40]
      else
        [0xF0 + c div 0x40000, 0x80 + (c div 0x1000) mod 0x40,
         0x80 + (c div 0x40) mod 0x40, 0x80 + c mod 0x40])"

fun utf8_decode :: "nat list \<Rightarrow> codepoint list" where
  "utf8_decode [] = []"
| "utf8_decode (a # bs) =
     (if a < 0x80 then a # utf8_decode bs
      else case bs of
        [] \<Rightarrow> [0xFFFD]
      | b # bs1 \<Rightarrow>
          if a < 0xE0 then ((a - 0xC0) * 0x40 + (b - 0x80)) # utf8_decode bs1
          else (case bs1 of
            [] \<Rightarrow> [0xFFFD]
          | c # bs2 \<Rightarrow>
              if a < 0xF0 then
                ((a - 0xE0) * 0x1000 + (b - 0x80) * 0x40 + (c - 0x80)) # utf8_decode bs2
              else (case bs2 of
                [] \<Rightarrow> [0xFFFD]
              | d # bs3 \<Rightarrow>
                  ((a - 0xF0) * 0x40000 + (b - 0x80) * 0x1000 + (c - 0x80) * 0x40 + (d - 0x80))
                    # utf8_decode bs3)))"

declare utf8_encode_char.simps [simp del] utf8_decode.simps(2) [simp del]

definition chars :: "string \<Rightarrow> codepoint list" where
  "chars s = utf8_decode (map of_char s)"

definition of_chars :: "codepoint list \<Rightarrow> string" where
  "of_chars cs = map char_of (concat (map utf8_encode_char cs))"

definition as_bytes :: "string \<Rightarrow> bytes" where
  "as_bytes s = map (\<lambda>c. word_of_nat (of_char c)) s"

text \<open>A Unicode code point; the surrogates play no role here.\<close>

definition scalar :: "codepoint \<Rightarrow> bool" where
  "scalar c \<longleftrightarrow> c < 0x110000"

lemma utf8_encode_char_bytes: "scalar c \<Longrightarrow> b \<in> set (utf8_encode_char c) \<Longrightarrow> b < 256"
  by (auto simp: utf8_encode_char.simps scalar_def split: if_splits)

lemma base64_digits3: "c div 4096 * 4096 + (c div 64 mod 64) * 64 + c mod 64 = (c::nat)"
proof -
  have "c div 4096 = c div 64 div 64" by (simp flip: div_mult2_eq)
  moreover have "c div 64 div 64 * 64 + c div 64 mod 64 = c div 64" "c div 64 * 64 + c mod 64 = c"
    by simp_all
  ultimately show ?thesis by linarith
qed

lemma base64_digits4:
  "c div 262144 * 262144 + (c div 4096 mod 64) * 4096 + (c div 64 mod 64) * 64 + c mod 64 = (c::nat)"
proof -
  have "c div 262144 = c div 4096 div 64" by (simp flip: div_mult2_eq)
  moreover have "c div 4096 div 64 * 64 + c div 4096 mod 64 = c div 4096" by simp
  ultimately show ?thesis using base64_digits3 [of c] by linarith
qed

lemma utf8_decode_encode_char:
  assumes "scalar c"
  shows "utf8_decode (utf8_encode_char c @ bs) = c # utf8_decode bs"
proof -
  consider "c < 0x80" | "\<not> c < 0x80" "c < 0x800" | "\<not> c < 0x800" "c < 0x10000"
    | "\<not> c < 0x10000" by linarith
  then show ?thesis
  proof cases
    case 1
    then show ?thesis by (simp add: utf8_encode_char.simps utf8_decode.simps(2))
  next
    case 2
    then have "c div 64 < 32" by simp
    with 2 show ?thesis
      by (simp add: utf8_encode_char.simps utf8_decode.simps(2) [of "_ + _"])
  next
    case 3
    then have "c div 4096 < 16" by simp
    then show ?thesis using 3 base64_digits3 [of c]
      by (simp add: utf8_encode_char.simps utf8_decode.simps(2) [of "_ + _"])
  next
    case 4
    then show ?thesis using base64_digits4 [of c]
      by (simp add: utf8_encode_char.simps utf8_decode.simps(2) [of "_ + _"])
  qed
qed

lemma utf8_decode_encode:
  "list_all scalar cs \<Longrightarrow> utf8_decode (concat (map utf8_encode_char cs)) = cs"
  by (induction cs) (simp_all add: utf8_decode_encode_char)

lemma chars_of_chars: "list_all scalar cs \<Longrightarrow> chars (of_chars cs) = cs"
proof -
  assume cs: "list_all scalar cs"
  have "map (\<lambda>n. n mod 256) (concat (map utf8_encode_char cs)) = concat (map utf8_encode_char cs)"
    using cs utf8_encode_char_bytes by (intro map_idI) (auto simp: list_all_iff)
  then show ?thesis
    using utf8_decode_encode [OF cs] by (simp add: chars_def of_chars_def comp_def)
qed

lemma chars_prefix: "scalar c \<Longrightarrow> chars (of_chars [c] @ u) = c # chars u"
proof -
  assume c: "scalar c"
  have "map (\<lambda>n. n mod 256) (utf8_encode_char c) = utf8_encode_char c"
    using c utf8_encode_char_bytes by (intro map_idI) auto
  then show ?thesis using utf8_decode_encode_char [OF c] by (simp add: chars_def of_chars_def comp_def)
qed

lemma chars_append: "list_all scalar cs \<Longrightarrow> chars (of_chars cs @ u) = cs @ chars u"
proof (induction cs)
  case Nil
  then show ?case by (simp add: of_chars_def)
next
  case (Cons c cs)
  then show ?case using chars_prefix [of c "of_chars cs @ u"] by (simp add: of_chars_def)
qed

definition ascii :: "string \<Rightarrow> bool" where
  "ascii s \<longleftrightarrow> (\<forall>c \<in> set s. (of_char c :: nat) < 0x80)"

lemma chars_ascii: "ascii s \<Longrightarrow> chars s = map of_char s"
  unfolding chars_def ascii_def
  by (induction s) (simp_all add: utf8_decode.simps(2))

lemma of_chars_ascii: "ascii s \<Longrightarrow> of_chars (map of_char s) = s"
  unfolding of_chars_def ascii_def
  by (induction s) (simp_all add: utf8_encode_char.simps)

lemma as_bytes_inject [simp]: "as_bytes s = as_bytes t \<longleftrightarrow> s = t"
proof -
  have "inj (\<lambda>c. word_of_nat (of_char c) :: 8 word)"
  proof (rule injI)
    fix c d :: char
    assume "word_of_nat (of_char c) = (word_of_nat (of_char d) :: 8 word)"
    then have "(of_char c :: nat) mod 256 = of_char d mod 256"
      by (simp add: word_of_nat_eq_iff take_bit_eq_mod)
    then show "c = d" by (metis char_of_char char_of_mod_256)
  qed
  then show ?thesis by (simp add: as_bytes_def inj_map_eq_map)
qed

lemma length_as_bytes [simp]: "length (as_bytes s) = length s"
  by (simp add: as_bytes_def)

subsection \<open>Standard-library text functions\<close>

text \<open>\<open>char::is_whitespace\<close> (White_Space) and \<open>char::is_control\<close> (general category Cc).\<close>

definition is_whitespace :: "codepoint \<Rightarrow> bool" where
  "is_whitespace c \<longleftrightarrow> 0x09 \<le> c \<and> c \<le> 0x0D \<or> c = 0x20 \<or> c = 0x85 \<or> c = 0xA0 \<or> c = 0x1680
     \<or> 0x2000 \<le> c \<and> c \<le> 0x200A \<or> c = 0x2028 \<or> c = 0x2029 \<or> c = 0x202F \<or> c = 0x205F \<or> c = 0x3000"

definition is_control :: "codepoint \<Rightarrow> bool" where
  "is_control c \<longleftrightarrow> c < 0x20 \<or> 0x7F \<le> c \<and> c \<le> 0x9F"

definition trim_chars :: "codepoint list \<Rightarrow> codepoint list" where
  "trim_chars cs = rev (dropWhile is_whitespace (rev (dropWhile is_whitespace cs)))"

definition trim :: "string \<Rightarrow> string" where
  "trim s = of_chars (trim_chars (chars s))"

text \<open>\<open>s.trim().is_empty()\<close>.\<close>

definition blank :: "string \<Rightarrow> bool" where
  "blank s \<longleftrightarrow> trim_chars (chars s) = []"

definition is_ascii_lowercase :: "codepoint \<Rightarrow> bool" where
  "is_ascii_lowercase c \<longleftrightarrow> 0x61 \<le> c \<and> c \<le> 0x7A"

definition is_ascii_digit :: "codepoint \<Rightarrow> bool" where
  "is_ascii_digit c \<longleftrightarrow> 0x30 \<le> c \<and> c \<le> 0x39"

definition starts_with :: "string \<Rightarrow> string \<Rightarrow> bool" where
  "starts_with s p \<longleftrightarrow> take (length p) s = p"

definition ends_with :: "string \<Rightarrow> string \<Rightarrow> bool" where
  "ends_with s p \<longleftrightarrow> starts_with (rev s) (rev p)"

fun contains :: "string \<Rightarrow> string \<Rightarrow> bool" where
  "contains [] p = (p = [])"
| "contains (c # s) p = (starts_with (c # s) p \<or> contains s p)"

text \<open>\<open>trim_end_matches(c)\<close> for an ASCII character \<open>c\<close>.\<close>

definition trim_end_matches :: "char \<Rightarrow> string \<Rightarrow> string" where
  "trim_end_matches c s = rev (dropWhile (\<lambda>d. d = c) (rev s))"

text \<open>\<open>Display\<close> of the integer types.\<close>

fun nat_str :: "nat \<Rightarrow> string" where
  "nat_str n = (if n < 10 then [char_of (48 + n)] else nat_str (n div 10) @ [char_of (48 + n mod 10)])"

declare nat_str.simps [simp del]

definition int_str :: "int \<Rightarrow> string" where
  "int_str i = (if i < 0 then ''-'' @ nat_str (nat (- i)) else nat_str (nat i))"

definition quoted :: "string \<Rightarrow> string" where
  "quoted s = CHR 0x27 # s @ [CHR 0x27]"

fun join :: "string \<Rightarrow> string list \<Rightarrow> string" where
  "join sep [] = []"
| "join sep [s] = s"
| "join sep (s # t # ts) = s @ sep @ join sep (t # ts)"

lemma nat_str_append_digit:
  "nat_str n = (if n < 10 then [char_of (48 + n)] else nat_str (n div 10) @ [char_of (48 + n mod 10)])"
  by (subst nat_str.simps) simp

lemma set_nat_str: "set (nat_str n) \<subseteq> char_of ` {48..57 :: nat}"
proof (induction n rule: nat_str.induct)
  case (1 n)
  show ?case
  proof (cases "n < 10")
    case True
    then show ?thesis by (subst nat_str_append_digit) auto
  next
    case False
    then show ?thesis using 1 by (subst nat_str_append_digit) auto
  qed
qed

lemma nat_str_digit: "c \<in> set (nat_str n) \<Longrightarrow> 48 \<le> (of_char c :: nat) \<and> (of_char c :: nat) \<le> 57"
  using set_nat_str [of n] by auto

lemma trim_chars_Nil_iff: "trim_chars cs = [] \<longleftrightarrow> list_all is_whitespace cs"
proof -
  have "trim_chars cs = [] \<longleftrightarrow> (\<forall>c \<in> set (dropWhile is_whitespace cs). is_whitespace c)"
    by (simp add: trim_chars_def dropWhile_eq_Nil_conv)
  also have "\<dots> \<longleftrightarrow> list_all is_whitespace cs"
    by (induction cs) (auto simp: list_all_iff)
  finally show ?thesis .
qed

lemma blank_iff: "blank s \<longleftrightarrow> list_all is_whitespace (chars s)"
  by (simp add: blank_def trim_chars_Nil_iff)

lemma starts_with_iff: "starts_with s p \<longleftrightarrow> (\<exists>t. s = p @ t)"
  unfolding starts_with_def by (metis append_eq_conv_conj append_take_drop_id)

lemma ends_with_iff: "ends_with s p \<longleftrightarrow> (\<exists>t. s = t @ p)"
  unfolding ends_with_def starts_with_iff by (metis rev_append rev_rev_ident)

lemma contains_iff: "contains s p \<longleftrightarrow> (\<exists>u v. s = u @ p @ v)"
proof (induction s)
  case Nil
  then show ?case by auto
next
  case (Cons c s)
  have "contains (c # s) p \<longleftrightarrow> (\<exists>v. c # s = p @ v) \<or> (\<exists>u v. s = u @ p @ v)"
    by (simp add: starts_with_iff Cons)
  also have "\<dots> \<longleftrightarrow> (\<exists>u v. c # s = u @ p @ v)"
  proof (intro iffI)
    assume "(\<exists>v. c # s = p @ v) \<or> (\<exists>u v. s = u @ p @ v)"
    then show "\<exists>u v. c # s = u @ p @ v"
      by (metis append_Cons append_Nil)
  next
    assume "\<exists>u v. c # s = u @ p @ v"
    then obtain u v where uv: "c # s = u @ p @ v" by blast
    then show "(\<exists>v. c # s = p @ v) \<or> (\<exists>u v. s = u @ p @ v)"
      by (cases u) auto
  qed
  finally show ?case .
qed

lemma nat_str_nonempty [simp]: "nat_str n \<noteq> []"
  by (simp add: nat_str.simps [of n])

subsection \<open>core/src/util.rs\<close>

definition is_bidi_or_format :: "codepoint \<Rightarrow> bool" where
  "is_bidi_or_format c \<longleftrightarrow> 0x200B \<le> c \<and> c \<le> 0x200F \<or> 0x202A \<le> c \<and> c \<le> 0x202E
     \<or> 0x2060 \<le> c \<and> c \<le> 0x2064 \<or> 0x2066 \<le> c \<and> c \<le> 0x2069 \<or> c = 0xFEFF"

text \<open>
  The iterator \<open>chars\<close> is the list of the characters not yet consumed.  In
  \<open>consume_string_terminated\<close> the escape that does not start an \<open>ESC \\<close> is left in place.
\<close>

fun consume_string_terminated :: "bool \<Rightarrow> codepoint list \<Rightarrow> codepoint list" where
  "consume_string_terminated allow_bel [] = []"
| "consume_string_terminated allow_bel (nc # cs) =
     (if allow_bel \<and> nc = 0x07 then cs
      else if nc = 0x1B then
        (case cs of x # r \<Rightarrow> if x = 0x5C then r else nc # cs | [] \<Rightarrow> nc # cs)
      else consume_string_terminated allow_bel cs)"

text \<open>\<open>for nc in chars.by_ref()\<close> up to and including the first final byte of a CSI.\<close>

fun skip_csi :: "codepoint list \<Rightarrow> codepoint list" where
  "skip_csi [] = []"
| "skip_csi (nc # cs) = (if 0x40 \<le> nc \<and> nc \<le> 0x7E then cs else skip_csi cs)"

lemma length_consume: "length (consume_string_terminated b cs) \<le> length cs"
proof (induction cs)
  case Nil
  then show ?case by simp
next
  case (Cons nc cs)
  then show ?case by (cases cs) (auto simp del: consume_string_terminated.simps(2)
      simp: consume_string_terminated.simps(2) [of b nc])
qed

lemma length_skip_csi: "length (skip_csi cs) \<le> length cs"
  by (induction cs) auto

text \<open>The test of the last two branches: dropped unless legitimate whitespace.\<close>

definition dropped_char :: "codepoint \<Rightarrow> bool" where
  "dropped_char c \<longleftrightarrow>
     is_control c \<and> c \<noteq> 0x0A \<and> c \<noteq> 0x0D \<and> c \<noteq> 0x09 \<or> is_bidi_or_format c"

function strip_chars :: "codepoint list \<Rightarrow> codepoint list" where
  "strip_chars [] = []"
| "strip_chars (c # cs) =
     (if c = 0x1B then
        (case cs of
           [] \<Rightarrow> []
         | x # r \<Rightarrow>
             if x = 0x5B then strip_chars (skip_csi r)
             else if x = 0x5D then strip_chars (consume_string_terminated True r)
             else if x = 0x50 \<or> x = 0x58 \<or> x = 0x5E \<or> x = 0x5F then
               strip_chars (consume_string_terminated False r)
             else strip_chars r)
      else if dropped_char c then strip_chars cs
      else c # strip_chars cs)"
  by pat_completeness auto
termination
  by (relation "measure length")
    (auto simp: less_Suc_eq_le intro: le_SucI order.trans [OF length_consume] order.trans [OF length_skip_csi])

definition strip_control :: "string \<Rightarrow> string" where
  "strip_control s = of_chars (strip_chars (chars s))"

declare strip_chars.simps(2) [simp del]

lemma dropped_esc [simp]: "dropped_char 0x1B"
  by (simp add: dropped_char_def is_control_def)

lemma suffix_consume: "suffix (consume_string_terminated b cs) cs"
proof (induction cs)
  case (Cons nc cs)
  consider "b \<and> nc = 7" | "nc = 0x1B" | "\<not> (b \<and> nc = 7)" "nc \<noteq> 0x1B" by blast
  then show ?case
  proof cases
    case 2
    have "suffix r (0x1B # x # r)" for x :: nat and r by (simp add: suffix_def)
    with 2 show ?thesis by (cases cs) simp_all
  qed (simp_all add: suffix_ConsI Cons)
qed simp

lemma suffix_skip_csi: "suffix (skip_csi cs) cs"
  by (induction cs) (auto simp: suffix_ConsI)

text \<open>What remains of the input once an escape introduced by \<open>x\<close> has been consumed.\<close>

definition after_escape :: "codepoint \<Rightarrow> codepoint list \<Rightarrow> codepoint list" where
  "after_escape x r =
     (if x = 0x5B then skip_csi r
      else if x = 0x5D then consume_string_terminated True r
      else if x \<in> {0x50, 0x58, 0x5E, 0x5F} then consume_string_terminated False r
      else r)"

lemma suffix_after_escape: "suffix (after_escape x r) r"
  by (simp add: after_escape_def suffix_consume suffix_skip_csi)

lemma strip_chars_esc [simp]:
  "strip_chars (0x1B # x # r) = strip_chars (after_escape x r)" "strip_chars [0x1B] = []"
  by (simp_all add: strip_chars.simps(2) [of "0x1B"] after_escape_def)

lemma strip_chars_other [simp]:
  "c \<noteq> 0x1B \<Longrightarrow> strip_chars (c # cs) = (if dropped_char c then strip_chars cs else c # strip_chars cs)"
  by (simp add: strip_chars.simps(2))

lemma strip_chars_induct [case_names Nil lone esc other]:
  assumes "P []" "P [0x1B]"
    and "\<And>x r. P (after_escape x r) \<Longrightarrow> P (0x1B # x # r)"
    and "\<And>c cs. c \<noteq> 0x1B \<Longrightarrow> P cs \<Longrightarrow> P (c # cs)"
  shows "P cs"
proof (induction cs rule: length_induct)
  case (1 cs)
  show ?case
  proof (cases cs)
    case (Cons c t)
    have t: "P t" using 1 Cons by simp
    show ?thesis
    proof (cases "c = 0x1B")
      case True
      show ?thesis
      proof (cases t)
        case (Cons x r)
        have "length (after_escape x r) \<le> length r"
          using suffix_after_escape by (rule suffix_length_le)
        then have "P (after_escape x r)" using 1 \<open>cs = c # t\<close> Cons by simp
        then show ?thesis using assms(3) True Cons \<open>cs = c # t\<close> by simp
      qed (use assms(2) True Cons in simp)
    qed (use assms(4) t Cons in simp)
  qed (use assms(1) in simp)
qed

lemma strip_chars_subseq: "subseq (strip_chars cs) cs"
proof (induction cs rule: strip_chars_induct)
  case (esc x r)
  have "subseq (after_escape x r) (0x1B # x # r)"
    by (rule suffix_imp_subseq) (simp add: suffix_ConsI suffix_after_escape)
  with esc show ?case by (metis strip_chars_esc(1) subseq_order.order_trans)
next
  case (other c cs)
  then show ?case by (simp add: list_emb_Cons)
qed simp_all

lemma strip_chars_clean: "c \<in> set (strip_chars cs) \<Longrightarrow> \<not> dropped_char c"
  by (induction cs rule: strip_chars_induct) (auto split: if_splits)

lemma strip_chars_id: "list_all (\<lambda>c. \<not> dropped_char c) cs \<Longrightarrow> strip_chars cs = cs"
proof (induction cs)
  case (Cons c cs)
  then have "c \<noteq> 0x1B" using dropped_esc by auto
  with Cons show ?case by (simp add: strip_chars.simps(2))
qed simp

lemma strip_chars_idem: "strip_chars (strip_chars cs) = strip_chars cs"
  by (rule strip_chars_id) (auto simp: list_all_iff dest: strip_chars_clean)

lemma consume_stops_at_esc:
  assumes "\<forall>x \<in> set body. x \<noteq> 0x1B \<and> x \<noteq> 0x07" "y \<noteq> 0x5C"
  shows "consume_string_terminated b (body @ 0x1B # y # r) = 0x1B # y # r"
  using assms by (induction body) auto

lemma skip_csi_final:
  "\<forall>x \<in> set ps. \<not> (0x40 \<le> x \<and> x \<le> 0x7E) \<Longrightarrow> 0x40 \<le> f \<Longrightarrow> f \<le> 0x7E \<Longrightarrow> skip_csi (ps @ f # r) = r"
  by (induction ps) auto

lemma strip_csi:
  assumes "\<forall>x \<in> set ps. \<not> (0x40 \<le> x \<and> x \<le> 0x7E)" "0x40 \<le> f" "f \<le> 0x7E"
  shows "strip_chars (0x1B # 0x5B # ps @ f # r) = strip_chars r"
  by (simp add: after_escape_def skip_csi_final assms)

text \<open>A Rust string value: the encoding of some sequence of code points.\<close>

definition rust_str :: "string \<Rightarrow> bool" where
  "rust_str s \<longleftrightarrow> (\<exists>cs. list_all scalar cs \<and> s = of_chars cs)"

lemma rust_str_chars: "rust_str s \<Longrightarrow> list_all scalar (chars s) \<and> of_chars (chars s) = s"
  by (auto simp: rust_str_def chars_of_chars)

lemma rust_str_ascii: "ascii s \<Longrightarrow> rust_str s"
  unfolding rust_str_def
  by (rule exI [of _ "map of_char s"]) (auto simp: of_chars_ascii list_all_iff scalar_def ascii_def dest: bspec)

lemma ascii_if_chars:
  assumes "rust_str s" "\<forall>c \<in> set (chars s). c < 0x80"
  shows "ascii s"
proof -
  from assms(1) obtain cs where cs: "list_all scalar cs" "s = of_chars cs"
    by (auto simp: rust_str_def)
  with assms(2) have "\<forall>c \<in> set cs. c < 0x80" by (simp add: chars_of_chars)
  then have "concat (map utf8_encode_char cs) = cs"
    by (induction cs) (simp_all add: utf8_encode_char.simps)
  with cs \<open>\<forall>c \<in> set cs. c < 0x80\<close> show ?thesis
    by (auto simp: of_chars_def ascii_def)
qed

lemma chars_strip_control:
  assumes "rust_str s"
  shows "chars (strip_control s) = strip_chars (chars s)" and "rust_str (strip_control s)"
proof -
  have "list_all scalar (chars s)" using assms by (simp add: rust_str_chars)
  moreover have "set (strip_chars (chars s)) \<subseteq> set (chars s)"
    using strip_chars_subseq by (metis subseq_singleton_left subseq_order.order_trans subsetI)
  ultimately have "list_all scalar (strip_chars (chars s))" by (auto simp: list_all_iff)
  then show "chars (strip_control s) = strip_chars (chars s)" "rust_str (strip_control s)"
    by (auto simp: strip_control_def chars_of_chars rust_str_def)
qed

subsection \<open>core/src/storage.rs\<close>

datatype path_component = RootDir | CurDir | ParentDir | Normal string

fun split_on :: "char \<Rightarrow> string \<Rightarrow> string list" where
  "split_on d [] = [[]]"
| "split_on d (c # s) =
     (if c = d then [] # split_on d s
      else (case split_on d s of [] \<Rightarrow> [[c]] | w # ws \<Rightarrow> (c # w) # ws))"

text \<open>
  \<open>Path::components\<close> on Unix: empty pieces vanish, and a \<open>.\<close> piece counts only at the start of a
  relative path.
\<close>

definition piece_component :: "bool \<Rightarrow> string \<Rightarrow> path_component list" where
  "piece_component leading w =
     (if w = [] then [] else if w = ''.'' then (if leading then [CurDir] else [])
      else if w = ''..'' then [ParentDir] else [Normal w])"

definition path_components :: "string \<Rightarrow> path_component list" where
  "path_components p =
     (if starts_with p ''/'' then [RootDir] else []) @
     (case split_on CHR ''/'' p of
        [] \<Rightarrow> []
      | w # ws \<Rightarrow> piece_component True w @ concat (map (piece_component False) ws))"

definition validate_db_path :: "string \<Rightarrow> string + unit" where
  "validate_db_path path =
     (if ParentDir \<in> set (path_components path)
      then Inl (''path traversal not allowed: '' @ path) else Inr ())"

lemma split_on_nonempty [simp]: "split_on d s \<noteq> []"
  by (induction s) (auto split: list.splits)

lemma piece_component_parent: "ParentDir \<in> set (piece_component b w) \<longleftrightarrow> w = ''..''"
  by (simp add: piece_component_def)

lemma parent_iff_piece: "ParentDir \<in> set (path_components p) \<longleftrightarrow> ''..'' \<in> set (split_on CHR ''/'' p)"
  by (cases "split_on CHR ''/'' p")
    (auto simp: path_components_def piece_component_parent simp del: split_on_nonempty)

lemma split_on_prefix: "d \<notin> set w \<Longrightarrow> split_on d (w @ d # s) = w # split_on d s"
  by (induction w) auto

lemma split_on_whole: "d \<notin> set w \<Longrightarrow> split_on d w = [w]"
  by (induction w) auto

lemma split_first_unique:
  "d \<notin> set h \<Longrightarrow> d \<notin> set u \<Longrightarrow> h @ d # t = u @ d # v \<longleftrightarrow> h = u \<and> t = v"
proof (induction h arbitrary: u)
  case (Cons a h)
  then show ?case by (cases u) auto
qed (auto simp: append_eq_Cons_conv Cons_eq_append_conv)

lemma in_split_on_iff:
  "w \<in> set (split_on d s) \<longleftrightarrow>
     d \<notin> set w \<and> (\<exists>u v. s = u @ w @ v \<and> (u = [] \<or> last u = d) \<and> (v = [] \<or> hd v = d))"
proof (induction s rule: length_induct)
  case (1 s)
  show ?case
  proof (cases "d \<in> set s")
    case False
    then have sp: "split_on d s = [s]" by (rule split_on_whole)
    show ?thesis
    proof (intro iffI)
      assume "w \<in> set (split_on d s)"
      with sp False show "d \<notin> set w \<and> (\<exists>u v. s = u @ w @ v \<and> (u = [] \<or> last u = d) \<and> (v = [] \<or> hd v = d))"
        by (auto intro!: exI [of _ "[]"])
    next
      assume "d \<notin> set w \<and> (\<exists>u v. s = u @ w @ v \<and> (u = [] \<or> last u = d) \<and> (v = [] \<or> hd v = d))"
      then obtain u v where "s = u @ w @ v" "u = [] \<or> last u = d" "v = [] \<or> hd v = d" by blast
      with False have "u = []" "v = []" by (cases u rule: rev_cases; cases v; auto)+
      with sp \<open>s = u @ w @ v\<close> show "w \<in> set (split_on d s)" by simp
    qed
  next
    case True
    then obtain h t where s: "s = h @ d # t" and h: "d \<notin> set h" by (meson split_list_first)
    have IH: "w \<in> set (split_on d t) \<longleftrightarrow>
      d \<notin> set w \<and> (\<exists>u v. t = u @ w @ v \<and> (u = [] \<or> last u = d) \<and> (v = [] \<or> hd v = d))"
      using 1 s by auto
    have sp: "set (split_on d s) = insert h (set (split_on d t))"
      by (simp add: s split_on_prefix h)
    show ?thesis
    proof (intro iffI)
      assume "w \<in> set (split_on d s)"
      then consider "w = h" | "w \<in> set (split_on d t)" using sp by auto
      then show "d \<notin> set w \<and> (\<exists>u v. s = u @ w @ v \<and> (u = [] \<or> last u = d) \<and> (v = [] \<or> hd v = d))"
      proof cases
        case 1
        have "s = [] @ h @ d # t" using s by simp
        with 1 h show ?thesis by (metis list.sel(1))
      next
        case 2
        with IH obtain u v where "d \<notin> set w" "t = u @ w @ v" "u = [] \<or> last u = d" "v = [] \<or> hd v = d"
          by blast
        then show ?thesis using s by (intro conjI exI [of _ "h @ d # u"] exI [of _ v]) auto
      qed
    next
      assume "d \<notin> set w \<and> (\<exists>u v. s = u @ w @ v \<and> (u = [] \<or> last u = d) \<and> (v = [] \<or> hd v = d))"
      then obtain u v where w: "d \<notin> set w" "s = u @ w @ v" "u = [] \<or> last u = d" "v = [] \<or> hd v = d"
        by blast
      show "w \<in> set (split_on d s)"
      proof (cases "u = []")
        case True
        then have "h @ d # t = w @ v" using w s by simp
        moreover obtain v' where "v = d # v'"
          using calculation w(1,4) by (cases v) auto
        ultimately have "h = w" using split_first_unique [OF h w(1)] by metis
        then show ?thesis using sp by simp
      next
        case False
        then have "d \<in> set u" using w(3) by (metis last_in_set)
        then obtain u1 u2 where u: "u = u1 @ d # u2" "d \<notin> set u1" by (meson split_list_first)
        then have "h @ d # t = u1 @ d # (u2 @ w @ v)" using w(2) s by simp
        then have "t = u2 @ w @ v" using split_first_unique [OF h u(2)] by metis
        moreover have "u2 = [] \<or> last u2 = d" using w(3) u by (auto split: if_splits)
        ultimately show ?thesis using IH sp w(1,4) by auto
      qed
    qed
  qed
qed

subsection \<open>core/src/persistence.rs\<close>

definition identifier_char :: "codepoint \<Rightarrow> bool" where
  "identifier_char c \<longleftrightarrow> is_ascii_lowercase c \<or> is_ascii_digit c \<or> c = of_char CHR ''_''"

definition is_valid_identifier :: "string \<Rightarrow> bool" where
  "is_valid_identifier name =
     (if length name = 0 \<or> length name > 64 then False
      else (case chars name of
              [] \<Rightarrow> False
            | first # rest \<Rightarrow> is_ascii_lowercase first \<and> list_all identifier_char rest))"

text \<open>The default method of \<^verbatim>\<open>PersistenceProvider\<close>: a get followed by a put.\<close>

datatype store_error =
    CollectionNotFound string
  | StoreNotFound string
  | InvalidIdentifier string
  | FieldNotIndexed string
  | StoreStorage string

definition put_if_absent ::
  "(string \<Rightarrow> string \<Rightarrow> ('s, store_error, 'd) op) \<Rightarrow>
   (string \<Rightarrow> string \<Rightarrow> 'd \<Rightarrow> ('s, store_error, unit) op) \<Rightarrow>
   string \<Rightarrow> string \<Rightarrow> 'd \<Rightarrow> ('s, store_error, bool) op" where
  "put_if_absent get put collection rid doc =
     (\<lambda>s. case get collection rid s of
        (Inr _, s') \<Rightarrow> (Inr False, s')
      | (Inl (StoreNotFound _), s') \<Rightarrow> bindE (put collection rid doc) (\<lambda>_. retE True) s'
      | (Inl e, s') \<Rightarrow> (Inl e, s'))"

lemma of_char_underscore: "of_char d = (95::nat) \<longleftrightarrow> d = CHR ''_''"
  using of_char_eq_iff [of d "CHR ''_''", where 'a = nat] by simp

lemma lowercase_byte: "is_ascii_lowercase (of_char d) \<longleftrightarrow> CHR ''a'' \<le> d \<and> d \<le> CHR ''z''"
  by (simp add: is_ascii_lowercase_def less_eq_char_def)

lemma identifier_byte:
  "identifier_char (of_char d) \<longleftrightarrow>
     CHR ''a'' \<le> d \<and> d \<le> CHR ''z'' \<or> CHR ''0'' \<le> d \<and> d \<le> CHR ''9'' \<or> d = CHR ''_''"
  by (auto simp: identifier_char_def lowercase_byte is_ascii_digit_def less_eq_char_def of_char_underscore)

lemma identifier_char_ascii: "identifier_char c \<Longrightarrow> c < 0x80"
  by (auto simp: identifier_char_def is_ascii_lowercase_def is_ascii_digit_def)

lemma is_valid_identifier_ascii:
  assumes "rust_str name" "is_valid_identifier name"
  shows "ascii name"
proof (rule ascii_if_chars [OF assms(1)], intro ballI)
  fix c assume "c \<in> set (chars name)"
  then show "c < 0x80" using assms(2)
    by (auto simp: is_valid_identifier_def list_all_iff is_ascii_lowercase_def
        split: if_splits list.splits dest!: identifier_char_ascii)
qed

subsection \<open>Properties\<close>

text \<open>Property.  \<open>strip_control\<close> removes every control character except newline, carriage return
  and tab, and every bidi or format character; what it keeps are characters of the input in their
  order; text without such characters is unchanged, and stripping twice is stripping once.\<close>

theorem strip_control_safe:
  assumes "rust_str s"
  shows "(\<forall>c \<in> set (chars (strip_control s)). \<not> dropped_char c) \<and>
    subseq (chars (strip_control s)) (chars s) \<and>
    ((\<forall>c \<in> set (chars s). \<not> dropped_char c) \<longrightarrow> strip_control s = s) \<and>
    strip_control (strip_control s) = strip_control s"
proof (intro conjI ballI impI)
  note st = chars_strip_control [OF assms]
  show "\<not> dropped_char c" if "c \<in> set (chars (strip_control s))" for c
    using that by (auto simp: st(1) dest: strip_chars_clean)
  show "subseq (chars (strip_control s)) (chars s)"
    by (simp add: st(1) strip_chars_subseq)
  show "strip_control s = s" if "\<forall>c \<in> set (chars s). \<not> dropped_char c"
    using that rust_str_chars [OF assms]
    by (simp add: strip_control_def strip_chars_id list_all_iff)
  show "strip_control (strip_control s) = strip_control s"
    by (metis st(1) strip_chars_idem strip_control_def)
qed

lemma strip_control_safe_witness:
  "rust_str (CHR 0x1B # ''[31mred'') \<and> chars (strip_control (CHR 0x1B # ''[31mred'')) = map of_char ''red''
   \<and> list_all (\<lambda>c. \<not> dropped_char c) (chars (strip_control (CHR 0x1B # ''[31mred'')))"
proof -
  have h: "rust_str (CHR 0x1B # ''[31mred'')"
    by (rule rust_str_ascii) (simp add: ascii_def)
  have "chars (CHR 0x1B # ''[31mred'') = [0x1B, 0x5B, 0x33, 0x31, 0x6D, 0x72, 0x65, 0x64]"
    by (simp add: chars_ascii ascii_def)
  then have "chars (strip_control (CHR 0x1B # ''[31mred'')) = [0x72, 0x65, 0x64]"
    by (simp add: chars_strip_control(1) [OF h] after_escape_def dropped_char_def is_control_def
        is_bidi_or_format_def)
  then show ?thesis using h strip_control_safe [OF h] by (simp add: list_all_iff)
qed

text \<open>Property.  An operating-system command whose terminator is missing does not swallow or leak the
  escape sequence that follows it: the unterminated body and the following CSI, up to its final
  byte, are both dropped and stripping resumes right after.\<close>

theorem unterminated_osc_no_leak:
  assumes "\<forall>x \<in> set body. x \<noteq> 0x1B \<and> x \<noteq> 0x07"
    and "\<forall>x \<in> set ps. \<not> (0x40 \<le> x \<and> x \<le> 0x7E)" and "0x40 \<le> f" "f \<le> 0x7E"
  shows "strip_chars (0x1B # 0x5D # body @ 0x1B # 0x5B # ps @ f # r) = strip_chars r"
  using assms by (simp add: after_escape_def consume_stops_at_esc skip_csi_final)

lemma unterminated_osc_no_leak_witness:
  "strip_chars ([0x1B, 0x5D, 0x30, 0x3B, 0x74, 0x1B, 0x5B, 0x33, 0x31, 0x6D] @ map of_char ''red'')
   = strip_chars (map of_char ''red'')"
  using unterminated_osc_no_leak [of "[0x30, 0x3B, 0x74]" "[0x33, 0x31]" "0x6D" "map of_char ''red''"]
  by simp

text \<open>Property.  A database path is accepted exactly when no slash-delimited piece of it is \<open>..\<close>;
  a file name that merely contains two dots is accepted.\<close>

theorem validate_db_path_spec:
  "validate_db_path p = Inr () \<longleftrightarrow>
     \<not> (\<exists>u v. p = u @ ''..'' @ v \<and> (u = [] \<or> last u = CHR ''/'') \<and> (v = [] \<or> hd v = CHR ''/''))"
  by (simp add: validate_db_path_def parent_iff_piece in_split_on_iff)

text \<open>Property.  A name accepted as a storage identifier is a bare token of lower-case ASCII letters,
  digits and underscores, starts with a letter and has 1 to 64 bytes; such a token is accepted.\<close>

theorem is_valid_identifier_spec:
  assumes "rust_str name"
  shows "is_valid_identifier name \<longleftrightarrow>
    (\<exists>c r. name = c # r \<and> length r \<le> 63 \<and> CHR ''a'' \<le> c \<and> c \<le> CHR ''z'' \<and>
       (\<forall>d \<in> set r. CHR ''a'' \<le> d \<and> d \<le> CHR ''z'' \<or> CHR ''0'' \<le> d \<and> d \<le> CHR ''9'' \<or> d = CHR ''_''))"
    (is "_ \<longleftrightarrow> ?spec")
proof
  assume v: "is_valid_identifier name"
  then have "chars name = map of_char name"
    using is_valid_identifier_ascii [OF assms] by (simp add: chars_ascii)
  then show ?spec using v
    by (cases name) (auto simp: is_valid_identifier_def list_all_iff identifier_byte lowercase_byte
        split: if_splits)
next
  assume spec: ?spec
  then have "\<forall>d \<in> set name. identifier_char (of_char d)"
    by (auto simp: identifier_byte)
  then have "chars name = map of_char name"
    by (intro chars_ascii) (simp add: ascii_def identifier_char_ascii)
  then show "is_valid_identifier name" using spec
    by (auto simp: is_valid_identifier_def list_all_iff identifier_byte lowercase_byte)
qed

lemma is_valid_identifier_spec_witness:
  "rust_str ''users_1'' \<and> is_valid_identifier ''users_1'' \<and> \<not> is_valid_identifier ''a-b''"
proof -
  have h: "rust_str ''users_1''" "rust_str ''a-b''"
    by (rule rust_str_ascii, simp add: ascii_def)+
  show ?thesis using is_valid_identifier_spec [OF h(1)] is_valid_identifier_spec [OF h(2)] h
    by (simp add: less_eq_char_def)
qed

end
