(* ===== verification/Plugin.thy ===== *)
theory Plugin
  imports Text
begin

text \<open>
  \<open>core/src/types.rs\<close> (semantic versions), \<open>core/src/plugin.rs\<close> (manifests, capabilities, the
  registry, the contract versions the core provides) and the role check of \<open>core/src/users.rs\<close>.
\<close>

subsection \<open>Semantic versions\<close>

record semver =
  major :: u32
  minor :: u32
  patch :: u32

definition semver_new :: "u32 \<Rightarrow> u32 \<Rightarrow> u32 \<Rightarrow> semver" where
  "semver_new ma mi pa = \<lparr>major = ma, minor = mi, patch = pa\<rparr>"

definition is_compatible_with :: "semver \<Rightarrow> semver \<Rightarrow> bool" where
  "is_compatible_with v required \<longleftrightarrow> major v = major required \<and> minor v \<ge> minor required"

definition semver_display :: "semver \<Rightarrow> string" where
  "semver_display v = nat_str (unat (major v)) @ ''.'' @ nat_str (unat (minor v)) @ ''.'' @ nat_str (unat (patch v))"

lemma is_compatible_with_refl: "is_compatible_with v v"
  by (simp add: is_compatible_with_def)

lemma is_compatible_with_trans:
  "is_compatible_with u v \<Longrightarrow> is_compatible_with v w \<Longrightarrow> is_compatible_with u w"
  by (auto simp: is_compatible_with_def)

subsection \<open>Manifests\<close>

datatype plugin_class = Safe | Unsafe

datatype capability =
    FileRead string
  | FileWrite string
  | Network string
  | Shell
  | Git

record plugin_manifest =
  m_name :: string
  m_version :: semver
  m_class :: plugin_class
  m_capabilities :: "capability list"
  m_implements :: "(string \<times> semver) list"

definition name_char :: "codepoint \<Rightarrow> bool" where
  "name_char c \<longleftrightarrow> is_ascii_lowercase c \<or> is_ascii_digit c \<or> c = of_char CHR ''-'' \<or> c = of_char CHR ''_''"

definition validate_name :: "string \<Rightarrow> string + unit" where
  "validate_name name =
     (if name = [] then Inl ''plugin name must not be empty''
      else if length name > 64 then
        Inl (''plugin name exceeds 64 characters: '' @ nat_str (length name))
      else if \<not> list_all name_char (chars name) then
        Inl (''plugin name '' @ quoted name @ '' contains characters outside [a-z0-9_-]'')
      else Inr ())"

lemma validate_name_ok_iff:
  "validate_name name = Inr () \<longleftrightarrow> name \<noteq> [] \<and> length name \<le> 64 \<and> list_all name_char (chars name)"
  by (auto simp: validate_name_def)

datatype load_error =
    ManifestInvalid string
  | IncompatibleContractVersion string semver semver
  | SecurityRejected string
  | SafePluginRequestedCapability

subsection \<open>Registry\<close>

text \<open>The factories are opaque values of type \<open>'f\<close>.\<close>

type_synonym 'f registry = "(plugin_manifest \<times> 'f) list"

definition registry_new :: "'f registry" where
  "registry_new = []"

definition register :: "plugin_manifest \<Rightarrow> 'f \<Rightarrow> 'f registry \<Rightarrow> 'f registry" where
  "register manifest factory entries = entries @ [(manifest, factory)]"

definition manifests :: "'f registry \<Rightarrow> plugin_manifest list" where
  "manifests entries = map fst entries"

definition take_factories :: "'f registry \<Rightarrow> (plugin_manifest \<times> 'f) list \<times> 'f registry" where
  "take_factories entries = (entries, [])"

lemma manifests_register [simp]: "manifests (register m f r) = manifests r @ [m]"
  by (simp add: manifests_def register_def)

lemma manifests_new [simp]: "manifests registry_new = []"
  by (simp add: manifests_def registry_new_def)

subsection \<open>Contract versions\<close>

type_synonym contract_versions = "string \<rightharpoonup> semver"

definition contracts_v0_1 :: contract_versions where
  "contracts_v0_1 = map_of
     [(''wyrtloom.kanban'', semver_new 0 1 0),
      (''wyrtloom.provider'', semver_new 0 1 0),
      (''wyrtloom.sandbox'', semver_new 0 1 0),
      (''wyrtloom.logger'', semver_new 0 1 0),
      (''wyrtloom.escalation'', semver_new 0 1 0),
      (''wyrtloom.bus'', semver_new 0 1 0),
      (''wyrtloom.persistence'', semver_new 0 1 0),
      (''wyrtloom.users'', semver_new 0 1 0),
      (''wyrtloom.client_auth'', semver_new 0 1 0)]"

definition is_compatible :: "contract_versions \<Rightarrow> string \<Rightarrow> semver \<Rightarrow> bool" where
  "is_compatible cv contract plugin_version =
     (case cv contract of Some core_ver \<Rightarrow> is_compatible_with plugin_version core_ver | None \<Rightarrow> False)"

lemma is_compatible_v0_1:
  "is_compatible contracts_v0_1 c v \<Longrightarrow> major v = 0 \<and> 1 \<le> minor v"
  by (auto simp: is_compatible_def contracts_v0_1_def is_compatible_with_def semver_new_def
      split: if_splits)

subsection \<open>core/src/users.rs\<close>

datatype user_role = Viewer | Operator | Admin

record user =
  u_id :: string
  u_roles :: "user_role list"
  u_active :: bool
  u_created_at :: timestamp

definition has_role :: "user \<Rightarrow> user_role \<Rightarrow> bool" where
  "has_role u r \<longleftrightarrow> r \<in> set (u_roles u)"

end
