(* ===== verification/Canon.thy ===== *)
theory Canon
  imports Text
begin

unbundle bit_operations_syntax

text \<open>
  \<open>core/src/canon.rs\<close>: the length-prefixed encoding that every signer and verifier shares, and
  \<open>canonical_request\<close> of \<open>core/src/client_auth.rs\<close>.  An encoder is the byte buffer it holds; the
  builder methods return the extended buffer.  The main lemma is that the concatenation of
  length-prefixed fields determines the list of fields, so no boundary can shift.
\<close>

text \<open>\<open>u64::to_be_bytes\<close> (and \<open>i64::to_be_bytes\<close>, on the two's complement bits).\<close>

definition to_be_bytes :: "u64 \<Rightarrow> bytes" where
  "to_be_bytes w = map (\<lambda>k. ucast (drop_bit (8 * k) w)) [7, 6, 5, 4, 3, 2, 1, 0]"

type_synonym encoder = bytes

definition enc_write :: "bytes \<Rightarrow> encoder \<Rightarrow> encoder" where
  "enc_write f buf = buf @ to_be_bytes (word_of_nat (length f)) @ f"

definition enc_new :: "string \<Rightarrow> encoder" where
  "enc_new domain = enc_write (as_bytes domain) []"

definition enc_field :: "bytes \<Rightarrow> encoder \<Rightarrow> encoder" where
  "enc_field bs e = enc_write bs e"

definition enc_str_field :: "string \<Rightarrow> encoder \<Rightarrow> encoder" where
  "enc_str_field s e = enc_field (as_bytes s) e"

definition enc_tagged :: "string \<Rightarrow> bytes \<Rightarrow> encoder \<Rightarrow> encoder" where
  "enc_tagged tag bs e = enc_write bs (enc_write (as_bytes tag) e)"

definition enc_finish :: "encoder \<Rightarrow> bytes" where
  "enc_finish e = e"

definition CLIENT_AUTH_DOMAIN :: string where
  "CLIENT_AUTH_DOMAIN = ''wyrtloom-client-auth-v1''"

definition canonical_request ::
  "string \<Rightarrow> string \<Rightarrow> bytes \<Rightarrow> string \<Rightarrow> u64 \<Rightarrow> string \<Rightarrow> bytes" where
  "canonical_request meth path body_sha256 client_id ts nonce =
     enc_finish (enc_str_field nonce (enc_field (to_be_bytes ts) (enc_str_field client_id
       (enc_field body_sha256 (enc_str_field path (enc_str_field meth
         (enc_new CLIENT_AUTH_DOMAIN)))))))"

subsection \<open>The encoding determines its fields\<close>

definition prefixed :: "bytes \<Rightarrow> bytes" where
  "prefixed f = to_be_bytes (word_of_nat (length f)) @ f"

definition encode_fields :: "bytes list \<Rightarrow> bytes" where
  "encode_fields fs = concat (map prefixed fs)"

text \<open>Every buffer fits the address space, so its length fits 64 bits.\<close>

definition fits :: "bytes \<Rightarrow> bool" where
  "fits f \<longleftrightarrow> length f < 2 ^ 64"

lemma length_to_be_bytes [simp]: "length (to_be_bytes w) = 8"
  by (simp add: to_be_bytes_def)

lemma to_be_bytes_nth:
  "k < 8 \<Longrightarrow> to_be_bytes w ! (7 - k) = ucast (drop_bit (8 * k) w)"
proof -
  assume "k < 8"
  then have "k \<in> set [0..<8]" by simp
  then show ?thesis by (auto simp: to_be_bytes_def upt_rec)
qed

lemma to_be_bytes_inject [simp]: "to_be_bytes v = to_be_bytes w \<longleftrightarrow> v = w"
proof
  assume eq: "to_be_bytes v = to_be_bytes w"
  show "v = w"
  proof (rule bit_word_eqI)
    fix n assume "n < LENGTH(64)"
    then have n: "n div 8 < 8" "n mod 8 < 8" "8 * (n div 8) + n mod 8 = n" by simp_all
    have "(ucast (drop_bit (8 * (n div 8)) v) :: 8 word) = ucast (drop_bit (8 * (n div 8)) w)"
      using eq to_be_bytes_nth [OF n(1)] by metis
    then have "bit (ucast (drop_bit (8 * (n div 8)) v) :: 8 word) (n mod 8) =
        bit (ucast (drop_bit (8 * (n div 8)) w) :: 8 word) (n mod 8)"
      by simp
    then show "bit v n \<longleftrightarrow> bit w n"
      using n by (simp add: bit_ucast_iff bit_drop_bit_eq)
  qed
qed simp

lemma prefixed_unique:
  assumes "fits f" "fits g" "prefixed f @ r = prefixed g @ s"
  shows "f = g \<and> r = s"
proof -
  have "to_be_bytes (word_of_nat (length f)) = to_be_bytes (word_of_nat (length g))"
    and rest: "f @ r = g @ s"
    using assms(3) by (simp_all add: prefixed_def)
  then have "(word_of_nat (length f) :: u64) = word_of_nat (length g)" by simp
  then have "unat (word_of_nat (length f) :: u64) = unat (word_of_nat (length g) :: u64)" by simp
  then have "length f = length g"
    using assms(1,2) by (simp add: fits_def unat_of_nat)
  then show ?thesis using rest by simp
qed

lemma encode_fields_inject:
  assumes "list_all fits fs" "list_all fits gs" "encode_fields fs = encode_fields gs"
  shows "fs = gs"
  using assms
proof (induction fs arbitrary: gs)
  case Nil
  then show ?case by (cases gs) (auto simp: encode_fields_def prefixed_def dest: arg_cong [of _ _ length])
next
  case (Cons f fs)
  show ?case
  proof (cases gs)
    case Nil
    then have "prefixed f @ encode_fields fs = []" using Cons.prems(3) by (simp add: encode_fields_def)
    then show ?thesis by (auto simp: prefixed_def dest: arg_cong [of _ _ length])
  next
    case (Cons g gs')
    have eq: "prefixed f @ encode_fields fs = prefixed g @ encode_fields gs'"
      using Cons.prems(3) Cons by (simp add: encode_fields_def)
    have "f = g \<and> encode_fields fs = encode_fields gs'"
      using prefixed_unique [OF _ _ eq] Cons.prems(1,2) Cons by simp
    then show ?thesis using Cons.IH [of gs'] Cons.prems(1,2) Cons by simp
  qed
qed

lemma enc_write_prefixed: "enc_write f buf = buf @ prefixed f"
  by (simp add: enc_write_def prefixed_def)

lemmas encoder_defs = enc_new_def enc_field_def enc_str_field_def enc_tagged_def enc_finish_def
  enc_write_prefixed

lemma canonical_request_fields:
  "canonical_request meth path body client ts nonce =
     encode_fields [as_bytes CLIENT_AUTH_DOMAIN, as_bytes meth, as_bytes path, body, as_bytes client,
       to_be_bytes ts, as_bytes nonce]"
  by (simp add: canonical_request_def encode_fields_def encoder_defs)

lemma fits_to_be_bytes [simp]: "fits (to_be_bytes w)"
  by (simp add: fits_def)

lemma fits_as_bytes: "fits (as_bytes s) \<longleftrightarrow> length s < 2 ^ 64"
  by (simp add: fits_def)

subsection \<open>Properties\<close>

text \<open>Property.  Two encodings are equal only if they were built from the same fields under the same
  domain tag, whatever the number and the contents of the fields: no field boundary can shift and
  encodings of different domains never coincide.\<close>

theorem encoder_unambiguous:
  assumes "length d < 2 ^ 64" "length d' < 2 ^ 64" "list_all fits fs" "list_all fits gs"
    and "enc_finish (fold enc_field fs (enc_new d)) = enc_finish (fold enc_field gs (enc_new d'))"
  shows "d = d' \<and> fs = gs"
proof -
  have fields: "fold enc_field hs b = b @ encode_fields hs" for hs b
    by (induction hs arbitrary: b) (simp_all add: encoder_defs encode_fields_def)
  have "encode_fields (as_bytes d # fs) = encode_fields (as_bytes d' # gs)"
    using assms(5) by (simp add: fields encoder_defs) (simp add: encode_fields_def)
  then have "as_bytes d # fs = as_bytes d' # gs"
    using assms(1-4) by (intro encode_fields_inject) (auto simp: fits_as_bytes)
  then show ?thesis by simp
qed

lemma encoder_unambiguous_witness:
  "enc_finish (fold enc_field [as_bytes ''a'', as_bytes ''bX''] (enc_new ''d'')) \<noteq>
   enc_finish (fold enc_field [as_bytes ''ab'', as_bytes ''X''] (enc_new ''d''))"
  using encoder_unambiguous [of "''d''" "''d''" "[as_bytes ''a'', as_bytes ''bX'']"
    "[as_bytes ''ab'', as_bytes ''X'']"]
  by (auto simp: fits_as_bytes)

text \<open>Property.  The bytes a client signs determine the method, the path, the body hash, the client,
  the timestamp and the nonce: a signature over them verifies for no other request.\<close>

theorem canonical_request_binds:
  assumes "\<forall>s \<in> {m, p, c, n, m', p', c', n'}. length s < 2 ^ 64" "fits b" "fits b'"
    and "canonical_request m p b c t n = canonical_request m' p' b' c' t' n'"
  shows "m = m' \<and> p = p' \<and> b = b' \<and> c = c' \<and> t = t' \<and> n = n'"
proof -
  have "encode_fields [as_bytes CLIENT_AUTH_DOMAIN, as_bytes m, as_bytes p, b, as_bytes c,
      to_be_bytes t, as_bytes n] = encode_fields [as_bytes CLIENT_AUTH_DOMAIN, as_bytes m',
      as_bytes p', b', as_bytes c', to_be_bytes t', as_bytes n']"
    using assms(4) by (simp add: canonical_request_fields)
  then have "[as_bytes CLIENT_AUTH_DOMAIN, as_bytes m, as_bytes p, b, as_bytes c,
      to_be_bytes t, as_bytes n] = [as_bytes CLIENT_AUTH_DOMAIN, as_bytes m',
      as_bytes p', b', as_bytes c', to_be_bytes t', as_bytes n']"
    using assms(1-3) by (intro encode_fields_inject) (simp_all add: fits_as_bytes CLIENT_AUTH_DOMAIN_def)
  then show ?thesis by simp
qed

lemma canonical_request_binds_witness:
  "canonical_request ''GET'' ''/x'' [1, 2] ''c'' 7 ''n1'' \<noteq> canonical_request ''GET'' ''/x'' [1, 2] ''c'' 7 ''n2''"
  using canonical_request_binds [of "''GET''" "''/x''" "''c''" "''n1''" "''GET''" "''/x''" "''c''" "''n2''"
    "[1, 2]" "[1, 2]" 7 7]
  by (auto simp: fits_def)

end
