(* ===== verification/Demo_Codec.thy ===== *)
theory Demo_Codec
  imports Text
begin

text \<open>
  A concrete text encoding of lists of numbers.  The JSON, UUID and timestamp codecs the crates use
  are third-party code and parameters of the model; the witnesses instantiate those parameters
  with encodings built on this one, which satisfies the round-trip laws the code relies on.
\<close>

definition encode_nats :: "nat list \<Rightarrow> string" where
  "encode_nats ns = concat (map (\<lambda>n. replicate n CHR ''1'' @ '','') ns)"

fun decode_nats :: "nat \<Rightarrow> string \<Rightarrow> nat list" where
  "decode_nats acc [] = []"
| "decode_nats acc (c # s) =
     (if c = CHR '','' then acc # decode_nats 0 s else decode_nats (Suc acc) s)"

lemma decode_nats_replicate:
  "decode_nats acc (replicate n CHR ''1'' @ CHR '','' # s) = (acc + n) # decode_nats 0 s"
  by (induction n arbitrary: acc) auto

lemma decode_encode_nats [simp]: "decode_nats 0 (encode_nats ns) = ns"
  by (induction ns) (simp_all add: encode_nats_def decode_nats_replicate)

lemma set_encode_nats: "set (encode_nats ns) \<subseteq> {CHR ''1'', CHR '',''}"
  by (induction ns) (auto simp: encode_nats_def)

lemma last_encode_nats: "ns \<noteq> [] \<Longrightarrow> encode_nats ns \<noteq> [] \<and> last (encode_nats ns) = CHR '',''"
  by (induction ns) (auto simp: encode_nats_def)

lemma ascii_encode_nats: "ascii (encode_nats ns)"
  using set_encode_nats [of ns] by (auto simp: ascii_def)

lemma not_blank_encode_nats: "ns \<noteq> [] \<Longrightarrow> \<not> blank (encode_nats ns)"
proof -
  assume "ns \<noteq> []"
  then have "CHR '','' \<in> set (encode_nats ns)"
    using last_encode_nats by (metis last_in_set)
  then have "(of_char CHR '','' :: nat) \<in> set (chars (encode_nats ns))"
    by (simp only: chars_ascii [OF ascii_encode_nats] set_map) (rule imageI)
  moreover have "\<not> is_whitespace (of_char CHR '','')" by (simp add: is_whitespace_def)
  ultimately show ?thesis by (auto simp: blank_iff list_all_iff)
qed

definition int_nats :: "int \<Rightarrow> nat list" where
  "int_nats i = [if i < 0 then 1 else 0, nat \<bar>i\<bar>]"

fun nats_int :: "nat list \<Rightarrow> int" where
  "nats_int [sg, a] = (if sg = 0 then int a else - int a)"
| "nats_int _ = 0"

lemma nats_int_nats [simp]: "nats_int (int_nats i) = i"
  by (simp add: int_nats_def)

definition str_nats :: "string \<Rightarrow> nat list" where
  "str_nats s = map of_char s"

definition nats_str :: "nat list \<Rightarrow> string" where
  "nats_str ns = map char_of ns"

lemma nats_str_nats [simp]: "nats_str (str_nats s) = s"
  by (simp add: str_nats_def nats_str_def comp_def)

lemma length_str_nats [simp]: "length (str_nats s) = length s"
  by (simp add: str_nats_def)

end
