(* ===== verification/Security.thy ===== *)
theory Security
  imports Plugin Canon Demo_Codec
begin

text \<open>
  \<open>core/src/security.rs\<close>: capability policy, stamps, revocation and the hash-chained audit log.

  A \<open>SecurityModule\<close> is the record \<open>security_module\<close>; every method takes it and returns it
  updated, and each reads the clock at most once, so the time is an argument.  HMAC-SHA256,
  SHA-256, the JSON serialisation of an audit entry and the derived \<open>Debug\<close> text of a capability
  are third-party or compiler-generated code: they are the fields of \<open>sec_env\<close>.  The audit file is
  its contents; a write whose failure the code ignores is a \<open>True\<close> at the head of \<open>lost_writes\<close>.
\<close>

subsection \<open>Data\<close>

type_synonym stamp = bytes

datatype decision_kind = Grant | Denial | StampIssued | StampInvalidated

record security_decision =
  sd_kind :: decision_kind
  sd_detail :: string
  sd_at :: timestamp
  sd_prev_hash :: string

datatype security_error =
    IntegrityFailure string
  | CapabilityDenied capability
  | SafePluginViolation

record security_policy =
  file_read_prefixes :: "string list"
  file_write_prefixes :: "string list"
  network_allowlist :: "string list"
  allow_shell :: bool
  allow_git :: bool

definition policy_permissive :: security_policy where
  "policy_permissive = \<lparr>file_read_prefixes = [''/tmp'', ''.''], file_write_prefixes = [''/tmp'', ''.''],
     network_allowlist = [''localhost'', ''127.0.0.1''], allow_shell = False, allow_git = True\<rparr>"

definition policy_deny_all :: security_policy where
  "policy_deny_all = \<lparr>file_read_prefixes = [], file_write_prefixes = [],
     network_allowlist = [], allow_shell = False, allow_git = False\<rparr>"

record sec_env =
  hmac_sha256 :: "bytes \<Rightarrow> bytes \<Rightarrow> bytes"
  sha256 :: "bytes \<Rightarrow> bytes"
  ser_decision :: "security_decision \<Rightarrow> string option"
  parse_decision :: "string \<Rightarrow> string + security_decision"
  debug_cap :: "capability \<Rightarrow> string"
  debug_caps :: "capability list \<Rightarrow> string"

record security_module =
  audit_log :: "security_decision list"
  hmac_key :: bytes
  k_session :: bytes
  k_audit :: bytes
  invalidated :: "stamp set"
  policy :: security_policy
  audit_file :: "string option"
  last_hash :: string
  log_poisoned :: bool
  inv_poisoned :: bool
  lost_writes :: "bool list"

subsection \<open>Small utilities\<close>

definition hex_digit :: "nat \<Rightarrow> char" where
  "hex_digit n = (if n < 10 then char_of (48 + n) else char_of (87 + n))"

definition hex :: "bytes \<Rightarrow> string" where
  "hex bs = concat (map (\<lambda>b. [hex_digit (unat b div 16), hex_digit (unat b mod 16)]) bs)"

definition mac_with :: "sec_env \<Rightarrow> bytes \<Rightarrow> bytes \<Rightarrow> bytes" where
  "mac_with E key content = hmac_sha256 E key content"

definition derive_subkey :: "sec_env \<Rightarrow> bytes \<Rightarrow> bytes \<Rightarrow> bytes" where
  "derive_subkey E rootkey label = mac_with E rootkey label"

definition stamp_ref :: "sec_env \<Rightarrow> bytes \<Rightarrow> string" where
  "stamp_ref E mac = hex (take 8 (sha256 E mac))"

definition sanitize_detail :: "string \<Rightarrow> string" where
  "sanitize_detail s =
     of_chars (take 512 (filter (\<lambda>c. \<not> is_control c \<and> \<not> is_bidi_or_format c) (chars s)))"

text \<open>The loop over the 32 bytes, with no early exit.\<close>

definition constant_time_eq :: "bytes \<Rightarrow> bytes \<Rightarrow> bool" where
  "constant_time_eq a b \<longleftrightarrow> foldl (\<lambda>diff i. diff OR (a ! i XOR b ! i)) 0 [0..<32] = 0"

subsection \<open>Construction\<close>

definition with_key :: "sec_env \<Rightarrow> bytes \<Rightarrow> security_policy \<Rightarrow> security_module" where
  "with_key E key pol =
     \<lparr>audit_log = [], hmac_key = key,
      k_session = derive_subkey E key (as_bytes ''wyrtloom-session-v1''),
      k_audit = derive_subkey E key (as_bytes ''wyrtloom-audit-v1''),
      invalidated = {}, policy = pol, audit_file = None, last_hash = [],
      log_poisoned = False, inv_poisoned = False, lost_writes = []\<rparr>"

text \<open>\<open>SecurityModule::new\<close> draws the root key at random: the key is an argument.\<close>

definition security_new :: "sec_env \<Rightarrow> bytes \<Rightarrow> security_module" where
  "security_new E key = with_key E key policy_permissive"

subsection \<open>The audit chain\<close>

definition chain_link :: "sec_env \<Rightarrow> security_module \<Rightarrow> string \<Rightarrow> string" where
  "chain_link E m serialized =
     hex (mac_with E (k_audit m) (as_bytes (''wyrtloom-audit-chain-v1'' @ [CHR 0x00] @ serialized)))"

definition serialise :: "sec_env \<Rightarrow> security_decision \<Rightarrow> string" where
  "serialise E entry = (case ser_decision E entry of None \<Rightarrow> [] | Some s \<Rightarrow> s)"

text \<open>
  \<open>audit\<close> in its three critical sections: under the \<open>last_hash\<close> lock the entry is made and the chain
  head moves on; then the line is written to the file; then the entry is pushed on the log.
\<close>

definition audit_entry :: "timestamp \<Rightarrow> decision_kind \<Rightarrow> string \<Rightarrow> security_module \<Rightarrow> security_decision" where
  "audit_entry now kind detail m =
     \<lparr>sd_kind = kind, sd_detail = detail, sd_at = now, sd_prev_hash = last_hash m\<rparr>"

definition audit_advance :: "sec_env \<Rightarrow> security_decision \<Rightarrow> security_module \<Rightarrow> security_module" where
  "audit_advance E entry m = m\<lparr>last_hash := chain_link E m (serialise E entry)\<rparr>"

definition audit_persist :: "sec_env \<Rightarrow> security_decision \<Rightarrow> security_module \<Rightarrow> security_module" where
  "audit_persist E entry m =
     (case audit_file m of
        None \<Rightarrow> m
      | Some f \<Rightarrow>
          (case lost_writes m of
             True # ws \<Rightarrow> m\<lparr>lost_writes := ws\<rparr>
           | ws \<Rightarrow> m\<lparr>audit_file := Some (f @ serialise E entry @ [CHR 0x0A]), lost_writes := tl ws\<rparr>))"

definition audit_push :: "security_decision \<Rightarrow> security_module \<Rightarrow> security_module" where
  "audit_push entry m = m\<lparr>audit_log := audit_log m @ [entry]\<rparr>"

definition audit :: "sec_env \<Rightarrow> timestamp \<Rightarrow> decision_kind \<Rightarrow> string \<Rightarrow> security_module \<Rightarrow> security_module" where
  "audit E now kind detail m =
     (let entry = audit_entry now kind detail m
      in audit_push entry (audit_persist E entry (audit_advance E entry m)))"

fun verify_links :: "sec_env \<Rightarrow> security_module \<Rightarrow> nat \<Rightarrow> string \<Rightarrow> security_decision list \<Rightarrow> security_error + unit" where
  "verify_links E m i expected [] = Inr ()"
| "verify_links E m i expected (entry # rest) =
     (if sd_prev_hash entry \<noteq> expected
      then Inl (IntegrityFailure (''audit chain broken at entry '' @ nat_str i))
      else verify_links E m (Suc i) (chain_link E m (serialise E entry)) rest)"

definition verify_chain :: "sec_env \<Rightarrow> security_module \<Rightarrow> security_error + unit" where
  "verify_chain E m = verify_links E m 0 [] (audit_log m)"

subsection \<open>Public interface\<close>

definition self_check :: "security_module \<Rightarrow> security_error + unit" where
  "self_check m =
     (if hmac_key m = replicate 32 0 then
        Inl (IntegrityFailure
          (''HMAC key is all-zero '' @ [CHR 0xE2, CHR 0x80, CHR 0x94] @ '' RNG failure during init''))
      else if log_poisoned m then Inl (IntegrityFailure ''audit log mutex is poisoned'')
      else if inv_poisoned m then Inl (IntegrityFailure ''invalidated-stamp set mutex is poisoned'')
      else Inr ())"

definition check_file_path :: "string \<Rightarrow> string list \<Rightarrow> bool" where
  "check_file_path path pres =
     (if contains path ''..'' then False
      else list_ex (\<lambda>p. let p = trim_end_matches CHR ''/'' p in path = p \<or> starts_with path (p @ ''/'')) pres)"

definition is_allowed :: "security_policy \<Rightarrow> capability \<Rightarrow> bool" where
  "is_allowed pol cap =
     (case cap of
        FileRead path \<Rightarrow> check_file_path path (file_read_prefixes pol)
      | FileWrite path \<Rightarrow> check_file_path path (file_write_prefixes pol)
      | Network host \<Rightarrow>
          list_ex (\<lambda>allowed. host = allowed \<or> ends_with host (''.'' @ allowed)) (network_allowlist pol)
      | Shell \<Rightarrow> allow_shell pol
      | Git \<Rightarrow> allow_git pol)"

definition class_debug :: "plugin_class \<Rightarrow> string" where
  "class_debug c = (case c of Safe \<Rightarrow> ''Safe'' | Unsafe \<Rightarrow> ''Unsafe'')"

definition verify :: "sec_env \<Rightarrow> timestamp \<Rightarrow> plugin_manifest \<Rightarrow> (security_module, security_error, unit) op" where
  "verify E now manifest m =
     (if m_class manifest = Safe \<and> m_capabilities manifest \<noteq> [] then
        (Inl SafePluginViolation,
         audit E now Denial (''safe plugin '' @ quoted (m_name manifest) @ '' declared capabilities: '' @
           debug_caps E (m_capabilities manifest)) m)
      else case find (\<lambda>cap. \<not> is_allowed (policy m) cap) (m_capabilities manifest) of
        Some cap \<Rightarrow>
          (Inl (CapabilityDenied cap),
           audit E now Denial (''plugin '' @ quoted (m_name manifest) @
             '' requested denied capability '' @ debug_cap E cap) m)
      | None \<Rightarrow>
          (Inr (),
           audit E now Grant (''plugin '' @ quoted (m_name manifest) @ '' v'' @
             semver_display (m_version manifest) @ '' verified ('' @ class_debug (m_class manifest) @ '')'') m))"

definition compute_mac :: "sec_env \<Rightarrow> security_module \<Rightarrow> bytes \<Rightarrow> bytes" where
  "compute_mac E m content = mac_with E (k_session m) content"

definition stamp_content :: "sec_env \<Rightarrow> timestamp \<Rightarrow> bytes \<Rightarrow> security_module \<Rightarrow> stamp \<times> security_module" where
  "stamp_content E now content m =
     (let mac = compute_mac E m content
      in (mac, audit E now StampIssued (''stamp issued ref='' @ stamp_ref E mac) m))"

definition is_valid :: "sec_env \<Rightarrow> security_module \<Rightarrow> stamp \<Rightarrow> bytes \<Rightarrow> bool" where
  "is_valid E m st content =
     (if st \<in> invalidated m then False
      else constant_time_eq st (compute_mac E m content))"

definition invalidate :: "sec_env \<Rightarrow> timestamp \<Rightarrow> stamp \<Rightarrow> security_module \<Rightarrow> security_module" where
  "invalidate E now st m =
     (let m1 = audit E now StampInvalidated (''stamp invalidated ref='' @ stamp_ref E st) m
      in m1\<lparr>invalidated := insert st (invalidated m1)\<rparr>)"

definition record_decision :: "sec_env \<Rightarrow> timestamp \<Rightarrow> bool \<Rightarrow> string \<Rightarrow> security_module \<Rightarrow> security_module" where
  "record_decision E now granted detail m =
     audit E now (if granted then Grant else Denial) (sanitize_detail detail) m"

definition audit_log_snapshot :: "security_module \<Rightarrow> security_decision list" where
  "audit_log_snapshot m = audit_log m"

subsection \<open>Reopening a persisted log\<close>

definition MAX_AUDIT_FILE_BYTES :: nat where
  "MAX_AUDIT_FILE_BYTES = 64 * 1024 * 1024"

text \<open>\<open>String::from_utf8\<close> succeeds on exactly the byte strings that re-encode to themselves and hold
  no surrogate.\<close>

definition utf8_ok :: "string \<Rightarrow> bool" where
  "utf8_ok s \<longleftrightarrow> list_all (\<lambda>c. scalar c \<and> \<not> (0xD800 \<le> c \<and> c \<le> 0xDFFF)) (chars s) \<and> of_chars (chars s) = s"

text \<open>\<open>str::lines\<close>: split at newlines, the empty last piece dropped, a carriage return before the
  newline removed.\<close>

definition strip_cr :: "string \<Rightarrow> string" where
  "strip_cr l = (if l \<noteq> [] \<and> last l = CHR 0x0D then butlast l else l)"

definition str_lines :: "string \<Rightarrow> string list" where
  "str_lines s =
     (let ps = split_on CHR 0x0A s
      in map strip_cr (butlast ps) @ (if last ps = [] then [] else [last ps]))"

fun load_lines :: "sec_env \<Rightarrow> string list \<Rightarrow> (security_module, security_error, unit) op" where
  "load_lines E [] m = (Inr (), m)"
| "load_lines E (line # ls) m =
     (if blank line then load_lines E ls m
      else case parse_decision E line of
        Inl e \<Rightarrow> (Inl (IntegrityFailure (''audit file parse: '' @ e)), m)
      | Inr entry \<Rightarrow> load_lines E ls (audit_push entry (audit_advance E entry m)))"

text \<open>
  \<open>opened\<close> is what opening, \<open>fchmod\<close>, seeking and reading the file gave: a message or the bytes.
\<close>

definition with_audit_file :: "sec_env \<Rightarrow> string + string \<Rightarrow> security_module \<Rightarrow> security_error + security_module" where
  "with_audit_file E opened m =
     (case opened of
        Inl msg \<Rightarrow> Inl (IntegrityFailure msg)
      | Inr content \<Rightarrow>
          if length content > MAX_AUDIT_FILE_BYTES then
            Inl (IntegrityFailure (''audit file too large: exceeds '' @ nat_str MAX_AUDIT_FILE_BYTES @ '' byte cap''))
          else if \<not> utf8_ok content then Inl (IntegrityFailure ''audit file is not valid UTF-8'')
          else (case load_lines E (str_lines content) m of
              (Inl e, _) \<Rightarrow> Inl e
            | (Inr _, m1) \<Rightarrow>
                (case verify_chain E m1 of
                   Inl e \<Rightarrow> Inl e
                 | Inr _ \<Rightarrow> Inr (m1\<lparr>audit_file := Some content\<rparr>))))"

subsection \<open>The chain as a predicate on lists of entries\<close>

definition entry_link :: "sec_env \<Rightarrow> bytes \<Rightarrow> security_decision \<Rightarrow> string" where
  "entry_link E k e =
     hex (mac_with E k (as_bytes (''wyrtloom-audit-chain-v1'' @ [CHR 0x00] @ serialise E e)))"

fun links_ok :: "(security_decision \<Rightarrow> string) \<Rightarrow> string \<Rightarrow> security_decision list \<Rightarrow> bool" where
  "links_ok L p [] = True"
| "links_ok L p (e # es) = (sd_prev_hash e = p \<and> links_ok L (L e) es)"

fun chain_end :: "(security_decision \<Rightarrow> string) \<Rightarrow> string \<Rightarrow> security_decision list \<Rightarrow> string" where
  "chain_end L p [] = p"
| "chain_end L p (e # es) = chain_end L (L e) es"

abbreviation link_of :: "sec_env \<Rightarrow> security_module \<Rightarrow> security_decision \<Rightarrow> string" where
  "link_of E m \<equiv> entry_link E (k_audit m)"

text \<open>The invariant of the module: the log is chained and \<open>last_hash\<close> is the link of its last entry.\<close>

definition chain_inv :: "sec_env \<Rightarrow> security_module \<Rightarrow> bool" where
  "chain_inv E m \<longleftrightarrow>
     links_ok (link_of E m) [] (audit_log m) \<and> last_hash m = chain_end (link_of E m) [] (audit_log m)"

lemma chain_link_entry: "chain_link E m (serialise E e) = link_of E m e"
  by (simp add: chain_link_def entry_link_def)

lemma verify_links_iff: "verify_links E m i p es = Inr () \<longleftrightarrow> links_ok (link_of E m) p es"
  by (induction es arbitrary: i p) (auto simp: chain_link_entry)

lemma verify_chain_iff: "verify_chain E m = Inr () \<longleftrightarrow> links_ok (link_of E m) [] (audit_log m)"
  by (simp add: verify_chain_def verify_links_iff)

lemma links_ok_append [simp]:
  "links_ok L p (xs @ ys) \<longleftrightarrow> links_ok L p xs \<and> links_ok L (chain_end L p xs) ys"
  by (induction xs arbitrary: p) auto

lemma chain_end_append [simp]: "chain_end L p (xs @ ys) = chain_end L (chain_end L p xs) ys"
  by (induction xs arbitrary: p) auto

lemma audit_fields [simp]:
  "audit_log (audit E now k d m) = audit_log m @ [audit_entry now k d m]"
  "k_audit (audit E now k d m) = k_audit m"
  "k_session (audit E now k d m) = k_session m"
  "hmac_key (audit E now k d m) = hmac_key m"
  "invalidated (audit E now k d m) = invalidated m"
  "policy (audit E now k d m) = policy m"
  "last_hash (audit E now k d m) = link_of E m (audit_entry now k d m)"
  by (simp_all add: audit_def Let_def audit_push_def audit_persist_def audit_advance_def
      chain_link_entry split: option.splits list.splits bool.splits)

lemma chain_inv_audit: "chain_inv E m \<Longrightarrow> chain_inv E (audit E now k d m)"
  by (simp add: chain_inv_def audit_entry_def)

lemma chain_inv_with_key: "chain_inv E (with_key E key pol)"
  by (simp add: chain_inv_def with_key_def)

lemma with_key_fields [simp]:
  "audit_log (with_key E key pol) = []" "last_hash (with_key E key pol) = []"
  "invalidated (with_key E key pol) = {}" "policy (with_key E key pol) = pol"
  "lost_writes (with_key E key pol) = []" "hmac_key (with_key E key pol) = key"
  "k_audit (with_key E key pol) = derive_subkey E key (as_bytes ''wyrtloom-audit-v1'')"
  by (simp_all add: with_key_def)

lemma chain_inv_verify_chain: "chain_inv E m \<Longrightarrow> verify_chain E m = Inr ()"
  by (simp add: chain_inv_def verify_chain_iff)

subsection \<open>Runs of the public interface\<close>

datatype sec_op =
    OpVerify plugin_manifest
  | OpStamp bytes
  | OpInvalidate stamp
  | OpRecord bool string

fun sec_step :: "sec_env \<Rightarrow> security_module \<Rightarrow> timestamp \<times> sec_op \<Rightarrow> security_module" where
  "sec_step E m (now, OpVerify mf) = snd (verify E now mf m)"
| "sec_step E m (now, OpStamp c) = snd (stamp_content E now c m)"
| "sec_step E m (now, OpInvalidate st) = invalidate E now st m"
| "sec_step E m (now, OpRecord g d) = record_decision E now g d m"

definition sec_run :: "sec_env \<Rightarrow> security_module \<Rightarrow> (timestamp \<times> sec_op) list \<Rightarrow> security_module" where
  "sec_run E m ops = foldl (sec_step E) m ops"

text \<open>Every operation is one audit entry and, for \<open>invalidate\<close>, one revoked stamp.\<close>

lemma verify_audits: "\<exists>k d. snd (verify E now mf m) = audit E now k d m"
  by (auto simp: verify_def split: option.splits)

lemma sec_step_audits:
  "\<exists>k d. sec_step E m (now, c) = audit E now k d m \<and> (\<forall>st. c \<noteq> OpInvalidate st) \<or>
     (\<exists>st. c = OpInvalidate st \<and> sec_step E m (now, c) =
        (audit E now k d m)\<lparr>invalidated := insert st (invalidated m)\<rparr>)"
  using verify_audits
  by (cases c) (auto simp: stamp_content_def invalidate_def record_decision_def Let_def)

lemma sec_step_keeps:
  "k_audit (sec_step E m x) = k_audit m" "k_session (sec_step E m x) = k_session m"
  "hmac_key (sec_step E m x) = hmac_key m" "policy (sec_step E m x) = policy m"
  "invalidated m \<subseteq> invalidated (sec_step E m x)"
  "chain_inv E m \<Longrightarrow> chain_inv E (sec_step E m x)"
  "\<exists>e. audit_log (sec_step E m x) = audit_log m @ [e]"
proof -
  obtain now c where x: "x = (now, c)" by fastforce
  obtain k d where "sec_step E m x = audit E now k d m \<or>
     (\<exists>st. sec_step E m x = (audit E now k d m)\<lparr>invalidated := insert st (invalidated m)\<rparr>)"
    using sec_step_audits [of E m now c] x by auto
  then show "k_audit (sec_step E m x) = k_audit m" "k_session (sec_step E m x) = k_session m"
    "hmac_key (sec_step E m x) = hmac_key m" "policy (sec_step E m x) = policy m"
    "invalidated m \<subseteq> invalidated (sec_step E m x)"
    "chain_inv E m \<Longrightarrow> chain_inv E (sec_step E m x)"
    "\<exists>e. audit_log (sec_step E m x) = audit_log m @ [e]"
    by (auto simp: chain_inv_def audit_entry_def)
qed

lemma sec_run_keeps:
  "k_audit (sec_run E m ops) = k_audit m" "k_session (sec_run E m ops) = k_session m"
  "policy (sec_run E m ops) = policy m"
  "chain_inv E m \<Longrightarrow> chain_inv E (sec_run E m ops)"
  unfolding sec_run_def
  by (induction ops arbitrary: m) (simp_all add: sec_step_keeps)

lemma sec_run_invalidated: "invalidated m \<subseteq> invalidated (sec_run E m ops)"
  unfolding sec_run_def
proof (induction ops arbitrary: m)
  case (Cons x ops)
  then show ?case using sec_step_keeps(5) [of m E x] by (metis foldl_Cons order.trans)
qed simp

lemma sec_run_log_length: "length (audit_log (sec_run E m ops)) = length (audit_log m) + length ops"
  unfolding sec_run_def
proof (induction ops arbitrary: m)
  case (Cons x ops)
  obtain e where "audit_log (sec_step E m x) = audit_log m @ [e]" using sec_step_keeps(7) by blast
  then show ?case using Cons [of "sec_step E m x"] by simp
qed simp


subsection \<open>Constant-time comparison\<close>

lemma or_fold_zero:
  "foldl (\<lambda>diff i. diff OR f i) (d :: 8 word) xs = 0 \<longleftrightarrow> d = 0 \<and> (\<forall>i \<in> set xs. f i = 0)"
proof (induction xs arbitrary: d)
  case (Cons x xs)
  have "d OR f x = 0 \<longleftrightarrow> d = 0 \<and> f x = 0" by (simp add: or_eq_0_iff)
  with Cons show ?case by auto
qed simp

lemma xor_zero_iff: "(x XOR y = 0) \<longleftrightarrow> x = (y :: 8 word)"
  by (auto simp: bit_eq_iff bit_xor_iff)

lemma constant_time_eq_iff: "constant_time_eq a b \<longleftrightarrow> (\<forall>i < 32. a ! i = b ! i)"
  by (auto simp: constant_time_eq_def or_fold_zero xor_zero_iff)

lemma constant_time_eq_refl [simp]: "constant_time_eq a a"
  by (simp add: constant_time_eq_iff)

lemma constant_time_eq_arrays:
  "length a = 32 \<Longrightarrow> length b = 32 \<Longrightarrow> constant_time_eq a b \<longleftrightarrow> a = b"
  by (simp add: constant_time_eq_iff list_eq_iff_nth_eq)

text \<open>HMAC-SHA256 returns 32 bytes.\<close>

definition mac32 :: "sec_env \<Rightarrow> bool" where
  "mac32 E \<longleftrightarrow> (\<forall>k c. length (hmac_sha256 E k c) = 32)"

lemma length_hex [simp]: "length (hex bs) = 2 * length bs"
  by (induction bs) (simp_all add: hex_def)

lemma entry_link_nonempty: "mac32 E \<Longrightarrow> entry_link E k e \<noteq> []"
proof -
  assume "mac32 E"
  then have "length (entry_link E k e) = 64"
    by (simp add: entry_link_def mac_with_def mac32_def)
  then show ?thesis by auto
qed

lemma is_valid_iff:
  assumes "mac32 E" "length st = 32"
  shows "is_valid E m st content \<longleftrightarrow> st \<notin> invalidated m \<and> st = hmac_sha256 E (k_session m) content"
  using assms by (auto simp: is_valid_def compute_mac_def mac_with_def mac32_def constant_time_eq_arrays)

subsection \<open>Path and host checks\<close>

lemma contains_parent: "ParentDir \<in> set (path_components p) \<Longrightarrow> contains p ''..''"
  by (auto simp: parent_iff_piece in_split_on_iff contains_iff)

lemma check_file_path_iff:
  "check_file_path path pres \<longleftrightarrow> \<not> contains path ''..'' \<and>
     (\<exists>p \<in> set pres. path = trim_end_matches CHR ''/'' p \<or>
        (\<exists>rest. path = trim_end_matches CHR ''/'' p @ ''/'' @ rest))"
  by (auto simp: check_file_path_def Let_def list_ex_iff starts_with_iff)


subsection \<open>Chain determination\<close>

lemma chain_end_last: "es \<noteq> [] \<Longrightarrow> chain_end L p es = L (last es)"
  by (induction es arbitrary: p) auto

lemma links_determined_by_end:
  assumes "links_ok L [] es" "links_ok L [] fs" "chain_end L [] es = chain_end L [] fs"
    and "\<And>e. L e \<noteq> []" and "inj_on L (set es \<union> set fs)"
  shows "es = fs"
  using assms(1-3,5)
proof (induction es arbitrary: fs rule: rev_induct)
  case Nil
  then show ?case using assms(4) chain_end_last [of fs L "[]"] by (metis chain_end.simps(1))
next
  case (snoc e es)
  then have "fs \<noteq> []" using assms(4) [of e] by auto
  then obtain gs f where fs: "fs = gs @ [f]" by (metis append_butlast_last_id)
  with snoc.prems(3) have "L e = L f" by simp
  then have "e = f" by (rule inj_onD [OF snoc.prems(4)]) (simp_all add: fs)
  moreover from this have "chain_end L [] es = chain_end L [] gs"
    using snoc.prems(1,2) fs by auto
  moreover have "inj_on L (set es \<union> set gs)"
    using snoc.prems(4) fs by (auto intro: inj_on_subset)
  ultimately show ?case using snoc.IH [of gs] snoc.prems(1,2) fs by simp
qed

lemma links_ok_take: "links_ok L p es \<Longrightarrow> links_ok L p (take n es)"
  by (metis append_take_drop_id links_ok_append)

subsection \<open>Persisted lines\<close>

text \<open>
  What the code relies on of \<^verbatim>\<open>serde_json\<close>: an entry serialises to one line of well-formed UTF-8
  that parses back to it.
\<close>

definition unicode_str :: "string \<Rightarrow> bool" where
  "unicode_str s \<longleftrightarrow>
     (\<exists>cs. list_all (\<lambda>c. scalar c \<and> \<not> (0xD800 \<le> c \<and> c \<le> 0xDFFF)) cs \<and> s = of_chars cs)"

definition json_line :: "string \<Rightarrow> bool" where
  "json_line s \<longleftrightarrow> CHR 0x0A \<notin> set s \<and> \<not> blank s \<and> s \<noteq> [] \<and> last s \<noteq> CHR 0x0D \<and> unicode_str s"

definition serde_ok :: "sec_env \<Rightarrow> bool" where
  "serde_ok E \<longleftrightarrow> (\<forall>e. \<exists>s. ser_decision E e = Some s \<and> parse_decision E s = Inr e \<and> json_line s)"

definition file_of :: "sec_env \<Rightarrow> security_decision list \<Rightarrow> string" where
  "file_of E es = concat (map (\<lambda>e. serialise E e @ [CHR 0x0A]) es)"

lemma unicode_str_append: "unicode_str s \<Longrightarrow> unicode_str t \<Longrightarrow> unicode_str (s @ t)"
  unfolding unicode_str_def
proof (elim exE conjE)
  fix cs ds
  assume cs: "list_all (\<lambda>c. scalar c \<and> \<not> (0xD800 \<le> c \<and> c \<le> 0xDFFF)) cs" "s = of_chars cs"
    and ds: "list_all (\<lambda>c. scalar c \<and> \<not> (0xD800 \<le> c \<and> c \<le> 0xDFFF)) ds" "t = of_chars ds"
  show "\<exists>es. list_all (\<lambda>c. scalar c \<and> \<not> (0xD800 \<le> c \<and> c \<le> 0xDFFF)) es \<and> s @ t = of_chars es"
    by (rule exI [of _ "cs @ ds"]) (use cs ds in \<open>simp add: of_chars_def\<close>)
qed

lemma unicode_str_ascii: "ascii s \<Longrightarrow> unicode_str s"
  unfolding unicode_str_def ascii_def
  by (rule exI [of _ "map of_char s"])
    (fastforce simp: of_chars_ascii ascii_def list_all_iff scalar_def)

lemma unicode_utf8_ok: "unicode_str s \<Longrightarrow> utf8_ok s"
proof -
  assume "unicode_str s"
  then obtain cs where cs: "list_all (\<lambda>c. scalar c \<and> \<not> (0xD800 \<le> c \<and> c \<le> 0xDFFF)) cs" "s = of_chars cs"
    by (auto simp: unicode_str_def)
  then have "list_all scalar cs" by (simp add: list_all_iff)
  then have "chars s = cs" by (simp add: cs(2) chars_of_chars)
  with cs show ?thesis by (simp add: utf8_ok_def)
qed

lemma serialise_json:
  assumes "serde_ok E"
  shows "json_line (serialise E e)" "parse_decision E (serialise E e) = Inr e"
  using assms by (auto simp: serde_ok_def serialise_def dest: spec [of _ e])

lemma file_of_utf8: "serde_ok E \<Longrightarrow> utf8_ok (file_of E es)"
proof (rule unicode_utf8_ok)
  assume "serde_ok E"
  then have line: "unicode_str (serialise E e)" for e
    using serialise_json by (auto simp: json_line_def)
  have nl: "unicode_str [CHR 0x0A]" "unicode_str []"
    by (rule unicode_str_ascii, simp add: ascii_def)+
  show "unicode_str (file_of E es)"
  proof (induction es)
    case (Cons e es)
    have "unicode_str ((serialise E e @ [CHR 0x0A]) @ file_of E es)"
      by (intro unicode_str_append line nl Cons)
    then show ?case by (simp add: file_of_def)
  qed (simp add: file_of_def nl)
qed

lemma split_file: "serde_ok E \<Longrightarrow> split_on CHR 0x0A (file_of E es) = map (serialise E) es @ [[]]"
proof (induction es)
  case (Cons e es)
  have "CHR 0x0A \<notin> set (serialise E e)"
    using serialise_json(1) [OF Cons.prems] by (simp add: json_line_def)
  then have "split_on CHR 0x0A (serialise E e @ CHR 0x0A # file_of E es) =
      serialise E e # split_on CHR 0x0A (file_of E es)"
    by (rule split_on_prefix)
  with Cons show ?case by (simp add: file_of_def)
qed (simp add: file_of_def)

lemma str_lines_file: "serde_ok E \<Longrightarrow> str_lines (file_of E es) = map (serialise E) es"
proof -
  assume ok: "serde_ok E"
  then have "strip_cr (serialise E e) = serialise E e" for e
    using serialise_json(1) by (simp add: strip_cr_def json_line_def)
  then show ?thesis by (simp add: str_lines_def split_file [OF ok] comp_def)
qed

lemma load_lines_file:
  assumes "serde_ok E"
  shows "\<exists>m'. load_lines E (map (serialise E) es) m = (Inr (), m') \<and>
    audit_log m' = audit_log m @ es \<and> k_audit m' = k_audit m \<and>
    last_hash m' = chain_end (link_of E m) (last_hash m) es"
proof (induction es arbitrary: m)
  case (Cons e es)
  let ?m = "audit_push e (audit_advance E e m)"
  obtain m' where "load_lines E (map (serialise E) es) ?m = (Inr (), m')"
    "audit_log m' = audit_log ?m @ es" "k_audit m' = k_audit ?m"
    "last_hash m' = chain_end (link_of E ?m) (last_hash ?m) es"
    using Cons by blast
  then show ?case using serialise_json [OF assms]
    by (auto simp: json_line_def audit_push_def audit_advance_def chain_link_entry)
qed simp


lemma sec_run_file:
  assumes "audit_file m = Some (file_of E (audit_log m))" "lost_writes m = []"
  shows "audit_file (sec_run E m ops) = Some (file_of E (audit_log (sec_run E m ops))) \<and>
    lost_writes (sec_run E m ops) = []"
  using assms unfolding sec_run_def
proof (induction ops arbitrary: m)
  case (Cons x ops)
  have step: "audit_file (audit E now k d m) = Some (file_of E (audit_log (audit E now k d m)))"
    "lost_writes (audit E now k d m) = []" for now k d
    using Cons.prems by (simp_all add: audit_def Let_def audit_push_def audit_persist_def
        audit_advance_def audit_entry_def file_of_def)
  obtain now c where x: "x = (now, c)" by fastforce
  have "audit_file (sec_step E m x) = Some (file_of E (audit_log (sec_step E m x))) \<and>
      lost_writes (sec_step E m x) = []"
    using sec_step_audits [of E m now c] step by (auto simp: x)
  then show ?case using Cons.IH by simp
qed simp

text \<open>The stamps revoked after a run are those revoked before it and those the run invalidates.\<close>

lemma sec_run_revoked:
  "invalidated (sec_run E m ops) = invalidated m \<union> {st. OpInvalidate st \<in> snd ` set ops}"
  unfolding sec_run_def
proof (induction ops arbitrary: m)
  case (Cons x ops)
  obtain now c where x: "x = (now, c)" by fastforce
  obtain k d where "sec_step E m x = audit E now k d m \<and> (\<forall>st. c \<noteq> OpInvalidate st) \<or>
     (\<exists>st. c = OpInvalidate st \<and> sec_step E m x =
        (audit E now k d m)\<lparr>invalidated := insert st (invalidated m)\<rparr>)"
    using sec_step_audits [of E m now c] by (auto simp: x)
  then have "invalidated (sec_step E m x) = invalidated m \<union> {st. c = OpInvalidate st}" by auto
  then show ?case using Cons [of "sec_step E m x"] x by auto
qed simp

subsection \<open>A concrete environment\<close>

definition kind_nat :: "decision_kind \<Rightarrow> nat" where
  "kind_nat k = (case k of Grant \<Rightarrow> 0 | Denial \<Rightarrow> 1 | StampIssued \<Rightarrow> 2 | StampInvalidated \<Rightarrow> 3)"

definition nat_kind :: "nat \<Rightarrow> decision_kind" where
  "nat_kind n = (if n = 0 then Grant else if n = 1 then Denial else if n = 2 then StampIssued else StampInvalidated)"

definition demo_ser :: "security_decision \<Rightarrow> string" where
  "demo_ser e = encode_nats (kind_nat (sd_kind e) # int_nats (sd_at e) @
     length (sd_detail e) # str_nats (sd_detail e) @ str_nats (sd_prev_hash e))"

definition demo_parse :: "string \<Rightarrow> string + security_decision" where
  "demo_parse s =
     (case decode_nats 0 s of
        k # sg # a # n # xs \<Rightarrow>
          Inr \<lparr>sd_kind = nat_kind k, sd_detail = nats_str (take n xs), sd_at = nats_int [sg, a],
               sd_prev_hash = nats_str (drop n xs)\<rparr>
      | _ \<Rightarrow> Inl ''malformed'')"

definition demo_env :: sec_env where
  "demo_env = \<lparr>hmac_sha256 = (\<lambda>k c. take 32 (c @ replicate 32 0)), sha256 = (\<lambda>c. take 32 (c @ replicate 32 0)),
     ser_decision = (\<lambda>e. Some (demo_ser e)), parse_decision = demo_parse,
     debug_cap = (\<lambda>_. ''cap''), debug_caps = (\<lambda>_. ''caps'')\<rparr>"

lemma nat_kind_nat [simp]: "nat_kind (kind_nat k) = k"
  by (cases k) (simp_all add: nat_kind_def kind_nat_def)

lemma demo_mac32: "mac32 demo_env"
  by (auto simp: mac32_def demo_env_def min_def)

lemma demo_parse_ser: "demo_parse (demo_ser e) = Inr e"
  using nats_int_nats [of "sd_at e"]
  by (simp add: demo_parse_def demo_ser_def int_nats_def)

lemma demo_serde: "serde_ok demo_env"
  unfolding serde_ok_def
proof
  fix e :: security_decision
  let ?ns = "kind_nat (sd_kind e) # int_nats (sd_at e) @
     length (sd_detail e) # str_nats (sd_detail e) @ str_nats (sd_prev_hash e)"
  have "json_line (demo_ser e)"
    using set_encode_nats [of ?ns] last_encode_nats [of ?ns] not_blank_encode_nats [of ?ns]
      unicode_str_ascii [OF ascii_encode_nats]
    by (auto simp: json_line_def demo_ser_def)
  then show "\<exists>s. ser_decision demo_env e = Some s \<and> parse_decision demo_env s = Inr e \<and> json_line s"
    by (simp add: demo_env_def demo_parse_ser)
qed

subsection \<open>Properties\<close>

text \<open>Claim C14.  Whatever sequence of verifications, stampings, invalidations and recorded decisions
  runs on a fresh module, each adds exactly one audit entry and the audit chain verifies.\<close>

theorem audit_chain_verifies:
  "verify_chain E (sec_run E (with_key E key pol) ops) = Inr () \<and>
   length (audit_log_snapshot (sec_run E (with_key E key pol) ops)) = length ops"
  using chain_inv_verify_chain [OF sec_run_keeps(4) [OF chain_inv_with_key]]
  by (simp add: audit_log_snapshot_def sec_run_log_length)

text \<open>Property.  The chain head pins the whole log: two logs that verify under the same audit key and
  have the same head are the same log, unless two of their entries collide under the keyed link.
  Without a collision no entry can have been altered, removed, inserted or moved.\<close>

theorem chain_head_pins_log:
  assumes "mac32 E" "k_audit m = k_audit m'" "chain_inv E m" "chain_inv E m'" "last_hash m = last_hash m'"
    and "inj_on (link_of E m) (set (audit_log m) \<union> set (audit_log m'))"
  shows "audit_log m = audit_log m'"
proof (rule links_determined_by_end)
  show "links_ok (link_of E m) [] (audit_log m)" "links_ok (link_of E m) [] (audit_log m')"
    "chain_end (link_of E m) [] (audit_log m) = chain_end (link_of E m) [] (audit_log m')"
    using assms(2-5) by (simp_all add: chain_inv_def)
  show "entry_link E (k_audit m) e \<noteq> []" for e
    using assms(1) by (rule entry_link_nonempty)
qed (rule assms(6))


lemma chain_head_pins_log_witness:
  "let m = audit demo_env 7 Grant ''x'' (with_key demo_env [1] policy_deny_all);
       m' = audit demo_env 7 Grant ''x'' (with_key demo_env [1] policy_permissive)
   in policy m \<noteq> policy m' \<and> audit_log m = audit_log m'"
proof -
  let ?m = "audit demo_env 7 Grant ''x'' (with_key demo_env [1] policy_deny_all)"
  let ?m' = "audit demo_env 7 Grant ''x'' (with_key demo_env [1] policy_permissive)"
  have e: "audit_entry 7 Grant ''x'' (with_key demo_env [1] policy_permissive) =
      audit_entry 7 Grant ''x'' (with_key demo_env [1] policy_deny_all)"
    by (simp add: audit_entry_def with_key_def)
  have k: "k_audit ?m = k_audit ?m'" by (simp add: with_key_def)
  have "audit_log ?m = audit_log ?m'"
  proof (rule chain_head_pins_log [OF demo_mac32 k])
    show "chain_inv demo_env ?m" "chain_inv demo_env ?m'"
      by (intro chain_inv_audit chain_inv_with_key)+
    show "last_hash ?m = last_hash ?m'" using k by (simp add: e)
    show "inj_on (link_of demo_env ?m) (set (audit_log ?m) \<union> set (audit_log ?m'))"
      by (simp add: with_key_def audit_entry_def)
  qed
  then show ?thesis by (simp add: with_key_def policy_deny_all_def policy_permissive_def)
qed

text \<open>Property.  What the chain does not protect: dropping any suffix of a verifying log leaves a log
  that verifies, and so does rewriting the kind, the detail and the time of its last entry; a file
  whose last line was rewritten that way is accepted when it is reopened.\<close>

theorem chain_suffix_unprotected:
  assumes "serde_ok E" "links_ok (entry_link E (k_audit m)) [] (es @ [e])"
    and "audit_log m = []" "last_hash m = []"
    and "length (file_of E (es @ [e\<lparr>sd_kind := k, sd_detail := d, sd_at := t\<rparr>])) \<le> MAX_AUDIT_FILE_BYTES"
  shows "verify_chain E (m\<lparr>audit_log := take n (es @ [e])\<rparr>) = Inr () \<and>
    verify_chain E (m\<lparr>audit_log := es @ [e\<lparr>sd_kind := k, sd_detail := d, sd_at := t\<rparr>]\<rparr>) = Inr () \<and>
    is_ok (with_audit_file E (Inr (file_of E (es @ [e\<lparr>sd_kind := k, sd_detail := d, sd_at := t\<rparr>]))) m)"
proof -
  let ?log = "es @ [e\<lparr>sd_kind := k, sd_detail := d, sd_at := t\<rparr>]"
  have ok: "links_ok (entry_link E (k_audit m)) [] ?log" using assms(2) by simp
  obtain m1 where m1: "load_lines E (map (serialise E) ?log) m = (Inr (), m1)"
    "audit_log m1 = ?log" "k_audit m1 = k_audit m"
    using load_lines_file [OF assms(1), of ?log m] assms(3) by auto
  have "verify_chain E m1 = Inr ()" using ok m1(2,3) by (simp add: verify_chain_iff)
  then have "is_ok (with_audit_file E (Inr (file_of E ?log)) m)"
    using assms(5) m1(1) file_of_utf8 [OF assms(1), of ?log] str_lines_file [OF assms(1), of ?log]
    by (simp add: with_audit_file_def del: map_append)
  moreover have "verify_chain E (m\<lparr>audit_log := take n (es @ [e])\<rparr>) = Inr ()"
    using links_ok_take [OF assms(2)] by (simp add: verify_chain_iff)
  moreover have "verify_chain E (m\<lparr>audit_log := ?log\<rparr>) = Inr ()"
    using ok by (simp add: verify_chain_iff)
  ultimately show ?thesis by blast
qed

lemma chain_suffix_unprotected_witness:
  "\<exists>e. is_ok (with_audit_file demo_env (Inr (file_of demo_env [e\<lparr>sd_kind := Grant, sd_detail := [], sd_at := 0\<rparr>]))
     (with_key demo_env [1] policy_deny_all)) \<and> sd_kind e = Denial"
proof -
  let ?m = "with_key demo_env [1] policy_deny_all"
  let ?e = "\<lparr>sd_kind = Denial, sd_detail = ''x'', sd_at = 5, sd_prev_hash = []\<rparr>"
  have "is_ok (with_audit_file demo_env (Inr (file_of demo_env ([] @ [?e\<lparr>sd_kind := Grant, sd_detail := [], sd_at := 0\<rparr>]))) ?m)"
    by (rule chain_suffix_unprotected [OF demo_serde, where k = Grant and d = "[]" and t = 0, THEN conjunct2, THEN conjunct2])
      (simp_all add: with_key_def file_of_def serialise_def demo_env_def demo_ser_def int_nats_def
        kind_nat_def str_nats_def encode_nats_def MAX_AUDIT_FILE_BYTES_def)
  then show ?thesis by (intro exI [of _ ?e]) simp
qed


text \<open>Property.  The loader's verification accepts a manifest exactly when a safe plugin declares no
  capability and the policy allows every declared one; it records one audit entry, a grant when it
  accepts and a denial when it refuses, and changes neither the policy nor the revoked stamps.\<close>

theorem verify_decides:
  "(is_ok (fst (verify E now mf m)) \<longleftrightarrow>
      (m_class mf = Safe \<longrightarrow> m_capabilities mf = []) \<and>
      (\<forall>cap \<in> set (m_capabilities mf). is_allowed (policy m) cap)) \<and>
   (\<exists>d. snd (verify E now mf m) =
      audit E now (if is_ok (fst (verify E now mf m)) then Grant else Denial) d m) \<and>
   policy (snd (verify E now mf m)) = policy m \<and>
   invalidated (snd (verify E now mf m)) = invalidated m"
  by (auto simp: verify_def find_None_iff find_Some_iff split: option.splits)

lemma verify_decides_witness:
  "\<not> is_ok (fst (verify demo_env 3 \<lparr>m_name = ''x'', m_version = semver_new 0 1 0, m_class = Unsafe,
      m_capabilities = [Git, Shell], m_implements = []\<rparr> (with_key demo_env [1] policy_permissive)))"
  using verify_decides [of demo_env 3 "\<lparr>m_name = ''x'', m_version = semver_new 0 1 0, m_class = Unsafe,
      m_capabilities = [Git, Shell], m_implements = []\<rparr>" "with_key demo_env [1] policy_permissive"]
  by (simp add: is_allowed_def with_key_def policy_permissive_def)

text \<open>Property.  A stamp the module issued stays valid for its content through any later operations,
  and until it is invalidated: it is valid exactly when it was not revoked before and no operation
  revokes it.  A stamp is accepted for another content only if the two have the same HMAC.\<close>

theorem stamp_valid_until_revoked:
  assumes "mac32 E" and "stamp_content E now c m = (st, m1)"
  shows "(is_valid E (sec_run E m1 ops) st c \<longleftrightarrow> st \<notin> invalidated m \<and> OpInvalidate st \<notin> snd ` set ops) \<and>
    (is_valid E (sec_run E m1 ops) st c' \<longrightarrow>
       hmac_sha256 E (k_session m) c' = hmac_sha256 E (k_session m) c)"
proof -
  have st: "st = hmac_sha256 E (k_session m) c" "m1 = audit E now StampIssued (''stamp issued ref='' @ stamp_ref E st) m"
    using assms(2) by (auto simp: stamp_content_def Let_def compute_mac_def mac_with_def)
  then have len: "length st = 32" using assms(1) by (simp add: mac32_def)
  show ?thesis
    using is_valid_iff [OF assms(1) len] st by (auto simp: sec_run_keeps sec_run_revoked)
qed

lemma stamp_valid_until_revoked_witness:
  "let (st, m1) = stamp_content demo_env 1 [7] (with_key demo_env [1] policy_permissive)
   in is_valid demo_env (sec_run demo_env m1 [(2, OpRecord True ''x''), (3, OpStamp [9])]) st [7] \<and>
      \<not> is_valid demo_env (sec_run demo_env m1 [(2, OpInvalidate st)]) st [7]"
proof -
  let ?m = "with_key demo_env [1] policy_permissive"
  obtain st m1 where r: "stamp_content demo_env 1 [7] ?m = (st, m1)" by fastforce
  have "invalidated ?m = {}" by (simp add: with_key_def)
  then show ?thesis
    using stamp_valid_until_revoked [OF demo_mac32 r, of "[(2, OpRecord True ''x''), (3, OpStamp [9])]" "[7]"]
      stamp_valid_until_revoked [OF demo_mac32 r, of "[(2, OpInvalidate st)]" "[7]"] r by simp
qed

text \<open>Property.  A file capability the policy allows names no parent directory and lies at or below one
  of the configured prefixes; the deny-all policy allows no capability at all.\<close>

theorem file_policy_confines:
  "(is_allowed pol (FileRead p) \<longrightarrow> ParentDir \<notin> set (path_components p) \<and>
      (\<exists>pre \<in> set (file_read_prefixes pol). p = trim_end_matches CHR ''/'' pre \<or>
         (\<exists>rest. p = trim_end_matches CHR ''/'' pre @ ''/'' @ rest))) \<and>
   (is_allowed pol (FileWrite p) \<longrightarrow> ParentDir \<notin> set (path_components p) \<and>
      (\<exists>pre \<in> set (file_write_prefixes pol). p = trim_end_matches CHR ''/'' pre \<or>
         (\<exists>rest. p = trim_end_matches CHR ''/'' pre @ ''/'' @ rest))) \<and>
   \<not> is_allowed policy_deny_all cap"
proof -
  have "\<not> is_allowed policy_deny_all cap"
    by (cases cap) (simp_all add: is_allowed_def policy_deny_all_def check_file_path_iff)
  then show ?thesis by (auto simp: is_allowed_def check_file_path_iff dest: contains_parent)
qed

lemma file_policy_confines_witness:
  "is_allowed policy_permissive (FileWrite ''/tmp/x'') \<and> ParentDir \<notin> set (path_components ''/tmp/x'')"
proof -
  have "is_allowed policy_permissive (FileWrite ''/tmp/x'')" by code_simp
  then show ?thesis using file_policy_confines [of policy_permissive "''/tmp/x''" Shell] by blast
qed

lemma sanitize_empty [simp]: "sanitize_detail [] = []"
  by (simp add: sanitize_detail_def of_chars_def chars_def)

text \<open>Claim C15.  Restart: a module that persists every entry can be dropped at any point; a fresh module
  with the same key reads the file back, accepts it, holds the same log and the same chain head,
  and every later operation extends that same verifying chain.\<close>

theorem reopen_resumes_chain:
  assumes "serde_ok E"
    and "run = sec_run E ((with_key E key pol)\<lparr>audit_file := Some []\<rparr>) ops"
    and "audit_file run = Some f" and "length f \<le> MAX_AUDIT_FILE_BYTES"
  shows "\<exists>m'. with_audit_file E (Inr f) (with_key E key pol') = Inr m' \<and>
     audit_log m' = audit_log run \<and> last_hash m' = last_hash run \<and> audit_file m' = Some f \<and>
     verify_chain E (sec_run E m' later) = Inr ()"
proof -
  let ?start = "(with_key E key pol)\<lparr>audit_file := Some []\<rparr>"
  let ?m = "with_key E key pol'"
  have f: "f = file_of E (audit_log run)"
    using assms(3) sec_run_file [of ?start E ops] by (simp add: assms(2)) (simp add: file_of_def)
  have inv: "chain_inv E run" using sec_run_keeps(4) [of E ?start ops]
    by (simp add: assms(2) chain_inv_def)
  have k: "k_audit run = k_audit ?m" by (simp add: assms(2) sec_run_keeps(1))
  obtain m1 where m1: "load_lines E (map (serialise E) (audit_log run)) ?m = (Inr (), m1)"
    "audit_log m1 = audit_log ?m @ audit_log run" "k_audit m1 = k_audit ?m"
    "last_hash m1 = chain_end (link_of E ?m) (last_hash ?m) (audit_log run)"
    using load_lines_file [OF assms(1), of "audit_log run" ?m] by blast
  then have m1': "audit_log m1 = audit_log run" "last_hash m1 = last_hash run" "chain_inv E m1"
    using inv k by (simp_all add: chain_inv_def)
  then have "with_audit_file E (Inr f) ?m = Inr (m1\<lparr>audit_file := Some f\<rparr>)"
    using assms(4) m1(1) file_of_utf8 [OF assms(1)] str_lines_file [OF assms(1)]
    by (simp add: with_audit_file_def f chain_inv_verify_chain)
  moreover have "chain_inv E (m1\<lparr>audit_file := Some f\<rparr>)" using m1'(3) by (simp add: chain_inv_def)
  ultimately show ?thesis using m1' chain_inv_verify_chain [OF sec_run_keeps(4)] by simp
qed

lemma reopen_resumes_chain_witness:
  "\<exists>f m'. with_audit_file demo_env (Inr f) (with_key demo_env [1] policy_deny_all) = Inr m' \<and>
     length (audit_log m') = 1"
proof -
  let ?start = "(with_key demo_env [1] policy_deny_all)\<lparr>audit_file := Some []\<rparr>"
  let ?ops = "[(4, OpRecord True [])]"
  let ?f = "file_of demo_env (audit_log (sec_run demo_env ?start ?ops))"
  have f: "audit_file (sec_run demo_env ?start ?ops) = Some ?f"
    using sec_run_file [of ?start demo_env ?ops] by (simp add: file_of_def)
  have log: "audit_log (sec_run demo_env ?start ?ops) =
      [\<lparr>sd_kind = Grant, sd_detail = [], sd_at = 4, sd_prev_hash = []\<rparr>]"
    by (simp add: sec_run_def record_decision_def audit_entry_def sanitize_empty)
  have "length ?f \<le> MAX_AUDIT_FILE_BYTES"
    unfolding log by (simp add: file_of_def serialise_def demo_env_def demo_ser_def int_nats_def
        kind_nat_def str_nats_def encode_nats_def MAX_AUDIT_FILE_BYTES_def)
  from reopen_resumes_chain [OF demo_serde refl f this, of policy_deny_all "[]"] obtain m'
    where "with_audit_file demo_env (Inr ?f) (with_key demo_env [1] policy_deny_all) = Inr m'"
      "audit_log m' = audit_log (sec_run demo_env ?start ?ops)" by blast
  then show ?thesis using log by (intro exI [of _ ?f] exI [of _ m']) simp
qed

end
