(* ===== verification/Bus.thy ===== *)
theory Bus
  imports Prelude
begin

text \<open>
  The message buses: \<open>core/src/bus.rs\<close> (the bootstrap bus, one channel for everything) and
  \<open>plugin-bus-tokio/src/lib.rs\<close> (one channel per topic, created on first use).

  The broadcast channel is \<^verbatim>\<open>tokio\<close>'s: its three operations are the fields of \<open>broadcast\<close>, with
  \<open>'c\<close> the channel's state and \<open>'r\<close> a receiver.  The topic map of the bus is modelled in full.
\<close>

record 'j event =
  ev_topic :: string
  ev_payload :: 'j

record ('j, 'c, 'r) broadcast =
  bc_channel :: "nat \<Rightarrow> 'c"
  bc_send :: "'j event \<Rightarrow> 'c \<Rightarrow> 'c"
  bc_subscribe :: "'c \<Rightarrow> 'r \<times> 'c"

datatype bus_error = PublishFailed string | NoSubscribers string

subsection \<open>The bootstrap bus\<close>

definition bootstrap_bus_new :: "('j, 'c, 'r) broadcast \<Rightarrow> 'c" where
  "bootstrap_bus_new B = bc_channel B 256"

definition bootstrap_publish :: "('j, 'c, 'r) broadcast \<Rightarrow> 'j event \<Rightarrow> ('c, bus_error, unit) op" where
  "bootstrap_publish B ev sender = (Inr (), bc_send B ev sender)"

definition bootstrap_subscribe :: "('j, 'c, 'r) broadcast \<Rightarrow> string \<Rightarrow> 'c \<Rightarrow> 'r \<times> 'c" where
  "bootstrap_subscribe B topic sender = bc_subscribe B sender"

subsection \<open>The topic bus\<close>

record 'c tokio_bus =
  bus_channels :: "string \<rightharpoonup> 'c"
  bus_capacity :: nat

definition tokio_bus_new :: "nat \<Rightarrow> 'c tokio_bus" where
  "tokio_bus_new cap = \<lparr>bus_channels = Map.empty, bus_capacity = cap\<rparr>"

text \<open>
  \<open>get_or_create_sender\<close>: the sender is a handle on the channel of the topic, which it creates when
  the topic is new.  The model returns the channel and the map that holds it.
\<close>

definition get_or_create_sender :: "('j, 'c, 'r) broadcast \<Rightarrow> string \<Rightarrow> 'c tokio_bus \<Rightarrow> 'c \<times> 'c tokio_bus" where
  "get_or_create_sender B topic b =
     (case bus_channels b topic of
        Some tx \<Rightarrow> (tx, b)
      | None \<Rightarrow>
          (let tx = bc_channel B (bus_capacity b)
           in (tx, b\<lparr>bus_channels := (bus_channels b)(topic \<mapsto> tx)\<rparr>)))"

definition bus_publish :: "('j, 'c, 'r) broadcast \<Rightarrow> 'j event \<Rightarrow> ('c tokio_bus, bus_error, unit) op" where
  "bus_publish B ev b =
     (let (tx, b1) = get_or_create_sender B (ev_topic ev) b
      in (Inr (), b1\<lparr>bus_channels := (bus_channels b1)(ev_topic ev \<mapsto> bc_send B ev tx)\<rparr>))"

definition bus_subscribe :: "('j, 'c, 'r) broadcast \<Rightarrow> string \<Rightarrow> 'c tokio_bus \<Rightarrow> 'r \<times> 'c tokio_bus" where
  "bus_subscribe B topic b =
     (let (tx, b1) = get_or_create_sender B topic b;
          (rx, tx1) = bc_subscribe B tx
      in (rx, b1\<lparr>bus_channels := (bus_channels b1)(topic \<mapsto> tx1)\<rparr>))"

subsection \<open>What a channel carries\<close>

text \<open>
  The documented behaviour of a broadcast channel the bus relies on: some history \<open>sent\<close> of a
  channel is empty when it is created, grows by the event at each send and is left alone by a
  subscription.
\<close>

definition broadcast_ok :: "('j, 'c, 'r) broadcast \<Rightarrow> ('c \<Rightarrow> 'j event list) \<Rightarrow> bool" where
  "broadcast_ok B sent \<longleftrightarrow>
     (\<forall>n. sent (bc_channel B n) = []) \<and>
     (\<forall>e c. sent (bc_send B e c) = sent c @ [e]) \<and>
     (\<forall>c. sent (snd (bc_subscribe B c)) = sent c)"

datatype 'j bus_op = Publish "'j event" | Subscribe string

fun bus_step :: "('j, 'c, 'r) broadcast \<Rightarrow> 'c tokio_bus \<Rightarrow> 'j bus_op \<Rightarrow> 'c tokio_bus" where
  "bus_step B b (Publish ev) = snd (bus_publish B ev b)"
| "bus_step B b (Subscribe t) = snd (bus_subscribe B t b)"

fun published :: "'j bus_op list \<Rightarrow> 'j event list" where
  "published [] = []"
| "published (Publish ev # ops) = ev # published ops"
| "published (Subscribe t # ops) = published ops"

text \<open>The events a topic's channel has carried; none before the channel exists.\<close>

definition carried :: "('c \<Rightarrow> 'j event list) \<Rightarrow> 'c tokio_bus \<Rightarrow> string \<Rightarrow> 'j event list" where
  "carried sent b t = (case bus_channels b t of None \<Rightarrow> [] | Some c \<Rightarrow> sent c)"

lemma carried_publish:
  "broadcast_ok B sent \<Longrightarrow> carried sent (snd (bus_publish B ev b)) t =
     carried sent b t @ (if t = ev_topic ev then [ev] else [])"
  by (auto simp: carried_def bus_publish_def get_or_create_sender_def broadcast_ok_def Let_def
      split: option.splits)

lemma carried_subscribe:
  "broadcast_ok B sent \<Longrightarrow> carried sent (snd (bus_subscribe B u b)) t = carried sent b t"
  by (auto simp: carried_def bus_subscribe_def get_or_create_sender_def broadcast_ok_def Let_def
      split: option.splits prod.splits) (metis snd_conv)+

lemma carried_run:
  assumes "broadcast_ok B sent"
  shows "carried sent (foldl (bus_step B) b ops) t =
     carried sent b t @ filter (\<lambda>ev. ev_topic ev = t) (published ops)"
proof (induction ops arbitrary: b)
  case (Cons x ops)
  then show ?case
    by (cases x) (auto simp: carried_publish [OF assms] carried_subscribe [OF assms])
qed simp

text \<open>A list of the events sent is a channel that meets the contract.\<close>

definition list_channel :: "('j, 'j event list, nat) broadcast" where
  "list_channel = \<lparr>bc_channel = (\<lambda>_. []), bc_send = (\<lambda>e c. c @ [e]), bc_subscribe = (\<lambda>c. (length c, c))\<rparr>"

lemma list_channel_ok: "broadcast_ok list_channel id"
  by (simp add: broadcast_ok_def list_channel_def)

text \<open>Property.  Topic isolation: after any publishes and subscriptions the channel of a topic has
  carried exactly the events published to that topic, in the order they were published.\<close>

theorem topic_isolation:
  assumes "broadcast_ok B sent"
  shows "carried sent (foldl (bus_step B) (tokio_bus_new cap) ops) t =
     filter (\<lambda>ev. ev_topic ev = t) (published ops)"
  using carried_run [OF assms, of "tokio_bus_new cap"] by (simp add: carried_def tokio_bus_new_def)

lemma topic_isolation_witness:
  "carried id (foldl (bus_step list_channel) (tokio_bus_new 8)
     [Subscribe ''a'', Publish \<lparr>ev_topic = ''b'', ev_payload = (1 :: nat)\<rparr>,
      Publish \<lparr>ev_topic = ''a'', ev_payload = 2\<rparr>]) ''a'' = [\<lparr>ev_topic = ''a'', ev_payload = 2\<rparr>]"
  by (simp add: topic_isolation [OF list_channel_ok] del: foldl_Cons)

end
