(* ===== verification/Bootstrap.thy ===== *)
theory Bootstrap
  imports Security Bus
begin

text \<open>
  \<open>core/src/bootstrap.rs\<close>: the fixed boot sequence, and the manifests \<open>src/main.rs\<close> registers.

  \<open>bootstrap_run\<close> takes the random root key, the bus channel operations and the clock (the time at
  which the manifest of a given position is verified).  The plugin factories are opaque and are not
  called by the sequence.
\<close>

datatype bootstrap_error = SecurityInit string | PluginLoad load_error

record ('c) bootstrapped_system =
  bs_security :: security_module
  bs_bus :: 'c
  bs_contract_versions :: contract_versions

fun security_error_str :: "sec_env \<Rightarrow> security_error \<Rightarrow> string" where
  "security_error_str E (IntegrityFailure s) = ''integrity check failed: '' @ s"
| "security_error_str E (CapabilityDenied cap) = ''capability denied: '' @ debug_cap E cap"
| "security_error_str E SafePluginViolation = ''safe plugin declared system capability''"

fun load_error_str :: "load_error \<Rightarrow> string" where
  "load_error_str (ManifestInvalid s) = ''manifest is invalid: '' @ s"
| "load_error_str (IncompatibleContractVersion c required provided) =
     ''incompatible contract version for '' @ c @ '': plugin requires '' @ semver_display required @
     '', core provides '' @ semver_display provided"
| "load_error_str (SecurityRejected s) = ''security rejected: '' @ s"
| "load_error_str SafePluginRequestedCapability = ''safe plugin requested a system capability''"

fun bootstrap_error_str :: "bootstrap_error \<Rightarrow> string" where
  "bootstrap_error_str (SecurityInit s) = ''security init failed: '' @ s"
| "bootstrap_error_str (PluginLoad e) = ''plugin load failed: '' @ load_error_str e"

subsection \<open>The sequence\<close>

fun check_contracts :: "contract_versions \<Rightarrow> (string \<times> semver) list \<Rightarrow> load_error + unit" where
  "check_contracts cv [] = Inr ()"
| "check_contracts cv ((contract, required) # rest) =
     (if \<not> is_compatible cv contract required then
        Inl (IncompatibleContractVersion contract required
          (case cv contract of Some v \<Rightarrow> v | None \<Rightarrow> semver_new 0 0 0))
      else check_contracts cv rest)"

definition load_manifest ::
  "sec_env \<Rightarrow> contract_versions \<Rightarrow> timestamp \<Rightarrow> plugin_manifest \<Rightarrow> (security_module, bootstrap_error, unit) op" where
  "load_manifest E cv now mf =
     bindE (map_err (\<lambda>e. PluginLoad (ManifestInvalid e)) (liftE (validate_name (m_name mf)))) (\<lambda>_.
     bindE (map_err PluginLoad (liftE (check_contracts cv (m_implements mf)))) (\<lambda>_.
     if m_class mf = Safe \<and> m_capabilities mf \<noteq> [] then throwE (PluginLoad SafePluginRequestedCapability)
     else map_err (\<lambda>e. PluginLoad (SecurityRejected (security_error_str E e))) (verify E now mf)))"

fun load_manifests ::
  "sec_env \<Rightarrow> contract_versions \<Rightarrow> (nat \<Rightarrow> timestamp) \<Rightarrow> nat \<Rightarrow> plugin_manifest list \<Rightarrow>
   (security_module, bootstrap_error, unit) op" where
  "load_manifests E cv clock i [] = retE ()"
| "load_manifests E cv clock i (mf # mfs) =
     bindE (load_manifest E cv (clock i) mf) (\<lambda>_. load_manifests E cv clock (Suc i) mfs)"

text \<open>\<open>boot_payload\<close> is the JSON object of the boot-complete event.\<close>

definition bootstrap_run ::
  "sec_env \<Rightarrow> ('j, 'c, 'r) broadcast \<Rightarrow> (nat \<Rightarrow> 'j) \<Rightarrow> bytes \<Rightarrow> (nat \<Rightarrow> timestamp) \<Rightarrow> 'f registry \<Rightarrow>
   bootstrap_error + 'c bootstrapped_system" where
  "bootstrap_run E B boot_payload key clock reg =
     (let security = security_new E key in
      case self_check security of
        Inl e \<Rightarrow> Inl (SecurityInit (security_error_str E e))
      | Inr _ \<Rightarrow>
        (let cv = contracts_v0_1; bus = bootstrap_bus_new B; mfs = manifests reg in
         case load_manifests E cv clock 0 mfs security of
           (Inl e, _) \<Rightarrow> Inl e
         | (Inr _, security1) \<Rightarrow>
             Inr \<lparr>bs_security = security1,
                  bs_bus = snd (bootstrap_publish B
                    \<lparr>ev_topic = ''wyrtloom.boot'', ev_payload = boot_payload (length mfs)\<rparr> bus),
                  bs_contract_versions = cv\<rparr>))"

subsection \<open>The registered plugins\<close>

definition main_registry :: "'f \<Rightarrow> 'f registry" where
  "main_registry unit_factory =
     fold (\<lambda>mf. register mf unit_factory)
       [\<lparr>m_name = ''plugin-kanban-sqlite'', m_version = semver_new 0 2 0, m_class = Unsafe,
         m_capabilities = [FileWrite ''.''], m_implements = [(''wyrtloom.kanban'', semver_new 0 2 0)]\<rparr>,
        \<lparr>m_name = ''plugin-provider-ollama'', m_version = semver_new 0 1 0, m_class = Unsafe,
         m_capabilities = [Network ''localhost''], m_implements = [(''wyrtloom.provider'', semver_new 0 1 0)]\<rparr>,
        \<lparr>m_name = ''plugin-sandbox-wasmtime'', m_version = semver_new 0 1 0, m_class = Safe,
         m_capabilities = [], m_implements = [(''wyrtloom.sandbox'', semver_new 0 1 0)]\<rparr>,
        \<lparr>m_name = ''plugin-logger-sqlite'', m_version = semver_new 0 1 0, m_class = Unsafe,
         m_capabilities = [FileWrite ''.''], m_implements = [(''wyrtloom.logger'', semver_new 0 1 0)]\<rparr>,
        \<lparr>m_name = ''plugin-escalation-cli'', m_version = semver_new 0 1 0, m_class = Safe,
         m_capabilities = [], m_implements = [(''wyrtloom.escalation'', semver_new 0 1 0)]\<rparr>,
        \<lparr>m_name = ''plugin-bus-tokio'', m_version = semver_new 0 1 0, m_class = Safe,
         m_capabilities = [], m_implements = [(''wyrtloom.bus'', semver_new 0 1 0)]\<rparr>]
       registry_new"

subsection \<open>Which manifests load\<close>

definition manifest_loads :: "contract_versions \<Rightarrow> security_policy \<Rightarrow> plugin_manifest \<Rightarrow> bool" where
  "manifest_loads cv pol mf \<longleftrightarrow>
     validate_name (m_name mf) = Inr () \<and>
     list_all (\<lambda>(c, v). is_compatible cv c v) (m_implements mf) \<and>
     (m_class mf = Unsafe \<or> m_capabilities mf = []) \<and>
     list_all (is_allowed pol) (m_capabilities mf)"

lemma check_contracts_iff:
  "check_contracts cv is = Inr () \<longleftrightarrow> list_all (\<lambda>(c, v). is_compatible cv c v) is"
  by (induction cv "is" rule: check_contracts.induct) auto

lemma check_contracts_total:
  "check_contracts cv is = Inl e \<Longrightarrow> \<exists>c v p. e = IncompatibleContractVersion c v p \<and> (c, v) \<in> set is \<and> \<not> is_compatible cv c v"
  by (induction cv "is" rule: check_contracts.induct) (auto split: if_splits)

lemma verify_ok_iff:
  "is_ok (fst (verify E now mf m)) \<longleftrightarrow> (m_class mf = Unsafe \<or> m_capabilities mf = []) \<and>
     list_all (is_allowed (policy m)) (m_capabilities mf)"
  by (cases "m_class mf") (auto simp: verify_def find_None_iff find_Some_iff list_all_iff split: option.splits)

lemma verify_ok_audit:
  "verify E now mf m = (Inr (), m') \<Longrightarrow> \<exists>d. m' = audit E now Grant d m"
  by (auto simp: verify_def split: if_splits option.splits)

lemma load_manifest_ok:
  "is_ok (fst (load_manifest E cv now mf m)) \<longleftrightarrow> manifest_loads cv (policy m) mf"
proof (cases "validate_name (m_name mf)")
  case (Inl e)
  then show ?thesis by (simp add: load_manifest_def manifest_loads_def bindE_def map_err_def)
next
  case name: (Inr u)
  show ?thesis
  proof (cases "check_contracts cv (m_implements mf)")
    case (Inl e)
    then have "\<not> list_all (\<lambda>(c, v). is_compatible cv c v) (m_implements mf)"
      by (simp add: check_contracts_iff [symmetric])
    with Inl name show ?thesis by (simp add: load_manifest_def manifest_loads_def bindE_def map_err_def)
  next
    case (Inr w)
    then have "list_all (\<lambda>(c, v). is_compatible cv c v) (m_implements mf)"
      by (simp add: check_contracts_iff [symmetric])
    with Inr name verify_ok_iff [of E now mf m] show ?thesis
      by (cases "verify E now mf m"; cases "m_class mf")
        (auto simp: load_manifest_def manifest_loads_def bindE_def map_err_def is_ok_iff split: sum.splits)
  qed
qed

lemma load_manifest_Inr:
  "load_manifest E cv now mf m = (Inr u, m') \<Longrightarrow> \<exists>d. m' = audit E now Grant d m"
  by (auto simp: load_manifest_def monadE split: if_splits dest: verify_ok_audit)

lemma load_manifests_spec:
  "(is_ok (fst (load_manifests E cv clock i mfs m)) \<longleftrightarrow> list_all (manifest_loads cv (policy m)) mfs) \<and>
   (is_ok (fst (load_manifests E cv clock i mfs m)) \<longrightarrow>
      (let m' = snd (load_manifests E cv clock i mfs m) in
       map sd_kind (audit_log m') = map sd_kind (audit_log m) @ replicate (length mfs) Grant \<and>
       policy m' = policy m \<and> invalidated m' = invalidated m \<and> (chain_inv E m \<longrightarrow> chain_inv E m')))"
proof (induction mfs arbitrary: i m)
  case (Cons mf mfs)
  obtain r m1 where lm: "load_manifest E cv (clock i) mf m = (r, m1)" by fastforce
  show ?case
  proof (cases r)
    case (Inl e)
    then have "\<not> manifest_loads cv (policy m) mf"
      using load_manifest_ok [of E cv "clock i" mf m] lm by simp
    with Inl lm show ?thesis by (simp add: bindE_def)
  next
    case (Inr u)
    then obtain d where m1: "m1 = audit E (clock i) Grant d m" using lm load_manifest_Inr by blast
    moreover have "manifest_loads cv (policy m) mf"
      using load_manifest_ok [of E cv "clock i" mf m] lm Inr by simp
    ultimately show ?thesis
      using Cons.IH [of "Suc i" m1] lm Inr chain_inv_audit
      by (auto simp: bindE_def Let_def audit_entry_def)
  qed
qed simp

lemma security_new_fields [simp]:
  "audit_log (security_new E key) = []" "policy (security_new E key) = policy_permissive"
  "hmac_key (security_new E key) = key" "invalidated (security_new E key) = {}"
  by (simp_all add: security_new_def)

lemma self_check_new: "is_ok (self_check (security_new E key)) \<longleftrightarrow> key \<noteq> replicate 32 0"
  by (simp add: self_check_def security_new_def) (simp add: with_key_def)

lemma bootstrap_run_spec:
  "(is_ok (bootstrap_run E B pay key clock reg) \<longleftrightarrow>
      key \<noteq> replicate 32 0 \<and> list_all (manifest_loads contracts_v0_1 policy_permissive) (manifests reg)) \<and>
   (bootstrap_run E B pay key clock reg = Inr sys \<longrightarrow>
      map sd_kind (audit_log (bs_security sys)) = replicate (length (manifests reg)) Grant \<and>
      verify_chain E (bs_security sys) = Inr () \<and> policy (bs_security sys) = policy_permissive)"
proof (cases "self_check (security_new E key)")
  case (Inl e)
  then show ?thesis using self_check_new [of E key] by (simp add: bootstrap_run_def)
next
  case (Inr u)
  have inv: "chain_inv E (security_new E key)" by (simp add: security_new_def chain_inv_with_key)
  obtain r m1 where l: "load_manifests E contracts_v0_1 clock 0 (manifests reg) (security_new E key) = (r, m1)"
    by fastforce
  show ?thesis
    using Inr self_check_new [of E key] l inv
      load_manifests_spec [of E contracts_v0_1 clock 0 "manifests reg" "security_new E key"]
    by (cases r) (auto simp: bootstrap_run_def Let_def chain_inv_verify_chain)
qed

lemmas bootstrap_run_ok_iff = bootstrap_run_spec [THEN conjunct1]

lemma bootstrap_run_grants:
  "bootstrap_run E B pay key clock reg = Inr sys \<Longrightarrow> length (audit_log (bs_security sys)) = length (manifests reg)"
  using bootstrap_run_spec [of E B pay key clock reg sys] by (metis length_map length_replicate)

text \<open>Claim C28.  The boot sequence succeeds exactly when the root key is not all zero and every
  registered manifest has a legal name, only implements contract versions the core provides, is not
  a safe plugin with capabilities, and asks only for allowed capabilities.  It then has recorded
  one grant for every manifest and nothing else, in an audit chain that verifies.\<close>

theorem bootstrap_admits_exactly:
  "(is_ok (bootstrap_run E B pay key clock reg) \<longleftrightarrow>
      key \<noteq> replicate 32 0 \<and> list_all (manifest_loads contracts_v0_1 policy_permissive) (manifests reg)) \<and>
   (bootstrap_run E B pay key clock reg = Inr sys \<longrightarrow>
      map sd_kind (audit_log (bs_security sys)) = replicate (length (manifests reg)) Grant \<and>
      verify_chain E (bs_security sys) = Inr () \<and> policy (bs_security sys) = policy_permissive)"
  by (rule bootstrap_run_spec)

text \<open>The six plugins of \<open>main.rs\<close>.\<close>

lemma name_char_ascii:
  assumes "ascii name"
  shows "list_all name_char (chars name) \<longleftrightarrow> list_all (\<lambda>c. name_char (of_char c)) name"
  by (simp add: chars_ascii [OF assms] list_all_iff)

lemma main_names:
  "list_all (\<lambda>mf. validate_name (m_name mf) = Inr ()) (manifests (main_registry u))"
  by (simp add: main_registry_def validate_name_ok_iff name_char_ascii ascii_def name_char_def
      is_ascii_lowercase_def is_ascii_digit_def)

lemma main_capabilities:
  "is_allowed policy_permissive (FileWrite ''.'')" "is_allowed policy_permissive (Network ''localhost'')"
  by code_simp+

lemma main_manifests_load:
  "list_all (manifest_loads contracts_v0_1 policy_permissive) (manifests (main_registry u))"
  using main_names [of u] main_capabilities
  by (simp add: main_registry_def manifest_loads_def is_compatible_def contracts_v0_1_def
      is_compatible_with_def semver_new_def)

lemma bootstrap_admits_exactly_witness:
  "\<exists>sys. bootstrap_run demo_env list_channel id [1] (\<lambda>_. 0) (main_registry ()) = Inr sys \<and>
     map sd_kind (audit_log (bs_security sys)) = replicate 6 Grant"
proof -
  have key: "[1] \<noteq> replicate 32 (0 :: 8 word)" by (simp add: numeral_eq_Suc)
  have "is_ok (bootstrap_run demo_env list_channel id [1] (\<lambda>_. 0) (main_registry ()))"
    using bootstrap_admits_exactly [of demo_env list_channel id "[1]" "\<lambda>_. 0" "main_registry ()"]
      main_manifests_load [of "()"] key by simp
  then obtain sys where sys: "bootstrap_run demo_env list_channel id [1] (\<lambda>_. 0) (main_registry ()) = Inr sys"
    by (auto simp: is_ok_iff)
  moreover have "length (manifests (main_registry ())) = 6" by (simp add: main_registry_def)
  ultimately show ?thesis
    using bootstrap_admits_exactly [of demo_env list_channel id "[1]" "\<lambda>_. 0" "main_registry ()" sys]
    by (intro exI [of _ sys]) simp
qed

end
