(* ===== verification/Kanban.thy ===== *)
theory Kanban
  imports Prelude
begin

text \<open>
  \<open>core/src/kanban.rs\<close>: the task types, the legal transitions and the board contract.

  The trait \<open>KanbanBoard\<close> is the record \<open>kanban_board\<close> of its methods over a board state \<open>'s\<close>; the
  identifier \<open>create\<close> draws and the time a method reads are arguments.  What the contract promises is
  the specification over \<open>board\<close>, a map from identifiers to tasks; the locale \<open>kanban_contract\<close> says
  that an implementation with an invariant and a view as a \<open>board\<close> behaves like it.
\<close>

subsection \<open>Types\<close>

datatype task_state = Backlog | Todo | Ready | Running | Blocked | Done | Archived

datatype blocked_by = ByHuman string | ByDependency uuid

record block_reason =
  br_reason :: string
  br_blocked_by :: blocked_by

record state_change =
  sc_from :: task_state
  sc_to :: task_state
  sc_actor :: string
  sc_at :: timestamp
  sc_reason :: "string option"

record task =
  t_id :: uuid
  t_title :: string
  t_state :: task_state
  t_actor :: "string option"
  t_depends_on :: "uuid list"
  t_block_reason :: "block_reason option"
  t_history :: "state_change list"
  t_created_at :: timestamp

record new_task =
  nt_title :: string
  nt_actor :: string
  nt_depends_on :: "uuid list"

record task_query =
  tq_states :: "task_state list option"
  tq_actor :: "string option"
  tq_limit :: "nat option"

datatype kanban_error =
    IllegalTransition task_state task_state
  | DependenciesNotDone
  | AlreadyClaimed
  | BlockReasonRequired
  | NotFound uuid
  | Storage string

fun is_legal_transition :: "task_state \<Rightarrow> task_state \<Rightarrow> bool" where
  "is_legal_transition Backlog Todo = True"
| "is_legal_transition Todo Ready = True"
| "is_legal_transition Todo Backlog = True"
| "is_legal_transition Ready Running = True"
| "is_legal_transition Ready Backlog = True"
| "is_legal_transition Running Done = True"
| "is_legal_transition Running Blocked = True"
| "is_legal_transition Running Todo = True"
| "is_legal_transition Blocked Running = True"
| "is_legal_transition Blocked Todo = True"
| "is_legal_transition Blocked Done = True"
| "is_legal_transition Done Archived = True"
| "is_legal_transition _ _ = False"

text \<open>\<open>Display\<close> of a state is its derived \<open>Debug\<close> name.\<close>

fun state_str :: "task_state \<Rightarrow> string" where
  "state_str Backlog = ''Backlog''"
| "state_str Todo = ''Todo''"
| "state_str Ready = ''Ready''"
| "state_str Running = ''Running''"
| "state_str Blocked = ''Blocked''"
| "state_str Done = ''Done''"
| "state_str Archived = ''Archived''"

fun kanban_error_str :: "(uuid \<Rightarrow> string) \<Rightarrow> kanban_error \<Rightarrow> string" where
  "kanban_error_str us (IllegalTransition from to) =
     ''illegal transition from '' @ state_str from @ '' to '' @ state_str to"
| "kanban_error_str us DependenciesNotDone = ''task dependencies are not all done''"
| "kanban_error_str us AlreadyClaimed = ''task is already claimed by another worker''"
| "kanban_error_str us BlockReasonRequired = ''a block reason is required for this transition''"
| "kanban_error_str us (NotFound tid) = ''task not found: '' @ us tid"
| "kanban_error_str us (Storage s) = ''storage error: '' @ s"

lemma state_str_inject [simp]: "state_str a = state_str b \<longleftrightarrow> a = b"
  by (cases a; cases b) simp_all

subsection \<open>The trait\<close>

record 's kanban_board =
  kb_create :: "uuid \<Rightarrow> timestamp \<Rightarrow> new_task \<Rightarrow> ('s, kanban_error, uuid) op"
  kb_transition :: "timestamp \<Rightarrow> uuid \<Rightarrow> task_state \<Rightarrow> string \<Rightarrow> string option \<Rightarrow> ('s, kanban_error, unit) op"
  kb_claim :: "uuid \<Rightarrow> string \<Rightarrow> ('s, kanban_error, unit) op"
  kb_get :: "uuid \<Rightarrow> ('s, kanban_error, task) op"
  kb_block :: "timestamp \<Rightarrow> uuid \<Rightarrow> string \<Rightarrow> block_reason \<Rightarrow> ('s, kanban_error, unit) op"
  kb_list :: "task_query \<Rightarrow> ('s, kanban_error, task list) op"

text \<open>The default \<open>list\<close> of a board that cannot enumerate.\<close>

definition default_list :: "task_query \<Rightarrow> ('s, kanban_error, task list) op" where
  "default_list q = throwE (Storage ''enumeration not supported by this board'')"

subsection \<open>The specification\<close>

type_synonym board = "uuid \<rightharpoonup> task"

definition created :: "uuid \<Rightarrow> timestamp \<Rightarrow> new_task \<Rightarrow> task" where
  "created tid now nt =
     \<lparr>t_id = tid, t_title = nt_title nt, t_state = Backlog, t_actor = Some (nt_actor nt),
      t_depends_on = nt_depends_on nt, t_block_reason = None, t_history = [], t_created_at = now\<rparr>"

definition spec_create :: "uuid \<Rightarrow> timestamp \<Rightarrow> new_task \<Rightarrow> (board, kanban_error, uuid) op" where
  "spec_create tid now nt b = (Inr tid, b(tid \<mapsto> created tid now nt))"

definition spec_get :: "uuid \<Rightarrow> (board, kanban_error, task) op" where
  "spec_get tid b = (ok_or (NotFound tid) (b tid), b)"

text \<open>The dependencies are looked at in order; the first that is missing or not done is reported.\<close>

fun deps_done :: "board \<Rightarrow> uuid list \<Rightarrow> kanban_error + unit" where
  "deps_done b [] = Inr ()"
| "deps_done b (d # ds) =
     (case b d of
        None \<Rightarrow> Inl (NotFound d)
      | Some t \<Rightarrow> if t_state t \<noteq> Done then Inl DependenciesNotDone else deps_done b ds)"

definition moved :: "timestamp \<Rightarrow> task_state \<Rightarrow> string \<Rightarrow> string option \<Rightarrow> task \<Rightarrow> task" where
  "moved now to actor reason t =
     t\<lparr>t_state := to, t_actor := None,
       t_history := t_history t @ [\<lparr>sc_from = t_state t, sc_to = to, sc_actor = actor, sc_at = now, sc_reason = reason\<rparr>]\<rparr>"

definition spec_transition ::
  "timestamp \<Rightarrow> uuid \<Rightarrow> task_state \<Rightarrow> string \<Rightarrow> string option \<Rightarrow> (board, kanban_error, unit) op" where
  "spec_transition now tid to actor reason b =
     (case b tid of
        None \<Rightarrow> (Inl (NotFound tid), b)
      | Some t \<Rightarrow>
          if \<not> is_legal_transition (t_state t) to then (Inl (IllegalTransition (t_state t) to), b)
          else (case (if to = Ready then deps_done b (t_depends_on t) else Inr ()) of
              Inl e \<Rightarrow> (Inl e, b)
            | Inr _ \<Rightarrow> (Inr (), b(tid \<mapsto> moved now to actor reason t))))"

definition spec_claim :: "uuid \<Rightarrow> string \<Rightarrow> (board, kanban_error, unit) op" where
  "spec_claim tid worker b =
     (case b tid of
        Some t \<Rightarrow>
          if t_actor t = None \<and> t_state t = Ready then (Inr (), b(tid \<mapsto> t\<lparr>t_actor := Some worker\<rparr>))
          else (Inl AlreadyClaimed, b)
      | None \<Rightarrow> (Inl AlreadyClaimed, b))"

definition blocked :: "timestamp \<Rightarrow> string \<Rightarrow> block_reason \<Rightarrow> task \<Rightarrow> task" where
  "blocked now actor br t =
     t\<lparr>t_state := Blocked, t_block_reason := Some br,
       t_history := t_history t @ [\<lparr>sc_from = t_state t, sc_to = Blocked, sc_actor = actor, sc_at = now,
         sc_reason = Some (br_reason br)\<rparr>]\<rparr>"

definition spec_block :: "timestamp \<Rightarrow> uuid \<Rightarrow> string \<Rightarrow> block_reason \<Rightarrow> (board, kanban_error, unit) op" where
  "spec_block now tid actor br b =
     (case b tid of
        None \<Rightarrow> (Inl (NotFound tid), b)
      | Some t \<Rightarrow>
          if \<not> is_legal_transition (t_state t) Blocked then (Inl (IllegalTransition (t_state t) Blocked), b)
          else (Inr (), b(tid \<mapsto> blocked now actor br t)))"

datatype kanban_op =
    KCreate uuid timestamp new_task
  | KTransition timestamp uuid task_state string "string option"
  | KClaim uuid string
  | KBlock timestamp uuid string block_reason

fun spec_step :: "kanban_op \<Rightarrow> board \<Rightarrow> board" where
  "spec_step (KCreate tid now nt) b = snd (spec_create tid now nt b)"
| "spec_step (KTransition now tid to a r) b = snd (spec_transition now tid to a r b)"
| "spec_step (KClaim tid w) b = snd (spec_claim tid w b)"
| "spec_step (KBlock now tid a br) b = snd (spec_block now tid a br b)"

fun board_step :: "'s kanban_board \<Rightarrow> kanban_op \<Rightarrow> 's \<Rightarrow> 's" where
  "board_step K (KCreate tid now nt) s = snd (kb_create K tid now nt s)"
| "board_step K (KTransition now tid to a r) s = snd (kb_transition K now tid to a r s)"
| "board_step K (KClaim tid w) s = snd (kb_claim K tid w s)"
| "board_step K (KBlock now tid a br) s = snd (kb_block K now tid a br s)"

text \<open>The identifiers a run creates are fresh: version-4 UUIDs do not repeat.\<close>

fun fresh_run :: "kanban_op list \<Rightarrow> uuid set \<Rightarrow> bool" where
  "fresh_run [] used = True"
| "fresh_run (KCreate tid now nt # ops) used = (tid \<notin> used \<and> fresh_run ops (insert tid used))"
| "fresh_run (_ # ops) used = fresh_run ops used"

subsection \<open>Invariants of the specification\<close>

text \<open>The history is a path of legal transitions from \<open>Backlog\<close> to the current state.\<close>

fun path_ok :: "task_state \<Rightarrow> state_change list \<Rightarrow> task_state \<Rightarrow> bool" where
  "path_ok s [] e = (s = e)"
| "path_ok s (c # cs) e = (sc_from c = s \<and> is_legal_transition s (sc_to c) \<and> path_ok (sc_to c) cs e)"

lemma path_ok_snoc:
  "path_ok s cs e \<Longrightarrow> sc_from c = e \<Longrightarrow> is_legal_transition e (sc_to c) \<Longrightarrow> path_ok s (cs @ [c]) (sc_to c)"
  by (induction cs arbitrary: s) auto

definition settled :: "board \<Rightarrow> uuid \<Rightarrow> bool" where
  "settled b d \<longleftrightarrow> (case b d of None \<Rightarrow> False | Some t \<Rightarrow> t_state t = Done \<or> t_state t = Archived)"

definition released :: "task_state \<Rightarrow> bool" where
  "released st \<longleftrightarrow> st \<noteq> Backlog \<and> st \<noteq> Todo"

definition board_ok :: "board \<Rightarrow> bool" where
  "board_ok b \<longleftrightarrow>
     (\<forall>tid t. b tid = Some t \<longrightarrow>
        t_id t = tid \<and> path_ok Backlog (t_history t) (t_state t) \<and>
        (released (t_state t) \<longrightarrow> list_all (settled b) (t_depends_on t)))"

lemma deps_done_ok: "deps_done b ds = Inr () \<Longrightarrow> list_all (settled b) ds"
  by (induction b ds rule: deps_done.induct) (auto simp: settled_def split: option.splits if_splits)

text \<open>A task that is done or archived stays so, and no transition releases a task but \<open>Todo\<close> to \<open>Ready\<close>.\<close>

lemma legal_settled:
  "is_legal_transition s t \<Longrightarrow> s = Done \<or> s = Archived \<Longrightarrow> t = Done \<or> t = Archived"
  by (cases s; cases t) simp_all

lemma legal_released: "is_legal_transition s t \<Longrightarrow> released t \<Longrightarrow> t \<noteq> Ready \<Longrightarrow> released s"
  by (cases s; cases t) (simp_all add: released_def)

lemma settled_mono:
  assumes "settled b d" "\<And>t. b tid = Some t \<Longrightarrow> is_legal_transition (t_state t) (t_state u) \<or> t_state u = t_state t"
    and "b tid \<noteq> None"
  shows "settled (b(tid \<mapsto> u)) d"
proof -
  obtain t where "b tid = Some t" using assms(3) by blast
  then show ?thesis
    using assms(1,2) legal_settled [of "t_state t" "t_state u"]
    by (cases "d = tid") (auto simp: settled_def split: option.splits)
qed

lemma board_ok_task:
  assumes "board_ok b" "b tid = Some t"
  shows "t_id t = tid" "path_ok Backlog (t_history t) (t_state t)"
    "released (t_state t) \<Longrightarrow> list_all (settled b) (t_depends_on t)"
  using assms by (auto simp: board_ok_def)

lemma path_ok_change:
  "path_ok Backlog cs e \<Longrightarrow> is_legal_transition e to \<Longrightarrow>
   path_ok Backlog (cs @ [\<lparr>sc_from = e, sc_to = to, sc_actor = a, sc_at = now, sc_reason = r\<rparr>]) to"
  using path_ok_snoc [of Backlog cs e "\<lparr>sc_from = e, sc_to = to, sc_actor = a, sc_at = now, sc_reason = r\<rparr>"]
  by simp

lemma board_ok_update:
  assumes ok: "board_ok b" and t: "b tid = Some t"
    and u: "t_id u = tid" "t_depends_on u = t_depends_on t" "path_ok Backlog (t_history u) (t_state u)"
      "is_legal_transition (t_state t) (t_state u) \<or> t_state u = t_state t"
    and rel: "t_state u = Ready \<Longrightarrow> t_state t \<noteq> Ready \<Longrightarrow> list_all (settled b) (t_depends_on t)"
  shows "board_ok (b(tid \<mapsto> u))"
  unfolding board_ok_def
proof (intro allI impI)
  fix i v
  assume v: "(b(tid \<mapsto> u)) i = Some v"
  have mono: "list_all (settled b) ds \<Longrightarrow> list_all (settled (b(tid \<mapsto> u))) ds" for ds
    using settled_mono [of b _ tid u] t u(4) by (auto simp: list_all_iff)
  have "released (t_state u) \<Longrightarrow> list_all (settled b) (t_depends_on t)"
    using ok t u(4) rel legal_released [of "t_state t" "t_state u"]
    by (cases "t_state u = Ready"; cases "t_state t = Ready") (auto simp: board_ok_def released_def)
  then show "t_id v = i \<and> path_ok Backlog (t_history v) (t_state v) \<and>
      (released (t_state v) \<longrightarrow> list_all (settled (b(tid \<mapsto> u))) (t_depends_on v))"
    using v u mono ok by (cases "i = tid") (auto simp: board_ok_def)
qed

lemma board_ok_create:
  assumes "board_ok b" "b tid = None"
  shows "board_ok (b(tid \<mapsto> created tid now nt))"
proof -
  have "settled (b(tid \<mapsto> created tid now nt)) d" if "settled b d" for d
    using that assms(2) by (auto simp: settled_def split: option.splits)
  then show ?thesis using assms(1)
    by (auto simp: board_ok_def created_def released_def list_all_iff)
qed

lemma board_ok_transition:
  assumes "board_ok b"
  shows "board_ok (snd (spec_transition now tid to a r b))"
proof (cases "\<exists>t. b tid = Some t \<and> spec_transition now tid to a r b = (Inr (), b(tid \<mapsto> moved now to a r t))")
  case True
  then obtain t where t: "b tid = Some t" "spec_transition now tid to a r b = (Inr (), b(tid \<mapsto> moved now to a r t))"
    by blast
  then have legal: "is_legal_transition (t_state t) to"
    and deps: "to = Ready \<Longrightarrow> deps_done b (t_depends_on t) = Inr ()"
    by (auto simp: spec_transition_def split: if_splits sum.splits)
  then have "board_ok (b(tid \<mapsto> moved now to a r t))"
    using board_ok_task [OF assms t(1)] deps_done_ok
    by (intro board_ok_update [OF assms t(1)]) (auto simp: moved_def path_ok_change)
  then show ?thesis using t(2) by simp
next
  case False
  then have "snd (spec_transition now tid to a r b) = b"
    by (auto simp: spec_transition_def split: option.splits sum.splits if_splits)
  then show ?thesis using assms by simp
qed

lemma board_ok_block:
  assumes "board_ok b"
  shows "board_ok (snd (spec_block now tid a br b))"
  using assms board_ok_task [OF assms]
  by (auto simp: spec_block_def blocked_def path_ok_change split: option.splits intro!: board_ok_update)

lemma board_ok_claim:
  assumes "board_ok b"
  shows "board_ok (snd (spec_claim tid w b))"
proof -
  have "board_ok (b(tid \<mapsto> t\<lparr>t_actor := Some w\<rparr>))" if "b tid = Some t" for t
    using board_ok_task [OF assms that] by (intro board_ok_update [OF assms that]) auto
  then show ?thesis using assms by (auto simp: spec_claim_def split: option.splits)
qed

lemma dom_spec_step:
  "dom (spec_step c b) = dom b \<union> (case c of KCreate tid now nt \<Rightarrow> {tid} | _ \<Rightarrow> {})"
  by (cases c) (auto simp: spec_create_def spec_transition_def spec_claim_def spec_block_def
      split: option.splits sum.splits if_splits)

lemma board_ok_step:
  assumes "board_ok b" "fresh_run (c # ops) used" "dom b \<subseteq> used"
  shows "board_ok (spec_step c b)"
proof (cases c)
  case (KCreate tid now nt)
  then have "b tid = None" using assms(2,3) by auto
  then show ?thesis using KCreate assms(1) by (simp add: spec_create_def board_ok_create)
qed (simp_all add: assms(1) board_ok_transition board_ok_claim board_ok_block)

lemma board_ok_run:
  "board_ok b \<Longrightarrow> fresh_run ops used \<Longrightarrow> dom b \<subseteq> used \<Longrightarrow> board_ok (fold spec_step ops b)"
proof (induction ops arbitrary: b used)
  case (Cons c ops)
  let ?used = "case c of KCreate tid now nt \<Rightarrow> insert tid used | _ \<Rightarrow> used"
  have "board_ok (spec_step c b)" by (rule board_ok_step [OF Cons.prems])
  moreover have "fresh_run ops ?used" using Cons.prems(2) by (cases c) auto
  moreover have "dom (spec_step c b) \<subseteq> ?used" using Cons.prems(3) unfolding dom_spec_step by (cases c) auto
  ultimately show ?case using Cons.IH by simp
qed simp

lemma board_ok_empty [simp]: "board_ok Map.empty"
  by (simp add: board_ok_def)

subsection \<open>Claims\<close>

fun moves :: "uuid \<Rightarrow> kanban_op \<Rightarrow> bool" where
  "moves tid (KTransition now i to a r) = (i = tid)"
| "moves tid (KCreate i now nt) = (i = tid)"
| "moves tid _ = False"

definition held :: "board \<Rightarrow> uuid \<Rightarrow> string \<Rightarrow> bool" where
  "held b tid w \<longleftrightarrow> (case b tid of None \<Rightarrow> False | Some t \<Rightarrow> t_actor t = Some w)"

lemma claimed_step:
  "held b tid w \<Longrightarrow> \<not> moves tid c \<Longrightarrow>
   held (spec_step c b) tid w"
  by (cases c) (auto simp: held_def spec_create_def spec_transition_def spec_claim_def spec_block_def blocked_def
      split: option.splits sum.splits)

lemma claimed_run:
  "held b tid w \<Longrightarrow> list_all (\<lambda>c. \<not> moves tid c) ops \<Longrightarrow>
   held (fold spec_step ops b) tid w"
  by (induction ops arbitrary: b) (simp_all add: claimed_step)

lemma claimed_refuses:
  "held b tid w \<Longrightarrow> fst (spec_claim tid v b) = Inl AlreadyClaimed"
  by (auto simp: held_def spec_claim_def split: option.splits)

lemma claim_takes: "fst (spec_claim tid w b) = Inr () \<Longrightarrow> held (snd (spec_claim tid w b)) tid w"
  by (auto simp: held_def spec_claim_def split: option.splits if_splits)

subsection \<open>The contract\<close>

text \<open>
  A board implementation \<open>K\<close> with states in \<open>inv\<close>: each method answers and moves the view as the
  specification does, and keeps \<open>inv\<close>.
\<close>

locale kanban_contract =
  fixes K :: "'s kanban_board"
    and inv :: "'s \<Rightarrow> bool"
    and view :: "'s \<Rightarrow> board"
  assumes create_law: "inv s \<Longrightarrow> tid \<notin> dom (view s) \<Longrightarrow> kb_create K tid now nt s = (r, s') \<Longrightarrow>
      inv s' \<and> (r, view s') = spec_create tid now nt (view s)"
    and transition_law: "inv s \<Longrightarrow> kb_transition K now tid to a why s = (q, s') \<Longrightarrow>
      inv s' \<and> (q, view s') = spec_transition now tid to a why (view s)"
    and claim_law: "inv s \<Longrightarrow> kb_claim K tid w s = (q, s') \<Longrightarrow>
      inv s' \<and> (q, view s') = spec_claim tid w (view s)"
    and block_law: "inv s \<Longrightarrow> kb_block K now tid a br s = (q, s') \<Longrightarrow>
      inv s' \<and> (q, view s') = spec_block now tid a br (view s)"
    and get_law: "inv s \<Longrightarrow> kb_get K tid s = (g, s') \<Longrightarrow> inv s' \<and> (g, view s') = spec_get tid (view s)"
begin

lemma step_view:
  assumes "inv s" "fresh_run (c # ops) (dom (view s))"
  shows "inv (board_step K c s)" "view (board_step K c s) = spec_step c (view s)"
proof -
  have "inv (board_step K c s) \<and> view (board_step K c s) = spec_step c (view s)"
  proof (cases c)
    case (KCreate tid now nt)
    then show ?thesis using create_law [OF assms(1), of tid now nt] assms(2)
      by (cases "kb_create K tid now nt s") (metis board_step.simps(1) fresh_run.simps(2) snd_conv spec_step.simps(1))
  next
    case (KTransition now tid to a r)
    then show ?thesis using transition_law [OF assms(1), of now tid to a r]
      by (cases "kb_transition K now tid to a r s") (metis board_step.simps(2) snd_conv spec_step.simps(2))
  next
    case (KClaim tid w)
    then show ?thesis using claim_law [OF assms(1), of tid w]
      by (cases "kb_claim K tid w s") (metis board_step.simps(3) snd_conv spec_step.simps(3))
  next
    case (KBlock now tid a br)
    then show ?thesis using block_law [OF assms(1), of now tid a br]
      by (cases "kb_block K now tid a br s") (metis board_step.simps(4) snd_conv spec_step.simps(4))
  qed
  then show "inv (board_step K c s)" "view (board_step K c s) = spec_step c (view s)" by simp_all
qed

lemma run_view:
  "inv s \<Longrightarrow> fresh_run ops (dom (view s)) \<Longrightarrow>
   inv (fold (board_step K) ops s) \<and> view (fold (board_step K) ops s) = fold spec_step ops (view s)"
proof (induction ops arbitrary: s)
  case (Cons c ops)
  have "fresh_run ops (dom (spec_step c (view s)))"
    using Cons.prems(2) unfolding dom_spec_step by (cases c) simp_all
  then show ?case using step_view [OF Cons.prems] Cons.IH [of "board_step K c s"] by simp
qed simp

text \<open>Every task's history is a legal path to its state, and a released task's dependencies are settled.\<close>

lemma run_board_ok:
  "inv s \<Longrightarrow> board_ok (view s) \<Longrightarrow> fresh_run ops (dom (view s)) \<Longrightarrow>
   board_ok (view (fold (board_step K) ops s))"
  using run_view board_ok_run by fastforce

text \<open>While nothing moves a claimed task, nobody else can claim it.\<close>

lemma claim_exclusive:
  assumes "inv s" "kb_claim K tid w s = (Inr (), s1)"
    and "fresh_run ops (dom (view s1))" "list_all (\<lambda>c. \<not> moves tid c) ops"
  shows "fst (kb_claim K tid v (fold (board_step K) ops s1)) = Inl AlreadyClaimed"
proof -
  have s1: "inv s1" "(Inr (), view s1) = spec_claim tid w (view s)" using claim_law [OF assms(1,2)] by auto
  let ?s2 = "fold (board_step K) ops s1"
  have s2: "inv ?s2" "view ?s2 = fold spec_step ops (view s1)" using run_view [OF s1(1) assms(3)] by auto
  have "held (view s1) tid w"
    using claim_takes [of tid w "view s"] s1(2) by (metis fst_conv snd_conv)
  then have "held (view ?s2) tid w"
    using claimed_run assms(4) by (simp add: s2(2))
  then have "fst (spec_claim tid v (view ?s2)) = Inl AlreadyClaimed" by (rule claimed_refuses)
  then show ?thesis using claim_law [OF s2(1), of tid v] by (metis fst_conv prod.collapse)
qed

end

end
