(* ===== verification/Sqlite.thy ===== *)
theory Sqlite
  imports Demo_Codec
begin

text \<open>
  The SQLite connection the storage plugins keep behind a mutex, as far as they use it.

  \<open>'db\<close> is the content of the tables.  \<open>c_saved\<close> holds the content to return to while a transaction
  is open.  Any statement may fail (disk full, I/O error, busy): \<open>c_faults\<close> lists, statement by
  statement, the extended error code of a failure or \<open>None\<close>; beyond its end statements succeed.
  A failed \<open>COMMIT\<close> leaves the transaction open (\<open>Some False\<close> in \<open>c_commits\<close>, as on \<^verbatim>\<open>SQLITE_BUSY\<close>)
  or rolls it back (\<open>Some True\<close>, as on an I/O error).  A statement that fails has no effect on the
  tables, and \<open>BEGIN\<close> inside an open transaction is an error.

  The text forms of UUIDs and timestamps are third-party codecs: the fields of \<open>codec\<close>.
\<close>

record 'db conn =
  c_poisoned :: bool
  c_db :: 'db
  c_saved :: "'db option"
  c_faults :: "int option list"
  c_commits :: "bool option list"

definition conn_new :: "'db \<Rightarrow> 'db conn" where
  "conn_new db = \<lparr>c_poisoned = False, c_db = db, c_saved = None, c_faults = [], c_commits = []\<rparr>"

text \<open>A connection outside a transaction, for one statement, with the failures in store for it.\<close>

definition conn_with :: "'db \<Rightarrow> int option list \<Rightarrow> 'db conn" where
  "conn_with db faults = (conn_new db)\<lparr>c_faults := faults\<rparr>"

lemma conn_with_simps [simp]:
  "c_db (conn_with db fs) = db" "c_saved (conn_with db fs) = None" "\<not> c_poisoned (conn_with db fs)"
  "c_faults (conn_with db fs) = fs" "c_commits (conn_with db fs) = []" "(conn_with db fs)\<lparr>c_faults := []\<rparr> = conn_new db"
  by (simp_all add: conn_with_def conn_new_def)

datatype rusqlite_error = InvalidPath string | SqliteFailure int

type_synonym ('db, 'a) sql = "('db conn, int, 'a) op"

text \<open>One step that may fail without an effect.\<close>

definition sql_fault :: "('db, unit) sql" where
  "sql_fault c =
     (case c_faults c of
        [] \<Rightarrow> (Inr (), c)
      | None # fs \<Rightarrow> (Inr (), c\<lparr>c_faults := fs\<rparr>)
      | Some code # fs \<Rightarrow> (Inl code, c\<lparr>c_faults := fs\<rparr>))"

text \<open>A statement: it reads the tables, or changes them (\<open>Inl\<close> a constraint violation).\<close>

definition sql_read :: "('db \<Rightarrow> 'a) \<Rightarrow> ('db, 'a) sql" where
  "sql_read f = bindE sql_fault (\<lambda>_ c. (Inr (f (c_db c)), c))"

definition sql_exec :: "('db \<Rightarrow> int + 'a \<times> 'db) \<Rightarrow> ('db, 'a) sql" where
  "sql_exec f = bindE sql_fault (\<lambda>_ c.
     case f (c_db c) of Inl code \<Rightarrow> (Inl code, c) | Inr (a, db) \<Rightarrow> (Inr a, c\<lparr>c_db := db\<rparr>))"

definition begin_immediate :: "('db, unit) sql" where
  "begin_immediate = bindE sql_fault (\<lambda>_ c.
     case c_saved c of
       None \<Rightarrow> (Inr (), c\<lparr>c_saved := Some (c_db c)\<rparr>)
     | Some _ \<Rightarrow> (Inl 1, c))"

definition sql_commit :: "('db, unit) sql" where
  "sql_commit c =
     (case c_commits c of
        Some rolled_back # cs \<Rightarrow>
          (Inl 5, if rolled_back then
               c\<lparr>c_commits := cs, c_db := (case c_saved c of None \<Rightarrow> c_db c | Some db \<Rightarrow> db), c_saved := None\<rparr>
             else c\<lparr>c_commits := cs\<rparr>)
      | cs \<Rightarrow> (Inr (), c\<lparr>c_commits := tl cs, c_saved := None\<rparr>))"

text \<open>
  A rollback fails when no transaction is open, for example when SQLite has ended it itself after an error; an open
  one it ends.  Either way the tables are those of before, so that the code drops its result loses nothing.
\<close>

definition sql_rollback :: "('db, unit) sql" where
  "sql_rollback c =
     (case c_saved c of
        None \<Rightarrow> (Inl 1, c)
      | Some db \<Rightarrow> (Inr (), c\<lparr>c_db := db, c_saved := None\<rparr>))"

text \<open>\<open>conn.lock()\<close>: a poisoned mutex is an error.\<close>

definition lock_conn :: "'e \<Rightarrow> ('db conn, 'e, unit) op" where
  "lock_conn e c = (if c_poisoned c then (Inl e, c) else (Inr (), c))"

subsection \<open>Connections without pending faults\<close>

definition healthy :: "'db conn \<Rightarrow> bool" where
  "healthy c \<longleftrightarrow> \<not> c_poisoned c \<and> c_saved c = None \<and> c_faults c = [] \<and> c_commits c = []"

lemma healthy_new [simp]: "healthy (conn_new db)" "c_db (conn_new db) = db"
  by (simp_all add: healthy_def conn_new_def)

lemma sql_fault_none [simp]: "c_faults c = [] \<Longrightarrow> sql_fault c = (Inr (), c)"
  by (simp add: sql_fault_def)

lemma sql_read_none [simp]: "c_faults c = [] \<Longrightarrow> sql_read f c = (Inr (f (c_db c)), c)"
  by (simp add: sql_read_def bindE_def)

lemma sql_exec_none [simp]:
  "c_faults c = [] \<Longrightarrow> sql_exec f c =
     (case f (c_db c) of Inl code \<Rightarrow> (Inl code, c) | Inr (a, db) \<Rightarrow> (Inr a, c\<lparr>c_db := db\<rparr>))"
  by (simp add: sql_exec_def bindE_def)

lemma begin_none [simp]:
  "c_faults c = [] \<Longrightarrow> c_saved c = None \<Longrightarrow> begin_immediate c = (Inr (), c\<lparr>c_saved := Some (c_db c)\<rparr>)"
  by (simp add: begin_immediate_def bindE_def)

lemma lock_conn_free [simp]: "\<not> c_poisoned c \<Longrightarrow> lock_conn e c = (Inr (), c)"
  by (simp add: lock_conn_def)

subsection \<open>Frames\<close>

text \<open>A read changes nothing but the pending faults; inside a transaction the saved content stays.\<close>

definition same_data :: "'db conn \<Rightarrow> 'db conn \<Rightarrow> bool" where
  "same_data c c' \<longleftrightarrow> c_db c' = c_db c \<and> c_saved c' = c_saved c \<and> c_poisoned c' = c_poisoned c \<and>
     c_commits c' = c_commits c \<and> (\<exists>n. c_faults c' = drop n (c_faults c))"

definition same_tx :: "'db conn \<Rightarrow> 'db conn \<Rightarrow> bool" where
  "same_tx c c' \<longleftrightarrow> c_saved c' = c_saved c \<and> c_poisoned c' = c_poisoned c \<and> c_commits c' = c_commits c \<and>
     (\<exists>n. c_faults c' = drop n (c_faults c))"

lemma same_data_refl [simp]: "same_data c c"
  unfolding same_data_def by (simp, rule exI [of _ 0], simp)

lemma same_data_trans: "same_data a b \<Longrightarrow> same_data b c \<Longrightarrow> same_data a c"
  by (auto simp: same_data_def)

lemma same_tx_refl [simp]: "same_tx c c"
  unfolding same_tx_def by (simp, rule exI [of _ 0], simp)

lemma same_tx_trans: "same_tx a b \<Longrightarrow> same_tx b c \<Longrightarrow> same_tx a c"
  by (auto simp: same_tx_def)

lemma same_data_tx: "same_data a b \<Longrightarrow> same_tx a b"
  by (simp add: same_data_def same_tx_def)

lemma reflp_same [frame]: "reflp same_data" "transp same_data" "reflp same_tx" "transp same_tx"
  by (auto simp: reflp_def transp_def intro: same_data_trans same_tx_trans)

lemma keeps_tx: "keeps same_data m \<Longrightarrow> keeps same_tx m"
  by (simp add: keeps_def same_data_tx)

lemma same_data_fault: "same_data c (snd (sql_fault c))"
proof (cases "c_faults c")
  case (Cons f fs)
  then have "\<exists>n. fs = drop n (c_faults c)" by (intro exI [of _ 1]) simp
  then show ?thesis using Cons by (cases f) (auto simp: sql_fault_def same_data_def)
qed (simp add: sql_fault_def)

lemma keeps_sql_fault [frame]: "keeps same_data sql_fault"
  by (simp add: keeps_def same_data_fault)

lemma keeps_sql_read [frame]: "keeps same_data (sql_read f)"
proof -
  have "keeps same_data (\<lambda>c. (Inr (f (c_db c)), c))" by (simp add: keeps_def)
  then show ?thesis unfolding sql_read_def by (intro frame) auto
qed

lemma same_tx_db [simp]: "same_tx c (c\<lparr>c_db := db\<rparr>)"
  unfolding same_tx_def by (simp, rule exI [of _ 0], simp)

lemma keeps_sql_exec [frame]: "keeps same_tx (sql_exec f)"
proof -
  have "keeps same_tx (\<lambda>c. case f (c_db c) of Inl code \<Rightarrow> (Inl code, c) | Inr (a, db) \<Rightarrow> (Inr a, c\<lparr>c_db := db\<rparr>))"
    by (auto simp: keeps_def split: sum.splits prod.splits)
  then show ?thesis unfolding sql_exec_def by (intro frame keeps_tx [OF keeps_sql_fault]) auto
qed

lemma sql_read_Inr: "sql_read f c = (Inr a, c') \<Longrightarrow> a = f (c_db c) \<and> same_data c c'"
  using keepsD [OF keeps_sql_read] keepsD [OF keeps_sql_fault, of c]
  by (auto simp: sql_read_def monadE same_data_def)

subsection \<open>Success does not depend on the faults\<close>

text \<open>
  A run that succeeds met no fault: it is the run without any.  The rules of \<open>robustE\<close> prove this
  for a composed operation.
\<close>

named_theorems robustE "operations whose successful runs are fault-free runs"

definition robust :: "('db conn, 'e, 'a) op \<Rightarrow> bool" where
  "robust m \<longleftrightarrow> (\<forall>c a c'. m c = (Inr a, c') \<longrightarrow> m (c\<lparr>c_faults := []\<rparr>) = (Inr a, c'\<lparr>c_faults := []\<rparr>))"

lemma robustD: "robust m \<Longrightarrow> m c = (Inr a, c') \<Longrightarrow> m (c\<lparr>c_faults := []\<rparr>) = (Inr a, c'\<lparr>c_faults := []\<rparr>)"
  by (simp add: robust_def)

lemma robust_basic [robustE]: "robust (retE a)" "robust (throwE e)" "robust (liftE r)" "robust (Pair q)"
  by (simp_all add: robust_def)

lemma robust_bindE [robustE]: "robust m \<Longrightarrow> (\<And>a. robust (f a)) \<Longrightarrow> robust (bindE m f)"
  unfolding robust_def bindE_Inr by blast

lemma robust_map_err [robustE]: "robust m \<Longrightarrow> robust (map_err g m)"
  unfolding robust_def map_err_Inr by blast

lemma robust_mapE [robustE]: "(\<And>x. robust (f x)) \<Longrightarrow> robust (mapE f xs)"
proof -
  assume f: "\<And>x. robust (f x)"
  show ?thesis by (induction xs) (unfold mapE.simps, intro robustE, intro robustE f)
qed

lemma robust_sql_fault [robustE]: "robust sql_fault"
  by (auto simp: robust_def sql_fault_def split: list.splits option.splits)

lemma robust_sql_read [robustE]: "robust (sql_read f)"
proof -
  have "robust (\<lambda>c. (Inr (f (c_db c)), c))" by (simp add: robust_def)
  then show ?thesis unfolding sql_read_def by (intro robustE)
qed

lemma robust_sql_exec [robustE]: "robust (sql_exec f)"
proof -
  have "robust (\<lambda>c. case f (c_db c) of Inl code \<Rightarrow> (Inl code, c) | Inr (a, db) \<Rightarrow> (Inr a, c\<lparr>c_db := db\<rparr>))"
    by (auto simp: robust_def split: sum.splits prod.splits)
  then show ?thesis unfolding sql_exec_def by (intro robustE)
qed

subsection \<open>Text codecs\<close>

record codec =
  uuid_str :: "uuid \<Rightarrow> string"
  parse_uuid :: "string \<Rightarrow> uuid option"
  ts_str :: "timestamp \<Rightarrow> string"
  parse_ts :: "string \<Rightarrow> timestamp option"

text \<open>
  What the code relies on of \<^verbatim>\<open>uuid\<close> and \<^verbatim>\<open>chrono\<close>: the text forms parse back to the value.  RFC 3339 has
  texts for the years 0 to 9999 only, so \<open>codec_ok\<close> idealises: its results are about stores whose times are of these years, which
  readings of a clock are; a caller could also pass another time.
\<close>

definition codec_ok :: "'a codec_scheme \<Rightarrow> bool" where
  "codec_ok cdc \<longleftrightarrow> (\<forall>u. parse_uuid cdc (uuid_str cdc u) = Some u) \<and> (\<forall>t. parse_ts cdc (ts_str cdc t) = Some t)"

lemma codec_okD [simp]:
  "codec_ok cdc \<Longrightarrow> parse_uuid cdc (uuid_str cdc u) = Some u"
  "codec_ok cdc \<Longrightarrow> parse_ts cdc (ts_str cdc t) = Some t"
  by (simp_all add: codec_ok_def)

lemma uuid_str_inject [simp]: "codec_ok cdc \<Longrightarrow> uuid_str cdc u = uuid_str cdc v \<longleftrightarrow> u = v"
  by (metis codec_okD(1) option.inject)

definition demo_uuid_str :: "uuid \<Rightarrow> string" where
  "demo_uuid_str u = encode_nats [unat u]"

definition demo_parse_uuid :: "string \<Rightarrow> uuid option" where
  "demo_parse_uuid s = (case decode_nats 0 s of [n] \<Rightarrow> Some (of_nat n) | _ \<Rightarrow> None)"

definition demo_ts_str :: "timestamp \<Rightarrow> string" where
  "demo_ts_str t = encode_nats (int_nats t)"

definition demo_parse_ts :: "string \<Rightarrow> timestamp option" where
  "demo_parse_ts s = (case decode_nats 0 s of [sg, a] \<Rightarrow> Some (nats_int [sg, a]) | _ \<Rightarrow> None)"

definition demo_codec :: codec where
  "demo_codec = \<lparr>uuid_str = demo_uuid_str, parse_uuid = demo_parse_uuid,
     ts_str = demo_ts_str, parse_ts = demo_parse_ts\<rparr>"

lemma demo_codec_roundtrips [simp]:
  "demo_parse_uuid (demo_uuid_str u) = Some u" "demo_parse_ts (demo_ts_str t) = Some t"
  using nats_int_nats [of t] by (simp_all add: demo_parse_uuid_def demo_uuid_str_def demo_parse_ts_def
      demo_ts_str_def int_nats_def)

lemma demo_codec_ok: "codec_ok demo_codec"
  by (simp add: codec_ok_def demo_codec_def)

end
