(* ===== verification/Kanban_Sqlite.thy ===== *)
theory Kanban_Sqlite
  imports Kanban Sqlite
begin

text \<open>
  \<open>plugin-kanban-sqlite/src/lib.rs\<close>: the board stored in two SQLite tables.

  The rows are the columns of the \<open>CREATE TABLE\<close> statements, text where the code stores text; the
  autoincremented key of \<open>history\<close> is the position in the list.  The JSON forms of the dependency
  list and of a block reason are \<^verbatim>\<open>serde_json\<close>'s: they are fields of \<open>kanban_codec\<close>.

  Results: without faults the plugin refines the specification of \<open>Kanban\<close> (the interpretation
  \<open>sqlite_board\<close>); with faults a method either has its whole effect or none.
\<close>

record task_row =
  tr_id :: string
  tr_title :: string
  tr_state :: string
  tr_actor :: "string option"
  tr_depends_on :: string
  tr_block_reason :: "string option"
  tr_created_at :: string

record history_row =
  hr_task_id :: string
  hr_from :: string
  hr_to :: string
  hr_actor :: string
  hr_at :: string
  hr_reason :: "string option"

record kanban_db =
  k_tasks :: "task_row list"
  k_history :: "history_row list"

record kanban_codec = codec +
  ser_deps :: "uuid list \<Rightarrow> string option"
  parse_deps :: "string \<Rightarrow> uuid list option"
  ser_reason :: "block_reason \<Rightarrow> string option"
  parse_reason :: "string \<Rightarrow> block_reason option"

type_synonym 'a kanban_io = "(kanban_db conn, kanban_error, 'a) op"

subsection \<open>Opening\<close>

text \<open>
  A database file has each table or lacks it; \<open>CREATE TABLE IF NOT EXISTS\<close> adds an empty one.
  \<open>connect\<close> is \<open>Connection::open\<close>; the in-memory database is empty.
\<close>

definition kanban_init_schema :: "int option \<Rightarrow> task_row list option \<times> history_row list option \<Rightarrow> rusqlite_error + kanban_db" where
  "kanban_init_schema fault tables =
     (case fault of
        Some code \<Rightarrow> Inl (SqliteFailure code)
      | None \<Rightarrow> Inr \<lparr>k_tasks = (case fst tables of None \<Rightarrow> [] | Some rs \<Rightarrow> rs),
                     k_history = (case snd tables of None \<Rightarrow> [] | Some hs \<Rightarrow> hs)\<rparr>)"

definition kanban_open ::
  "(string \<Rightarrow> int + (task_row list option \<times> history_row list option)) \<Rightarrow> int option \<Rightarrow> string \<Rightarrow>
   rusqlite_error + kanban_db conn" where
  "kanban_open connect fault path =
     (case (if path = '':memory:'' then Inr (None, None)
            else case validate_db_path path of
              Inl e \<Rightarrow> Inl (InvalidPath e)
            | Inr _ \<Rightarrow> (case connect path of Inl code \<Rightarrow> Inl (SqliteFailure code) | Inr t \<Rightarrow> Inr t)) of
        Inl e \<Rightarrow> Inl e
      | Inr tables \<Rightarrow>
          (case kanban_init_schema fault tables of Inl e \<Rightarrow> Inl e | Inr db \<Rightarrow> Inr (conn_new db)))"

definition kanban_lock :: "unit kanban_io" where
  "kanban_lock = lock_conn (Storage ''lock poisoned'')"

definition state_from_str :: "string \<Rightarrow> task_state option" where
  "state_from_str s =
     (if s = ''Backlog'' then Some Backlog
      else if s = ''Todo'' then Some Todo
      else if s = ''Ready'' then Some Ready
      else if s = ''Running'' then Some Running
      else if s = ''Blocked'' then Some Blocked
      else if s = ''Done'' then Some Done
      else if s = ''Archived'' then Some Archived
      else None)"

lemma state_from_str_str [simp]: "state_from_str (state_str st) = Some st"
  by (cases st) (simp_all add: state_from_str_def)

lemma state_str_from: "state_from_str s = Some st \<Longrightarrow> s = state_str st"
  by (auto simp: state_from_str_def split: if_splits)

definition coded :: "string \<Rightarrow> int \<Rightarrow> kanban_error" where
  "coded what code = Storage (what @ '' (code '' @ int_str code @ '')'')"

definition sqlio :: "string \<Rightarrow> (kanban_db, 'a) sql \<Rightarrow> 'a kanban_io" where
  "sqlio what m = map_err (coded what) m"

subsection \<open>Reading a task\<close>

definition history_change :: "'x kanban_codec_scheme \<Rightarrow> history_row \<Rightarrow> state_change kanban_io" where
  "history_change cdc h =
     bindE (sqlio ''row read'' sql_fault) (\<lambda>_.
     bindE (liftE (ok_or (Storage (''integrity error: unknown from_state '' @ quoted (hr_from h)))
       (state_from_str (hr_from h)))) (\<lambda>from.
     bindE (liftE (ok_or (Storage (''integrity error: unknown to_state '' @ quoted (hr_to h)))
       (state_from_str (hr_to h)))) (\<lambda>to.
     bindE (liftE (ok_or (Storage (''integrity error: malformed timestamp '' @ quoted (hr_at h)))
       (parse_ts cdc (hr_at h)))) (\<lambda>at_time.
     retE \<lparr>sc_from = from, sc_to = to, sc_actor = hr_actor h, sc_at = at_time, sc_reason = hr_reason h\<rparr>))))"

definition parse_block :: "'x kanban_codec_scheme \<Rightarrow> string option \<Rightarrow> kanban_error + block_reason option" where
  "parse_block cdc j =
     (case j of
        None \<Rightarrow> Inr None
      | Some s \<Rightarrow> (case parse_reason cdc s of
            None \<Rightarrow> Inl (Storage ''integrity error: malformed block_reason'')
          | Some br \<Rightarrow> Inr (Some br)))"

definition get_inner :: "'x kanban_codec_scheme \<Rightarrow> uuid \<Rightarrow> task kanban_io" where
  "get_inner cdc tid =
     bindE (sqlio ''query failed'' (sql_read (\<lambda>db. find (\<lambda>r. tr_id r = uuid_str cdc tid) (k_tasks db)))) (\<lambda>row.
     case row of
       None \<Rightarrow> throwE (NotFound tid)
     | Some r \<Rightarrow>
         bindE (liftE (ok_or (Storage (''integrity error: unknown state '' @ quoted (tr_state r)))
           (state_from_str (tr_state r)))) (\<lambda>state.
         bindE (liftE (ok_or (Storage ''integrity error: malformed depends_on'')
           (parse_deps cdc (tr_depends_on r)))) (\<lambda>deps.
         bindE (liftE (parse_block cdc (tr_block_reason r))) (\<lambda>block.
         bindE (sqlio ''prepare failed'' sql_fault) (\<lambda>_.
         bindE (sqlio ''history query'' (sql_read (\<lambda>db.
           filter (\<lambda>h. hr_task_id h = uuid_str cdc tid) (k_history db)))) (\<lambda>rows.
         bindE (mapE (history_change cdc) rows) (\<lambda>history.
         bindE (liftE (ok_or (Storage (''integrity error: malformed created_at '' @ quoted (tr_created_at r)))
           (parse_ts cdc (tr_created_at r)))) (\<lambda>created_at.
         retE \<lparr>t_id = tid, t_title = tr_title r, t_state = state, t_actor = tr_actor r,
               t_depends_on = deps, t_block_reason = block, t_history = history,
               t_created_at = created_at\<rparr>))))))))"

subsection \<open>The methods\<close>

text \<open>\<open>INSERT INTO tasks\<close>: the primary key must be new (error 1555).\<close>

definition insert_task :: "task_row \<Rightarrow> kanban_db \<Rightarrow> int + unit \<times> kanban_db" where
  "insert_task r db =
     (if tr_id r \<in> tr_id ` set (k_tasks db) then Inl 1555
      else Inr ((), db\<lparr>k_tasks := k_tasks db @ [r]\<rparr>))"

definition insert_history :: "history_row \<Rightarrow> kanban_db \<Rightarrow> int + unit \<times> kanban_db" where
  "insert_history h db = Inr ((), db\<lparr>k_history := k_history db @ [h]\<rparr>)"

definition update_tasks :: "(task_row \<Rightarrow> bool) \<Rightarrow> (task_row \<Rightarrow> task_row) \<Rightarrow> kanban_db \<Rightarrow> int + nat \<times> kanban_db" where
  "update_tasks P f db =
     Inr (length (filter P (k_tasks db)), db\<lparr>k_tasks := update_where P f (k_tasks db)\<rparr>)"

definition kanban_create :: "'x kanban_codec_scheme \<Rightarrow> uuid \<Rightarrow> timestamp \<Rightarrow> new_task \<Rightarrow> uuid kanban_io" where
  "kanban_create cdc tid now nt =
     bindE kanban_lock (\<lambda>_.
     bindE (liftE (ok_or (Storage ''serialisation failed'') (ser_deps cdc (nt_depends_on nt)))) (\<lambda>depends_json.
     bindE (sqlio ''insert failed'' (sql_exec (insert_task
       \<lparr>tr_id = uuid_str cdc tid, tr_title = nt_title nt, tr_state = ''Backlog'', tr_actor = Some (nt_actor nt),
        tr_depends_on = depends_json, tr_block_reason = None, tr_created_at = ts_str cdc now\<rparr>))) (\<lambda>_.
     retE tid)))"

fun check_deps :: "'x kanban_codec_scheme \<Rightarrow> uuid list \<Rightarrow> unit kanban_io" where
  "check_deps cdc [] = retE ()"
| "check_deps cdc (d # ds) =
     bindE (get_inner cdc d) (\<lambda>dep.
       if t_state dep \<noteq> Done then throwE DependenciesNotDone else check_deps cdc ds)"

definition transition_inner ::
  "'x kanban_codec_scheme \<Rightarrow> timestamp \<Rightarrow> uuid \<Rightarrow> task_state \<Rightarrow> string \<Rightarrow> string option \<Rightarrow> unit kanban_io" where
  "transition_inner cdc now tid to actor reason =
     bindE (get_inner cdc tid) (\<lambda>t.
       if \<not> is_legal_transition (t_state t) to then throwE (IllegalTransition (t_state t) to)
       else
         bindE (if to = Ready \<and> t_depends_on t \<noteq> [] then check_deps cdc (t_depends_on t) else retE ()) (\<lambda>_.
         bindE (sqlio ''update failed'' (sql_exec (update_tasks (\<lambda>r. tr_id r = uuid_str cdc tid)
           (\<lambda>r. r\<lparr>tr_state := state_str to, tr_actor := None\<rparr>)))) (\<lambda>_.
         bindE (sqlio ''history insert'' (sql_exec (insert_history
           \<lparr>hr_task_id = uuid_str cdc tid, hr_from = state_str (t_state t), hr_to = state_str to,
            hr_actor = actor, hr_at = ts_str cdc now, hr_reason = reason\<rparr>))) (\<lambda>_.
         retE ()))))"

definition block_inner ::
  "'x kanban_codec_scheme \<Rightarrow> timestamp \<Rightarrow> uuid \<Rightarrow> string \<Rightarrow> block_reason \<Rightarrow> unit kanban_io" where
  "block_inner cdc now tid actor br =
     bindE (get_inner cdc tid) (\<lambda>t.
       if \<not> is_legal_transition (t_state t) Blocked then throwE (IllegalTransition (t_state t) Blocked)
       else
         bindE (liftE (ok_or (Storage ''serialisation failed'') (ser_reason cdc br))) (\<lambda>reason_json.
         bindE (sqlio ''block update'' (sql_exec (update_tasks (\<lambda>r. tr_id r = uuid_str cdc tid)
           (\<lambda>r. r\<lparr>tr_state := ''Blocked'', tr_block_reason := Some reason_json\<rparr>)))) (\<lambda>_.
         bindE (sqlio ''history insert'' (sql_exec (insert_history
           \<lparr>hr_task_id = uuid_str cdc tid, hr_from = state_str (t_state t), hr_to = ''Blocked'',
            hr_actor = actor, hr_at = ts_str cdc now, hr_reason = Some (br_reason br)\<rparr>))) (\<lambda>_.
         retE ()))))"

text \<open>The transaction around a body: the results of \<open>COMMIT\<close> and \<open>ROLLBACK\<close> are dropped.\<close>

definition in_transaction :: "'a kanban_io \<Rightarrow> 'a kanban_io" where
  "in_transaction m =
     bindE kanban_lock (\<lambda>_.
     bindE (sqlio ''begin tx'' begin_immediate) (\<lambda>_ c.
       let (r, c1) = m c in
       case r of
         Inr a \<Rightarrow> (Inr a, snd (sql_commit c1))
       | Inl e \<Rightarrow> (Inl e, snd (sql_rollback c1))))"

definition kanban_transition ::
  "'x kanban_codec_scheme \<Rightarrow> timestamp \<Rightarrow> uuid \<Rightarrow> task_state \<Rightarrow> string \<Rightarrow> string option \<Rightarrow> unit kanban_io" where
  "kanban_transition cdc now tid to actor reason = in_transaction (transition_inner cdc now tid to actor reason)"

definition kanban_block ::
  "'x kanban_codec_scheme \<Rightarrow> timestamp \<Rightarrow> uuid \<Rightarrow> string \<Rightarrow> block_reason \<Rightarrow> unit kanban_io" where
  "kanban_block cdc now tid actor br = in_transaction (block_inner cdc now tid actor br)"

definition kanban_claim :: "'x kanban_codec_scheme \<Rightarrow> uuid \<Rightarrow> string \<Rightarrow> unit kanban_io" where
  "kanban_claim cdc tid worker =
     bindE kanban_lock (\<lambda>_.
     bindE (sqlio ''claim failed'' (sql_exec (update_tasks
       (\<lambda>r. tr_id r = uuid_str cdc tid \<and> tr_actor r = None \<and> tr_state r = ''Ready'')
       (\<lambda>r. r\<lparr>tr_actor := Some worker\<rparr>)))) (\<lambda>rows.
     if rows = 0 then throwE AlreadyClaimed else retE ()))"

definition kanban_get :: "'x kanban_codec_scheme \<Rightarrow> uuid \<Rightarrow> task kanban_io" where
  "kanban_get cdc tid = bindE kanban_lock (\<lambda>_. get_inner cdc tid)"

definition listed_id :: "'x kanban_codec_scheme \<Rightarrow> task_row \<Rightarrow> uuid kanban_io" where
  "listed_id cdc r =
     bindE (sqlio ''row read'' sql_fault) (\<lambda>_.
     liftE (ok_or (Storage ''integrity error: malformed task id'') (parse_uuid cdc (tr_id r))))"

definition matches_query :: "task_query \<Rightarrow> task \<Rightarrow> bool" where
  "matches_query q t \<longleftrightarrow>
     (case tq_states q of None \<Rightarrow> True | Some sts \<Rightarrow> t_state t \<in> set sts) \<and>
     (case tq_actor q of None \<Rightarrow> True | Some a \<Rightarrow> t_actor t = Some a)"

fun list_loop :: "'x kanban_codec_scheme \<Rightarrow> task_query \<Rightarrow> task list \<Rightarrow> uuid list \<Rightarrow> task list kanban_io" where
  "list_loop cdc q out [] = retE out"
| "list_loop cdc q out (i # is) =
     bindE (get_inner cdc i) (\<lambda>t.
       if \<not> matches_query q t then list_loop cdc q out is
       else let out1 = out @ [t] in
         (case tq_limit q of
            Some limit \<Rightarrow> if length out1 \<ge> limit then retE out1 else list_loop cdc q out1 is
          | None \<Rightarrow> list_loop cdc q out1 is))"

definition kanban_list :: "'x kanban_codec_scheme \<Rightarrow> task_query \<Rightarrow> task list kanban_io" where
  "kanban_list cdc q =
     bindE kanban_lock (\<lambda>_.
     bindE (sqlio ''list prepare'' sql_fault) (\<lambda>_.
     bindE (sqlio ''list query'' (sql_read (\<lambda>db.
       sort_key (\<lambda>r. (tr_created_at r, tr_id r)) (k_tasks db)))) (\<lambda>rows.
     bindE (mapE (listed_id cdc) rows) (\<lambda>ids.
     list_loop cdc q [] ids))))"

definition sqlite_kanban :: "'x kanban_codec_scheme \<Rightarrow> kanban_db conn kanban_board" where
  "sqlite_kanban cdc =
     \<lparr>kb_create = kanban_create cdc, kb_transition = kanban_transition cdc, kb_claim = kanban_claim cdc,
      kb_get = kanban_get cdc, kb_block = kanban_block cdc, kb_list = kanban_list cdc\<rparr>"


subsection \<open>Well-formed tables and the board they hold\<close>

text \<open>What the code relies on of \<^verbatim>\<open>serde_json\<close>: both JSON forms exist and parse back.\<close>

definition kan_ok :: "'x kanban_codec_scheme \<Rightarrow> bool" where
  "kan_ok cdc \<longleftrightarrow> codec_ok cdc \<and>
     (\<forall>ds. \<exists>s. ser_deps cdc ds = Some s \<and> parse_deps cdc s = Some ds) \<and>
     (\<forall>br. \<exists>s. ser_reason cdc br = Some s \<and> parse_reason cdc s = Some br)"

definition wf_row :: "'x kanban_codec_scheme \<Rightarrow> task_row \<Rightarrow> bool" where
  "wf_row cdc r \<longleftrightarrow>
     (\<exists>tid. tr_id r = uuid_str cdc tid) \<and> state_from_str (tr_state r) \<noteq> None \<and>
     parse_deps cdc (tr_depends_on r) \<noteq> None \<and> is_ok (parse_block cdc (tr_block_reason r)) \<and>
     parse_ts cdc (tr_created_at r) \<noteq> None"

definition wf_hist :: "'x kanban_codec_scheme \<Rightarrow> history_row \<Rightarrow> bool" where
  "wf_hist cdc h \<longleftrightarrow> state_from_str (hr_from h) \<noteq> None \<and> state_from_str (hr_to h) \<noteq> None \<and>
     parse_ts cdc (hr_at h) \<noteq> None"

definition wf_db :: "'x kanban_codec_scheme \<Rightarrow> kanban_db \<Rightarrow> bool" where
  "wf_db cdc db \<longleftrightarrow> distinct (map tr_id (k_tasks db)) \<and> (\<forall>r \<in> set (k_tasks db). wf_row cdc r) \<and>
     (\<forall>h \<in> set (k_history db). wf_hist cdc h \<and> hr_task_id h \<in> tr_id ` set (k_tasks db))"

definition decode_change :: "'x kanban_codec_scheme \<Rightarrow> history_row \<Rightarrow> state_change" where
  "decode_change cdc h =
     \<lparr>sc_from = the (state_from_str (hr_from h)), sc_to = the (state_from_str (hr_to h)),
      sc_actor = hr_actor h, sc_at = the (parse_ts cdc (hr_at h)), sc_reason = hr_reason h\<rparr>"

definition task_rows :: "'x kanban_codec_scheme \<Rightarrow> uuid \<Rightarrow> kanban_db \<Rightarrow> history_row list" where
  "task_rows cdc tid db = filter (\<lambda>h. hr_task_id h = uuid_str cdc tid) (k_history db)"

definition decode_row :: "'x kanban_codec_scheme \<Rightarrow> history_row list \<Rightarrow> uuid \<Rightarrow> task_row \<Rightarrow> task" where
  "decode_row cdc hist tid r =
     \<lparr>t_id = tid, t_title = tr_title r, t_state = the (state_from_str (tr_state r)),
      t_actor = tr_actor r, t_depends_on = the (parse_deps cdc (tr_depends_on r)),
      t_block_reason = (case parse_block cdc (tr_block_reason r) of Inl _ \<Rightarrow> None | Inr b \<Rightarrow> b),
      t_history = map (decode_change cdc) hist,
      t_created_at = the (parse_ts cdc (tr_created_at r))\<rparr>"

definition row_of :: "'x kanban_codec_scheme \<Rightarrow> uuid \<Rightarrow> kanban_db \<Rightarrow> task_row option" where
  "row_of cdc tid db = find (\<lambda>r. tr_id r = uuid_str cdc tid) (k_tasks db)"

definition board_of :: "'x kanban_codec_scheme \<Rightarrow> kanban_db \<Rightarrow> board" where
  "board_of cdc db = (\<lambda>tid. map_option (decode_row cdc (task_rows cdc tid db) tid) (row_of cdc tid db))"

lemma kan_okD:
  assumes "kan_ok cdc"
  shows "codec_ok cdc"
    and "\<exists>s. ser_deps cdc ds = Some s \<and> parse_deps cdc s = Some ds"
    and "\<exists>s. ser_reason cdc br = Some s \<and> parse_reason cdc s = Some br"
  using assms by (auto simp: kan_ok_def)

lemma row_of_wf: "wf_db cdc db \<Longrightarrow> row_of cdc tid db = Some r \<Longrightarrow> wf_row cdc r \<and> tr_id r = uuid_str cdc tid \<and> r \<in> set (k_tasks db)"
  by (auto simp: row_of_def wf_db_def find_Some_iff)

lemma row_of_None: "row_of cdc tid db = None \<longleftrightarrow> uuid_str cdc tid \<notin> tr_id ` set (k_tasks db)"
  by (force simp: row_of_def find_None_iff)

lemma history_change_none:
  "c_faults c = [] \<Longrightarrow> wf_hist cdc h \<Longrightarrow> history_change cdc h c = (Inr (decode_change cdc h), c)"
  by (auto simp: history_change_def wf_hist_def decode_change_def bindE_def sqlio_def map_err_def)

lemma history_changes_none:
  "c_faults c = [] \<Longrightarrow> \<forall>h \<in> set hs. wf_hist cdc h \<Longrightarrow>
   mapE (history_change cdc) hs c = (Inr (map (decode_change cdc) hs), c)"
  by (induction hs) (simp_all add: history_change_none bindE_def)

lemma get_inner_none:
  assumes "wf_db cdc (c_db c)" "c_faults c = []"
  shows "get_inner cdc tid c = (ok_or (NotFound tid) (board_of cdc (c_db c) tid), c)"
proof (cases "row_of cdc tid (c_db c)")
  case None
  then show ?thesis using assms(2)
    by (simp add: get_inner_def bindE_def sqlio_def map_err_def board_of_def row_of_def)
next
  case (Some r)
  have h: "\<forall>h \<in> set (task_rows cdc tid (c_db c)). wf_hist cdc h"
    using assms(1) by (auto simp: wf_db_def task_rows_def)
  show ?thesis
    using row_of_wf [OF assms(1) Some] Some assms(2) history_changes_none [OF assms(2) h]
    by (auto simp: get_inner_def bindE_def sqlio_def map_err_def board_of_def row_of_def wf_row_def
        decode_row_def is_ok_iff task_rows_def)
qed

lemma check_deps_none:
  assumes "wf_db cdc (c_db c)" "c_faults c = []"
  shows "check_deps cdc ds c = (deps_done (board_of cdc (c_db c)) ds, c)"
  by (induction ds) (auto simp: bindE_def get_inner_none [OF assms] split: option.splits)

subsection \<open>Effects of the statements on the board\<close>

lemma board_of_insert:
  fixes now :: timestamp
  assumes "kan_ok cdc" "wf_db cdc db" "row_of cdc tid db = None"
    and "parse_deps cdc deps = Some (nt_depends_on nt)"
  defines "r \<equiv> \<lparr>tr_id = uuid_str cdc tid, tr_title = nt_title nt, tr_state = ''Backlog'',
     tr_actor = Some (nt_actor nt), tr_depends_on = deps, tr_block_reason = None, tr_created_at = ts_str cdc now\<rparr>"
  shows "insert_task r db = Inr ((), db\<lparr>k_tasks := k_tasks db @ [r]\<rparr>)"
    and "wf_db cdc (db\<lparr>k_tasks := k_tasks db @ [r]\<rparr>)"
    and "board_of cdc (db\<lparr>k_tasks := k_tasks db @ [r]\<rparr>) = (board_of cdc db)(tid \<mapsto> created tid now nt)"
proof -
  note ok = kan_okD(1) [OF assms(1)]
  have new: "uuid_str cdc tid \<notin> tr_id ` set (k_tasks db)" using assms(3) by (simp add: row_of_None)
  then show "insert_task r db = Inr ((), db\<lparr>k_tasks := k_tasks db @ [r]\<rparr>)"
    by (simp add: insert_task_def r_def)
  have wfr: "wf_row cdc r" using ok assms(4)
    by (auto simp: r_def wf_row_def parse_block_def state_from_str_def)
  then show "wf_db cdc (db\<lparr>k_tasks := k_tasks db @ [r]\<rparr>)"
    using assms(2) new by (auto simp: wf_db_def r_def)
  have hist: "task_rows cdc tid db = []"
    using assms(2) new by (force simp: task_rows_def wf_db_def filter_empty_conv)
  have rows: "row_of cdc i (db\<lparr>k_tasks := k_tasks db @ [r]\<rparr>) = (if i = tid then Some r else row_of cdc i db)" for i
    using ok assms(3) by (auto simp: row_of_def r_def find_snoc split: option.splits)
  show "board_of cdc (db\<lparr>k_tasks := k_tasks db @ [r]\<rparr>) = (board_of cdc db)(tid \<mapsto> created tid now nt)"
  proof
    fix i
    show "board_of cdc (db\<lparr>k_tasks := k_tasks db @ [r]\<rparr>) i = ((board_of cdc db)(tid \<mapsto> created tid now nt)) i"
      using ok assms(4) hist
      by (simp add: board_of_def rows task_rows_def)
        (simp add: decode_row_def r_def created_def parse_block_def state_from_str_def)
  qed
qed

text \<open>One row rewritten, keeping its id, and possibly one history row for it appended.\<close>

lemma board_of_rewrite:
  assumes "kan_ok cdc" "wf_db cdc db" "row_of cdc tid db = Some r0"
    and f: "\<And>r. tr_id (f r) = tr_id r" "Q r0" "wf_row cdc (f r0)"
    and hs: "\<forall>h \<in> set hs. wf_hist cdc h \<and> hr_task_id h = uuid_str cdc tid"
  defines "db' \<equiv> db\<lparr>k_tasks := update_where (\<lambda>r. tr_id r = uuid_str cdc tid \<and> Q r) f (k_tasks db), k_history := k_history db @ hs\<rparr>"
  shows "wf_db cdc db'"
    and "board_of cdc db' = (board_of cdc db)(tid \<mapsto> decode_row cdc (task_rows cdc tid db @ hs) tid (f r0))"
proof -
  note ok = kan_okD(1) [OF assms(1)]
  have uniq: "r = r0" if "r \<in> set (k_tasks db)" "tr_id r = uuid_str cdc tid" for r
    using that assms(2) row_of_wf [OF assms(2,3)] by (auto simp: wf_db_def distinct_map inj_on_def)
  have keys: "map tr_id (k_tasks db') = map tr_id (k_tasks db)"
    using f(1) by (simp add: db'_def map_update_where)
  have "wf_row cdc r" if "r \<in> set (k_tasks db')" for r
    using that uniq f assms(2) by (auto simp: db'_def update_where_def wf_db_def split: if_splits)
  moreover have "uuid_str cdc tid \<in> tr_id ` set (k_tasks db)"
    using row_of_wf [OF assms(2,3)] by force
  moreover have "tr_id ` set (k_tasks db') = tr_id ` set (k_tasks db)"
    using arg_cong [OF keys, of set] by simp
  moreover have "set (k_history db') = set (k_history db) \<union> set hs" by (simp add: db'_def)
  ultimately show "wf_db cdc db'"
    using assms(2) hs unfolding wf_db_def keys by fastforce
  have rows: "row_of cdc i db' = map_option (\<lambda>r. if i = tid then f r else r) (row_of cdc i db)" for i
  proof -
    have "row_of cdc i db' = map_option (\<lambda>r. if i = tid \<and> Q r then f r else r) (row_of cdc i db)"
      using find_update_where [of tr_id f "uuid_str cdc i" "uuid_str cdc tid" Q "k_tasks db"] f(1) ok
      by (simp add: row_of_def db'_def cong: conj_cong)
    then show ?thesis using assms(3) f(2) by (cases "i = tid") (auto cong: option.map_cong)
  qed
  have hist: "task_rows cdc i db' = task_rows cdc i db @ (if i = tid then hs else [])" for i
    using hs ok by (auto simp: task_rows_def db'_def filter_empty_conv)
  show "board_of cdc db' = (board_of cdc db)(tid \<mapsto> decode_row cdc (task_rows cdc tid db @ hs) tid (f r0))"
    using assms(3) by (auto simp: board_of_def rows hist fun_eq_iff option.map_ident)
qed


subsection \<open>Refinement of the specification\<close>

lemma decode_moved:
  assumes "kan_ok cdc" "wf_row cdc r"
  shows "decode_row cdc (hist @ [\<lparr>hr_task_id = uuid_str cdc tid,
       hr_from = state_str (t_state (decode_row cdc hist tid r)), hr_to = state_str to,
       hr_actor = actor, hr_at = ts_str cdc now, hr_reason = reason\<rparr>]) tid (r\<lparr>tr_state := state_str to, tr_actor := None\<rparr>)
     = moved now to actor reason (decode_row cdc hist tid r)"
  using kan_okD(1) [OF assms(1)] by (simp add: decode_row_def moved_def decode_change_def)

lemma decode_blocked:
  assumes "kan_ok cdc" "wf_row cdc r" "parse_reason cdc j = Some br"
  shows "decode_row cdc (hist @ [\<lparr>hr_task_id = uuid_str cdc tid,
       hr_from = state_str (t_state (decode_row cdc hist tid r)), hr_to = state_str Blocked,
       hr_actor = actor, hr_at = ts_str cdc now, hr_reason = Some (br_reason br)\<rparr>]) tid
       (r\<lparr>tr_state := state_str Blocked, tr_block_reason := Some j\<rparr>)
     = blocked now actor br (decode_row cdc hist tid r)"
  using kan_okD(1) [OF assms(1)] assms(3)
  by (simp add: decode_row_def blocked_def decode_change_def parse_block_def del: state_str.simps)

lemma transition_inner_none:
  assumes "kan_ok cdc" "wf_db cdc (c_db c)" "c_faults c = []"
  shows "\<exists>db'. transition_inner cdc now tid to actor reason c =
       (fst (spec_transition now tid to actor reason (board_of cdc (c_db c))), c\<lparr>c_db := db'\<rparr>) \<and>
     wf_db cdc db' \<and> board_of cdc db' = snd (spec_transition now tid to actor reason (board_of cdc (c_db c)))"
proof (cases "row_of cdc tid (c_db c)")
  case None
  then have "board_of cdc (c_db c) tid = None" by (simp add: board_of_def)
  then show ?thesis using assms
    by (intro exI [of _ "c_db c"]) (simp add: transition_inner_def bindE_def get_inner_none spec_transition_def)
next
  case (Some r)
  let ?db = "c_db c"
  let ?t = "decode_row cdc (task_rows cdc tid ?db) tid r"
  let ?h = "\<lparr>hr_task_id = uuid_str cdc tid, hr_from = state_str (t_state ?t), hr_to = state_str to,
      hr_actor = actor, hr_at = ts_str cdc now, hr_reason = reason\<rparr>"
  let ?f = "\<lambda>r. r\<lparr>tr_state := state_str to, tr_actor := None\<rparr>"
  let ?db' = "?db\<lparr>k_tasks := update_where (\<lambda>r. tr_id r = uuid_str cdc tid \<and> True) ?f (k_tasks ?db),
      k_history := k_history ?db @ [?h]\<rparr>"
  have t: "board_of cdc ?db tid = Some ?t" using Some by (simp add: board_of_def)
  have wfr: "wf_row cdc r" using row_of_wf [OF assms(2) Some] by simp
  have db': "wf_db cdc ?db'" "board_of cdc ?db' = (board_of cdc ?db)(tid \<mapsto> moved now to actor reason ?t)"
  proof -
    have "wf_row cdc (?f r)" "\<forall>h \<in> set [?h]. wf_hist cdc h \<and> hr_task_id h = uuid_str cdc tid"
      using wfr kan_okD(1) [OF assms(1)] by (auto simp: wf_row_def wf_hist_def)
    from board_of_rewrite [OF assms(1,2) Some, of ?f "\<lambda>_. True", OF _ _ this] decode_moved [OF assms(1) wfr]
    show "wf_db cdc ?db'" "board_of cdc ?db' = (board_of cdc ?db)(tid \<mapsto> moved now to actor reason ?t)"
      by simp_all
  qed
  show ?thesis
  proof (cases "is_legal_transition (t_state ?t) to \<and>
      (to = Ready \<longrightarrow> deps_done (board_of cdc ?db) (t_depends_on ?t) = Inr ())")
    case True
    then have "transition_inner cdc now tid to actor reason c = (Inr (), c\<lparr>c_db := ?db'\<rparr>)"
      using assms(3) t
      by (auto simp: transition_inner_def bindE_def get_inner_none [OF assms(2,3)] check_deps_none [OF assms(2,3)]
          sqlio_def map_err_def update_tasks_def insert_history_def)
    moreover have "spec_transition now tid to actor reason (board_of cdc ?db) =
        (Inr (), (board_of cdc ?db)(tid \<mapsto> moved now to actor reason ?t))"
      using True t by (simp add: spec_transition_def)
    ultimately show ?thesis using db' by (intro exI [of _ ?db']) simp
  next
    case False
    have "\<exists>e. spec_transition now tid to actor reason (board_of cdc ?db) = (Inl e, board_of cdc ?db)"
      using False t by (cases "deps_done (board_of cdc ?db) (t_depends_on ?t)") (auto simp: spec_transition_def)
    then obtain e where e: "spec_transition now tid to actor reason (board_of cdc ?db) = (Inl e, board_of cdc ?db)"
      by blast
    moreover have "transition_inner cdc now tid to actor reason c = (Inl e, c)"
      using e False t
      by (auto simp: transition_inner_def spec_transition_def bindE_def get_inner_none [OF assms(2,3)]
          check_deps_none [OF assms(2,3)] split: if_splits sum.splits)
    ultimately show ?thesis using assms(2) by (intro exI [of _ ?db]) simp
  qed
qed

lemma block_inner_none:
  assumes "kan_ok cdc" "wf_db cdc (c_db c)" "c_faults c = []"
  shows "\<exists>db'. block_inner cdc now tid actor br c =
       (fst (spec_block now tid actor br (board_of cdc (c_db c))), c\<lparr>c_db := db'\<rparr>) \<and>
     wf_db cdc db' \<and> board_of cdc db' = snd (spec_block now tid actor br (board_of cdc (c_db c)))"
proof (cases "row_of cdc tid (c_db c)")
  case None
  then have "board_of cdc (c_db c) tid = None" by (simp add: board_of_def)
  then show ?thesis using assms
    by (intro exI [of _ "c_db c"]) (simp add: block_inner_def bindE_def get_inner_none spec_block_def)
next
  case (Some r)
  let ?db = "c_db c"
  let ?t = "decode_row cdc (task_rows cdc tid ?db) tid r"
  obtain j where j: "ser_reason cdc br = Some j" "parse_reason cdc j = Some br"
    using kan_okD(3) [OF assms(1)] by blast
  let ?h = "\<lparr>hr_task_id = uuid_str cdc tid, hr_from = state_str (t_state ?t), hr_to = state_str Blocked,
      hr_actor = actor, hr_at = ts_str cdc now, hr_reason = Some (br_reason br)\<rparr>"
  let ?f = "\<lambda>r. r\<lparr>tr_state := state_str Blocked, tr_block_reason := Some j\<rparr>"
  let ?db' = "?db\<lparr>k_tasks := update_where (\<lambda>r. tr_id r = uuid_str cdc tid \<and> True) ?f (k_tasks ?db),
      k_history := k_history ?db @ [?h]\<rparr>"
  have t: "board_of cdc ?db tid = Some ?t" using Some by (simp add: board_of_def)
  have wfr: "wf_row cdc r" using row_of_wf [OF assms(2) Some] by simp
  have db': "wf_db cdc ?db'" "board_of cdc ?db' = (board_of cdc ?db)(tid \<mapsto> blocked now actor br ?t)"
  proof -
    have "wf_row cdc (?f r)" "\<forall>h \<in> set [?h]. wf_hist cdc h \<and> hr_task_id h = uuid_str cdc tid"
      using wfr kan_okD(1) [OF assms(1)] j(2) by (auto simp: wf_row_def wf_hist_def parse_block_def simp del: state_str.simps)
    from board_of_rewrite [OF assms(1,2) Some, of ?f "\<lambda>_. True", OF _ _ this] decode_blocked [OF assms(1) wfr j(2)]
    show "wf_db cdc ?db'" "board_of cdc ?db' = (board_of cdc ?db)(tid \<mapsto> blocked now actor br ?t)"
      by (simp_all del: state_str.simps)
  qed
  show ?thesis
  proof (cases "is_legal_transition (t_state ?t) Blocked")
    case True
    then have "block_inner cdc now tid actor br c = (Inr (), c\<lparr>c_db := ?db'\<rparr>)"
      using assms(3) t j(1)
      by (auto simp: block_inner_def bindE_def get_inner_none [OF assms(2,3)]
          sqlio_def map_err_def update_tasks_def insert_history_def)
    moreover have "spec_block now tid actor br (board_of cdc ?db) =
        (Inr (), (board_of cdc ?db)(tid \<mapsto> blocked now actor br ?t))"
      using True t by (simp add: spec_block_def)
    ultimately show ?thesis using db' by (intro exI [of _ ?db']) simp
  next
    case False
    then show ?thesis using t assms(2)
      by (intro exI [of _ ?db]) (simp add: block_inner_def spec_block_def bindE_def get_inner_none [OF assms(2,3)])
  qed
qed

definition kanban_inv :: "'x kanban_codec_scheme \<Rightarrow> kanban_db conn \<Rightarrow> bool" where
  "kanban_inv cdc c \<longleftrightarrow> kan_ok cdc \<and> healthy c \<and> wf_db cdc (c_db c)"

definition kanban_view :: "'x kanban_codec_scheme \<Rightarrow> kanban_db conn \<Rightarrow> board" where
  "kanban_view cdc c = board_of cdc (c_db c)"

lemma in_transaction_none:
  assumes "healthy c" "m (c\<lparr>c_saved := Some (c_db c)\<rparr>) = (r, c\<lparr>c_saved := Some (c_db c), c_db := db'\<rparr>)"
  shows "in_transaction m c = (r, c\<lparr>c_db := (case r of Inl _ \<Rightarrow> c_db c | Inr _ \<Rightarrow> db')\<rparr>)"
  using assms by (cases c; cases r)
    (auto simp: in_transaction_def bindE_def sqlio_def map_err_def kanban_lock_def healthy_def
      sql_commit_def sql_rollback_def)

lemma spec_transition_err: "spec_transition now tid to a r b = (Inl e, b') \<Longrightarrow> b' = b"
  by (auto simp: spec_transition_def split: option.splits if_splits sum.splits)

lemma spec_block_err: "spec_block now tid a br b = (Inl e, b') \<Longrightarrow> b' = b"
  by (auto simp: spec_block_def split: option.splits if_splits)

text \<open>A transaction whose body behaves like a specification that changes nothing on an error.\<close>

lemma in_transaction_refines:
  assumes "kanban_inv cdc c"
    and body: "\<And>c. c_faults c = [] \<Longrightarrow> wf_db cdc (c_db c) \<Longrightarrow> \<exists>db'. m c = (fst (spec (board_of cdc (c_db c))), c\<lparr>c_db := db'\<rparr>) \<and>
      wf_db cdc db' \<and> board_of cdc db' = snd (spec (board_of cdc (c_db c)))"
    and err: "\<And>b e b'. spec b = (Inl e, b') \<Longrightarrow> b' = b"
    and run: "in_transaction m c = (q, c')"
  shows "kanban_inv cdc c' \<and> (q, kanban_view cdc c') = spec (kanban_view cdc c)"
proof -
  let ?c1 = "c\<lparr>c_saved := Some (c_db c)\<rparr>"
  have c: "kan_ok cdc" "healthy c" "wf_db cdc (c_db c)" using assms(1) by (auto simp: kanban_inv_def)
  obtain r b' where s: "spec (board_of cdc (c_db c)) = (r, b')" by fastforce
  obtain db' where db': "m ?c1 = (r, ?c1\<lparr>c_db := db'\<rparr>)" "wf_db cdc db'" "board_of cdc db' = b'"
    using body [of ?c1] c s by (auto simp: healthy_def)
  have "in_transaction m c = (r, c\<lparr>c_db := (case r of Inl _ \<Rightarrow> c_db c | Inr _ \<Rightarrow> db')\<rparr>)"
    using in_transaction_none [OF c(2), of m r db'] db'(1) by simp
  then have "q = r" "c' = c\<lparr>c_db := (case r of Inl _ \<Rightarrow> c_db c | Inr _ \<Rightarrow> db')\<rparr>" using run by auto
  then show ?thesis
    using c db' s err [of "board_of cdc (c_db c)"]
    by (cases r) (auto simp: kanban_inv_def kanban_view_def healthy_def)
qed

lemma kanban_create_refines:
  assumes "kanban_inv cdc c" "tid \<notin> dom (kanban_view cdc c)" "kanban_create cdc tid now nt c = (q, c')"
  shows "kanban_inv cdc c' \<and> (q, kanban_view cdc c') = spec_create tid now nt (kanban_view cdc c)"
proof -
  have c: "kan_ok cdc" "healthy c" "wf_db cdc (c_db c)" using assms(1) by (auto simp: kanban_inv_def)
  obtain j where j: "ser_deps cdc (nt_depends_on nt) = Some j" "parse_deps cdc j = Some (nt_depends_on nt)"
    using kan_okD(2) [OF c(1)] by blast
  have "row_of cdc tid (c_db c) = None" using assms(2) by (auto simp: kanban_view_def board_of_def)
  note ins = board_of_insert [OF c(1,3) this j(2)]
  show ?thesis using assms(3) c j(1) ins
    by (auto simp: kanban_create_def bindE_def kanban_lock_def healthy_def sqlio_def map_err_def
        kanban_inv_def kanban_view_def spec_create_def)
qed

lemma kanban_claim_refines:
  assumes "kanban_inv cdc c" "kanban_claim cdc tid w c = (q, c')"
  shows "kanban_inv cdc c' \<and> (q, kanban_view cdc c') = spec_claim tid w (kanban_view cdc c)"
proof -
  let ?db = "c_db c"
  let ?Q = "\<lambda>r. tr_actor r = None \<and> tr_state r = ''Ready''"
  let ?P = "\<lambda>r. tr_id r = uuid_str cdc tid \<and> tr_actor r = None \<and> tr_state r = ''Ready''"
  let ?f = "\<lambda>r. r\<lparr>tr_actor := Some w\<rparr>"
  have c: "kan_ok cdc" "healthy c" "wf_db cdc ?db" using assms(1) by (auto simp: kanban_inv_def)
  have run: "kanban_claim cdc tid w c = (if filter ?P (k_tasks ?db) = [] then Inl AlreadyClaimed else Inr (),
      c\<lparr>c_db := ?db\<lparr>k_tasks := update_where ?P ?f (k_tasks ?db)\<rparr>\<rparr>)"
    using c(2) by (simp add: kanban_claim_def bindE_def kanban_lock_def healthy_def sqlio_def map_err_def update_tasks_def)
  show ?thesis
  proof (cases "\<exists>r. row_of cdc tid ?db = Some r \<and> ?Q r")
    case True
    then obtain r where r: "row_of cdc tid ?db = Some r" "?Q r" by blast
    note wfr = row_of_wf [OF c(3) r(1)]
    have ready: "t_state (decode_row cdc h tid r) = Ready" "t_actor (decode_row cdc h tid r) = None" for h
      using r(2) by (simp_all add: decode_row_def state_from_str_def)
    have upd: "decode_row cdc h tid (?f r) = (decode_row cdc h tid r)\<lparr>t_actor := Some w\<rparr>" for h
      by (simp add: decode_row_def)
    have "wf_row cdc (?f r)" using wfr by (auto simp: wf_row_def)
    from board_of_rewrite [OF c(1,3) r(1), of ?f ?Q "[]", OF _ r(2) this]
    have new: "wf_db cdc (?db\<lparr>k_tasks := update_where ?P ?f (k_tasks ?db)\<rparr>)"
      "board_of cdc (?db\<lparr>k_tasks := update_where ?P ?f (k_tasks ?db)\<rparr>) =
         (board_of cdc ?db)(tid \<mapsto> (decode_row cdc (task_rows cdc tid ?db) tid r)\<lparr>t_actor := Some w\<rparr>)"
      by (simp_all add: upd)
    have "filter ?P (k_tasks ?db) \<noteq> []" using wfr r(2) by (auto simp: filter_empty_conv)
    then show ?thesis using run assms(2) new c r(1) ready
      by (auto simp: kanban_inv_def kanban_view_def healthy_def spec_claim_def board_of_def [of cdc ?db])
  next
    case False
    have none: "\<not> ?P r" if mem: "r \<in> set (k_tasks ?db)" for r
    proof
      assume P: "?P r"
      then obtain r0 where r0: "row_of cdc tid ?db = Some r0"
        using imageI [OF mem, of tr_id] by (cases "row_of cdc tid ?db") (auto simp: row_of_None)
      then have "r0 = r"
        using row_of_wf [OF c(3) r0] mem P c(3) by (auto simp: wf_db_def distinct_map inj_on_def)
      then show False using False r0 P by simp
    qed
    then have "update_where ?P ?f (k_tasks ?db) = k_tasks ?db" "filter ?P (k_tasks ?db) = []"
      by (auto simp: update_where_def filter_empty_conv map_idI)
    moreover have "spec_claim tid w (board_of cdc ?db) = (Inl AlreadyClaimed, board_of cdc ?db)"
    proof (cases "row_of cdc tid ?db")
      case (Some r)
      then have "\<not> (t_actor (decode_row cdc h tid r) = None \<and> t_state (decode_row cdc h tid r) = Ready)" for h
        using False row_of_wf [OF c(3) Some]
        by (auto simp: decode_row_def wf_row_def dest: state_str_from)
      then show ?thesis using Some by (auto simp: spec_claim_def board_of_def)
    qed (simp add: spec_claim_def board_of_def)
    ultimately show ?thesis using run assms(2) c by (auto simp: kanban_inv_def kanban_view_def)
  qed
qed

lemma kanban_get_refines:
  assumes "kanban_inv cdc c" "kanban_get cdc tid c = (g, c')"
  shows "kanban_inv cdc c' \<and> (g, kanban_view cdc c') = spec_get tid (kanban_view cdc c)"
  using assms get_inner_none [of cdc c tid]
  by (auto simp: kanban_get_def bindE_def kanban_lock_def kanban_inv_def healthy_def kanban_view_def spec_get_def)

interpretation sqlite_board: kanban_contract "sqlite_kanban cdc" "kanban_inv cdc" "kanban_view cdc"
  for cdc :: "'x kanban_codec_scheme"
proof
  fix s tid now nt r s'
  assume "kanban_inv cdc s" "tid \<notin> dom (kanban_view cdc s)" "kb_create (sqlite_kanban cdc) tid now nt s = (r, s')"
  then show "kanban_inv cdc s' \<and> (r, kanban_view cdc s') = spec_create tid now nt (kanban_view cdc s)"
    using kanban_create_refines by (simp add: sqlite_kanban_def)
next
  fix s now tid to a why q s'
  assume inv: "kanban_inv cdc s" and "kb_transition (sqlite_kanban cdc) now tid to a why s = (q, s')"
  then have run: "in_transaction (transition_inner cdc now tid to a why) s = (q, s')"
    by (simp add: sqlite_kanban_def kanban_transition_def)
  have ok: "kan_ok cdc" using inv by (simp add: kanban_inv_def)
  show "kanban_inv cdc s' \<and> (q, kanban_view cdc s') = spec_transition now tid to a why (kanban_view cdc s)"
    by (rule in_transaction_refines [OF inv _ _ run]) (rule transition_inner_none [OF ok] spec_transition_err; assumption)+
next
  fix s tid w q s'
  assume "kanban_inv cdc s" "kb_claim (sqlite_kanban cdc) tid w s = (q, s')"
  then show "kanban_inv cdc s' \<and> (q, kanban_view cdc s') = spec_claim tid w (kanban_view cdc s)"
    using kanban_claim_refines by (simp add: sqlite_kanban_def)
next
  fix s now tid a br q s'
  assume inv: "kanban_inv cdc s" and "kb_block (sqlite_kanban cdc) now tid a br s = (q, s')"
  then have run: "in_transaction (block_inner cdc now tid a br) s = (q, s')"
    by (simp add: sqlite_kanban_def kanban_block_def)
  have ok: "kan_ok cdc" using inv by (simp add: kanban_inv_def)
  show "kanban_inv cdc s' \<and> (q, kanban_view cdc s') = spec_block now tid a br (kanban_view cdc s)"
    by (rule in_transaction_refines [OF inv _ _ run]) (rule block_inner_none [OF ok] spec_block_err; assumption)+
next
  fix s tid g s'
  assume "kanban_inv cdc s" "kb_get (sqlite_kanban cdc) tid s = (g, s')"
  then show "kanban_inv cdc s' \<and> (g, kanban_view cdc s') = spec_get tid (kanban_view cdc s)"
    using kanban_get_refines by (simp add: sqlite_kanban_def)
qed


subsection \<open>A concrete codec\<close>

text \<open>Dependency lists and block reasons in the text encoding of \<open>Demo_Codec\<close>.\<close>

definition demo_ser_deps :: "uuid list \<Rightarrow> string option" where
  "demo_ser_deps ds = Some (encode_nats (map unat ds))"

definition demo_parse_deps :: "string \<Rightarrow> uuid list option" where
  "demo_parse_deps s = Some (map of_nat (decode_nats 0 s))"

definition demo_ser_reason :: "block_reason \<Rightarrow> string option" where
  "demo_ser_reason br = Some (encode_nats (length (br_reason br) # str_nats (br_reason br) @
     (case br_blocked_by br of ByHuman a \<Rightarrow> 0 # str_nats a | ByDependency u \<Rightarrow> [1, unat u])))"

definition demo_parse_reason :: "string \<Rightarrow> block_reason option" where
  "demo_parse_reason s =
     (case decode_nats 0 s of
        [] \<Rightarrow> None
      | n # xs \<Rightarrow> (case drop n xs of
            [] \<Rightarrow> None
          | k # ys \<Rightarrow> Some \<lparr>br_reason = nats_str (take n xs),
              br_blocked_by = (if k = 0 then ByHuman (nats_str ys) else ByDependency (of_nat (hd ys)))\<rparr>))"

definition demo_kanban_codec :: kanban_codec where
  "demo_kanban_codec = \<lparr>uuid_str = demo_uuid_str, parse_uuid = demo_parse_uuid,
     ts_str = demo_ts_str, parse_ts = demo_parse_ts, ser_deps = demo_ser_deps, parse_deps = demo_parse_deps,
     ser_reason = demo_ser_reason, parse_reason = demo_parse_reason\<rparr>"

lemma demo_parse_reason_ser: "demo_parse_reason (the (demo_ser_reason br)) = Some br"
  by (cases "br_blocked_by br") (simp_all add: demo_parse_reason_def demo_ser_reason_def)

lemma demo_kan_ok: "kan_ok demo_kanban_codec"
proof -
  have "\<exists>s. demo_ser_reason br = Some s \<and> demo_parse_reason s = Some br" for br
    using demo_parse_reason_ser [of br] by (simp add: demo_ser_reason_def)
  then show ?thesis
    by (simp add: kan_ok_def codec_ok_def demo_kanban_codec_def demo_ser_deps_def demo_parse_deps_def comp_def)
qed

subsection \<open>The empty board and its runs\<close>

definition empty_board :: "kanban_db conn" where
  "empty_board = conn_new \<lparr>k_tasks = [], k_history = []\<rparr>"

lemma open_in_memory: "kanban_open connect None '':memory:'' = Inr empty_board"
  by (simp add: kanban_open_def kanban_init_schema_def empty_board_def)

lemma empty_board_inv [simp]: "kan_ok cdc \<Longrightarrow> kanban_inv cdc empty_board" "kanban_view cdc empty_board = Map.empty"
  by (auto simp: kanban_inv_def kanban_view_def empty_board_def wf_db_def board_of_def row_of_def)

text \<open>A board with one task in the backlog, for the witnesses.\<close>

definition backlog_board :: "kanban_db conn" where
  "backlog_board = board_step (sqlite_kanban demo_kanban_codec)
     (KCreate 7 3 \<lparr>nt_title = ''t'', nt_actor = ''a'', nt_depends_on = []\<rparr>) empty_board"

lemma backlog_board:
  "kanban_inv demo_kanban_codec backlog_board"
  "kanban_view demo_kanban_codec backlog_board = [7 \<mapsto> created 7 3 \<lparr>nt_title = ''t'', nt_actor = ''a'', nt_depends_on = []\<rparr>]"
  using sqlite_board.run_view [OF empty_board_inv(1) [OF demo_kan_ok],
      of "[KCreate 7 3 \<lparr>nt_title = ''t'', nt_actor = ''a'', nt_depends_on = []\<rparr>]"]
  by (simp_all add: backlog_board_def spec_create_def)

text \<open>The list of all tasks in the order of their creation time and id.\<close>

definition sorted_rows :: "kanban_db \<Rightarrow> task_row list" where
  "sorted_rows db = sort_key (\<lambda>r. (tr_created_at r, tr_id r)) (k_tasks db)"

definition row_uuid :: "'x kanban_codec_scheme \<Rightarrow> task_row \<Rightarrow> uuid" where
  "row_uuid cdc r = the (parse_uuid cdc (tr_id r))"

definition limited :: "nat option \<Rightarrow> 'a list \<Rightarrow> 'a list" where
  "limited bound xs = (case bound of None \<Rightarrow> xs | Some n \<Rightarrow> take (max 1 n) xs)"

lemma listed_ids_none:
  "c_faults c = [] \<Longrightarrow> kan_ok cdc \<Longrightarrow> \<forall>r \<in> set rs. wf_row cdc r \<Longrightarrow>
   mapE (listed_id cdc) rs c = (Inr (map (row_uuid cdc) rs), c)"
  by (induction rs) (auto simp: listed_id_def bindE_def sqlio_def map_err_def wf_row_def row_uuid_def dest: kan_okD(1))

lemma list_loop_none:
  assumes "wf_db cdc (c_db c)" "c_faults c = []"
    and "\<forall>i \<in> set is. board_of cdc (c_db c) i \<noteq> None"
    and "\<And>n. tq_limit q = Some n \<Longrightarrow> out = [] \<or> length out < n"
  shows "list_loop cdc q out is c =
     (Inr (limited (tq_limit q) (out @ filter (matches_query q) (map (the \<circ> board_of cdc (c_db c)) is))), c)"
  using assms(3,4)
proof (induction "is" arbitrary: out)
  case Nil
  then show ?case
    by (cases "tq_limit q") (auto simp: limited_def)
next
  case (Cons i rest)
  obtain t where t: "board_of cdc (c_db c) i = Some t" using Cons.prems(1) by auto
  show ?case
  proof (cases "matches_query q t")
    case False
    then show ?thesis using Cons t by (simp add: bindE_def get_inner_none [OF assms(1,2)])
  next
    case match: True
    show ?thesis
    proof (cases "\<exists>n. tq_limit q = Some n \<and> n \<le> Suc (length out)")
      case True
      then obtain n where n: "tq_limit q = Some n" "n \<le> Suc (length out)" by blast
      then have "max 1 n = Suc (length out) \<or> out = [] \<and> n = 0" using Cons.prems(2) [OF n(1)] by auto
      then show ?thesis using n t match
        by (auto simp: bindE_def get_inner_none [OF assms(1,2)] limited_def)
    next
      case False
      then show ?thesis using Cons.prems Cons.IH [of "out @ [t]"] t match
        by (cases "tq_limit q") (auto simp: bindE_def get_inner_none [OF assms(1,2)] Let_def not_le)
    qed
  qed
qed

lemma kanban_list_none:
  assumes "kanban_inv cdc c"
  shows "kanban_list cdc q c = (Inr (limited (tq_limit q) (filter (matches_query q)
     (map (\<lambda>r. the (kanban_view cdc c (row_uuid cdc r))) (sorted_rows (c_db c))))), c)"
proof -
  have c: "kan_ok cdc" "healthy c" "wf_db cdc (c_db c)" using assms by (auto simp: kanban_inv_def)
  note f = c(2) [unfolded healthy_def]
  have rows: "\<forall>r \<in> set (sorted_rows (c_db c)). wf_row cdc r"
    using c(3) by (simp add: sorted_rows_def wf_db_def)
  have "\<forall>i \<in> set (map (row_uuid cdc) (sorted_rows (c_db c))). board_of cdc (c_db c) i \<noteq> None"
  proof
    fix i
    assume "i \<in> set (map (row_uuid cdc) (sorted_rows (c_db c)))"
    then obtain r where r: "r \<in> set (k_tasks (c_db c))" "i = row_uuid cdc r" by (auto simp: sorted_rows_def)
    then obtain tid where "tr_id r = uuid_str cdc tid" using c(3) by (auto simp: wf_db_def wf_row_def)
    then have "uuid_str cdc i \<in> tr_id ` set (k_tasks (c_db c))"
      using r kan_okD(1) [OF c(1)] imageI [OF r(1), of tr_id] by (simp add: row_uuid_def)
    then show "board_of cdc (c_db c) i \<noteq> None"
      using row_of_None [of cdc i "c_db c"] by (simp add: board_of_def)
  qed
  then show ?thesis
    using f list_loop_none [OF c(3), of "map (row_uuid cdc) (sorted_rows (c_db c))" q "[]"]
      listed_ids_none [OF _ c(1) rows]
    by (simp add: kanban_list_def bindE_def kanban_lock_def sqlio_def map_err_def sorted_rows_def [symmetric]
        kanban_view_def comp_def)
qed

subsection \<open>Properties\<close>

text \<open>Claim C1.  The SQLite board refines the board contract: after any sequence of creations with fresh
  ids, transitions, claims and blocks the tables hold the tasks the specification computes, and a
  following transition answers what the specification answers.\<close>

theorem board_refines_spec:
  assumes "kanban_inv cdc c" "fresh_run ops (dom (kanban_view cdc c))"
  shows "kanban_view cdc (fold (board_step (sqlite_kanban cdc)) ops c) = fold spec_step ops (kanban_view cdc c) \<and>
    fst (kanban_transition cdc now tid to a r (fold (board_step (sqlite_kanban cdc)) ops c)) =
    fst (spec_transition now tid to a r (fold spec_step ops (kanban_view cdc c)))"
proof -
  let ?c = "fold (board_step (sqlite_kanban cdc)) ops c"
  have "kanban_inv cdc ?c \<and> kanban_view cdc ?c = fold spec_step ops (kanban_view cdc c)"
    by (rule sqlite_board.run_view [OF assms])
  then show ?thesis
    using sqlite_board.transition_law [of cdc ?c now tid to a r]
    by (cases "kanban_transition cdc now tid to a r ?c") (auto simp: sqlite_kanban_def dest: arg_cong [where f = fst])
qed

lemma board_refines_spec_witness:
  "fst (kanban_transition demo_kanban_codec 5 7 Ready ''a'' None
     (board_step (sqlite_kanban demo_kanban_codec) (KTransition 4 7 Todo ''a'' None)
       (board_step (sqlite_kanban demo_kanban_codec)
         (KCreate 7 3 \<lparr>nt_title = ''t'', nt_actor = ''a'', nt_depends_on = [9]\<rparr>) empty_board))) = Inl (NotFound 9)"
  using board_refines_spec [OF empty_board_inv(1) [OF demo_kan_ok],
      of "[KCreate 7 3 \<lparr>nt_title = ''t'', nt_actor = ''a'', nt_depends_on = [9]\<rparr>, KTransition 4 7 Todo ''a'' None]"
        5 7 Ready "''a''" None]
  by (simp add: spec_create_def spec_transition_def created_def moved_def)

text \<open>Claim C4.  Whatever is done to a fresh board, a task read back has a history that is a path of legal
  transitions from \<open>Backlog\<close> to its current state, and once it is past \<open>Todo\<close> all its dependencies
  exist and are done or archived.\<close>

theorem history_is_legal_path:
  assumes "kan_ok cdc" "fresh_run ops {}"
    and "fst (kanban_get cdc tid (fold (board_step (sqlite_kanban cdc)) ops empty_board)) = Inr t"
  shows "t_id t = tid \<and> path_ok Backlog (t_history t) (t_state t) \<and>
    (released (t_state t) \<longrightarrow>
       list_all (settled (kanban_view cdc (fold (board_step (sqlite_kanban cdc)) ops empty_board))) (t_depends_on t))"
proof -
  let ?c = "fold (board_step (sqlite_kanban cdc)) ops empty_board"
  have inv: "kanban_inv cdc empty_board" using assms(1) by simp
  have "board_ok (kanban_view cdc ?c)" "kanban_inv cdc ?c"
    using sqlite_board.run_board_ok [OF inv] sqlite_board.run_view [OF inv] assms(2) by simp_all
  moreover have "kanban_view cdc ?c tid = Some t"
    using kanban_get_refines [OF calculation(2), of tid] assms(3)
    by (cases "kanban_get cdc tid ?c") (auto simp: spec_get_def dest: sym)
  ultimately show ?thesis using board_ok_task by blast
qed

lemma history_is_legal_path_witness:
  "\<exists>t. path_ok Backlog (t_history t) (t_state t) \<and> length (t_history t) = 1 \<and>
     fst (kanban_get demo_kanban_codec 7 (fold (board_step (sqlite_kanban demo_kanban_codec))
       [KCreate 7 3 \<lparr>nt_title = ''t'', nt_actor = ''a'', nt_depends_on = []\<rparr>, KTransition 4 7 Todo ''a'' None]
       empty_board)) = Inr t"
proof -
  let ?ops = "[KCreate 7 3 \<lparr>nt_title = ''t'', nt_actor = ''a'', nt_depends_on = []\<rparr>, KTransition 4 7 Todo ''a'' None]"
  let ?c = "fold (board_step (sqlite_kanban demo_kanban_codec)) ?ops empty_board"
  let ?t = "moved 4 Todo ''a'' None (created 7 3 \<lparr>nt_title = ''t'', nt_actor = ''a'', nt_depends_on = []\<rparr>)"
  have inv: "kanban_inv demo_kanban_codec empty_board" using demo_kan_ok by simp
  have v: "kanban_inv demo_kanban_codec ?c" "kanban_view demo_kanban_codec ?c = fold spec_step ?ops Map.empty"
    using sqlite_board.run_view [OF inv, of ?ops] by simp_all
  have "fst (spec_get 7 (fold spec_step ?ops Map.empty)) = Inr ?t"
    by (simp add: spec_get_def spec_create_def spec_transition_def) (simp add: created_def)
  then have "fst (kanban_get demo_kanban_codec 7 ?c) = Inr ?t"
    using kanban_get_refines [OF v(1), of 7 ] v(2) by (metis fst_conv prod.collapse)
  with history_is_legal_path [OF demo_kan_ok _ this] show ?thesis
    by (intro exI [of _ ?t]) (simp add: moved_def created_def)
qed

text \<open>Claim C8.  Mutual exclusion: after a worker's claim succeeded, every other claim of the task is
  refused, through any operations of any workers, until the task is moved by a transition.\<close>

theorem claim_gives_exclusive_hold:
  assumes "kanban_inv cdc c" "kanban_claim cdc tid w c = (Inr (), c1)"
    and "fresh_run ops (dom (kanban_view cdc c1))" "list_all (\<lambda>x. \<not> moves tid x) ops"
  shows "fst (kanban_claim cdc tid v (fold (board_step (sqlite_kanban cdc)) ops c1)) = Inl AlreadyClaimed"
  using sqlite_board.claim_exclusive [OF assms(1), of tid w c1 ops v] assms(2-4) by (simp add: sqlite_kanban_def)

lemma claim_gives_exclusive_hold_witness:
  "let cdc = demo_kanban_codec;
       step = board_step (sqlite_kanban cdc);
       c = fold step [KCreate 7 3 \<lparr>nt_title = ''t'', nt_actor = ''a'', nt_depends_on = []\<rparr>,
             KTransition 4 7 Todo ''a'' None, KTransition 5 7 Ready ''a'' None] empty_board
   in fst (kanban_claim cdc 7 ''v'' (snd (kanban_claim cdc 7 ''w'' c))) = Inl AlreadyClaimed"
proof -
  let ?ops = "[KCreate 7 3 \<lparr>nt_title = ''t'', nt_actor = ''a'', nt_depends_on = []\<rparr>,
             KTransition 4 7 Todo ''a'' None, KTransition 5 7 Ready ''a'' None]"
  let ?c = "fold (board_step (sqlite_kanban demo_kanban_codec)) ?ops empty_board"
  have inv: "kanban_inv demo_kanban_codec empty_board" using demo_kan_ok by simp
  have v: "kanban_inv demo_kanban_codec ?c" "kanban_view demo_kanban_codec ?c = fold spec_step ?ops Map.empty"
    using sqlite_board.run_view [OF inv, of ?ops] by simp_all
  have "fst (spec_claim 7 ''w'' (fold spec_step ?ops Map.empty)) = Inr ()"
    by (simp add: spec_claim_def spec_create_def spec_transition_def) (simp add: created_def moved_def)
  then obtain c1 where c1: "kanban_claim demo_kanban_codec 7 ''w'' ?c = (Inr (), c1)"
    using kanban_claim_refines [OF v(1), of 7 "''w''"] v(2) by (metis fst_conv prod.collapse)
  from claim_gives_exclusive_hold [OF v(1) c1, of "[]" "''v''"]
  have "fst (kanban_claim demo_kanban_codec 7 ''v'' c1) = Inl AlreadyClaimed" by simp
  then show ?thesis by (simp only: Let_def c1 snd_conv)
qed

text \<open>Property.  \<open>list\<close> returns the tasks the filters select in the order of creation time and id, cut
  off at the limit; but a limit of zero returns one task.\<close>

theorem list_returns_matching:
  assumes "kanban_inv cdc c"
  shows "fst (kanban_list cdc q c) = Inr (case tq_limit q of
       None \<Rightarrow> filter (matches_query q) (map (\<lambda>r. the (kanban_view cdc c (row_uuid cdc r))) (sorted_rows (c_db c)))
     | Some n \<Rightarrow> take (max 1 n) (filter (matches_query q) (map (\<lambda>r. the (kanban_view cdc c (row_uuid cdc r))) (sorted_rows (c_db c)))))
   \<and> c_db (snd (kanban_list cdc q c)) = c_db c"
  using kanban_list_none [OF assms, of q] by (simp add: limited_def split: option.splits)

lemma list_returns_matching_witness:
  "fst (kanban_list demo_kanban_codec \<lparr>tq_states = None, tq_actor = None, tq_limit = Some 0\<rparr>
     (board_step (sqlite_kanban demo_kanban_codec)
        (KCreate 7 3 \<lparr>nt_title = ''t'', nt_actor = ''a'', nt_depends_on = []\<rparr>) empty_board)) =
   Inr [created 7 3 \<lparr>nt_title = ''t'', nt_actor = ''a'', nt_depends_on = []\<rparr>]"
proof -
  let ?op = "KCreate 7 3 \<lparr>nt_title = ''t'', nt_actor = ''a'', nt_depends_on = []\<rparr>"
  let ?c = "board_step (sqlite_kanban demo_kanban_codec) ?op empty_board"
  have inv: "kanban_inv demo_kanban_codec empty_board" using demo_kan_ok by simp
  have v: "kanban_inv demo_kanban_codec ?c" "kanban_view demo_kanban_codec ?c = spec_step ?op Map.empty"
    using sqlite_board.run_view [OF inv, of "[?op]"] by simp_all
  have "k_tasks (c_db ?c) = [\<lparr>tr_id = demo_uuid_str 7, tr_title = ''t'', tr_state = ''Backlog'', tr_actor = Some ''a'',
      tr_depends_on = encode_nats [], tr_block_reason = None, tr_created_at = demo_ts_str 3\<rparr>]"
    by (simp add: sqlite_kanban_def kanban_create_def bindE_def kanban_lock_def empty_board_def conn_new_def
        lock_conn_def demo_kanban_codec_def demo_ser_deps_def sqlio_def map_err_def insert_task_def)
  then have "map (\<lambda>r. the (kanban_view demo_kanban_codec ?c (row_uuid demo_kanban_codec r))) (sorted_rows (c_db ?c)) =
      [created 7 3 \<lparr>nt_title = ''t'', nt_actor = ''a'', nt_depends_on = []\<rparr>]"
    using v(2) by (simp add: sorted_rows_def row_uuid_def demo_kanban_codec_def spec_create_def)
  with list_returns_matching [OF v(1), of "\<lparr>tq_states = None, tq_actor = None, tq_limit = Some 0\<rparr>"]
  show ?thesis by (simp add: matches_query_def)
qed

text \<open>Property.  What a transition does not check: a claimed task that is moved to \<open>Running\<close> is held by
  nobody, and a running task can be moved to \<open>Blocked\<close> with no block reason on it.\<close>

theorem transition_drops_holder_and_reason:
  assumes "kanban_inv cdc c" "kanban_view cdc c tid = Some t"
  shows "(t_state t = Ready \<longrightarrow> (\<exists>c'. kanban_transition cdc now tid Running a None c = (Inr (), c') \<and>
        map_option t_actor (kanban_view cdc c' tid) = Some None)) \<and>
    (t_state t = Running \<longrightarrow> (\<exists>c'. kanban_transition cdc now tid Blocked a None c = (Inr (), c') \<and>
        map_option t_state (kanban_view cdc c' tid) = Some Blocked \<and>
        map_option t_block_reason (kanban_view cdc c' tid) = Some (t_block_reason t)))"
proof -
  have step: "\<exists>c'. kanban_transition cdc now tid to a None c = (Inr (), c') \<and>
      kanban_view cdc c' = (kanban_view cdc c)(tid \<mapsto> moved now to a None t)"
    if "is_legal_transition (t_state t) to" "to \<noteq> Ready" for to
    using sqlite_board.transition_law [OF assms(1), of now tid to a None] that assms(2)
    by (cases "kanban_transition cdc now tid to a None c") (auto simp: sqlite_kanban_def spec_transition_def)
  show ?thesis using step [of Running] step [of Blocked] by (fastforce simp: moved_def)
qed

lemma transition_drops_holder_and_reason_witness:
  "\<exists>c c'. kanban_view demo_kanban_codec c 7 \<noteq> None \<and>
     kanban_transition demo_kanban_codec 9 7 Running ''w'' None c = (Inr (), c') \<and>
     map_option t_actor (kanban_view demo_kanban_codec c' 7) = Some None"
proof -
  let ?ops = "[KCreate 7 3 \<lparr>nt_title = ''t'', nt_actor = ''a'', nt_depends_on = []\<rparr>,
             KTransition 4 7 Todo ''a'' None, KTransition 5 7 Ready ''a'' None, KClaim 7 ''w'']"
  let ?c = "fold (board_step (sqlite_kanban demo_kanban_codec)) ?ops empty_board"
  have inv: "kanban_inv demo_kanban_codec empty_board" using demo_kan_ok by simp
  have v: "kanban_inv demo_kanban_codec ?c" "kanban_view demo_kanban_codec ?c = fold spec_step ?ops Map.empty"
    using sqlite_board.run_view [OF inv, of ?ops] by simp_all
  have "\<exists>t. kanban_view demo_kanban_codec ?c 7 = Some t \<and> t_state t = Ready"
    unfolding v(2) by (simp add: spec_claim_def spec_create_def spec_transition_def) (simp add: created_def moved_def)
  then obtain t where t: "kanban_view demo_kanban_codec ?c 7 = Some t" "t_state t = Ready" by blast
  from transition_drops_holder_and_reason [OF v(1) t(1), of 9 "''w''"] t show ?thesis by blast
qed

end
