(* ===== verification/Agent.thy ===== *)
theory Agent
  imports Text
begin

text \<open>
  The message and request types of \<open>core/src\<close>: agent messages and their validation
  (\<open>agent.rs\<close>), provider requests, responses and usage (\<open>provider.rs\<close>, \<open>types.rs\<close>), call logs
  (\<open>logger.rs\<close>), escalations (\<open>escalation.rs\<close>) and the
  hard-coded task profile (\<open>profile.rs\<close>).
\<close>

subsection \<open>Agent messages\<close>

definition MAX_HOPS :: u8 where
  "MAX_HOPS = 16"

definition MAX_BODY_BYTES :: nat where
  "MAX_BODY_BYTES = 1024 * 1024"

datatype agent_message =
    Request uuid u8 bytes
  | Response uuid u8 bytes
  | Delegation uuid u8 bytes
  | MResult uuid u8 bytes
  | MError uuid u8 string

datatype message_error = Malformed string | UnknownType

fun origin_task :: "agent_message \<Rightarrow> uuid" where
  "origin_task (Request t h b) = t"
| "origin_task (Response t h b) = t"
| "origin_task (Delegation t h b) = t"
| "origin_task (MResult t h b) = t"
| "origin_task (MError t h e) = t"

fun hops :: "agent_message \<Rightarrow> u8" where
  "hops (Request t h b) = h"
| "hops (Response t h b) = h"
| "hops (Delegation t h b) = h"
| "hops (MResult t h b) = h"
| "hops (MError t h e) = h"

fun body :: "agent_message \<Rightarrow> bytes option" where
  "body (Request t h b) = Some b"
| "body (Response t h b) = Some b"
| "body (Delegation t h b) = Some b"
| "body (MResult t h b) = Some b"
| "body (MError t h e) = None"

definition validate_message :: "agent_message \<Rightarrow> message_error + unit" where
  "validate_message msg =
     (if hops msg \<ge> MAX_HOPS then
        Inl (Malformed (''hop limit exceeded: '' @ nat_str (unat (hops msg)) @ '' >= '' @ nat_str (unat MAX_HOPS)))
      else case msg of
        MError _ _ err \<Rightarrow>
          (if err = [] then Inl (Malformed ''error messages must have a non-empty error field'') else Inr ())
      | _ \<Rightarrow>
          (case body msg of
             Some b \<Rightarrow>
               (if length b > MAX_BODY_BYTES then
                  Inl (Malformed (''body too large: '' @ nat_str (length b) @ '' bytes > '' @
                    nat_str MAX_BODY_BYTES @ '' limit''))
                else Inr ())
           | None \<Rightarrow> Inr ()))"

lemma validate_message_iff:
  "validate_message msg = Inr () \<longleftrightarrow> unat (hops msg) < 16 \<and>
     (case msg of MError _ _ err \<Rightarrow> err \<noteq> [] | _ \<Rightarrow> length (the (body msg)) \<le> 1048576)"
proof -
  have "hops msg \<ge> MAX_HOPS \<longleftrightarrow> 16 \<le> unat (hops msg)"
    by (simp add: MAX_HOPS_def word_le_nat_alt)
  then show ?thesis
    by (cases msg) (auto simp: validate_message_def MAX_BODY_BYTES_def)
qed

subsection \<open>Providers\<close>

type_synonym i64 = "64 word"

record money =
  amount_microdollars :: i64
  currency :: string

datatype message_role = System | User | Assistant

record message =
  msg_role :: message_role
  msg_content :: string

definition msg_system :: "string \<Rightarrow> message" where
  "msg_system c = \<lparr>msg_role = System, msg_content = c\<rparr>"

definition msg_user :: "string \<Rightarrow> message" where
  "msg_user c = \<lparr>msg_role = User, msg_content = c\<rparr>"

record usage =
  input_tokens :: u64
  output_tokens :: u64
  cost :: "money option"

record generation_request =
  req_messages :: "message list"
  max_output_tokens :: u32
  req_model :: string

datatype content_block = TextBlock string

fun as_text :: "content_block \<Rightarrow> string option" where
  "as_text (TextBlock s) = Some s"

record generation_response =
  content :: "content_block list"
  resp_usage :: usage

definition full_text :: "generation_response \<Rightarrow> string" where
  "full_text r = concat (List.map_filter as_text (content r))"

record model_descriptor =
  md_id :: string
  md_description :: "string option"
  cost_per_input_token :: "money option"
  cost_per_output_token :: "money option"

datatype provider_error =
    RateLimited
  | Unauthorized
  | BudgetExceeded
  | Transport string
  | Provider string

fun provider_error_str :: "provider_error \<Rightarrow> string" where
  "provider_error_str RateLimited = ''rate limited by provider''"
| "provider_error_str Unauthorized = ''unauthorized '' @ [CHR 0xE2, CHR 0x80, CHR 0x94] @ '' check credentials''"
| "provider_error_str BudgetExceeded = ''output budget exceeded''"
| "provider_error_str (Transport s) = ''transport error: '' @ s"
| "provider_error_str (Provider s) = ''provider error: '' @ s"

lemma full_text_blocks: "full_text r = concat (map (\<lambda>b. case b of TextBlock s \<Rightarrow> s) (content r))"
proof -
  have "List.map_filter as_text bs = map (\<lambda>b. case b of TextBlock s \<Rightarrow> s) bs" for bs
    by (induction bs) (auto simp: List.map_filter_def split: content_block.splits)
  then show ?thesis by (simp add: full_text_def)
qed

text \<open>
  What the callers of a provider rely on: the text of a response holds no control or bidi character.
  \<open>sane\<close> is what the provider in turn needs of its decoder.
\<close>

locale text_provider =
  fixes gen :: "generation_request \<Rightarrow> ('p, provider_error, generation_response) op"
    and sane :: bool
  assumes clean_text: "sane \<Longrightarrow> gen req p = (Inr r, p') \<Longrightarrow> list_all (\<lambda>c. \<not> dropped_char c) (chars (full_text r))"
begin

text \<open>Sanitising the text again, as the callers do, changes nothing.\<close>

lemma strip_again:
  assumes "sane" "gen req p = (Inr r, p')" "rust_str (full_text r)"
  shows "strip_control (full_text r) = full_text r"
  using clean_text [OF assms(1,2)] rust_str_chars [OF assms(3)] by (simp add: strip_control_def strip_chars_id)

end

subsection \<open>Call logs\<close>

datatype call_outcome = Completed | Failed string | Partial string

record call_log =
  cl_task :: uuid
  cl_profile :: string
  cl_provider :: string
  cl_model :: string
  cl_usage :: usage
  cl_outcome :: call_outcome
  cl_at :: timestamp

datatype log_error = LogStorage string

subsection \<open>Escalations\<close>

record action_option =
  opt_id :: string
  opt_label :: string
  opt_description :: "string option"

record escalation =
  esc_task :: uuid
  esc_prompt :: string
  esc_options :: "action_option list"

datatype human_response = Chose string | FreeText string | Stop

datatype escalation_error = Interrupted | EscIo string

fun escalation_error_str :: "escalation_error \<Rightarrow> string" where
  "escalation_error_str Interrupted = ''escalation was interrupted''"
| "escalation_error_str (EscIo s) = ''io error: '' @ s"

subsection \<open>Task profiles\<close>

datatype escalation_threshold = Low | Medium | High

record task_profile =
  tp_id :: string
  tp_provider :: string
  tp_model :: string
  tp_max_output_tokens :: u32
  system_prompt :: string
  allowed_tools :: "string list"
  max_context_messages :: nat
  tp_escalation_threshold :: escalation_threshold

definition default_v01 :: task_profile where
  "default_v01 =
     \<lparr>tp_id = ''default'', tp_provider = ''ollama'', tp_model = ''llama3.2'', tp_max_output_tokens = 512,
      system_prompt =
        ''You are Wyrtloom, a focused task-execution agent. '' @
        ''Complete the requested task concisely. '' @
        ''You MUST respond with valid JSON in exactly one of these two forms:'' @ [CHR 0x0A] @
        ''  {\"status\":\"done\",\"result\":\"<your answer>\"}'' @ [CHR 0x0A] @
        ''  {\"status\":\"blocked\",\"reason\":\"<why you cannot proceed>\"}'' @ [CHR 0x0A] @
        ''Do not include any text outside the JSON object.'',
      allowed_tools = [], max_context_messages = 10, tp_escalation_threshold = Medium\<rparr>"

end
