(* ===== verification/Logger_Sqlite.thy ===== *)
theory Logger_Sqlite
  imports Agent Sqlite Kanban_Sqlite
begin

text \<open>
  The call logger: the contract of \<open>core/src/logger.rs\<close> as the locale \<open>call_log_contract\<close> and its
  SQLite implementation \<open>plugin-logger-sqlite/src/lib.rs\<close>.

  An \<open>INTEGER\<close> column holds an \<open>i64\<close>, here an \<open>int\<close> in that range: the driver refuses to store a
  \<open>u64\<close> above \<open>i64::MAX\<close> and to read a negative value as \<open>u64\<close>.
\<close>

subsection \<open>The contract\<close>

record 's call_logger =
  lg_record :: "call_log \<Rightarrow> ('s, log_error, unit) op"
  lg_all :: "('s, log_error, call_log list) op"

text \<open>The default \<open>all_logs\<close> of a write-only sink.\<close>

definition default_all_logs :: "('s, log_error, call_log list) op" where
  "default_all_logs = retE []"

text \<open>The token counts fit the store.\<close>

definition storable :: "call_log \<Rightarrow> bool" where
  "storable e \<longleftrightarrow> unat (input_tokens (cl_usage e)) < 2 ^ 63 \<and> unat (output_tokens (cl_usage e)) < 2 ^ 63"

locale call_log_contract =
  fixes L :: "'l call_logger"
    and linv :: "'l \<Rightarrow> bool"
    and lview :: "'l \<Rightarrow> call_log list"
  assumes record_law: "linv l \<Longrightarrow> storable e \<Longrightarrow> lg_record L e l = (r, l') \<Longrightarrow>
      linv l' \<and> r = Inr () \<and> lview l' = lview l @ [e]"
    and refuse_law: "linv l \<Longrightarrow> \<not> storable e \<Longrightarrow> lg_record L e l = (r, l') \<Longrightarrow>
      linv l' \<and> lview l' = lview l"
    and all_law: "linv l \<Longrightarrow> lg_all L l = (Inr (lview l), l)"
begin

text \<open>Nothing recorded is lost, reordered or altered.\<close>

lemma record_run:
  "linv l \<Longrightarrow> list_all storable es \<Longrightarrow>
   linv (fold (\<lambda>e l. snd (lg_record L e l)) es l) \<and>
   lg_all L (fold (\<lambda>e l. snd (lg_record L e l)) es l) =
     (Inr (lview l @ es), fold (\<lambda>e l. snd (lg_record L e l)) es l)"
proof (induction es arbitrary: l)
  case (Cons e es)
  obtain r l' where s: "lg_record L e l = (r, l')" by fastforce
  have "linv l' \<and> r = Inr () \<and> lview l' = lview l @ [e]"
    using record_law [OF Cons.prems(1) _ s] Cons.prems(2) by simp
  then show ?case using Cons.IH [of l'] Cons.prems(2) s by simp
qed (simp add: all_law)

end

subsection \<open>The SQLite logger\<close>

record log_row =
  lr_task_id :: string
  lr_profile :: string
  lr_provider :: string
  lr_model :: string
  lr_input_tokens :: int
  lr_output_tokens :: int
  lr_cost_microdollars :: "i64 option"
  lr_cost_currency :: "string option"
  lr_outcome :: string
  lr_outcome_detail :: "string option"
  lr_at :: string

type_synonym log_db = "log_row list"

definition logger_open ::
  "(string \<Rightarrow> int + log_row list option) \<Rightarrow> int option \<Rightarrow> string \<Rightarrow> rusqlite_error + log_db conn" where
  "logger_open connect fault path =
     (case (if path = '':memory:'' then Inr None
            else case validate_db_path path of
              Inl e \<Rightarrow> Inl (InvalidPath e)
            | Inr _ \<Rightarrow> (case connect path of Inl code \<Rightarrow> Inl (SqliteFailure code) | Inr t \<Rightarrow> Inr t)) of
        Inl e \<Rightarrow> Inl e
      | Inr table \<Rightarrow>
          (case fault of
             Some code \<Rightarrow> Inl (SqliteFailure code)
           | None \<Rightarrow> Inr (conn_new (case table of None \<Rightarrow> [] | Some rs \<Rightarrow> rs))))"

definition logger_lock :: "(log_db conn, log_error, unit) op" where
  "logger_lock = lock_conn (LogStorage ''lock poisoned'')"

definition u64_column :: "int \<Rightarrow> u64 option" where
  "u64_column i = (if 0 \<le> i then Some (word_of_int i) else None)"

definition zip_cost :: "i64 option \<Rightarrow> string option \<Rightarrow> money option" where
  "zip_cost a c =
     (case (a, c) of (Some amt, Some cur) \<Rightarrow> Some \<lparr>amount_microdollars = amt, currency = cur\<rparr> | _ \<Rightarrow> None)"

definition row_log :: "'x codec_scheme \<Rightarrow> log_row \<Rightarrow> log_error + call_log" where
  "row_log cdc r =
     (case (u64_column (lr_input_tokens r), u64_column (lr_output_tokens r)) of
        (Some inp, Some outp) \<Rightarrow>
          (case parse_uuid cdc (lr_task_id r) of
             None \<Rightarrow> Inl (LogStorage ''integrity error: malformed task_id'')
           | Some task \<Rightarrow>
               (case (if lr_outcome r = ''Completed'' then Inr Completed
                      else if lr_outcome r = ''Failed'' then
                        Inr (Failed (case lr_outcome_detail r of None \<Rightarrow> [] | Some d \<Rightarrow> d))
                      else if lr_outcome r = ''Partial'' then
                        Inr (Partial (case lr_outcome_detail r of None \<Rightarrow> [] | Some d \<Rightarrow> d))
                      else Inl (LogStorage (''integrity error: unknown outcome '' @ quoted (lr_outcome r)))) of
                  Inl e \<Rightarrow> Inl e
                | Inr outcome \<Rightarrow>
                    (case parse_ts cdc (lr_at r) of
                       None \<Rightarrow> Inl (LogStorage ''integrity error: malformed timestamp'')
                     | Some at_time \<Rightarrow>
                         Inr \<lparr>cl_task = task, cl_profile = lr_profile r, cl_provider = lr_provider r,
                              cl_model = lr_model r,
                              cl_usage = \<lparr>input_tokens = inp, output_tokens = outp,
                                cost = zip_cost (lr_cost_microdollars r) (lr_cost_currency r)\<rparr>,
                              cl_outcome = outcome, cl_at = at_time\<rparr>)))
      | _ \<Rightarrow> Inl (LogStorage ''row read failed''))"

definition all_logs :: "'x codec_scheme \<Rightarrow> (log_db conn, log_error, call_log list) op" where
  "all_logs cdc =
     bindE logger_lock (\<lambda>_.
     bindE (map_err (\<lambda>_. LogStorage ''prepare failed'') sql_fault) (\<lambda>_.
     bindE (map_err (\<lambda>_. LogStorage ''query failed'') (sql_read (\<lambda>db. db))) (\<lambda>rows.
     mapE (\<lambda>r. bindE (map_err (\<lambda>_. LogStorage ''row read failed'') sql_fault) (\<lambda>_. liftE (row_log cdc r))) rows)))"

definition outcome_columns :: "call_outcome \<Rightarrow> string \<times> string option" where
  "outcome_columns outcome =
     (case outcome of Completed \<Rightarrow> (''Completed'', None) | Failed s \<Rightarrow> (''Failed'', Some s) | Partial s \<Rightarrow> (''Partial'', Some s))"

definition log_row_of :: "'x codec_scheme \<Rightarrow> call_log \<Rightarrow> log_row" where
  "log_row_of cdc e =
     \<lparr>lr_task_id = uuid_str cdc (cl_task e), lr_profile = cl_profile e, lr_provider = cl_provider e,
      lr_model = cl_model e, lr_input_tokens = uint (input_tokens (cl_usage e)),
      lr_output_tokens = uint (output_tokens (cl_usage e)),
      lr_cost_microdollars = map_option amount_microdollars (cost (cl_usage e)),
      lr_cost_currency = map_option currency (cost (cl_usage e)),
      lr_outcome = fst (outcome_columns (cl_outcome e)), lr_outcome_detail = snd (outcome_columns (cl_outcome e)),
      lr_at = ts_str cdc (cl_at e)\<rparr>"

text \<open>The parameters are converted when they are bound: a count above \<open>i64::MAX\<close> is an error.\<close>

definition record_call :: "'x codec_scheme \<Rightarrow> call_log \<Rightarrow> (log_db conn, log_error, unit) op" where
  "record_call cdc e =
     bindE logger_lock (\<lambda>_.
     map_err (\<lambda>_. LogStorage ''insert failed'')
       (if storable e then sql_exec (\<lambda>db. Inr ((), db @ [log_row_of cdc e])) else throwE (- 1)))"

definition sqlite_logger :: "'x codec_scheme \<Rightarrow> log_db conn call_logger" where
  "sqlite_logger cdc = \<lparr>lg_record = record_call cdc, lg_all = all_logs cdc\<rparr>"

subsection \<open>The SQLite logger meets the contract\<close>

definition logger_inv :: "'x codec_scheme \<Rightarrow> log_db conn \<Rightarrow> bool" where
  "logger_inv cdc c \<longleftrightarrow> codec_ok cdc \<and> healthy c \<and> list_all (\<lambda>r. is_ok (row_log cdc r)) (c_db c)"

definition logger_view :: "'x codec_scheme \<Rightarrow> log_db conn \<Rightarrow> call_log list" where
  "logger_view cdc c = map (\<lambda>r. projr (row_log cdc r)) (c_db c)"

lemma u64_column_uint [simp]: "u64_column (uint w) = Some w"
  by (simp add: u64_column_def)

lemma row_log_of: "codec_ok cdc \<Longrightarrow> row_log cdc (log_row_of cdc e) = Inr e"
  by (cases e; cases "cl_usage e"; cases "cl_outcome e"; cases "cost (cl_usage e)")
    (auto simp: row_log_def log_row_of_def outcome_columns_def zip_cost_def)

lemma read_logs:
  "c_faults c = [] \<Longrightarrow> list_all (\<lambda>r. is_ok (row_log cdc r)) rs \<Longrightarrow>
   mapE (\<lambda>r. bindE (map_err (\<lambda>_. LogStorage ''row read failed'') sql_fault) (\<lambda>_. liftE (row_log cdc r))) rs c =
     (Inr (map (\<lambda>r. projr (row_log cdc r)) rs), c)"
  by (induction rs) (auto simp: bindE_def map_err_def is_ok_iff)

interpretation sqlite_log: call_log_contract "sqlite_logger cdc" "logger_inv cdc" "logger_view cdc"
  for cdc :: "'x codec_scheme"
proof
  fix l e r l'
  assume "logger_inv cdc l" "storable e" "lg_record (sqlite_logger cdc) e l = (r, l')"
  then show "logger_inv cdc l' \<and> r = Inr () \<and> logger_view cdc l' = logger_view cdc l @ [e]"
    using row_log_of [of cdc e]
    by (auto simp: logger_inv_def logger_view_def sqlite_logger_def record_call_def bindE_def logger_lock_def
        healthy_def map_err_def)
next
  fix l e r l'
  assume "logger_inv cdc l" "\<not> storable e" "lg_record (sqlite_logger cdc) e l = (r, l')"
  then show "logger_inv cdc l' \<and> logger_view cdc l' = logger_view cdc l"
    by (auto simp: logger_inv_def sqlite_logger_def record_call_def bindE_def logger_lock_def healthy_def map_err_def)
next
  fix l
  assume "logger_inv cdc l"
  then show "lg_all (sqlite_logger cdc) l = (Inr (logger_view cdc l), l)"
    using read_logs [of l cdc "c_db l"]
    by (simp add: logger_inv_def logger_view_def sqlite_logger_def all_logs_def bindE_def logger_lock_def
        healthy_def map_err_def)
qed

definition empty_log :: "log_db conn" where
  "empty_log = conn_new []"

lemma empty_log_inv [simp]: "codec_ok cdc \<Longrightarrow> logger_inv cdc empty_log" "logger_view cdc empty_log = []"
  by (simp_all add: logger_inv_def logger_view_def empty_log_def)

lemma logger_open_memory: "logger_open connect None '':memory:'' = Inr empty_log"
  by (simp add: logger_open_def empty_log_def)

text \<open>Property.  Every recorded call log is read back: after any sequence of records whose token counts
  fit a signed 64-bit column, \<open>all_logs\<close> returns exactly the recorded entries in their order.\<close>

theorem logs_read_back:
  assumes "codec_ok cdc" "list_all storable es"
  shows "fst (all_logs cdc (fold (\<lambda>e c. snd (record_call cdc e c)) es empty_log)) = Inr es"
  using sqlite_log.record_run [of cdc empty_log es] assms by (simp add: sqlite_logger_def)

lemma logs_read_back_witness:
  "let e = \<lparr>cl_task = 1, cl_profile = ''p'', cl_provider = ''q'', cl_model = ''m'',
      cl_usage = \<lparr>input_tokens = 5, output_tokens = 7, cost = Some \<lparr>amount_microdollars = 9, currency = ''USD''\<rparr>\<rparr>,
      cl_outcome = Failed ''x'', cl_at = 3\<rparr>
   in fst (all_logs demo_codec (snd (record_call demo_codec e (snd (record_call demo_codec e empty_log))))) = Inr [e, e]"
proof -
  let ?e = "\<lparr>cl_task = 1, cl_profile = ''p'', cl_provider = ''q'', cl_model = ''m'',
      cl_usage = \<lparr>input_tokens = 5, output_tokens = 7, cost = Some \<lparr>amount_microdollars = 9, currency = ''USD''\<rparr>\<rparr>,
      cl_outcome = Failed ''x'', cl_at = 3\<rparr>"
  show ?thesis using logs_read_back [OF demo_codec_ok, of "[?e, ?e]"] by (simp add: storable_def)
qed

end
