(* ===== verification/Gate_Engine.thy ===== *)
theory Gate_Engine
  imports Security Kanban_Sqlite Logger_Sqlite
begin

text \<open>
  \<open>plugin-gate-engine/src/lib.rs\<close>: approval tokens and guarded transitions.

  The engine borrows a security module, a call logger and, per call, a board.  A guarded transition
  only reads the security module; its state is the pair of the board's and the logger's state, and
  the clock readings of the audit entry and of the board's history are arguments.
\<close>

definition BLAME_NOTICE_TEXT :: string where
  "BLAME_NOTICE_TEXT =
     ''Gate passage does not transfer liability for agent defects to the passer. '' @
     ''Override and approval stamps are remediation signals, not culpability markers. '' @
     ''Incident review is system-level (moral-crumple-zone guard, D15.5).''"

definition DEFAULT_REVIEW_TEMPLATE :: string where
  "DEFAULT_REVIEW_TEMPLATE = ''review-template:system-level/default''"

definition GATE_AUDIT_PROVIDER :: string where
  "GATE_AUDIT_PROVIDER = ''wyrtloom-gate-engine''"

record blame_notice =
  bn_notice :: string
  bn_review_template :: string

definition default_blame :: blame_notice where
  "default_blame = \<lparr>bn_notice = BLAME_NOTICE_TEXT, bn_review_template = DEFAULT_REVIEW_TEMPLATE\<rparr>"

record gate_token =
  gt_task :: uuid
  gt_from :: task_state
  gt_to :: task_state
  gt_actor :: string
  gt_blame :: blame_notice
  gt_digest_summary :: string
  gt_stamp :: stamp

datatype gate_error =
    DigestRequired
  | GateIllegal task_state task_state
  | InvalidToken
  | TokenRequired
  | StageMismatch task_state task_state
  | GateKanban kanban_error
  | GateAudit log_error

text \<open>\<open>Uuid::as_bytes\<close>: sixteen bytes, the most significant first.\<close>

definition uuid_bytes :: "uuid \<Rightarrow> bytes" where
  "uuid_bytes u = map (\<lambda>k. ucast (drop_bit (8 * (15 - k)) u)) [0..<16]"

definition gate_message ::
  "uuid \<Rightarrow> task_state \<Rightarrow> task_state \<Rightarrow> string \<Rightarrow> blame_notice \<Rightarrow> string \<Rightarrow> bytes" where
  "gate_message task from to actor blame digest_summary =
     enc_finish
      (enc_tagged ''digest'' (as_bytes digest_summary)
      (enc_tagged ''blame_template'' (as_bytes (bn_review_template blame))
      (enc_tagged ''blame_notice'' (as_bytes (bn_notice blame))
      (enc_tagged ''actor'' (as_bytes actor)
      (enc_tagged ''to'' (as_bytes (state_str to))
      (enc_tagged ''from'' (as_bytes (state_str from))
      (enc_tagged ''task'' (uuid_bytes task)
      (enc_new ''wyrtloom-gate-v1''))))))))"

subsection \<open>Issuing and validating\<close>

definition issue_token_with_blame ::
  "sec_env \<Rightarrow> timestamp \<Rightarrow> uuid \<Rightarrow> task_state \<Rightarrow> task_state \<Rightarrow> string \<Rightarrow> string \<Rightarrow> blame_notice \<Rightarrow>
   (security_module, gate_error, gate_token) op" where
  "issue_token_with_blame E now task from to actor digest_summary blame m =
     (if blank digest_summary then (Inl DigestRequired, m)
      else if \<not> is_legal_transition from to then (Inl (GateIllegal from to), m)
      else
        (let msg = gate_message task from to actor blame digest_summary;
             (st, m1) = stamp_content E now msg m
         in (Inr \<lparr>gt_task = task, gt_from = from, gt_to = to, gt_actor = actor, gt_blame = blame,
                  gt_digest_summary = digest_summary, gt_stamp = st\<rparr>, m1)))"

definition issue_token ::
  "sec_env \<Rightarrow> timestamp \<Rightarrow> uuid \<Rightarrow> task_state \<Rightarrow> task_state \<Rightarrow> string \<Rightarrow> string \<Rightarrow>
   (security_module, gate_error, gate_token) op" where
  "issue_token E now task from to actor digest_summary =
     issue_token_with_blame E now task from to actor digest_summary default_blame"

definition token_message :: "gate_token \<Rightarrow> bytes" where
  "token_message t =
     gate_message (gt_task t) (gt_from t) (gt_to t) (gt_actor t) (gt_blame t) (gt_digest_summary t)"

definition validate_token :: "sec_env \<Rightarrow> security_module \<Rightarrow> gate_token \<Rightarrow> gate_error + unit" where
  "validate_token E m token =
     (let msg = gate_message (gt_task token) (gt_from token) (gt_to token) (gt_actor token)
                  (gt_blame token) (gt_digest_summary token)
      in if is_valid E m (gt_stamp token) msg then Inr () else Inl InvalidToken)"

subsection \<open>Guarded transitions\<close>

definition arrow :: string where
  "arrow = [CHR 0xE2, CHR 0x86, CHR 0x92]"

definition on_board :: "('b, kanban_error, 'a) op \<Rightarrow> ('b \<times> 'l, kanban_error, 'a) op" where
  "on_board f s = (let (r, b) = f (fst s) in (r, (b, snd s)))"

definition on_logger :: "('l, log_error, 'a) op \<Rightarrow> ('b \<times> 'l, log_error, 'a) op" where
  "on_logger f s = (let (r, l) = f (snd s) in (r, (fst s, l)))"

definition gate_entry :: "timestamp \<Rightarrow> uuid \<Rightarrow> call_outcome \<Rightarrow> call_log" where
  "gate_entry now task outcome =
     \<lparr>cl_task = task, cl_profile = ''gate'', cl_provider = GATE_AUDIT_PROVIDER, cl_model = ''n/a'',
      cl_usage = \<lparr>input_tokens = 0, output_tokens = 0, cost = None\<rparr>, cl_outcome = outcome, cl_at = now\<rparr>"

definition gate_audit :: "'l call_logger \<Rightarrow> timestamp \<Rightarrow> uuid \<Rightarrow> call_outcome \<Rightarrow> ('b \<times> 'l, gate_error, unit) op" where
  "gate_audit L now task outcome = map_err GateAudit (on_logger (lg_record L (gate_entry now task outcome)))"

text \<open>\<open>audit(\<dots>)?; return Err(e)\<close>: a refusal is logged, then returned.\<close>

definition refuse :: "'l call_logger \<Rightarrow> timestamp \<Rightarrow> uuid \<Rightarrow> string \<Rightarrow> gate_error \<Rightarrow> ('b \<times> 'l, gate_error, unit) op" where
  "refuse L now task why e = bindE (gate_audit L now task (Failed why)) (\<lambda>_. throwE e)"

definition guarded_transition ::
  "sec_env \<Rightarrow> security_module \<Rightarrow> 'l call_logger \<Rightarrow> 'b kanban_board \<Rightarrow> (uuid \<Rightarrow> string) \<Rightarrow> timestamp \<Rightarrow> timestamp \<Rightarrow>
   gate_token option \<Rightarrow> uuid \<Rightarrow> task_state \<Rightarrow> string \<Rightarrow> string option \<Rightarrow> ('b \<times> 'l, gate_error, unit) op" where
  "guarded_transition E m L K us now_board now_log token task to actor reason =
     (case token of
        None \<Rightarrow> refuse L now_log task ''ungated transition refused: no approval token'' TokenRequired
      | Some token \<Rightarrow>
          if gt_to token \<noteq> to \<or> gt_task token \<noteq> task \<or> gt_actor token \<noteq> actor then
            refuse L now_log task (''token/request mismatch: token authorises '' @ state_str (gt_from token) @
              arrow @ state_str (gt_to token) @ '' for '' @ gt_actor token @ '', requested '' @ arrow @
              state_str to @ '' for '' @ actor) InvalidToken
          else case validate_token E m token of
            Inl e \<Rightarrow> refuse L now_log task ''approval token failed HMAC validation'' e
          | Inr _ \<Rightarrow> (\<lambda>s.
              case on_board (kb_get K task) s of
                (Inl e, s1) \<Rightarrow>
                  refuse L now_log task (''board lookup failed during guarded transition: '' @ kanban_error_str us e)
                    (GateKanban e) s1
              | (Inr t, s1) \<Rightarrow>
                  if t_state t \<noteq> gt_from token then
                    refuse L now_log task (''stage mismatch: board is '' @ state_str (t_state t) @
                      '', token issued from '' @ state_str (gt_from token))
                      (StageMismatch (t_state t) (gt_from token)) s1
                  else (case on_board (kb_transition K now_board task to actor reason) s1 of
                      (Inr _, s2) \<Rightarrow> gate_audit L now_log task Completed s2
                    | (Inl e, s2) \<Rightarrow>
                        refuse L now_log task (''board rejected guarded transition '' @ arrow @ state_str to @ '': '' @
                          kanban_error_str us e) (GateKanban e) s2)))"

subsection \<open>What the stamp binds\<close>

lemma uuid_bytes_nth: "k < 16 \<Longrightarrow> uuid_bytes u ! (15 - k) = ucast (drop_bit (8 * k) u)"
proof -
  assume "k < 16"
  then have "k \<in> set [0..<16]" by simp
  then show ?thesis by (auto simp: uuid_bytes_def upt_rec)
qed

lemma uuid_bytes_inject [simp]: "uuid_bytes v = uuid_bytes w \<longleftrightarrow> v = w"
proof
  assume eq: "uuid_bytes v = uuid_bytes w"
  show "v = w"
  proof (rule bit_word_eqI)
    fix n assume "n < LENGTH(128)"
    then have n: "n div 8 < 16" "n mod 8 < 8" "8 * (n div 8) + n mod 8 = n" by simp_all
    have "(ucast (drop_bit (8 * (n div 8)) v) :: 8 word) = ucast (drop_bit (8 * (n div 8)) w)"
      using eq uuid_bytes_nth [OF n(1)] by metis
    then have "bit (ucast (drop_bit (8 * (n div 8)) v) :: 8 word) (n mod 8) =
        bit (ucast (drop_bit (8 * (n div 8)) w) :: 8 word) (n mod 8)"
      by simp
    then show "bit v n \<longleftrightarrow> bit w n"
      using n by (simp add: bit_ucast_iff bit_drop_bit_eq)
  qed
qed simp

lemma gate_message_fields:
  "gate_message task from to actor blame digest =
     encode_fields [as_bytes ''wyrtloom-gate-v1'', as_bytes ''task'', uuid_bytes task,
       as_bytes ''from'', as_bytes (state_str from), as_bytes ''to'', as_bytes (state_str to),
       as_bytes ''actor'', as_bytes actor, as_bytes ''blame_notice'', as_bytes (bn_notice blame),
       as_bytes ''blame_template'', as_bytes (bn_review_template blame), as_bytes ''digest'', as_bytes digest]"
  by (simp add: gate_message_def encode_fields_def encoder_defs)

lemma fits_uuid_bytes [simp]: "fits (uuid_bytes u)"
  by (simp add: fits_def uuid_bytes_def)

lemma length_state_str [simp]: "length (state_str st) < 18446744073709551616"
  by (cases st) simp_all

text \<open>Texts held in memory are shorter than the address space.\<close>

definition token_fits :: "gate_token \<Rightarrow> bool" where
  "token_fits t \<longleftrightarrow> list_all (\<lambda>s. length s < 2 ^ 64)
     [gt_actor t, bn_notice (gt_blame t), bn_review_template (gt_blame t), gt_digest_summary t]"

lemma token_message_inject:
  assumes "token_fits t" "token_fits u" "token_message t = token_message u"
  shows "gt_task t = gt_task u \<and> gt_from t = gt_from u \<and> gt_to t = gt_to u \<and> gt_actor t = gt_actor u \<and>
    gt_blame t = gt_blame u \<and> gt_digest_summary t = gt_digest_summary u"
proof -
  let ?fields = "\<lambda>t. [as_bytes ''wyrtloom-gate-v1'', as_bytes ''task'', uuid_bytes (gt_task t),
       as_bytes ''from'', as_bytes (state_str (gt_from t)), as_bytes ''to'', as_bytes (state_str (gt_to t)),
       as_bytes ''actor'', as_bytes (gt_actor t), as_bytes ''blame_notice'', as_bytes (bn_notice (gt_blame t)),
       as_bytes ''blame_template'', as_bytes (bn_review_template (gt_blame t)), as_bytes ''digest'',
       as_bytes (gt_digest_summary t)]"
  have fits: "list_all fits (?fields t)" "list_all fits (?fields u)"
    using assms(1,2) by (simp_all add: token_fits_def fits_as_bytes)
  have "?fields t = ?fields u"
    by (rule encode_fields_inject [OF fits]) (use assms(3) in \<open>simp add: token_message_def gate_message_fields\<close>)
  then show ?thesis by (auto intro: blame_notice.equality)
qed

lemma validate_token_iff:
  "validate_token E m t = Inr () \<longleftrightarrow> is_valid E m (gt_stamp t) (token_message t)"
  by (simp add: validate_token_def token_message_def Let_def)

lemma validate_token_err: "validate_token E m t = Inl e \<Longrightarrow> e = InvalidToken"
  by (auto simp: validate_token_def Let_def split: if_splits)


subsection \<open>Guarded transitions over any board and logger\<close>

text \<open>What a guarded transition does to the board and to the log, whatever the outcome.\<close>

definition guarded_outcome ::
  "sec_env \<Rightarrow> security_module \<Rightarrow> board \<Rightarrow> call_log list \<Rightarrow> timestamp \<Rightarrow> timestamp \<Rightarrow> gate_token option \<Rightarrow> uuid \<Rightarrow>
   task_state \<Rightarrow> string \<Rightarrow> string option \<Rightarrow> gate_error + unit \<Rightarrow> board \<Rightarrow> call_log list \<Rightarrow> bool" where
  "guarded_outcome E m b logs now_board now_log token task to actor reason q b' logs' \<longleftrightarrow>
     (case q of
        Inr _ \<Rightarrow>
          logs' = logs @ [gate_entry now_log task Completed] \<and>
          spec_transition now_board task to actor reason b = (Inr (), b') \<and>
          (case token of None \<Rightarrow> False | Some t \<Rightarrow>
             gt_task t = task \<and> gt_to t = to \<and> gt_actor t = actor \<and>
             is_valid E m (gt_stamp t) (token_message t) \<and> map_option t_state (b task) = Some (gt_from t))
      | Inl e \<Rightarrow> b' = b \<and> (\<exists>why. logs' = logs @ [gate_entry now_log task (Failed why)]))"

locale gate_env = board: kanban_contract K binv bview + logs: call_log_contract L linv lview
  for K :: "'b kanban_board" and binv bview and L :: "'l call_logger" and linv lview
begin

lemma gate_audit_run:
  assumes "linv l" "gate_audit L now task outcome (b, l) = (q, (b', l'))"
  shows "q = Inr () \<and> b' = b \<and> linv l' \<and> lview l' = lview l @ [gate_entry now task outcome]"
proof -
  obtain r l1 where r: "lg_record L (gate_entry now task outcome) l = (r, l1)" by fastforce
  have "storable (gate_entry now task outcome)" by (simp add: storable_def gate_entry_def)
  from logs.record_law [OF assms(1) this r] assms(2) r show ?thesis
    by (auto simp: gate_audit_def on_logger_def map_err_def)
qed

lemma refuse_run:
  assumes "linv l" "refuse L now task why e (b, l) = (q, (b', l'))"
  shows "q = Inl e \<and> b' = b \<and> linv l' \<and> lview l' = lview l @ [gate_entry now task (Failed why)]"
proof -
  obtain r b1 l1 where r: "gate_audit L now task (Failed why) (b, l) = (r, (b1, l1))"
    by (metis prod.exhaust)
  from gate_audit_run [OF assms(1) r] assms(2) r show ?thesis
    by (auto simp: refuse_def bindE_def)
qed

lemma refuse_outcome:
  assumes "linv l" "binv b" "bview b0 = bview b" "refuse L now_log task why e (b, l) = (q, (b', l'))"
  shows "binv b' \<and> linv l' \<and>
    guarded_outcome E m (bview b0) (lview l) now_board now_log token task to actor reason q (bview b') (lview l')"
  using refuse_run [OF assms(1,4)] assms(2,3) by (auto simp: guarded_outcome_def)

lemma guarded_transition_run:
  assumes "binv b" "linv l"
    and "guarded_transition E m L K us now_board now_log token task to actor reason (b, l) = (q, (b', l'))"
  shows "binv b' \<and> linv l' \<and>
    guarded_outcome E m (bview b) (lview l) now_board now_log token task to actor reason q (bview b') (lview l')"
proof -
  have refused: ?thesis if "refuse L now_log task why e (b1, l) = (q, (b', l'))" "binv b1" "bview b1 = bview b" for why e b1
    using refuse_outcome [OF assms(2) that(2) that(3) [symmetric] that(1)] .
  show ?thesis
  proof (cases "\<exists>t. token = Some t \<and> gt_to t = to \<and> gt_task t = task \<and> gt_actor t = actor \<and> validate_token E m t = Inr ()")
    case False
    then obtain why e where "refuse L now_log task why e (b, l) = (q, (b', l'))"
      using assms(3) by (auto simp: guarded_transition_def split: option.splits if_splits sum.splits)
    then show ?thesis using assms(1) refused by blast
  next
    case True
    then obtain t where t: "token = Some t" "gt_to t = to" "gt_task t = task" "gt_actor t = actor"
      "is_valid E m (gt_stamp t) (token_message t)" "validate_token E m t = Inr ()"
      using validate_token_iff by blast
    obtain g b1 where get: "kb_get K task b = (g, b1)" by fastforce
    have b1: "binv b1" "bview b1 = bview b" "g = ok_or (NotFound task) (bview b task)"
      using board.get_law [OF assms(1) get] by (auto simp: spec_get_def)
    show ?thesis
    proof (cases "\<exists>tk. g = Inr tk \<and> t_state tk = gt_from t")
      case False
      then obtain why e where "refuse L now_log task why e (b1, l) = (q, (b', l'))"
        using assms(3) t get by (cases g) (auto simp: guarded_transition_def on_board_def)
      then show ?thesis using b1 refused by blast
    next
      case True
      then obtain tk where tk: "g = Inr tk" "t_state tk = gt_from t" by blast
      obtain r b2 where tr: "kb_transition K now_board task to actor reason b1 = (r, b2)" by fastforce
      have b2: "binv b2" "(r, bview b2) = spec_transition now_board task to actor reason (bview b)"
        using board.transition_law [OF b1(1) tr] b1(2) by auto
      show ?thesis
      proof (cases r)
        case (Inl e)
        then have "bview b2 = bview b" using b2(2) spec_transition_err by metis
        moreover obtain why e' where "refuse L now_log task why e' (b2, l) = (q, (b', l'))"
          using assms(3) t get tk tr Inl by (auto simp: guarded_transition_def on_board_def)
        ultimately show ?thesis using b2(1) refused by blast
      next
        case (Inr u)
        then have "gate_audit L now_log task Completed (b2, l) = (q, (b', l'))"
          using assms(3) t get tk tr by (auto simp: guarded_transition_def on_board_def)
        from gate_audit_run [OF assms(2) this] show ?thesis
          using b2 Inr t tk b1(3) by (auto simp: guarded_outcome_def)
      qed
    qed
  qed
qed

lemma guarded_accepts:
  assumes "binv b" "linv l"
  shows "fst (guarded_transition E m L K us now_board now_log (Some t) task to actor reason (b, l)) = Inr () \<longleftrightarrow>
    gt_task t = task \<and> gt_to t = to \<and> gt_actor t = actor \<and> is_valid E m (gt_stamp t) (token_message t) \<and>
    map_option t_state (bview b task) = Some (gt_from t) \<and>
    fst (spec_transition now_board task to actor reason (bview b)) = Inr ()"
    (is "?run = _ \<longleftrightarrow> ?cond")
proof
  obtain q b' l' where run: "guarded_transition E m L K us now_board now_log (Some t) task to actor reason (b, l) = (q, (b', l'))"
    by (metis prod.exhaust)
  note out = guarded_transition_run [OF assms run]
  assume "?run = Inr ()"
  then show ?cond using out run by (auto simp: guarded_outcome_def)
next
  assume c: ?cond
  obtain g b1 where get: "kb_get K task b = (g, b1)" by fastforce
  have b1: "binv b1" "bview b1 = bview b" "g = ok_or (NotFound task) (bview b task)"
    using board.get_law [OF assms(1) get] by (auto simp: spec_get_def)
  obtain r b2 where tr: "kb_transition K now_board task to actor reason b1 = (r, b2)" by fastforce
  have "r = Inr ()" using board.transition_law [OF b1(1) tr] b1(2) c by (metis fst_conv)
  moreover obtain q b' l' where "gate_audit L now_log task Completed (b2, l) = (q, (b', l'))"
    by (metis prod.exhaust)
  moreover have "q = Inr ()" using gate_audit_run [OF assms(2) calculation(2)] by simp
  moreover have "validate_token E m t = Inr ()" using c by (simp add: validate_token_iff)
  ultimately show "?run = Inr ()"
    using c get tr b1(3) by (auto simp: guarded_transition_def on_board_def)
qed

end

interpretation sqlite_gate: gate_env "sqlite_kanban cdc" "kanban_inv cdc" "kanban_view cdc"
    "sqlite_logger cdc'" "logger_inv cdc'" "logger_view cdc'"
  for cdc :: "'x kanban_codec_scheme" and cdc' :: "'y codec_scheme"
  by (intro gate_env.intro sqlite_board.kanban_contract_axioms sqlite_log.call_log_contract_axioms)

text \<open>A token with the stamp the module would issue for it.\<close>

definition signed :: "sec_env \<Rightarrow> security_module \<Rightarrow> gate_token \<Rightarrow> gate_token" where
  "signed E m t = t\<lparr>gt_stamp := hmac_sha256 E (k_session m) (token_message t)\<rparr>"

lemma signed_fields [simp]:
  "gt_task (signed E m t) = gt_task t" "gt_from (signed E m t) = gt_from t" "gt_to (signed E m t) = gt_to t"
  "gt_actor (signed E m t) = gt_actor t" "token_message (signed E m t) = token_message t"
  by (simp_all add: signed_def token_message_def)

lemma signed_valid:
  assumes "mac32 E" "invalidated m = {}"
  shows "is_valid E m (gt_stamp (signed E m t)) (token_message t)"
proof -
  have "length (gt_stamp (signed E m t)) = 32" using assms(1) by (simp add: signed_def mac32_def)
  then show ?thesis by (simp add: is_valid_iff [OF assms(1)] assms(2)) (simp add: signed_def)
qed

lemma demo_token:
  assumes "invalidated m = {}"
  shows "\<exists>tok. gt_task tok = 7 \<and> gt_from tok = Backlog \<and> gt_to tok = Todo \<and> gt_actor tok = ''a'' \<and>
    is_valid demo_env m (gt_stamp tok) (token_message tok)"
  by (rule exI [of _ "signed demo_env m \<lparr>gt_task = 7, gt_from = Backlog, gt_to = Todo, gt_actor = ''a'',
      gt_blame = default_blame, gt_digest_summary = ''d'', gt_stamp = []\<rparr>"])
    (simp add: signed_valid [OF demo_mac32 assms])

subsection \<open>Properties\<close>

text \<open>Claim C27.  Issuing: a token is issued exactly when a non-blank digest was presented and the move is
  legal, and the token then validates in every later state of the module in which its stamp has not
  been revoked.\<close>

theorem issued_token_validates:
  assumes "mac32 E"
  shows "(is_ok (fst (issue_token_with_blame E now task from to actor digest blame m)) \<longleftrightarrow>
      \<not> blank digest \<and> is_legal_transition from to) \<and>
    (issue_token_with_blame E now task from to actor digest blame m = (Inr tok, m1) \<longrightarrow>
      gt_task tok = task \<and> gt_from tok = from \<and> gt_to tok = to \<and> gt_actor tok = actor \<and> gt_blame tok = blame \<and>
      (validate_token E (sec_run E m1 ops) tok = Inr () \<longleftrightarrow>
         gt_stamp tok \<notin> invalidated m \<and> OpInvalidate (gt_stamp tok) \<notin> snd ` set ops))"
proof -
  obtain st m' where s: "stamp_content E now (gate_message task from to actor blame digest) m = (st, m')" by fastforce
  have len: "length st = 32" "st = hmac_sha256 E (k_session m) (gate_message task from to actor blame digest)"
    and m': "k_session m' = k_session m" "invalidated m' = invalidated m"
    using s assms by (auto simp: stamp_content_def Let_def compute_mac_def mac_with_def mac32_def)
  let ?msg = "gate_message task from to actor blame digest"
  have iv: "is_valid E (sec_run E m' ops) st ?msg \<longleftrightarrow> st \<notin> invalidated m \<and> OpInvalidate st \<notin> snd ` set ops"
  proof -
    have "hmac_sha256 E (k_session (sec_run E m' ops)) ?msg = st" using len(2) m' by (simp add: sec_run_keeps)
    then show ?thesis by (simp add: is_valid_iff [OF assms len(1)] sec_run_revoked m')
  qed
  show ?thesis
  proof (intro conjI impI)
    show "is_ok (fst (issue_token_with_blame E now task from to actor digest blame m)) \<longleftrightarrow>
        \<not> blank digest \<and> is_legal_transition from to"
      using s by (simp add: issue_token_with_blame_def Let_def)
  next
    assume "issue_token_with_blame E now task from to actor digest blame m = (Inr tok, m1)"
    then have tok: "tok = \<lparr>gt_task = task, gt_from = from, gt_to = to, gt_actor = actor, gt_blame = blame,
        gt_digest_summary = digest, gt_stamp = st\<rparr>" "m1 = m'"
      using s by (auto simp: issue_token_with_blame_def Let_def split: if_splits)
    show "gt_task tok = task" "gt_from tok = from" "gt_to tok = to" "gt_actor tok = actor" "gt_blame tok = blame"
      by (simp_all add: tok(1))
    show "validate_token E (sec_run E m1 ops) tok = Inr () \<longleftrightarrow>
         gt_stamp tok \<notin> invalidated m \<and> OpInvalidate (gt_stamp tok) \<notin> snd ` set ops"
      by (simp add: tok validate_token_iff token_message_def iv)
  qed
qed

lemma issued_token_validates_witness:
  "\<exists>tok m1. issue_token_with_blame demo_env 1 7 Ready Running ''a'' ''d'' default_blame (with_key demo_env [1] policy_permissive)
     = (Inr tok, m1) \<and> validate_token demo_env m1 tok = Inr ()"
proof -
  have "\<not> blank ''d''" by (simp add: blank_iff chars_ascii ascii_def is_whitespace_def)
  then have "is_ok (fst (issue_token_with_blame demo_env 1 7 Ready Running ''a'' ''d'' default_blame (with_key demo_env [1] policy_permissive)))"
    using issued_token_validates [OF demo_mac32, of 1 7 Ready Running "''a''" "''d''" default_blame "with_key demo_env [1] policy_permissive"]
    by simp
  then obtain tok m1 where tok: "issue_token_with_blame demo_env 1 7 Ready Running ''a'' ''d'' default_blame
      (with_key demo_env [1] policy_permissive) = (Inr tok, m1)"
    by (metis is_ok_iff prod.collapse)
  then show ?thesis
    using issued_token_validates [OF demo_mac32, of 1 7 Ready Running "''a''" "''d''" default_blame
        "with_key demo_env [1] policy_permissive" tok m1 "[]"] by (auto simp: sec_run_def)
qed

text \<open>Property.  The stamp binds every field: if two tokens carry the same stamp and both validate, they
  agree on the task, both states, the actor, the blame notice and the digest, unless their messages
  collide under the HMAC; so no field can be altered or stripped.\<close>

theorem token_fields_bound:
  assumes "mac32 E" "length (gt_stamp t) = 32" "gt_stamp t = gt_stamp u" "token_fits t" "token_fits u"
    and "validate_token E m t = Inr ()" "validate_token E m u = Inr ()"
    and "inj_on (hmac_sha256 E (k_session m)) {token_message t, token_message u}"
  shows "t = u"
proof -
  have "hmac_sha256 E (k_session m) (token_message t) = hmac_sha256 E (k_session m) (token_message u)"
    using assms(1-3,6,7) by (simp add: validate_token_iff is_valid_iff)
  then have "token_message t = token_message u" using assms(8) by (auto dest: inj_onD)
  from token_message_inject [OF assms(4,5) this] assms(3) show ?thesis by (auto intro: gate_token.equality)
qed

lemma token_fields_bound_witness:
  "\<exists>E tok u. gt_stamp u = gt_stamp tok \<and> gt_blame u \<noteq> gt_blame tok \<and>
     validate_token E (with_key E [1] policy_permissive) tok = Inr () \<and>
     validate_token E (with_key E [1] policy_permissive) u = Inl InvalidToken"
proof -
  have gen: ?thesis if ab: "length a = 32" "length b = 32" "a \<noteq> b" for a b :: bytes
  proof -
    let ?tok = "\<lparr>gt_task = 7, gt_from = Ready, gt_to = Running, gt_actor = ''a'', gt_blame = default_blame,
        gt_digest_summary = ''d'', gt_stamp = a\<rparr>"
    let ?u = "?tok\<lparr>gt_blame := \<lparr>bn_notice = [], bn_review_template = []\<rparr>\<rparr>"
    let ?E = "demo_env\<lparr>hmac_sha256 := \<lambda>k c. if c = token_message ?tok then a else b\<rparr>"
    let ?m = "with_key ?E [1] policy_permissive"
    have E: "mac32 ?E" using ab by (simp add: mac32_def)
    have len: "length (gt_stamp ?tok) = 32" using ab by simp
    have fits: "token_fits ?tok" "token_fits ?u"
      by (simp_all add: token_fits_def default_blame_def BLAME_NOTICE_TEXT_def DEFAULT_REVIEW_TEMPLATE_def)
    have valid: "validate_token ?E ?m ?tok = Inr ()"
      unfolding validate_token_iff is_valid_iff [OF E len] by simp
    have "inj_on (hmac_sha256 ?E (k_session ?m)) {token_message ?tok, token_message ?u}"
      using ab by (auto simp: inj_on_def)
    moreover have "?tok \<noteq> ?u" by (simp add: default_blame_def BLAME_NOTICE_TEXT_def)
    ultimately have "validate_token ?E ?m ?u \<noteq> Inr ()"
      using token_fields_bound [OF E len _ fits valid] by auto
    then have "validate_token ?E ?m ?u = Inl InvalidToken"
      by (cases "validate_token ?E ?m ?u") (auto dest: validate_token_err)
    with valid show ?thesis
      by (intro exI [of _ ?E] exI [of _ ?tok] exI [of _ ?u]) (simp add: default_blame_def BLAME_NOTICE_TEXT_def)
  qed
  show ?thesis by (rule gen [of "replicate 32 0" "replicate 32 1"]) simp_all
qed

text \<open>Claim C5.  The guarded transition on the SQLite board with the SQLite logger: it succeeds only with
  a valid token for exactly this task, target and actor, presented while the board is in the token's
  source state, and then the board has made exactly the legal transition; a refused attempt leaves
  the board unchanged.  Every attempt, refused or not, adds exactly one entry to the log.\<close>

theorem guarded_transition_sound:
  assumes "kanban_inv cdc b" "logger_inv cdc' l"
    and "guarded_transition E m (sqlite_logger cdc') (sqlite_kanban cdc) us now_board now_log token task to actor reason (b, l)
      = (q, (b', l'))"
  shows "kanban_inv cdc b' \<and> logger_inv cdc' l' \<and>
    (case q of
       Inr _ \<Rightarrow>
         logger_view cdc' l' = logger_view cdc' l @ [gate_entry now_log task Completed] \<and>
         spec_transition now_board task to actor reason (kanban_view cdc b) = (Inr (), kanban_view cdc b') \<and>
         (case token of None \<Rightarrow> False | Some t \<Rightarrow>
            gt_task t = task \<and> gt_to t = to \<and> gt_actor t = actor \<and>
            is_valid E m (gt_stamp t) (token_message t) \<and>
            map_option t_state (kanban_view cdc b task) = Some (gt_from t))
     | Inl e \<Rightarrow> kanban_view cdc b' = kanban_view cdc b \<and>
         (\<exists>why. logger_view cdc' l' = logger_view cdc' l @ [gate_entry now_log task (Failed why)]))"
  using sqlite_gate.guarded_transition_run [OF assms] unfolding guarded_outcome_def .

lemma guarded_transition_sound_witness:
  "\<exists>l'. guarded_transition demo_env (with_key demo_env [1] policy_permissive) (sqlite_logger demo_codec)
      (sqlite_kanban demo_kanban_codec) demo_uuid_str 5 6 None 7 Running ''a'' None (empty_board, empty_log)
      = (Inl TokenRequired, (empty_board, l')) \<and> length (logger_view demo_codec l') = 1"
proof -
  obtain q b' l' where run: "guarded_transition demo_env (with_key demo_env [1] policy_permissive) (sqlite_logger demo_codec)
      (sqlite_kanban demo_kanban_codec) demo_uuid_str 5 6 None 7 Running ''a'' None (empty_board, empty_log) = (q, (b', l'))"
    by (metis prod.exhaust)
  have inv: "kanban_inv demo_kanban_codec empty_board" "logger_inv demo_codec empty_log"
    using demo_kan_ok demo_codec_ok by simp_all
  have "q = Inl TokenRequired \<and> b' = empty_board"
    using sqlite_gate.refuse_run [OF inv(2), of 6 7 "''ungated transition refused: no approval token''" TokenRequired empty_board q b' l'] run
    by (simp add: guarded_transition_def)
  moreover from guarded_transition_sound [OF inv run] this obtain why where
    "logger_view demo_codec l' = logger_view demo_codec empty_log @ [gate_entry 6 7 (Failed why)]" by auto
  ultimately show ?thesis using run by (intro exI [of _ l']) simp
qed

text \<open>Property.  Acceptance depends on the token, the request and the board's current state only: nothing
  records that a token was redeemed, so a token is accepted again whenever its task is back in the
  source state.\<close>

theorem guarded_transition_accepts_iff:
  assumes "kanban_inv cdc b" "logger_inv cdc' l"
  shows "fst (guarded_transition E m (sqlite_logger cdc') (sqlite_kanban cdc) us now_board now_log (Some t) task to actor reason (b, l))
      = Inr () \<longleftrightarrow>
    gt_task t = task \<and> gt_to t = to \<and> gt_actor t = actor \<and> is_valid E m (gt_stamp t) (token_message t) \<and>
    map_option t_state (kanban_view cdc b task) = Some (gt_from t) \<and>
    fst (spec_transition now_board task to actor reason (kanban_view cdc b)) = Inr ()"
  using sqlite_gate.guarded_accepts [OF assms] .

lemma guarded_transition_accepts_iff_witness:
  "\<exists>tok m b1 b2. kanban_view demo_kanban_codec b1 \<noteq> kanban_view demo_kanban_codec b2 \<and>
     fst (guarded_transition demo_env m (sqlite_logger demo_codec) (sqlite_kanban demo_kanban_codec) demo_uuid_str 8 8
       (Some tok) 7 Todo ''a'' None (b1, empty_log)) = Inr () \<and>
     b2 = fold (board_step (sqlite_kanban demo_kanban_codec)) [KTransition 8 7 Todo ''a'' None, KTransition 9 7 Backlog ''a'' None] b1 \<and>
     fst (guarded_transition demo_env m (sqlite_logger demo_codec) (sqlite_kanban demo_kanban_codec) demo_uuid_str 8 8
       (Some tok) 7 Todo ''a'' None (b2, empty_log)) = Inr ()"
proof -
  let ?m = "with_key demo_env [1] policy_permissive"
  obtain tok where tok: "gt_task tok = 7" "gt_from tok = Backlog" "gt_to tok = Todo" "gt_actor tok = ''a''"
    "is_valid demo_env ?m (gt_stamp tok) (token_message tok)"
    using demo_token [of ?m] by auto
  let ?mk = "KCreate 7 3 \<lparr>nt_title = ''t'', nt_actor = ''a'', nt_depends_on = []\<rparr>"
  let ?ret = "[KTransition 8 7 Todo ''a'' None, KTransition 9 7 Backlog ''a'' None]"
  let ?b1 = "board_step (sqlite_kanban demo_kanban_codec) ?mk empty_board"
  let ?b2 = "fold (board_step (sqlite_kanban demo_kanban_codec)) ?ret ?b1"
  have inv0: "kanban_inv demo_kanban_codec empty_board" using demo_kan_ok by simp
  have b1: "kanban_inv demo_kanban_codec ?b1" "kanban_view demo_kanban_codec ?b1 = spec_step ?mk Map.empty"
    using sqlite_board.run_view [OF inv0, of "[?mk]"] by simp_all
  have b2: "kanban_inv demo_kanban_codec ?b2" "kanban_view demo_kanban_codec ?b2 = fold spec_step ?ret (spec_step ?mk Map.empty)"
    using sqlite_board.run_view [OF b1(1), of ?ret] b1(2) by simp_all
  have linv: "logger_inv demo_codec empty_log" using demo_codec_ok by simp
  have "fst (guarded_transition demo_env ?m (sqlite_logger demo_codec) (sqlite_kanban demo_kanban_codec) demo_uuid_str 8 8
       (Some tok) 7 Todo ''a'' None (?b1, empty_log)) = Inr ()"
    unfolding guarded_transition_accepts_iff [OF b1(1) linv] b1(2) using tok
    by (simp add: spec_create_def spec_transition_def) (simp add: created_def)
  moreover have "fst (guarded_transition demo_env ?m (sqlite_logger demo_codec) (sqlite_kanban demo_kanban_codec) demo_uuid_str 8 8
       (Some tok) 7 Todo ''a'' None (?b2, empty_log)) = Inr ()"
    unfolding guarded_transition_accepts_iff [OF b2(1) linv] b2(2) using tok
    by (simp add: spec_create_def spec_transition_def) (simp add: created_def moved_def)
  moreover have "map_option t_history (kanban_view demo_kanban_codec ?b1 7) \<noteq> map_option t_history (kanban_view demo_kanban_codec ?b2 7)"
    unfolding b1(2) b2(2) by (simp add: spec_create_def spec_transition_def) (simp add: created_def moved_def)
  then have "kanban_view demo_kanban_codec ?b1 \<noteq> kanban_view demo_kanban_codec ?b2" by metis
  ultimately show ?thesis by blast
qed

text \<open>Property.  When the audit entry of a successful guarded transition cannot be written, the call
  returns an error although the board has moved.\<close>

theorem unlogged_transition_stands:
  assumes "kanban_inv cdc b" "c_poisoned l"
    and "gt_task t = task" "gt_to t = to" "gt_actor t = actor" "is_valid E m (gt_stamp t) (token_message t)"
    and "map_option t_state (kanban_view cdc b task) = Some (gt_from t)"
    and "spec_transition now_board task to actor reason (kanban_view cdc b) = (Inr (), v)"
  shows "\<exists>b'. guarded_transition E m (sqlite_logger cdc') (sqlite_kanban cdc) us now_board now_log (Some t) task to actor reason (b, l)
      = (Inl (GateAudit (LogStorage ''lock poisoned'')), (b', l)) \<and> kanban_view cdc b' = v"
proof -
  obtain g b1 where get: "kb_get (sqlite_kanban cdc) task b = (g, b1)" by fastforce
  have b1: "kanban_inv cdc b1" "kanban_view cdc b1 = kanban_view cdc b" "g = ok_or (NotFound task) (kanban_view cdc b task)"
    using sqlite_board.get_law [OF assms(1) get] by (auto simp: spec_get_def)
  obtain r b2 where tr: "kb_transition (sqlite_kanban cdc) now_board task to actor reason b1 = (r, b2)" by fastforce
  have b2: "r = Inr ()" "kanban_view cdc b2 = v"
    using sqlite_board.transition_law [OF b1(1) tr] b1(2) assms(8) by auto
  obtain tk where "kanban_view cdc b task = Some tk" "t_state tk = gt_from t" using assms(7) by auto
  moreover have "validate_token E m t = Inr ()" using assms(6) by (simp add: validate_token_iff)
  moreover have "gate_audit (sqlite_logger cdc') now_log task Completed (b2, l) = (Inl (GateAudit (LogStorage ''lock poisoned'')), (b2, l))"
    using assms(2) by (simp add: gate_audit_def map_err_def on_logger_def sqlite_logger_def record_call_def
        logger_lock_def lock_conn_def bindE_def)
  ultimately show ?thesis using get tr b1(3) b2 assms(3-5)
    by (intro exI [of _ b2]) (simp add: guarded_transition_def on_board_def)
qed

lemma unlogged_transition_stands_witness:
  "\<exists>tok m b b' l v. kanban_view demo_kanban_codec b \<noteq> v \<and> kanban_view demo_kanban_codec b' = v \<and>
     guarded_transition demo_env m (sqlite_logger demo_codec) (sqlite_kanban demo_kanban_codec) demo_uuid_str 8 8
       (Some tok) 7 Todo ''a'' None (b, l) = (Inl (GateAudit (LogStorage ''lock poisoned'')), (b', l))"
proof -
  let ?m = "with_key demo_env [1] policy_permissive"
  obtain tok where tok: "gt_task tok = 7" "gt_from tok = Backlog" "gt_to tok = Todo" "gt_actor tok = ''a''"
    "is_valid demo_env ?m (gt_stamp tok) (token_message tok)"
    using demo_token [of ?m] by auto
  let ?nt = "\<lparr>nt_title = ''t'', nt_actor = ''a'', nt_depends_on = []\<rparr>"
  let ?mk = "KCreate 7 3 ?nt"
  let ?b = "board_step (sqlite_kanban demo_kanban_codec) ?mk empty_board"
  have b: "kanban_inv demo_kanban_codec ?b" "kanban_view demo_kanban_codec ?b = [7 \<mapsto> created 7 3 ?nt]"
    using sqlite_board.run_view [OF empty_board_inv(1) [OF demo_kan_ok], of "[?mk]"] by (simp_all add: spec_create_def)
  let ?v = "[7 \<mapsto> moved 8 Todo ''a'' None (created 7 3 ?nt)]"
  have "spec_transition 8 7 Todo ''a'' None (kanban_view demo_kanban_codec ?b) = (Inr (), ?v)"
    unfolding b(2) by (simp add: spec_transition_def) (simp add: created_def)
  moreover have "map_option t_state (kanban_view demo_kanban_codec ?b 7) = Some (gt_from tok)"
    unfolding b(2) by (simp add: created_def tok(2))
  moreover have "kanban_view demo_kanban_codec ?b \<noteq> ?v"
    unfolding b(2) by (auto simp: fun_eq_iff created_def moved_def dest: spec [of _ 7])
  moreover have "c_poisoned (empty_log\<lparr>c_poisoned := True\<rparr>)" by simp
  ultimately show ?thesis
    using unlogged_transition_stands [OF b(1), of "empty_log\<lparr>c_poisoned := True\<rparr>" tok 7 Todo "''a''" demo_env ?m 8 None ?v
        demo_codec demo_uuid_str 8] tok by metis
qed

end
