(* ===== verification/Escalation_Cli.thy ===== *)
theory Escalation_Cli
  imports Agent
begin

text \<open>
  \<open>plugin-escalation-cli/src/lib.rs\<close>: a decision routed to the human at the terminal.

  Standard input is the list of the results of reading its next lines (\<open>Inl\<close> an I/O error's
  text); no next element is end of input.  The text written before the first read is \<open>render\<close>; its
  write errors are ignored by the code.
\<close>

definition em_dash :: string where
  "em_dash = [CHR 0xE2, CHR 0x80, CHR 0x94]"

definition nl :: string where
  "nl = [CHR 0x0A]"

definition render_options :: "action_option list \<Rightarrow> string" where
  "render_options opts =
     (if opts = [] then []
      else nl @ ''Suggested actions:'' @ nl @
        concat (map (\<lambda>(i, opt). ''  ['' @ nat_str (i + 1) @ ''] '' @ opt_label opt @
            (case opt_description opt of None \<Rightarrow> [] | Some d \<Rightarrow> '' '' @ em_dash @ '' '' @ d) @ nl)
          (enumerate 0 opts)))"

text \<open>The prompt below the three banner lines.\<close>

definition render :: "(uuid \<Rightarrow> string) \<Rightarrow> escalation \<Rightarrow> string" where
  "render uuid_str e =
     ''Task: '' @ uuid_str (esc_task e) @ nl @ nl @ esc_prompt e @ nl @ render_options (esc_options e) @
     ''  [f] Enter free text'' @ nl @ ''  [s] Stop task'' @ nl @ nl @ ''Your choice: ''"

type_synonym stdin = "(string + string) list"

definition read_line :: "(stdin, escalation_error, string) op" where
  "read_line = (\<lambda>inp. case inp of
       [] \<Rightarrow> (Inl Interrupted, [])
     | Inl err # rest \<Rightarrow> (Inl (EscIo err), rest)
     | Inr line # rest \<Rightarrow> (Inr line, rest))"

text \<open>
  \<open>to_lowercase\<close>, as far as the code looks at its result: the letters of \<open>s\<close>, \<open>stop\<close>, \<open>f\<close>, \<open>free\<close> and
  the digits have no other upper case than the ASCII one.
\<close>

definition to_lower :: "string \<Rightarrow> string" where
  "to_lower = map (\<lambda>c. let n = of_char c :: nat in if 65 \<le> n \<and> n \<le> 90 then char_of (n + 32) else c)"

definition digit_val :: "char \<Rightarrow> nat option" where
  "digit_val c = (let n = of_char c :: nat in if 48 \<le> n \<and> n \<le> 57 then Some (n - 48) else None)"

fun parse_digits :: "nat \<Rightarrow> string \<Rightarrow> nat option" where
  "parse_digits acc [] = Some acc"
| "parse_digits acc (c # cs) =
     (case digit_val c of
        None \<Rightarrow> None
      | Some d \<Rightarrow> (if acc * 10 + d < 2 ^ 64 then parse_digits (acc * 10 + d) cs else None))"

text \<open>\<open>parse::<usize>()\<close>: an optional plus sign and at least one digit, no overflow.\<close>

definition parse_usize :: "string \<Rightarrow> nat option" where
  "parse_usize s =
     (let ds = (case s of c # cs \<Rightarrow> if c = CHR ''+'' then cs else s | [] \<Rightarrow> s)
      in if ds = [] then None else parse_digits 0 ds)"

definition cli_escalate :: "escalation \<Rightarrow> (stdin, escalation_error, human_response) op" where
  "cli_escalate e =
     bindE read_line (\<lambda>line.
       let choice = to_lower (trim line) in
       if choice = ''s'' \<or> choice = ''stop'' then retE Stop
       else if choice = ''f'' \<or> choice = ''free'' then
         bindE read_line (\<lambda>text. retE (FreeText (trim text)))
       else case parse_usize choice of
         Some n \<Rightarrow>
           (if n \<ge> 1 \<and> n \<le> length (esc_options e) then retE (Chose (opt_id (esc_options e ! (n - 1))))
            else retE (FreeText (trim line)))
       | None \<Rightarrow> retE (FreeText (trim line)))"

text \<open>\<open>ScriptedEscalation\<close> answers with its fixed response.\<close>

definition scripted_escalate :: "human_response \<Rightarrow> escalation \<Rightarrow> ('s, escalation_error, human_response) op" where
  "scripted_escalate response e = retE response"

lemma read_line_simps [simp]:
  "read_line [] = (Inl Interrupted, [])"
  "read_line (Inl err # rest) = (Inl (EscIo err), rest)"
  "read_line (Inr line # rest) = (Inr line, rest)"
  by (simp_all add: read_line_def)

lemma digit_val_digit: "d < 10 \<Longrightarrow> digit_val (char_of (48 + d)) = Some d"
  by (simp add: digit_val_def)

lemma parse_digits_append:
  "parse_digits acc (xs @ ys) = (case parse_digits acc xs of None \<Rightarrow> None | Some a \<Rightarrow> parse_digits a ys)"
  by (induction xs arbitrary: acc) (auto split: option.splits)

lemma parse_digits_nat_str: "n < 2 ^ 64 \<Longrightarrow> parse_digits 0 (nat_str n) = Some n"
proof (induction n rule: nat_str.induct)
  case (1 n)
  show ?case
  proof (cases "n < 10")
    case True
    then show ?thesis by (subst nat_str_append_digit) (simp add: digit_val_digit)
  next
    case False
    then have "parse_digits 0 (nat_str (n div 10)) = Some (n div 10)" using 1 by simp
    then show ?thesis using False 1(2)
      by (subst nat_str_append_digit) (simp add: parse_digits_append digit_val_digit)
  qed
qed

text \<open>A menu answer never names an option that was not offered.\<close>

lemma cli_escalate_chose:
  "fst (cli_escalate e inp) = Inr (Chose i) \<Longrightarrow> i \<in> opt_id ` set (esc_options e)"
  by (auto simp: cli_escalate_def bindE_def read_line_def Let_def
      split: list.splits sum.splits if_splits option.splits)

lemma trim_chars_solid:
  "(\<And>c. c \<in> set cs \<Longrightarrow> \<not> is_whitespace c) \<Longrightarrow> trim_chars cs = cs"
proof -
  assume solid: "\<And>c. c \<in> set cs \<Longrightarrow> \<not> is_whitespace c"
  have drop: "dropWhile is_whitespace xs = xs" if "set xs \<subseteq> set cs" for xs
    using that solid by (cases xs) auto
  show ?thesis by (simp add: trim_chars_def drop)
qed

lemma trim_nat_str [simp]: "trim (nat_str n) = nat_str n"
proof -
  have asc: "ascii (nat_str n)" using set_nat_str [of n] by (fastforce simp: ascii_def)
  have "c \<in> {48..57}" if "c \<in> set (chars (nat_str n))" for c
    using that set_nat_str [of n] by (auto simp: chars_ascii [OF asc])
  then have "trim_chars (chars (nat_str n)) = chars (nat_str n)"
    by (intro trim_chars_solid) (fastforce simp: is_whitespace_def)
  then show ?thesis by (simp add: trim_def chars_ascii [OF asc] of_chars_ascii [OF asc])
qed

lemma to_lower_nat_str [simp]: "to_lower (nat_str n) = nat_str n"
proof -
  have "(let k = of_char c :: nat in if 65 \<le> k \<and> k \<le> 90 then char_of (k + 32) else c) = c"
    if "c \<in> set (nat_str n)" for c
    using nat_str_digit [OF that] by simp
  then show ?thesis unfolding to_lower_def by (rule map_idI)
qed

lemma parse_usize_nat_str: "n < 2 ^ 64 \<Longrightarrow> parse_usize (nat_str n) = Some n"
proof -
  assume "n < 2 ^ 64"
  moreover have "CHR ''+'' \<notin> set (nat_str n)" using nat_str_digit [of "CHR ''+''" n] by auto
  ultimately show ?thesis
    using parse_digits_nat_str [of n]
    by (cases "nat_str n") (auto simp: parse_usize_def Let_def simp del: parse_digits.simps)
qed

lemma nat_str_not_word: "nat_str n \<noteq> ''s'' \<and> nat_str n \<noteq> ''stop'' \<and> nat_str n \<noteq> ''f'' \<and> nat_str n \<noteq> ''free''"
proof -
  have "CHR ''s'' \<notin> set (nat_str n)" "CHR ''f'' \<notin> set (nat_str n)"
    using nat_str_digit [of "CHR ''s''" n] nat_str_digit [of "CHR ''f''" n] by auto
  then show ?thesis by (auto dest: arg_cong [where f = set])
qed

text \<open>Property.  The number printed before an option selects that option, and no answer, whatever its
  text, selects an option that was not offered.\<close>

theorem menu_selects_offered:
  "(i < length (esc_options e) \<and> Suc i < 2 ^ 64 \<longrightarrow>
      cli_escalate e (Inr (nat_str (i + 1)) # inp) = (Inr (Chose (opt_id (esc_options e ! i))), inp)) \<and>
   (fst (cli_escalate e inp') = Inr (Chose c) \<longrightarrow> c \<in> opt_id ` set (esc_options e))"
  using cli_escalate_chose [of e inp' c] parse_usize_nat_str [of "Suc i"] nat_str_not_word [of "Suc i"]
  by (auto simp: cli_escalate_def bindE_def)

lemma menu_selects_offered_witness:
  "cli_escalate \<lparr>esc_task = 0, esc_prompt = ''p'', esc_options =
      [\<lparr>opt_id = ''retry'', opt_label = ''Retry'', opt_description = None\<rparr>,
       \<lparr>opt_id = ''skip'', opt_label = ''Skip'', opt_description = None\<rparr>]\<rparr> [Inr (nat_str (1 + 1))] =
   (Inr (Chose ''skip''), [])"
  using menu_selects_offered [of 1 "\<lparr>esc_task = 0, esc_prompt = ''p'', esc_options =
      [\<lparr>opt_id = ''retry'', opt_label = ''Retry'', opt_description = None\<rparr>,
       \<lparr>opt_id = ''skip'', opt_label = ''Skip'', opt_description = None\<rparr>]\<rparr>" "[]"]
  by simp

end
