(* ===== verification/Pipeline.thy ===== *)
theory Pipeline
  imports Gate_Engine Escalation_Cli
begin

text \<open>
  \<open>src/pipeline.rs\<close>: one task from creation to its outcome.

  The four trait objects of the pipeline are records or functions over their own state, and the
  system state holds the four states.  \<open>clock\<close> gives the successive times the board and the log
  read.  The JSON parser of the response (\<^verbatim>\<open>serde_json\<close>) and \<open>str::to_lowercase\<close> (Unicode tables)
  are the parameters of \<open>llm_codec\<close>.  What is printed to standard error is not modelled.
\<close>

datatype pipeline_outcome =
    PDone uuid string
  | PStopped uuid
  | PBlocked uuid string

record llm_response =
  lr_status :: string
  lr_result :: "string option"
  lr_reason :: "string option"

record llm_codec =
  parse_response :: "string \<Rightarrow> llm_response option"
  to_lowercase :: "string \<Rightarrow> string"

definition unwrap_or_default :: "string option \<Rightarrow> string" where
  "unwrap_or_default s = (case s of None \<Rightarrow> [] | Some x \<Rightarrow> x)"

definition response_result :: "llm_codec \<Rightarrow> llm_response \<Rightarrow> string + bool \<times> string" where
  "response_result J resp =
     (if to_lowercase J (lr_status resp) = ''done'' then Inr (False, unwrap_or_default (lr_result resp))
      else if to_lowercase J (lr_status resp) = ''blocked'' then Inr (True, unwrap_or_default (lr_reason resp))
      else Inl (''unknown status field: '' @ quoted (to_lowercase J (lr_status resp))))"

text \<open>\<open>str::find\<close> of a character: its byte offset.\<close>

definition find_char :: "char \<Rightarrow> string \<Rightarrow> nat option" where
  "find_char c s = (if c \<in> set s then Some (length (takeWhile (\<lambda>x. x \<noteq> c) s)) else None)"

lemma find_char_less: "find_char c s = Some n \<Longrightarrow> n < length s"
proof (induction s arbitrary: n)
  case (Cons x s)
  then show ?case by (cases "c \<in> set s") (auto simp: find_char_def split: if_splits)
qed (simp add: find_char_def)

text \<open>The loop over the opening braces: the rest of the text after a brace from which nothing parses is
  searched next.\<close>

function parse_llm_output :: "llm_codec \<Rightarrow> string \<Rightarrow> string + bool \<times> string" where
  "parse_llm_output J search =
     (case find_char (CHR ''{'') search of
        None \<Rightarrow> Inl ''no valid JSON object found in response''
      | Some offset \<Rightarrow>
          (case parse_response J (drop offset search) of
             Some resp \<Rightarrow> response_result J resp
           | None \<Rightarrow> parse_llm_output J (drop (offset + 1) search)))"
  by pat_completeness auto
termination
  by (relation "measure (\<lambda>(J, search). length search)") (auto dest: find_char_less)

record ('b, 'l, 'p, 'h) pipeline =
  pl_kanban :: "'b kanban_board"
  pl_provider :: "generation_request \<Rightarrow> ('p, provider_error, generation_response) op"
  pl_logger :: "'l call_logger"
  pl_escalation :: "escalation \<Rightarrow> ('h, escalation_error, human_response) op"
  pl_profile :: task_profile
  pl_agent_id :: string

record ('b, 'l, 'p, 'h) pipe_state =
  ps_board :: 'b
  ps_log :: 'l
  ps_provider :: 'p
  ps_human :: 'h

definition make_call_log ::
  "('b, 'l, 'p, 'h) pipeline \<Rightarrow> timestamp \<Rightarrow> uuid \<Rightarrow> usage \<Rightarrow> call_outcome \<Rightarrow> call_log" where
  "make_call_log P now task_id u outcome =
     \<lparr>cl_task = task_id, cl_profile = tp_id (pl_profile P), cl_provider = tp_provider (pl_profile P),
      cl_model = tp_model (pl_profile P), cl_usage = u, cl_outcome = outcome, cl_at = now\<rparr>"

definition block_task ::
  "('b, 'l, 'p, 'h) pipeline \<Rightarrow> timestamp \<Rightarrow> uuid \<Rightarrow> string \<Rightarrow> ('b, 'l, 'p, 'h) pipe_state \<Rightarrow> ('b, 'l, 'p, 'h) pipe_state" where
  "block_task P now task_id reason s =
     s\<lparr>ps_board := snd (kb_block (pl_kanban P) now task_id (pl_agent_id P)
        \<lparr>br_reason = reason, br_blocked_by = ByHuman ''human:cli''\<rparr> (ps_board s))\<rparr>"

definition record_blocked ::
  "('b, 'l, 'p, 'h) pipeline \<Rightarrow> timestamp \<Rightarrow> uuid \<Rightarrow> string \<Rightarrow> ('b, 'l, 'p, 'h) pipe_state \<Rightarrow>
   pipeline_outcome \<times> ('b, 'l, 'p, 'h) pipe_state" where
  "record_blocked P now task_id reason s = (PBlocked task_id reason, block_task P now task_id reason s)"

text \<open>\<open>transition(\<dots>)\<close> by the agent; the result and the new state.\<close>

definition agent_moves ::
  "('b, 'l, 'p, 'h) pipeline \<Rightarrow> timestamp \<Rightarrow> uuid \<Rightarrow> task_state \<Rightarrow> string option \<Rightarrow> ('b, 'l, 'p, 'h) pipe_state \<Rightarrow>
   (kanban_error + unit) \<times> ('b, 'l, 'p, 'h) pipe_state" where
  "agent_moves P now task_id to reason s =
     (let (r, b) = kb_transition (pl_kanban P) now task_id to (pl_agent_id P) reason (ps_board s)
      in (r, s\<lparr>ps_board := b\<rparr>))"

definition safe_reason :: "string \<Rightarrow> string" where
  "safe_reason reason = of_chars (filter (\<lambda>c. \<not> is_control c \<or> c = 0x0A \<or> c = 0x0D \<or> c = 0x09) (chars reason))"

definition blocked_escalation :: "uuid \<Rightarrow> string \<Rightarrow> string \<Rightarrow> escalation" where
  "blocked_escalation task_id title reason =
     \<lparr>esc_task = task_id,
      esc_prompt = ''Agent is blocked on task '' @ quoted title @ ''.'' @ [CHR 0x0A] @ ''Reason: '' @
        safe_reason reason @ [CHR 0x0A, CHR 0x0A] @ ''How should we proceed?'',
      esc_options =
        [\<lparr>opt_id = ''retry'', opt_label = ''Retry'', opt_description = Some ''Try the task again''\<rparr>,
         \<lparr>opt_id = ''skip'', opt_label = ''Skip'', opt_description = Some ''Mark done and move on''\<rparr>]\<rparr>"

definition handle_blocked ::
  "('b, 'l, 'p, 'h) pipeline \<Rightarrow> timestamp \<Rightarrow> uuid \<Rightarrow> string \<Rightarrow> string \<Rightarrow> ('b, 'l, 'p, 'h) pipe_state \<Rightarrow>
   pipeline_outcome \<times> ('b, 'l, 'p, 'h) pipe_state" where
  "handle_blocked P now task_id title reason s =
     (let (answer, h) = pl_escalation P (blocked_escalation task_id title reason) (ps_human s);
          s1 = s\<lparr>ps_human := h\<rparr>
      in case answer of
           Inr Stop \<Rightarrow> (PStopped task_id, block_task P now task_id ''stopped by human'' s1)
         | Inr (Chose i) \<Rightarrow>
             (if i = ''skip'' then
                (PDone task_id ''skipped by human'', snd (agent_moves P now task_id Done (Some ''skipped'') s1))
              else record_blocked P now task_id reason s1)
         | Inr (FreeText _) \<Rightarrow> record_blocked P now task_id reason s1
         | Inl _ \<Rightarrow> record_blocked P now task_id ''escalation failed'' s1)"

definition zero_usage :: usage where
  "zero_usage = \<lparr>input_tokens = 0, output_tokens = 0, cost = None\<rparr>"

text \<open>The model call with its log entry; the result is what \<open>verify\<close> goes on with.\<close>

definition execute_llm ::
  "llm_codec \<Rightarrow> ('b, 'l, 'p, 'h) pipeline \<Rightarrow> timestamp \<Rightarrow> uuid \<Rightarrow> string \<Rightarrow> ('b, 'l, 'p, 'h) pipe_state \<Rightarrow>
   (bool \<times> string) \<times> ('b, 'l, 'p, 'h) pipe_state" where
  "execute_llm J P now task_id user_prompt s =
     (let req = \<lparr>req_messages = [msg_system (system_prompt (pl_profile P)), msg_user user_prompt],
                 max_output_tokens = tp_max_output_tokens (pl_profile P), req_model = tp_model (pl_profile P)\<rparr>;
          (answer, p) = pl_provider P req (ps_provider s);
          s1 = s\<lparr>ps_provider := p\<rparr>
      in case answer of
           Inr resp \<Rightarrow>
             (let s2 = s1\<lparr>ps_log := snd (lg_record (pl_logger P)
                    (make_call_log P now task_id (resp_usage resp) Completed) (ps_log s1))\<rparr>
              in (case parse_llm_output J (full_text resp) of
                    Inr parsed \<Rightarrow> (parsed, s2)
                  | Inl err \<Rightarrow> ((True, ''unparseable LLM output: '' @ err), s2)))
         | Inl e \<Rightarrow>
             ((True, provider_error_str e),
              s1\<lparr>ps_log := snd (lg_record (pl_logger P)
                    (make_call_log P now task_id zero_usage (Failed (provider_error_str e))) (ps_log s1))\<rparr>))"

text \<open>The task is created and driven to \<open>Running\<close>; a failure on the way is an outcome.\<close>

definition start_task ::
  "(uuid \<Rightarrow> string) \<Rightarrow> ('b, 'l, 'p, 'h) pipeline \<Rightarrow> (nat \<Rightarrow> timestamp) \<Rightarrow> uuid \<Rightarrow> string \<Rightarrow> ('b, 'l, 'p, 'h) pipe_state \<Rightarrow>
   (pipeline_outcome + uuid) \<times> ('b, 'l, 'p, 'h) pipe_state" where
  "start_task us P clock tid title s =
     (case kb_create (pl_kanban P) tid (clock 0)
         \<lparr>nt_title = title, nt_actor = pl_agent_id P, nt_depends_on = []\<rparr> (ps_board s) of
        (Inl e, b) \<Rightarrow> (Inl (PBlocked 0 (''task creation failed: '' @ kanban_error_str us e)), s\<lparr>ps_board := b\<rparr>)
      | (Inr task_id, b) \<Rightarrow>
         (case agent_moves P (clock 1) task_id Todo None (s\<lparr>ps_board := b\<rparr>) of
            (Inl e, s1) \<Rightarrow> apfst Inl (record_blocked P (clock 2) task_id ''transition to todo failed'' s1)
          | (Inr _, s1) \<Rightarrow>
         (case agent_moves P (clock 2) task_id Ready None s1 of
            (Inl e, s2) \<Rightarrow> apfst Inl (record_blocked P (clock 3) task_id ''transition to ready failed'' s2)
          | (Inr _, s2) \<Rightarrow>
         (case kb_claim (pl_kanban P) task_id (pl_agent_id P) (ps_board s2) of
            (Inl e, b3) \<Rightarrow>
              apfst Inl (record_blocked P (clock 3) task_id (''claim failed: '' @ kanban_error_str us e) (s2\<lparr>ps_board := b3\<rparr>))
          | (Inr _, b3) \<Rightarrow>
         (case agent_moves P (clock 3) task_id Running None (s2\<lparr>ps_board := b3\<rparr>) of
            (Inl e, s4) \<Rightarrow> apfst Inl (record_blocked P (clock 4) task_id ''running transition failed'' s4)
          | (Inr _, s4) \<Rightarrow> (Inr task_id, s4))))))"

definition pipeline_run ::
  "llm_codec \<Rightarrow> (uuid \<Rightarrow> string) \<Rightarrow> ('b, 'l, 'p, 'h) pipeline \<Rightarrow> (nat \<Rightarrow> timestamp) \<Rightarrow> uuid \<Rightarrow> string \<Rightarrow> string \<Rightarrow>
   ('b, 'l, 'p, 'h) pipe_state \<Rightarrow> pipeline_outcome \<times> ('b, 'l, 'p, 'h) pipe_state" where
  "pipeline_run J us P clock tid title user_prompt s =
     (case start_task us P clock tid title s of
        (Inl out, s1) \<Rightarrow> (out, s1)
      | (Inr task_id, s1) \<Rightarrow>
          (case execute_llm J P (clock 4) task_id user_prompt s1 of
             ((True, text), s2) \<Rightarrow> handle_blocked P (clock 5) task_id title text s2
           | ((False, text), s2) \<Rightarrow>
               (PDone task_id text, snd (agent_moves P (clock 5) task_id Done (Some ''completed'') s2))))"


subsection \<open>Parsing the model's answer\<close>

text \<open>The loop, character by character.\<close>

lemma find_char_simps:
  "find_char c [] = None" "find_char c (c # s) = Some 0" "x \<noteq> c \<Longrightarrow> find_char c (x # s) = map_option Suc (find_char c s)"
  by (auto simp: find_char_def)

declare parse_llm_output.simps [simp del]

lemma parse_llm_output_Nil [simp]: "parse_llm_output J [] = Inl ''no valid JSON object found in response''"
  by (simp add: parse_llm_output.simps [of J "[]"] find_char_simps)

lemma parse_llm_output_Cons [simp]:
  "parse_llm_output J (c # cs) =
     (if c = CHR ''{'' then
        (case parse_response J (c # cs) of
           Some resp \<Rightarrow> response_result J resp
         | None \<Rightarrow> parse_llm_output J cs)
      else parse_llm_output J cs)"
proof (cases "c = CHR ''{''")
  case True
  have "find_char (CHR ''{'') (c # cs) = Some 0" using True by (simp add: find_char_simps)
  then show ?thesis using True by (subst parse_llm_output.simps) (simp split: option.split)
next
  case False
  then show ?thesis
    by (simp add: parse_llm_output.simps [of J "c # cs"] parse_llm_output.simps [of J cs] find_char_simps
        split: option.split)
qed

text \<open>The first position whose suffix parses decides; everything before it is ignored.\<close>

lemma parse_llm_output_Inr:
  "parse_llm_output J raw = Inr x \<Longrightarrow>
   \<exists>pre rest resp. raw = pre @ CHR ''{'' # rest \<and> parse_response J (CHR ''{'' # rest) = Some resp \<and>
     response_result J resp = Inr x \<and>
     (\<forall>p q. pre = p @ CHR ''{'' # q \<longrightarrow> parse_response J (CHR ''{'' # q @ CHR ''{'' # rest) = None)"
proof (induction raw)
  case (Cons c cs)
  show ?case
  proof (cases "c = CHR ''{'' \<and> parse_response J (c # cs) \<noteq> None")
    case True
    then show ?thesis using Cons.prems by (intro exI [of _ "[]"] exI [of _ cs]) auto
  next
    case False
    then have "parse_llm_output J cs = Inr x" using Cons.prems by (auto split: if_splits)
    then obtain pre rest resp where ih: "cs = pre @ CHR ''{'' # rest" "parse_response J (CHR ''{'' # rest) = Some resp"
      "response_result J resp = Inr x"
      "\<forall>p q. pre = p @ CHR ''{'' # q \<longrightarrow> parse_response J (CHR ''{'' # q @ CHR ''{'' # rest) = None"
      using Cons.IH by blast
    have "\<forall>p q. c # pre = p @ CHR ''{'' # q \<longrightarrow> parse_response J (CHR ''{'' # q @ CHR ''{'' # rest) = None"
    proof (intro allI impI)
      fix p q
      assume "c # pre = p @ CHR ''{'' # q"
      then show "parse_response J (CHR ''{'' # q @ CHR ''{'' # rest) = None"
        using ih(1,4) False by (cases p) auto
    qed
    then show ?thesis using ih(1-3) by (intro exI [of _ "c # pre"] exI [of _ rest] exI [of _ resp]) simp
  qed
qed simp

lemma parse_llm_output_first:
  assumes "parse_response J (CHR ''{'' # rest) = Some resp"
    and "\<forall>p q. pre = p @ CHR ''{'' # q \<longrightarrow> parse_response J (CHR ''{'' # q @ CHR ''{'' # rest) = None"
  shows "parse_llm_output J (pre @ CHR ''{'' # rest) = response_result J resp"
  using assms(2)
proof (induction pre)
  case (Cons c pre)
  have "parse_llm_output J (pre @ CHR ''{'' # rest) = response_result J resp"
    by (rule Cons.IH) (use Cons.prems in \<open>metis append_Cons\<close>)
  moreover have "c = CHR ''{'' \<Longrightarrow> parse_response J (c # pre @ CHR ''{'' # rest) = None"
    using Cons.prems by (metis append_Nil)
  ultimately show ?case by simp
qed (simp add: assms(1))

subsection \<open>Runs over any board and logger\<close>

text \<open>The request of a task, what the provider answers to it, and the entry the call leaves in the log: under the
  task, with the usage of the answer, or with none and the error.\<close>

definition task_request :: "task_profile \<Rightarrow> string \<Rightarrow> generation_request" where
  "task_request prof prompt =
     \<lparr>req_messages = [msg_system (system_prompt prof), msg_user prompt],
      max_output_tokens = tp_max_output_tokens prof, req_model = tp_model prof\<rparr>"

definition model_answer :: "('b, 'l, 'p, 'h) pipeline \<Rightarrow> string \<Rightarrow> 'p \<Rightarrow> provider_error + generation_response" where
  "model_answer P prompt p = fst (pl_provider P (task_request (pl_profile P) prompt) p)"

definition call_entry ::
  "('b, 'l, 'p, 'h) pipeline \<Rightarrow> timestamp \<Rightarrow> uuid \<Rightarrow> provider_error + generation_response \<Rightarrow> call_log" where
  "call_entry P now tid answer =
     (case answer of
        Inr resp \<Rightarrow> make_call_log P now tid (resp_usage resp) Completed
      | Inl e \<Rightarrow> make_call_log P now tid zero_usage (Failed (provider_error_str e)))"

lemma cl_task_call_entry [simp]: "cl_task (call_entry P now tid answer) = tid"
  by (simp add: call_entry_def make_call_log_def split: sum.split)

text \<open>What the entry says; that of a failed call can always be stored.\<close>

lemma call_entry_fields:
  "cl_at (call_entry P now tid answer) = now"
  "case answer of
     Inr resp \<Rightarrow> cl_outcome (call_entry P now tid answer) = Completed \<and> cl_usage (call_entry P now tid answer) = resp_usage resp
   | Inl e \<Rightarrow> cl_outcome (call_entry P now tid answer) = Failed (provider_error_str e) \<and>
       cl_usage (call_entry P now tid answer) = zero_usage \<and> storable (call_entry P now tid answer)"
  by (simp_all add: call_entry_def make_call_log_def storable_def zero_usage_def split: sum.split)

text \<open>Both stores are in a state of their contract.\<close>

definition stores_ok :: "('b \<Rightarrow> bool) \<Rightarrow> ('l \<Rightarrow> bool) \<Rightarrow> ('b, 'l, 'p, 'h) pipe_state \<Rightarrow> bool" where
  "stores_ok binv linv s \<longleftrightarrow> binv (ps_board s) \<and> linv (ps_log s)"

locale pipeline_env = gate_env K binv bview L linv lview
  for K :: "'b kanban_board" and binv bview and L :: "'l call_logger" and linv lview +
  fixes P :: "('b, 'l, 'p, 'h) pipeline"
  assumes uses: "pl_kanban P = K" "pl_logger P = L"
begin

lemma agent_moves_run:
  assumes "stores_ok binv linv s" "agent_moves P now tid to why s = (r, s')"
  shows "stores_ok binv linv s' \<and> (r, bview (ps_board s')) = spec_transition now tid to (pl_agent_id P) why (bview (ps_board s)) \<and>
    ps_log s' = ps_log s"
proof -
  obtain q b where q: "kb_transition K now tid to (pl_agent_id P) why (ps_board s) = (q, b)" by fastforce
  with assms have "r = q" "s' = s\<lparr>ps_board := b\<rparr>" by (auto simp: agent_moves_def uses)
  then show ?thesis using board.transition_law [OF _ q] assms(1) by (auto simp: stores_ok_def)
qed

lemma block_task_run:
  assumes "stores_ok binv linv s" "bview (ps_board s) tid = Some t" "t_state t = Running"
  shows "stores_ok binv linv (block_task P now tid reason s)" "ps_log (block_task P now tid reason s) = ps_log s"
    "bview (ps_board (block_task P now tid reason s)) = (bview (ps_board s))(tid \<mapsto>
       blocked now (pl_agent_id P) \<lparr>br_reason = reason, br_blocked_by = ByHuman ''human:cli''\<rparr> t)"
proof -
  let ?br = "\<lparr>br_reason = reason, br_blocked_by = ByHuman ''human:cli''\<rparr>"
  obtain q b where q: "kb_block K now tid (pl_agent_id P) ?br (ps_board s) = (q, b)" by fastforce
  have "binv b \<and> (q, bview b) = spec_block now tid (pl_agent_id P) ?br (bview (ps_board s))"
    using board.block_law [OF _ q] assms(1) by (simp add: stores_ok_def)
  then show "stores_ok binv linv (block_task P now tid reason s)" "ps_log (block_task P now tid reason s) = ps_log s"
    "bview (ps_board (block_task P now tid reason s)) = (bview (ps_board s))(tid \<mapsto> blocked now (pl_agent_id P) ?br t)"
    using assms q by (simp_all add: block_task_def uses stores_ok_def spec_block_def)
qed

lemma start_task_run:
  assumes "stores_ok binv linv s" "tid \<notin> dom (bview (ps_board s))"
  shows "\<exists>s' t. start_task us P clock tid title s = (Inr tid, s') \<and> stores_ok binv linv s' \<and> ps_log s' = ps_log s \<and>
    bview (ps_board s') = (bview (ps_board s))(tid \<mapsto> t) \<and> t_state t = Running \<and> t_title t = title"
proof -
  let ?nt = "\<lparr>nt_title = title, nt_actor = pl_agent_id P, nt_depends_on = []\<rparr>"
  let ?v = "bview (ps_board s)" and ?me = "pl_agent_id P"
  obtain r0 b0 where c0: "kb_create K tid (clock 0) ?nt (ps_board s) = (r0, b0)" by fastforce
  let ?t0 = "created tid (clock 0) ?nt" and ?s0 = "s\<lparr>ps_board := b0\<rparr>"
  have 0: "stores_ok binv linv ?s0" "r0 = Inr tid" "bview b0 = ?v(tid \<mapsto> ?t0)"
    using board.create_law [OF _ assms(2) c0] assms(1) by (auto simp: stores_ok_def spec_create_def)
  obtain r1 s1 where c1: "agent_moves P (clock 1) tid Todo None ?s0 = (r1, s1)" by fastforce
  let ?t1 = "moved (clock 1) Todo ?me None ?t0"
  have 1: "stores_ok binv linv s1" "r1 = Inr ()" "bview (ps_board s1) = ?v(tid \<mapsto> ?t1)" "ps_log s1 = ps_log s"
    using agent_moves_run [OF 0(1) c1] 0(3) by (auto simp: spec_transition_def) (auto simp: created_def)
  obtain r2 s2 where c2: "agent_moves P (clock 2) tid Ready None s1 = (r2, s2)" by fastforce
  let ?t2 = "moved (clock 2) Ready ?me None ?t1"
  have 2: "stores_ok binv linv s2" "r2 = Inr ()" "bview (ps_board s2) = ?v(tid \<mapsto> ?t2)" "ps_log s2 = ps_log s"
    using agent_moves_run [OF 1(1) c2] 1(3,4) by (auto simp: spec_transition_def) (auto simp: created_def moved_def)
  obtain r3 b3 where c3: "kb_claim K tid ?me (ps_board s2) = (r3, b3)" by fastforce
  let ?t3 = "?t2\<lparr>t_actor := Some ?me\<rparr>" and ?s3 = "s2\<lparr>ps_board := b3\<rparr>"
  have 3: "stores_ok binv linv ?s3" "r3 = Inr ()" "bview b3 = ?v(tid \<mapsto> ?t3)"
    using board.claim_law [OF _ c3] 2 by (auto simp: stores_ok_def spec_claim_def) (auto simp: moved_def)
  obtain r4 s4 where c4: "agent_moves P (clock 3) tid Running None ?s3 = (r4, s4)" by fastforce
  let ?t4 = "moved (clock 3) Running ?me None ?t3"
  have 4: "stores_ok binv linv s4" "r4 = Inr ()" "bview (ps_board s4) = ?v(tid \<mapsto> ?t4)" "ps_log s4 = ps_log s"
    using agent_moves_run [OF 3(1) c4] 3(3) 2(4) by (auto simp: spec_transition_def) (auto simp: moved_def)
  have "start_task us P clock tid title s = (Inr tid, s4)"
    using c0 c1 c2 c3 c4 0(2) 1(2) 2(2) 3(2) 4(2) by (simp add: start_task_def uses)
  moreover have "t_state ?t4 = Running" "t_title ?t4 = title" by (simp_all add: moved_def created_def)
  ultimately show ?thesis using 4 by blast
qed

text \<open>The provider is called only after the start.\<close>

lemma start_task_provider: "start_task us P clock tid title s = (r, s') \<Longrightarrow> ps_provider s' = ps_provider s"
  by (auto simp: start_task_def agent_moves_def record_blocked_def block_task_def apfst_def map_prod_def
      split: sum.splits prod.splits)

text \<open>The model call adds its one entry, or none when the usage does not fit the log.\<close>

lemma execute_llm_run:
  assumes "stores_ok binv linv s" "execute_llm J P now tid prompt s = (r, s')"
  shows "stores_ok binv linv s' \<and> ps_board s' = ps_board s \<and>
    lview (ps_log s') = lview (ps_log s) @
      (let e = call_entry P now tid (model_answer P prompt (ps_provider s)) in if storable e then [e] else [])"
proof -
  have log: "linv (snd (lg_record L e l)) \<and> lview (snd (lg_record L e l)) = lview l @ (if storable e then [e] else [])"
    if "linv l" for e l
    using logs.record_law [OF that, of e] logs.refuse_law [OF that, of e] by (cases "lg_record L e l") auto
  let ?e = "call_entry P now tid (model_answer P prompt (ps_provider s))"
  have "\<exists>p. s' = s\<lparr>ps_provider := p, ps_log := snd (lg_record L ?e (ps_log s))\<rparr>"
    using assms(2)
    by (auto simp: execute_llm_def Let_def uses call_entry_def model_answer_def task_request_def split: sum.splits prod.splits)
  then show ?thesis using log [of "ps_log s" ?e] assms(1) by (auto simp: stores_ok_def Let_def)
qed

text \<open>How the outcome reported to the caller and the task on the board correspond.\<close>

lemma pipeline_run_outcome:
  assumes "stores_ok binv linv s" "tid \<notin> dom (bview (ps_board s))"
    and "pipeline_run J us P clock tid title prompt s = (out, s')"
  shows "stores_ok binv linv s' \<and>
    (\<exists>t. bview (ps_board s') = (bview (ps_board s))(tid \<mapsto> t) \<and> t_title t = title \<and>
      (case out of
         PDone i text \<Rightarrow> i = tid \<and> t_state t = Done
       | PStopped i \<Rightarrow> i = tid \<and> t_state t = Blocked \<and> map_option br_reason (t_block_reason t) = Some ''stopped by human''
       | PBlocked i why \<Rightarrow> i = tid \<and> t_state t = Blocked \<and> map_option br_reason (t_block_reason t) = Some why)) \<and>
    lview (ps_log s') = lview (ps_log s) @
      (let e = call_entry P (clock 4) tid (model_answer P prompt (ps_provider s)) in if storable e then [e] else [])"
proof -
  obtain s1 t1 where st: "start_task us P clock tid title s = (Inr tid, s1)" "stores_ok binv linv s1" "ps_log s1 = ps_log s"
    "bview (ps_board s1) = (bview (ps_board s))(tid \<mapsto> t1)" "t_state t1 = Running" "t_title t1 = title"
    using start_task_run [OF assms(1,2)] by blast
  obtain bl msg s2 where ex: "execute_llm J P (clock 4) tid prompt s1 = ((bl, msg), s2)" by (metis prod.exhaust)
  have s2: "stores_ok binv linv s2" "ps_board s2 = ps_board s1"
    and e: "lview (ps_log s2) = lview (ps_log s) @
      (let e = call_entry P (clock 4) tid (model_answer P prompt (ps_provider s)) in if storable e then [e] else [])"
    using execute_llm_run [OF st(2) ex] st(3) start_task_provider [OF st(1)] by auto
  have v2: "bview (ps_board s2) tid = Some t1" "bview (ps_board s2) = (bview (ps_board s))(tid \<mapsto> t1)"
    using s2(2) st(4) by simp_all
  have fin: "stores_ok binv linv s3 \<and> ps_log s3 = ps_log s2 \<and>
      (\<exists>t. bview (ps_board s3) = (bview (ps_board s))(tid \<mapsto> t) \<and> t_title t = title \<and> t_state t = Done)"
    if mv: "s3 = snd (agent_moves P (clock 5) tid Done why s2')" "stores_ok binv linv s2'" "ps_board s2' = ps_board s2" "ps_log s2' = ps_log s2"
    for s3 s2' why
  proof -
    obtain q where "agent_moves P (clock 5) tid Done why s2' = (q, s3)" using mv(1) by (metis prod.collapse)
    from agent_moves_run [OF mv(2) this] show ?thesis
      using mv v2 st(5,6) by (auto simp: spec_transition_def) (auto simp: moved_def)
  qed
  have stop: "stores_ok binv linv s3 \<and> ps_log s3 = ps_log s2 \<and>
      (\<exists>t. bview (ps_board s3) = (bview (ps_board s))(tid \<mapsto> t) \<and> t_title t = title \<and> t_state t = Blocked \<and>
         map_option br_reason (t_block_reason t) = Some why)"
    if "s3 = block_task P (clock 5) tid why s2'" "stores_ok binv linv s2'" "ps_board s2' = ps_board s2" "ps_log s2' = ps_log s2"
    for s3 s2' why
    using block_task_run [OF that(2), of tid t1 "clock 5" why] that v2 st(5,6)
    by (auto simp: blocked_def)
  have s2': "stores_ok binv linv (s2\<lparr>ps_human := h\<rparr>)" for h using s2(1) by (simp add: stores_ok_def)
  have finish: ?thesis
    if "stores_ok binv linv s'" "ps_log s' = ps_log s2" "bview (ps_board s') = (bview (ps_board s))(tid \<mapsto> t)"
      "t_title t = title"
      "case out of
         PDone i msg \<Rightarrow> i = tid \<and> t_state t = Done
       | PStopped i \<Rightarrow> i = tid \<and> t_state t = Blocked \<and> map_option br_reason (t_block_reason t) = Some ''stopped by human''
       | PBlocked i why \<Rightarrow> i = tid \<and> t_state t = Blocked \<and> map_option br_reason (t_block_reason t) = Some why"
    for t
    unfolding that(2) using that(1,3,4,5) e by blast
  show ?thesis
  proof (cases bl)
    case False
    then have r: "out = PDone tid msg" "s' = snd (agent_moves P (clock 5) tid Done (Some ''completed'') s2)"
      using assms(3) st(1) ex by (auto simp: pipeline_run_def)
    from fin [OF r(2) s2(1) refl refl] show ?thesis using r(1) by (elim conjE exE) (rule finish; simp)
  next
    case True
    then have hb: "handle_blocked P (clock 5) tid title msg s2 = (out, s')"
      using assms(3) st(1) ex by (simp add: pipeline_run_def)
    obtain answer h where a: "pl_escalation P (blocked_escalation tid title msg) (ps_human s2) = (answer, h)" by fastforce
    let ?s = "s2\<lparr>ps_human := h\<rparr>"
    have s: "stores_ok binv linv ?s" "ps_board ?s = ps_board s2" "ps_log ?s = ps_log s2" using s2' by simp_all
    consider why where "out = PBlocked tid why" "s' = block_task P (clock 5) tid why ?s"
      | "out = PStopped tid" "s' = block_task P (clock 5) tid ''stopped by human'' ?s"
      | answer where "out = PDone tid answer" "s' = snd (agent_moves P (clock 5) tid Done (Some ''skipped'') ?s)"
      using hb a by (auto simp: handle_blocked_def record_blocked_def Let_def split: sum.splits human_response.splits if_splits)
    then show ?thesis
    proof cases
      case 1
      from stop [OF 1(2) s] show ?thesis using 1(1) by (elim conjE exE) (rule finish; simp)
    next
      case 2
      from stop [OF 2(2) s] show ?thesis using 2(1) by (elim conjE exE) (rule finish; simp)
    next
      case 3
      from fin [OF 3(2) s] show ?thesis using 3(1) by (elim conjE exE) (rule finish; simp)
    qed
  qed
qed

end


subsection \<open>The pipeline of \<open>main.rs\<close>\<close>

text \<open>
  \<open>main\<close> builds the pipeline from the SQLite board, the SQLite logger, the hard-coded profile, a
  provider and an escalation handler.
\<close>

definition main_pipeline ::
  "'x kanban_codec_scheme \<Rightarrow> 'y codec_scheme \<Rightarrow>
   (generation_request \<Rightarrow> ('p, provider_error, generation_response) op) \<Rightarrow>
   (escalation \<Rightarrow> ('h, escalation_error, human_response) op) \<Rightarrow>
   (kanban_db conn, log_db conn, 'p, 'h) pipeline" where
  "main_pipeline cdc cdc' provider escalate =
     \<lparr>pl_kanban = sqlite_kanban cdc, pl_provider = provider, pl_logger = sqlite_logger cdc',
      pl_escalation = escalate, pl_profile = default_v01, pl_agent_id = ''agent:wyrtloom-v01''\<rparr>"

interpretation sqlite_pipeline: pipeline_env "sqlite_kanban cdc" "kanban_inv cdc" "kanban_view cdc"
    "sqlite_logger cdc'" "logger_inv cdc'" "logger_view cdc'" "main_pipeline cdc cdc' provider escalate"
  for cdc :: "'x kanban_codec_scheme" and cdc' :: "'y codec_scheme" and provider escalate
  by unfold_locales (simp_all add: main_pipeline_def)

text \<open>A provider and a human that always give the same answer.\<close>

definition fixed_provider :: "string \<Rightarrow> generation_request \<Rightarrow> (unit, provider_error, generation_response) op" where
  "fixed_provider s req = retE \<lparr>content = [TextBlock s], resp_usage = zero_usage\<rparr>"

definition demo_llm_codec :: llm_codec where
  "demo_llm_codec = \<lparr>parse_response = (\<lambda>s. if s = ''{done}'' then Some \<lparr>lr_status = ''done'', lr_result = Some ''4'', lr_reason = None\<rparr>
     else None), to_lowercase = id\<rparr>"

definition demo_start :: "(kanban_db conn, log_db conn, unit, unit) pipe_state" where
  "demo_start = \<lparr>ps_board = empty_board, ps_log = empty_log, ps_provider = (), ps_human = ()\<rparr>"

lemma demo_start_ok:
  "stores_ok (kanban_inv demo_kanban_codec) (logger_inv demo_codec) demo_start"
  "7 \<notin> dom (kanban_view demo_kanban_codec (ps_board demo_start))"
  using demo_kan_ok demo_codec_ok by (simp_all add: stores_ok_def demo_start_def)

text \<open>The board of \<open>P\<close> with its transitions to \<open>Done\<close> refused.\<close>

definition refusing_done :: "kanban_error \<Rightarrow> ('b, 'l, 'p, 'h) pipeline \<Rightarrow> ('b, 'l, 'p, 'h) pipeline" where
  "refusing_done e P = P\<lparr>pl_kanban := (pl_kanban P)\<lparr>kb_transition := \<lambda>now tid to a r.
     if to = Done then throwE e else kb_transition (pl_kanban P) now tid to a r\<rparr>\<rparr>"

lemma refusing_done_moves:
  "to \<noteq> Done \<Longrightarrow> agent_moves (refusing_done e P) now tid to why s = agent_moves P now tid to why s"
  "agent_moves (refusing_done e P) now tid Done why s = (Inl e, s)"
  by (simp_all add: refusing_done_def agent_moves_def)

lemma refusing_done_start: "start_task us (refusing_done e P) clock tid title s = start_task us P clock tid title s"
proof -
  have "record_blocked (refusing_done e P) = record_blocked P"
    by (intro ext) (simp add: record_blocked_def block_task_def refusing_done_def)
  moreover have "kb_create (pl_kanban (refusing_done e P)) = kb_create (pl_kanban P)"
    "kb_claim (pl_kanban (refusing_done e P)) = kb_claim (pl_kanban P)" "pl_agent_id (refusing_done e P) = pl_agent_id P"
    by (simp_all add: refusing_done_def)
  moreover have "agent_moves (refusing_done e P) now i Todo why x = agent_moves P now i Todo why x"
    "agent_moves (refusing_done e P) now i Ready why x = agent_moves P now i Ready why x"
    "agent_moves (refusing_done e P) now i Running why x = agent_moves P now i Running why x" for now i why x
    by (simp_all add: refusing_done_moves)
  ultimately show ?thesis unfolding start_task_def by (simp only:)
qed

lemma refusing_done_execute: "execute_llm J (refusing_done e P) now tid prompt s = execute_llm J P now tid prompt s"
proof -
  have "make_call_log (refusing_done e P) = make_call_log P"
    by (intro ext) (simp add: refusing_done_def make_call_log_def)
  moreover have "pl_profile (refusing_done e P) = pl_profile P" "pl_provider (refusing_done e P) = pl_provider P"
    "pl_logger (refusing_done e P) = pl_logger P" by (simp_all add: refusing_done_def)
  ultimately show ?thesis unfolding execute_llm_def by (simp only:)
qed

subsection \<open>Properties\<close>

text \<open>Claim C11.  A run reports what the board holds: after \<open>Done\<close> the task is done, after \<open>Stopped\<close> or
  \<open>Blocked\<close> it is blocked with that reason, whatever the provider and the human answer; no other task
  is touched, and the model call has left exactly one new log entry, with the task, the time and what the
  provider answered: completed with the usage it reported, or failed with the error and no usage.  (A reported count above
  the largest signed 64-bit number cannot be stored; then there is no entry.)\<close>

theorem outcome_matches_board:
  assumes "kanban_inv cdc (ps_board s)" "logger_inv cdc' (ps_log s)" "tid \<notin> dom (kanban_view cdc (ps_board s))"
    and "pipeline_run J us (main_pipeline cdc cdc' provider escalate) clock tid title prompt s = (out, s')"
  shows "(\<exists>t. kanban_view cdc (ps_board s') = (kanban_view cdc (ps_board s))(tid \<mapsto> t) \<and> t_title t = title \<and>
      (case out of
         PDone i text \<Rightarrow> i = tid \<and> t_state t = Done
       | PStopped i \<Rightarrow> i = tid \<and> t_state t = Blocked \<and> map_option br_reason (t_block_reason t) = Some ''stopped by human''
       | PBlocked i why \<Rightarrow> i = tid \<and> t_state t = Blocked \<and> map_option br_reason (t_block_reason t) = Some why)) \<and>
    (\<exists>e. cl_task e = tid \<and> cl_at e = clock 4 \<and>
       (case fst (provider (task_request default_v01 prompt) (ps_provider s)) of
          Inr resp \<Rightarrow> cl_outcome e = Completed \<and> cl_usage e = resp_usage resp
        | Inl err \<Rightarrow> cl_outcome e = Failed (provider_error_str err) \<and> cl_usage e = zero_usage \<and> storable e) \<and>
       logger_view cdc' (ps_log s') = logger_view cdc' (ps_log s) @ (if storable e then [e] else []))"
proof -
  let ?P = "main_pipeline cdc cdc' provider escalate"
  let ?e = "call_entry ?P (clock 4) tid (model_answer ?P prompt (ps_provider s))"
  have "stores_ok (kanban_inv cdc) (logger_inv cdc') s" using assms(1,2) by (simp add: stores_ok_def)
  note run = sqlite_pipeline.pipeline_run_outcome [OF this assms(3,4)]
  have "logger_view cdc' (ps_log s') = logger_view cdc' (ps_log s) @ (if storable ?e then [?e] else [])"
    using run by (simp add: Let_def)
  moreover have "model_answer ?P prompt (ps_provider s) = fst (provider (task_request default_v01 prompt) (ps_provider s))"
    by (simp add: model_answer_def main_pipeline_def)
  ultimately show ?thesis using run call_entry_fields [of ?P "clock 4" tid "model_answer ?P prompt (ps_provider s)"]
    by (intro conjI exI [of _ ?e]) (blast, simp_all)
qed

lemma outcome_matches_board_witness:
  "\<exists>out s' t. pipeline_run demo_llm_codec demo_uuid_str (main_pipeline demo_kanban_codec demo_codec
      (fixed_provider ''no object here'') (scripted_escalate Stop)) int 7 ''t'' ''p'' demo_start = (out, s') \<and>
    kanban_view demo_kanban_codec (ps_board s') 7 = Some t \<and> (t_state t = Done \<or> t_state t = Blocked) \<and>
    map cl_outcome (logger_view demo_codec (ps_log s')) = [Completed]"
proof -
  obtain out s' where r: "pipeline_run demo_llm_codec demo_uuid_str (main_pipeline demo_kanban_codec demo_codec
      (fixed_provider ''no object here'') (scripted_escalate Stop)) int 7 ''t'' ''p'' demo_start = (out, s')" by fastforce
  note run = outcome_matches_board [OF demo_start_ok(1) [unfolded stores_ok_def, THEN conjunct1]
      demo_start_ok(1) [unfolded stores_ok_def, THEN conjunct2] demo_start_ok(2) r]
  have "map cl_outcome (logger_view demo_codec (ps_log s')) = [Completed]"
    using run [THEN conjunct2] demo_codec_ok
    by (auto simp: fixed_provider_def zero_usage_def storable_def demo_start_def)
  moreover from run obtain t where t: "kanban_view demo_kanban_codec (ps_board s') = (kanban_view demo_kanban_codec (ps_board demo_start))(7 \<mapsto> t)"
    "case out of
         PDone i text \<Rightarrow> i = 7 \<and> t_state t = Done
       | PStopped i \<Rightarrow> i = 7 \<and> t_state t = Blocked \<and> map_option br_reason (t_block_reason t) = Some ''stopped by human''
       | PBlocked i why \<Rightarrow> i = 7 \<and> t_state t = Blocked \<and> map_option br_reason (t_block_reason t) = Some why"
    by blast
  then have "t_state t = Done \<or> t_state t = Blocked" by (cases out) auto
  ultimately show ?thesis using r t(1) by (intro exI [of _ out] exI [of _ s'] exI [of _ t]) simp
qed

text \<open>Property.  The model's answer counts as done exactly when the first position of an opening brace
  from which a response object parses holds one with status \<open>done\<close>: text around and before the object,
  with or without braces, cannot forge the signal.\<close>

theorem done_only_from_response_object:
  "parse_llm_output J raw = Inr (False, c) \<longleftrightarrow>
   (\<exists>pre rest resp. raw = pre @ CHR ''{'' # rest \<and> parse_response J (CHR ''{'' # rest) = Some resp \<and>
      to_lowercase J (lr_status resp) = ''done'' \<and> c = unwrap_or_default (lr_result resp) \<and>
      (\<forall>p q. pre = p @ CHR ''{'' # q \<longrightarrow> parse_response J (CHR ''{'' # q @ CHR ''{'' # rest) = None))"
proof -
  have rr: "response_result J resp = Inr (False, c) \<longleftrightarrow>
      to_lowercase J (lr_status resp) = ''done'' \<and> c = unwrap_or_default (lr_result resp)" for resp
    by (auto simp: response_result_def)
  show ?thesis
  proof
    assume "parse_llm_output J raw = Inr (False, c)"
    from parse_llm_output_Inr [OF this] show "\<exists>pre rest resp. raw = pre @ CHR ''{'' # rest \<and>
      parse_response J (CHR ''{'' # rest) = Some resp \<and>
      to_lowercase J (lr_status resp) = ''done'' \<and> c = unwrap_or_default (lr_result resp) \<and>
      (\<forall>p q. pre = p @ CHR ''{'' # q \<longrightarrow> parse_response J (CHR ''{'' # q @ CHR ''{'' # rest) = None)"
      unfolding rr by blast
  next
    assume "\<exists>pre rest resp. raw = pre @ CHR ''{'' # rest \<and> parse_response J (CHR ''{'' # rest) = Some resp \<and>
      to_lowercase J (lr_status resp) = ''done'' \<and> c = unwrap_or_default (lr_result resp) \<and>
      (\<forall>p q. pre = p @ CHR ''{'' # q \<longrightarrow> parse_response J (CHR ''{'' # q @ CHR ''{'' # rest) = None)"
    then obtain pre rest resp where r: "raw = pre @ CHR ''{'' # rest" "parse_response J (CHR ''{'' # rest) = Some resp"
      "response_result J resp = Inr (False, c)"
      "\<forall>p q. pre = p @ CHR ''{'' # q \<longrightarrow> parse_response J (CHR ''{'' # q @ CHR ''{'' # rest) = None"
      unfolding rr by blast
    then show "parse_llm_output J raw = Inr (False, c)" by (simp only: parse_llm_output_first)
  qed
qed

lemma done_only_from_response_object_witness:
  "parse_llm_output demo_llm_codec ''a {b} {done}'' = Inr (False, ''4'')"
proof -
  have nobrace: "pre = p @ CHR ''{'' # q \<Longrightarrow> CHR ''{'' \<in> set pre" for pre p q :: string by simp
  have "\<forall>p q. ''a {b} '' = p @ CHR ''{'' # q \<longrightarrow> parse_response demo_llm_codec (CHR ''{'' # q @ ''{done}'') = None"
  proof (intro allI impI)
    fix p q
    assume "''a {b} '' = p @ CHR ''{'' # q"
    then have "q = ''b} ''" by (auto simp: append_eq_Cons_conv Cons_eq_append_conv)
    then show "parse_response demo_llm_codec (CHR ''{'' # q @ ''{done}'') = None" by (simp add: demo_llm_codec_def)
  qed
  moreover have "parse_response demo_llm_codec ''{done}'' = Some \<lparr>lr_status = ''done'', lr_result = Some ''4'', lr_reason = None\<rparr>"
    "to_lowercase demo_llm_codec = id" by (simp_all add: demo_llm_codec_def)
  ultimately show ?thesis
    unfolding done_only_from_response_object
    by (intro exI [of _ "''a {b} ''"] exI [of _ "''done}''"]
        exI [of _ "\<lparr>lr_status = ''done'', lr_result = Some ''4'', lr_reason = None\<rparr>"])
      (simp add: unwrap_or_default_def)
qed

definition first_response :: "llm_codec \<Rightarrow> string \<Rightarrow> nat option" where
  "first_response J raw = find (\<lambda>i. raw ! i = CHR ''{'' \<and> parse_response J (drop i raw) \<noteq> None) [0..<length raw]"

lemma find_map: "find P (map f xs) = map_option f (find (\<lambda>x. P (f x)) xs)"
  by (induction xs) auto

lemma first_response_Cons:
  "first_response J (c # cs) =
     (if c = CHR ''{'' \<and> parse_response J (c # cs) \<noteq> None then Some 0 else map_option Suc (first_response J cs))"
proof -
  have "[0..<length (c # cs)] = 0 # map Suc [0..<length cs]"
    by (simp add: upt_conv_Cons map_Suc_upt del: upt_Suc)
  then have eq: "first_response J (c # cs) =
      find (\<lambda>i. (c # cs) ! i = CHR ''{'' \<and> parse_response J (drop i (c # cs)) \<noteq> None) (0 # map Suc [0..<length cs])"
    by (simp only: first_response_def)
  show ?thesis unfolding eq by (cases "c = CHR ''{''") (simp_all add: find_map first_response_def)
qed

text \<open>The same loop with a bound on the number of its rounds.\<close>

fun scan_bounded :: "nat \<Rightarrow> llm_codec \<Rightarrow> string \<Rightarrow> (string + bool \<times> string) option" where
  "scan_bounded 0 J search = None"
| "scan_bounded (Suc n) J search =
     (case find_char (CHR ''{'') search of
        None \<Rightarrow> Some (Inl ''no valid JSON object found in response'')
      | Some offset \<Rightarrow>
          (case parse_response J (drop offset search) of
             Some resp \<Rightarrow> Some (response_result J resp)
           | None \<Rightarrow> scan_bounded n J (drop (offset + 1) search)))"

lemma count_after:
  "find_char c s = Some n \<Longrightarrow> count_list s c = Suc (count_list (drop (Suc n) s) c)"
proof (induction s arbitrary: n)
  case (Cons x s)
  then show ?case by (cases "x = c") (auto simp: find_char_simps)
qed (simp add: find_char_def)

lemma scan_enough: "count_list s (CHR ''{'') < n \<Longrightarrow> scan_bounded n J s = Some (parse_llm_output J s)"
proof (induction n arbitrary: s)
  case (Suc n)
  have "scan_bounded n J (drop (Suc k) s) = Some (parse_llm_output J (drop (Suc k) s))"
    if "find_char (CHR ''{'') s = Some k" for k
    using Suc.prems count_after [OF that] by (intro Suc.IH) simp
  then show ?case by (subst parse_llm_output.simps) (simp split: option.split)
qed simp

text \<open>Claim C36.  The loop over the answer ends for every text and every parser, after at most one round more
  than the text has opening braces, and computes what the definition over positions says: the result
  is that of the least position that holds an opening brace and from which a response object parses,
  and an error when there is none.\<close>

theorem llm_scan_terminates_at_first:
  "parse_llm_output J raw =
     (case find (\<lambda>i. raw ! i = CHR ''{'' \<and> parse_response J (drop i raw) \<noteq> None) [0..<length raw] of
        None \<Rightarrow> Inl ''no valid JSON object found in response''
      | Some i \<Rightarrow> response_result J (the (parse_response J (drop i raw)))) \<and>
   scan_bounded (Suc (count_list raw (CHR ''{''))) J raw = Some (parse_llm_output J raw)"
proof -
  have "parse_llm_output J raw = (case first_response J raw of
      None \<Rightarrow> Inl ''no valid JSON object found in response''
    | Some i \<Rightarrow> response_result J (the (parse_response J (drop i raw))))"
  proof (induction raw)
    case (Cons c cs)
    then show ?case by (auto simp: first_response_Cons split: option.split)
  qed (simp add: first_response_def)
  then show ?thesis by (simp add: first_response_def scan_enough del: scan_bounded.simps)
qed

text \<open>Property.  The result of the last transition is only printed: when the board refuses to move the task
  to \<open>Done\<close>, the run still reports \<open>Done\<close> and the task is left running on the board.\<close>

theorem done_reported_without_transition:
  assumes "kanban_inv cdc (ps_board s)" "logger_inv cdc' (ps_log s)" "tid \<notin> dom (kanban_view cdc (ps_board s))"
    and "\<And>req p. fst (provider req p) = Inr resp" "parse_llm_output J (full_text resp) = Inr (False, c)"
    and "pipeline_run J us (refusing_done e (main_pipeline cdc cdc' provider escalate)) clock tid title prompt s = (out, s')"
  shows "out = PDone tid c \<and> map_option t_state (kanban_view cdc (ps_board s') tid) = Some Running"
proof -
  let ?P = "main_pipeline cdc cdc' provider escalate"
  have ok: "stores_ok (kanban_inv cdc) (logger_inv cdc') s" using assms(1,2) by (simp add: stores_ok_def)
  obtain s1 t where s1: "start_task us ?P clock tid title s = (Inr tid, s1)" "stores_ok (kanban_inv cdc) (logger_inv cdc') s1"
    "kanban_view cdc (ps_board s1) = (kanban_view cdc (ps_board s))(tid \<mapsto> t)" "t_state t = Running"
    using sqlite_pipeline.start_task_run [OF ok assms(3)] by blast
  obtain r s2 where ex: "execute_llm J ?P (clock 4) tid prompt s1 = (r, s2)" by fastforce
  have rs: "r = (False, c) \<and> ps_board s2 = ps_board s1"
  proof -
    let ?req = "\<lparr>req_messages = [msg_system (system_prompt (pl_profile ?P)), msg_user prompt],
        max_output_tokens = tp_max_output_tokens (pl_profile ?P), req_model = tp_model (pl_profile ?P)\<rparr>"
    obtain answer p where a: "provider ?req (ps_provider s1) = (answer, p)" by fastforce
    then have "answer = Inr resp" using assms(4) [of ?req "ps_provider s1"] by simp
    then show ?thesis using ex a assms(5) by (auto simp: execute_llm_def Let_def main_pipeline_def)
  qed
  show ?thesis using assms(6) s1 ex rs
    by (auto simp: pipeline_run_def refusing_done_start refusing_done_execute refusing_done_moves)
qed

lemma done_reported_without_transition_witness:
  "\<exists>s'. pipeline_run demo_llm_codec demo_uuid_str (refusing_done (Storage ''update failed (code 13)'')
      (main_pipeline demo_kanban_codec demo_codec (fixed_provider ''{done}'') (scripted_escalate Stop))) int 7 ''t'' ''p'' demo_start
      = (PDone 7 ''4'', s') \<and> map_option t_state (kanban_view demo_kanban_codec (ps_board s') 7) = Some Running"
proof -
  obtain out s' where r: "pipeline_run demo_llm_codec demo_uuid_str (refusing_done (Storage ''update failed (code 13)'')
      (main_pipeline demo_kanban_codec demo_codec (fixed_provider ''{done}'') (scripted_escalate Stop))) int 7 ''t'' ''p'' demo_start
      = (out, s')" by fastforce
  have "parse_llm_output demo_llm_codec (full_text \<lparr>content = [TextBlock ''{done}''], resp_usage = zero_usage\<rparr>) = Inr (False, ''4'')"
    by (simp add: full_text_blocks demo_llm_codec_def response_result_def unwrap_or_default_def)
  from done_reported_without_transition [OF demo_start_ok(1) [unfolded stores_ok_def, THEN conjunct1]
      demo_start_ok(1) [unfolded stores_ok_def, THEN conjunct2] demo_start_ok(2) _ this r] r
  show ?thesis by (auto simp: fixed_provider_def)
qed

end
