(* ===== verification/Kanban_Faults.thy ===== *)
theory Kanban_Faults
  imports Kanban_Sqlite
begin

text \<open>
  The board under failing statements.  A transition or a block runs in a transaction: on an error the
  tables are what they were, on success they hold the whole effect, provided the commit itself
  succeeded.  The code drops the result of the commit, and the last two results say what follows.
\<close>

lemma robust_get_inner [robustE]: "robust (get_inner cdc tid)"
  unfolding get_inner_def sqlio_def
  by (intro robustE allI) (auto simp: history_change_def sqlio_def split: option.splits intro!: robustE)

lemma robust_check_deps [robustE]: "robust (check_deps cdc ds)"
  by (induction ds) (simp_all only: check_deps.simps, auto intro!: robustE)

lemma robust_transition_inner: "robust (transition_inner cdc now tid to actor reason)"
  unfolding transition_inner_def sqlio_def by (auto intro!: robustE)

lemma robust_block_inner: "robust (block_inner cdc now tid actor br)"
  unfolding block_inner_def sqlio_def by (auto intro!: robustE)

lemma keeps_get_inner [frame]: "keeps same_data (get_inner cdc tid)"
  unfolding get_inner_def sqlio_def
  by (intro frame) (auto simp: history_change_def sqlio_def split: option.splits intro!: frame)

lemma keeps_check_deps [frame]: "keeps same_tx (check_deps cdc ds)"
  by (induction ds) (simp_all only: check_deps.simps, auto intro!: frame keeps_tx [OF keeps_get_inner])

lemma keeps_transition_inner: "keeps same_tx (transition_inner cdc now tid to actor reason)"
  unfolding transition_inner_def sqlio_def
  by (auto intro!: frame keeps_tx [OF keeps_get_inner])

lemma keeps_block_inner: "keeps same_tx (block_inner cdc now tid actor br)"
  unfolding block_inner_def sqlio_def
  by (auto intro!: frame keeps_tx [OF keeps_get_inner])

text \<open>The outcomes of a transaction whose body keeps the transaction open.\<close>

lemma in_transaction_cases:
  assumes "keeps same_tx m" "c_saved c = None" "in_transaction m c = (q, c')"
  shows "(\<exists>e. q = Inl e \<and> c_db c' = c_db c \<and> c_saved c' = None \<and> c_commits c' = c_commits c) \<or>
    (\<exists>a c0 c1. q = Inr a \<and> c_db c0 = c_db c \<and> c_saved c1 = Some (c_db c) \<and> c_commits c1 = c_commits c \<and>
       m c0 = (Inr a, c1) \<and> c' = snd (sql_commit c1))"
proof -
  obtain r1 d where l: "kanban_lock c = (r1, d)" by fastforce
  have d: "d = c" using l by (auto simp: kanban_lock_def lock_conn_def split: if_splits)
  obtain r2 b where b: "sqlio ''begin tx'' begin_immediate c = (r2, b)" by fastforce
  obtain rf f where f: "sql_fault c = (rf, f)" by fastforce
  have sf: "c_db f = c_db c" "c_saved f = None" "c_commits f = c_commits c"
    using same_data_fault [of c] assms(2) f by (simp_all add: same_data_def)
  show ?thesis
  proof (cases "is_ok r1 \<and> is_ok r2")
    case False
    then have "\<exists>e. q = Inl e \<and> (c' = c \<or> c' = f)"
      using assms(2,3) l d b f sf
      by (cases r1; cases r2; cases rf)
        (auto simp: in_transaction_def bindE_def sqlio_def map_err_def begin_immediate_def)
    then show ?thesis using sf assms(2) by auto
  next
    case True
    then have b': "b = f\<lparr>c_saved := Some (c_db c)\<rparr>"
      using b f sf by (cases rf) (auto simp: sqlio_def map_err_def begin_immediate_def bindE_def)
    obtain r c1 where m: "m b = (r, c1)" by fastforce
    have "same_tx b c1" using keepsD [OF assms(1) m] .
    then have c1: "c_saved c1 = Some (c_db c)" "c_commits c1 = c_commits c"
      using b' sf by (simp_all add: same_tx_def)
    have run: "in_transaction m c = (case r of Inr a \<Rightarrow> (Inr a, snd (sql_commit c1)) | Inl e \<Rightarrow> (Inl e, snd (sql_rollback c1)))"
      using True l d b m by (cases r1; cases r2) (auto simp: in_transaction_def bindE_def Let_def)
    show ?thesis
    proof (cases r)
      case (Inl e)
      then show ?thesis using run assms(3) c1 by (auto simp: sql_rollback_def)
    next
      case (Inr a)
      then show ?thesis using run assms(3) c1 m b' sf by (intro disjI2 exI [of _ a] exI [of _ b] exI [of _ c1]) auto
    qed
  qed
qed

text \<open>A body that succeeds did what the specification says, whatever faults were pending.\<close>

lemma robust_effect:
  assumes "robust m" "wf_db cdc (c_db c0)" "m c0 = (Inr u, c1)"
    and "\<And>c. wf_db cdc (c_db c) \<Longrightarrow> c_faults c = [] \<Longrightarrow> \<exists>db'. m c = (fst (spec (board_of cdc (c_db c))), c\<lparr>c_db := db'\<rparr>) \<and>
      wf_db cdc db' \<and> board_of cdc db' = snd (spec (board_of cdc (c_db c)))"
  shows "spec (board_of cdc (c_db c0)) = (Inr u, board_of cdc (c_db c1)) \<and> wf_db cdc (c_db c1)"
proof -
  have "m (c0\<lparr>c_faults := []\<rparr>) = (Inr u, c1\<lparr>c_faults := []\<rparr>)" by (rule robustD [OF assms(1,3)])
  moreover obtain db' where "m (c0\<lparr>c_faults := []\<rparr>) = (fst (spec (board_of cdc (c_db c0))), c0\<lparr>c_faults := [], c_db := db'\<rparr>)"
    "wf_db cdc db'" "board_of cdc db' = snd (spec (board_of cdc (c_db c0)))"
    using assms(4) [of "c0\<lparr>c_faults := []\<rparr>"] assms(2) by auto
  moreover from calculation(1,2) have "fst (spec (board_of cdc (c_db c0))) = Inr u" "c_db (c1\<lparr>c_faults := []\<rparr>) = db'"
    by (auto dest: arg_cong [where f = c_db])
  ultimately show ?thesis by (simp add: prod_eq_iff)
qed

lemma transition_effect:
  assumes "kan_ok cdc" "wf_db cdc (c_db c0)" "transition_inner cdc now tid to a r c0 = (Inr u, c1)"
  shows "spec_transition now tid to a r (board_of cdc (c_db c0)) = (Inr (), board_of cdc (c_db c1)) \<and> wf_db cdc (c_db c1)"
  using robust_effect [OF robust_transition_inner assms(2,3) transition_inner_none [OF assms(1)]] by simp

text \<open>Claim C3.  Atomicity under faults: whichever statements fail, a transition that returns an error
  leaves the tables as they were, with no transaction open; one that returns \<open>Ok\<close> was legal and, if
  the commit succeeded, has its whole effect, state, actor and history together.\<close>

theorem transition_all_or_nothing:
  assumes "kan_ok cdc" "wf_db cdc (c_db c)" "c_saved c = None"
    and "kanban_transition cdc now tid to a r c = (q, c')"
  shows "(\<exists>e. q = Inl e \<and> c_db c' = c_db c \<and> c_saved c' = None) \<or>
    (q = Inr () \<and> fst (spec_transition now tid to a r (board_of cdc (c_db c))) = Inr () \<and>
      (hd (c_commits c @ [None]) = None \<longrightarrow> c_saved c' = None \<and>
         board_of cdc (c_db c') = snd (spec_transition now tid to a r (board_of cdc (c_db c)))))"
proof -
  from in_transaction_cases [OF keeps_transition_inner assms(3) assms(4) [unfolded kanban_transition_def]]
  show ?thesis
  proof
    assume "\<exists>a' c0 c1. q = Inr a' \<and> c_db c0 = c_db c \<and> c_saved c1 = Some (c_db c) \<and> c_commits c1 = c_commits c \<and>
       transition_inner cdc now tid to a r c0 = (Inr a', c1) \<and> c' = snd (sql_commit c1)"
    then obtain c0 c1 where run: "q = Inr ()" "c_db c0 = c_db c" "c_saved c1 = Some (c_db c)" "c_commits c1 = c_commits c"
       "transition_inner cdc now tid to a r c0 = (Inr (), c1)" "c' = snd (sql_commit c1)" by auto
    have "spec_transition now tid to a r (board_of cdc (c_db c)) = (Inr (), board_of cdc (c_db c1))"
      using transition_effect [OF assms(1) _ run(5)] assms(2) run(2) by simp
    moreover have "hd (c_commits c @ [None]) = None \<Longrightarrow> c_saved c' = None \<and> c_db c' = c_db c1"
      using run(4,6) by (auto simp: sql_commit_def split: list.splits)
    ultimately show ?thesis using run(1) by auto
  qed blast
qed

lemma transition_all_or_nothing_witness:
  "let c = (board_step (sqlite_kanban demo_kanban_codec)
         (KCreate 7 3 \<lparr>nt_title = ''t'', nt_actor = ''a'', nt_depends_on = []\<rparr>) empty_board)
         \<lparr>c_faults := [None, None, None, None, Some 10]\<rparr>;
       (q, c') = kanban_transition demo_kanban_codec 4 7 Todo ''a'' None c
   in q = Inl (coded ''update failed'' 10) \<and> c_db c' = c_db c"
proof -
  let ?db = "\<lparr>k_tasks = [\<lparr>tr_id = demo_uuid_str 7, tr_title = ''t'', tr_state = ''Backlog'', tr_actor = Some ''a'',
      tr_depends_on = encode_nats [], tr_block_reason = None, tr_created_at = demo_ts_str 3\<rparr>], k_history = []\<rparr>"
  let ?c = "(board_step (sqlite_kanban demo_kanban_codec)
         (KCreate 7 3 \<lparr>nt_title = ''t'', nt_actor = ''a'', nt_depends_on = []\<rparr>) empty_board)
         \<lparr>c_faults := [None, None, None, None, Some 10]\<rparr>"
  have c: "?c = (conn_new ?db)\<lparr>c_faults := [None, None, None, None, Some 10]\<rparr>"
    by (simp add: sqlite_kanban_def kanban_create_def bindE_def kanban_lock_def empty_board_def conn_new_def
        lock_conn_def demo_kanban_codec_def demo_ser_deps_def sqlio_def map_err_def insert_task_def)
  have "kanban_inv demo_kanban_codec (board_step (sqlite_kanban demo_kanban_codec)
         (KCreate 7 3 \<lparr>nt_title = ''t'', nt_actor = ''a'', nt_depends_on = []\<rparr>) empty_board)"
    using sqlite_board.run_view [OF empty_board_inv(1) [OF demo_kan_ok],
        of "[KCreate 7 3 \<lparr>nt_title = ''t'', nt_actor = ''a'', nt_depends_on = []\<rparr>]"] by simp
  then have wf: "wf_db demo_kanban_codec (c_db ?c)" "c_saved ?c = None"
    by (simp_all add: kanban_inv_def healthy_def)
  obtain q c' where run: "kanban_transition demo_kanban_codec 4 7 Todo ''a'' None ?c = (q, c')" by fastforce
  have "q = Inl (coded ''update failed'' 10)"
    using run unfolding c
    by (auto simp: kanban_transition_def in_transaction_def bindE_def kanban_lock_def lock_conn_def conn_new_def
        sqlio_def map_err_def begin_immediate_def sql_fault_def transition_inner_def get_inner_def sql_read_def
        demo_kanban_codec_def demo_parse_deps_def parse_block_def state_from_str_def sql_exec_def)
  moreover from this have "c_db c' = c_db ?c"
    using transition_all_or_nothing [OF demo_kan_ok wf run] by simp
  ultimately show ?thesis by (simp only: Let_def run prod.case simp_thms)
qed

text \<open>Property.  The result of the commit is dropped: when a commit fails and is rolled back, a transition
  still returns \<open>Ok\<close> although the tables are unchanged; when it fails and leaves the transaction open,
  every later transition fails on its \<open>BEGIN\<close>.\<close>

theorem failed_commit_is_reported_ok:
  assumes "kanban_inv cdc c" "fst (spec_transition now tid to a r (kanban_view cdc c)) = Inr ()"
  shows "(\<exists>c'. kanban_transition cdc now tid to a r (c\<lparr>c_commits := [Some True]\<rparr>) = (Inr (), c') \<and> c_db c' = c_db c) \<and>
    (\<exists>c'. kanban_transition cdc now tid to a r (c\<lparr>c_commits := [Some False]\<rparr>) = (Inr (), c') \<and>
       fst (kanban_transition cdc now' tid' to' a' r' c') = Inl (coded ''begin tx'' 1))"
proof -
  have c: "kan_ok cdc" "healthy c" "wf_db cdc (c_db c)" using assms(1) by (auto simp: kanban_inv_def)
  have run: "\<exists>db'. kanban_transition cdc now tid to a r (c\<lparr>c_commits := [Some rb]\<rparr>) =
      (Inr (), snd (sql_commit (c\<lparr>c_commits := [Some rb], c_saved := Some (c_db c), c_db := db'\<rparr>)))" for rb
  proof -
    let ?c = "c\<lparr>c_commits := [Some rb], c_saved := Some (c_db c)\<rparr>"
    obtain db' where "transition_inner cdc now tid to a r ?c = (Inr (), ?c\<lparr>c_db := db'\<rparr>)"
      using transition_inner_none [OF c(1), of ?c now tid to a r] c assms(2) by (auto simp: healthy_def kanban_view_def)
    then show ?thesis using c(2)
      by (intro exI [of _ db'])
        (simp add: kanban_transition_def in_transaction_def bindE_def sqlio_def map_err_def kanban_lock_def healthy_def)
  qed
  obtain d1 where d1: "kanban_transition cdc now tid to a r (c\<lparr>c_commits := [Some True]\<rparr>) =
      (Inr (), snd (sql_commit (c\<lparr>c_commits := [Some True], c_saved := Some (c_db c), c_db := d1\<rparr>)))" using run by blast
  obtain d2 where d2: "kanban_transition cdc now tid to a r (c\<lparr>c_commits := [Some False]\<rparr>) =
      (Inr (), snd (sql_commit (c\<lparr>c_commits := [Some False], c_saved := Some (c_db c), c_db := d2\<rparr>)))" using run by blast
  have "c_db (snd (sql_commit (c\<lparr>c_commits := [Some True], c_saved := Some (c_db c), c_db := d1\<rparr>))) = c_db c"
    by (simp add: sql_commit_def)
  moreover have "fst (kanban_transition cdc now' tid' to' a' r'
      (snd (sql_commit (c\<lparr>c_commits := [Some False], c_saved := Some (c_db c), c_db := d2\<rparr>)))) = Inl (coded ''begin tx'' 1)"
    using c(2) by (simp add: sql_commit_def kanban_transition_def in_transaction_def bindE_def sqlio_def map_err_def
        kanban_lock_def healthy_def begin_immediate_def)
  ultimately show ?thesis using d1 d2 by blast
qed

lemma failed_commit_is_reported_ok_witness:
  "\<exists>c c'. kanban_transition demo_kanban_codec 4 7 Todo ''a'' None (c\<lparr>c_commits := [Some True]\<rparr>) = (Inr (), c') \<and> c_db c' = c_db c"
proof -
  let ?op = "KCreate 7 3 \<lparr>nt_title = ''t'', nt_actor = ''a'', nt_depends_on = []\<rparr>"
  let ?c = "board_step (sqlite_kanban demo_kanban_codec) ?op empty_board"
  have v: "kanban_inv demo_kanban_codec ?c" "kanban_view demo_kanban_codec ?c = spec_step ?op Map.empty"
    using sqlite_board.run_view [OF empty_board_inv(1) [OF demo_kan_ok], of "[?op]"] by simp_all
  have "fst (spec_transition 4 7 Todo ''a'' None (kanban_view demo_kanban_codec ?c)) = Inr ()"
    unfolding v(2) by (simp add: spec_create_def spec_transition_def) (simp add: created_def)
  from failed_commit_is_reported_ok [OF v(1) this] show ?thesis by blast
qed

end
