(* ===== verification/Workflow_Profile.thy ===== *)
theory Workflow_Profile
  imports Kanban Agent
begin

text \<open>
  \<open>plugin-workflow-profile/src/lib.rs\<close>: the declared stages and gates of a workflow and their
  validation.  The JSON decoding of a profile is \<^verbatim>\<open>serde_json\<close>'s: an argument of \<open>profile_from_json\<close>.
\<close>

record stage =
  st_name :: string
  st_state :: task_state
  st_task_profile :: task_profile

record gate =
  from_stage :: string
  to_stage :: string

record workflow_profile =
  wp_id :: string
  wp_stages :: "stage list"
  wp_gates :: "gate list"

datatype profile_error =
    NoStages
  | EmptyStageName
  | DuplicateStageName string
  | DuplicateState task_state string string
  | GateReferencesUndeclaredStage string
  | GateNotOnDeclaredEdge string string
  | IllegalStageOrder task_state task_state
  | ProfileJson string

definition state_order :: "workflow_profile \<Rightarrow> task_state list" where
  "state_order p = map st_state (wp_stages p)"

definition find_stage :: "workflow_profile \<Rightarrow> string \<Rightarrow> stage option" where
  "find_stage p name = find (\<lambda>s. st_name s = name) (wp_stages p)"

definition is_adjacent_declared_edge :: "stage list \<Rightarrow> string \<Rightarrow> string \<Rightarrow> bool" where
  "is_adjacent_declared_edge stages from to =
     list_ex (\<lambda>(a, b). st_name a = from \<and> st_name b = to) (windows2 stages)"

fun check_against :: "stage \<Rightarrow> stage list \<Rightarrow> profile_error + unit" where
  "check_against s [] = Inr ()"
| "check_against s (t # ts) =
     (if st_name s = st_name t then Inl (DuplicateStageName (st_name s))
      else if st_state s = st_state t then Inl (DuplicateState (st_state s) (st_name s) (st_name t))
      else check_against s ts)"

fun check_stages :: "stage list \<Rightarrow> profile_error + unit" where
  "check_stages [] = Inr ()"
| "check_stages (s # ss) =
     (if blank (st_name s) then Inl EmptyStageName
      else thenE (check_against s ss) (check_stages ss))"

fun check_order :: "(stage \<times> stage) list \<Rightarrow> profile_error + unit" where
  "check_order [] = Inr ()"
| "check_order ((a, b) # ps) =
     (if \<not> is_legal_transition (st_state a) (st_state b) then Inl (IllegalStageOrder (st_state a) (st_state b))
      else check_order ps)"

fun check_gates :: "workflow_profile \<Rightarrow> gate list \<Rightarrow> profile_error + unit" where
  "check_gates p [] = Inr ()"
| "check_gates p (g # gs) =
     (case find_stage p (from_stage g) of
        None \<Rightarrow> Inl (GateReferencesUndeclaredStage (from_stage g))
      | Some from \<Rightarrow>
          (case find_stage p (to_stage g) of
             None \<Rightarrow> Inl (GateReferencesUndeclaredStage (to_stage g))
           | Some to \<Rightarrow>
               if \<not> is_adjacent_declared_edge (wp_stages p) (st_name from) (st_name to)
               then Inl (GateNotOnDeclaredEdge (st_name from) (st_name to))
               else check_gates p gs))"

definition validate_profile :: "workflow_profile \<Rightarrow> profile_error + unit" where
  "validate_profile p =
     (if wp_stages p = [] then Inl NoStages
      else thenE (check_stages (wp_stages p))
          (thenE (check_order (windows2 (wp_stages p)))
            (check_gates p (wp_gates p))))"

definition profile_from_json :: "(string \<Rightarrow> string + workflow_profile) \<Rightarrow> string \<Rightarrow> profile_error + workflow_profile" where
  "profile_from_json parse json =
     (case parse json of
        Inl e \<Rightarrow> Inl (ProfileJson e)
      | Inr p \<Rightarrow> thenE (validate_profile p) (Inr p))"

subsection \<open>What validation decides\<close>

lemma check_against_iff:
  "check_against s ts = Inr () \<longleftrightarrow> st_name s \<notin> st_name ` set ts \<and> st_state s \<notin> st_state ` set ts"
  by (induction s ts rule: check_against.induct) auto

lemma check_stages_iff:
  "check_stages ss = Inr () \<longleftrightarrow> list_all (\<lambda>s. \<not> blank (st_name s)) ss \<and>
     distinct (map st_name ss) \<and> distinct (map st_state ss)"
  by (induction ss) (auto simp: check_against_iff)

lemma check_order_iff:
  "check_order ps = Inr () \<longleftrightarrow> list_all (\<lambda>(a, b). is_legal_transition (st_state a) (st_state b)) ps"
  by (induction ps rule: check_order.induct) auto

lemma find_stage_name: "find_stage p name = Some s \<Longrightarrow> st_name s = name \<and> s \<in> set (wp_stages p)"
  by (auto simp: find_stage_def find_Some_iff)

lemma find_stage_member:
  "distinct (map st_name (wp_stages p)) \<Longrightarrow> s \<in> set (wp_stages p) \<Longrightarrow> find_stage p (st_name s) = Some s"
proof -
  assume d: "distinct (map st_name (wp_stages p))" and s: "s \<in> set (wp_stages p)"
  then obtain t where t: "find_stage p (st_name s) = Some t"
    by (cases "find_stage p (st_name s)") (auto simp: find_stage_def find_None_iff)
  then have "t = s" using find_stage_name [OF t] d s by (auto simp: distinct_map inj_on_def)
  then show ?thesis using t by simp
qed

text \<open>The pairs of stages a gate may guard.\<close>

definition gate_on_edge :: "workflow_profile \<Rightarrow> gate \<Rightarrow> bool" where
  "gate_on_edge p g \<longleftrightarrow> (\<exists>i. Suc i < length (wp_stages p) \<and>
     st_name (wp_stages p ! i) = from_stage g \<and> st_name (wp_stages p ! Suc i) = to_stage g)"

lemma adjacent_iff:
  "is_adjacent_declared_edge ss from to \<longleftrightarrow>
     (\<exists>i. Suc i < length ss \<and> st_name (ss ! i) = from \<and> st_name (ss ! Suc i) = to)"
  by (auto simp: is_adjacent_declared_edge_def list_ex_iff set_windows2)

lemma check_gates_iff:
  assumes "distinct (map st_name (wp_stages p))"
  shows "check_gates p gs = Inr () \<longleftrightarrow> list_all (gate_on_edge p) gs"
proof (induction gs)
  case (Cons g gs)
  have "gate_on_edge p g \<Longrightarrow> find_stage p (from_stage g) \<noteq> None \<and> find_stage p (to_stage g) \<noteq> None"
    unfolding gate_on_edge_def using find_stage_member [OF assms] by (metis Suc_lessD nth_mem option.distinct(1))
  moreover have "find_stage p (from_stage g) = Some a \<Longrightarrow> find_stage p (to_stage g) = Some b \<Longrightarrow>
      is_adjacent_declared_edge (wp_stages p) (st_name a) (st_name b) \<longleftrightarrow> gate_on_edge p g" for a b
    using find_stage_name by (simp add: adjacent_iff gate_on_edge_def)
  ultimately show ?case using Cons by (auto split: option.splits)
qed simp

text \<open>Property.  A profile is accepted exactly when it declares a stage, its stage names are not blank
  and distinct, its states are distinct, consecutive stages are legal core transitions, and every
  gate guards two consecutive declared stages; so every gate of an accepted profile sits on a legal
  core transition between the stages it names.\<close>

theorem validate_profile_iff:
  "(validate_profile p = Inr () \<longleftrightarrow> wp_stages p \<noteq> [] \<and>
      list_all (\<lambda>s. \<not> blank (st_name s)) (wp_stages p) \<and>
      distinct (map st_name (wp_stages p)) \<and> distinct (map st_state (wp_stages p)) \<and>
      list_all (\<lambda>(a, b). is_legal_transition (st_state a) (st_state b)) (windows2 (wp_stages p)) \<and>
      list_all (gate_on_edge p) (wp_gates p)) \<and>
   (validate_profile p = Inr () \<and> g \<in> set (wp_gates p) \<longrightarrow>
      (\<exists>a b. find_stage p (from_stage g) = Some a \<and> find_stage p (to_stage g) = Some b \<and>
         is_legal_transition (st_state a) (st_state b)))"
proof -
  have iff: "validate_profile p = Inr () \<longleftrightarrow> wp_stages p \<noteq> [] \<and>
      list_all (\<lambda>s. \<not> blank (st_name s)) (wp_stages p) \<and>
      distinct (map st_name (wp_stages p)) \<and> distinct (map st_state (wp_stages p)) \<and>
      list_all (\<lambda>(a, b). is_legal_transition (st_state a) (st_state b)) (windows2 (wp_stages p)) \<and>
      list_all (gate_on_edge p) (wp_gates p)"
    by (auto simp: validate_profile_def check_stages_iff check_order_iff check_gates_iff)
  have "\<exists>a b. find_stage p (from_stage g) = Some a \<and> find_stage p (to_stage g) = Some b \<and>
      is_legal_transition (st_state a) (st_state b)"
    if ok: "validate_profile p = Inr ()" and g: "g \<in> set (wp_gates p)"
  proof -
    have v: "distinct (map st_name (wp_stages p))"
      "list_all (\<lambda>(a, b). is_legal_transition (st_state a) (st_state b)) (windows2 (wp_stages p))"
      "gate_on_edge p g" using iff ok g by (auto simp: list_all_iff)
    then obtain i where i: "Suc i < length (wp_stages p)" "st_name (wp_stages p ! i) = from_stage g"
      "st_name (wp_stages p ! Suc i) = to_stage g" by (auto simp: gate_on_edge_def)
    then have "(wp_stages p ! i, wp_stages p ! Suc i) \<in> set (windows2 (wp_stages p))"
      by (auto simp: set_windows2)
    then have "is_legal_transition (st_state (wp_stages p ! i)) (st_state (wp_stages p ! Suc i))"
      using v(2) by (auto simp: list_all_iff)
    then show ?thesis
      using find_stage_member [OF v(1), of "wp_stages p ! i"] find_stage_member [OF v(1), of "wp_stages p ! Suc i"] i
      by simp
  qed
  with iff show ?thesis by blast
qed

lemma validate_profile_iff_witness:
  "\<exists>p a b. validate_profile p = Inr () \<and> find_stage p ''doing'' = Some a \<and> find_stage p ''review'' = Some b \<and>
     is_legal_transition (st_state a) (st_state b)"
proof -
  let ?p = "\<lparr>wp_id = ''w'', wp_stages = [\<lparr>st_name = ''doing'', st_state = Running, st_task_profile = default_v01\<rparr>,
      \<lparr>st_name = ''review'', st_state = Blocked, st_task_profile = default_v01\<rparr>],
      wp_gates = [\<lparr>from_stage = ''doing'', to_stage = ''review''\<rparr>]\<rparr>"
  have "\<not> blank ''doing''" "\<not> blank ''review''" by (simp_all add: blank_iff chars_ascii ascii_def is_whitespace_def)
  then have ok: "validate_profile ?p = Inr ()"
    unfolding validate_profile_iff [of ?p "\<lparr>from_stage = ''doing'', to_stage = ''review''\<rparr>", THEN conjunct1]
    by (simp add: gate_on_edge_def)
  with validate_profile_iff [of ?p "\<lparr>from_stage = ''doing'', to_stage = ''review''\<rparr>"] show ?thesis by fastforce
qed

end
