(* ===== verification/F64.thy ===== *)
theory F64
  imports Complex_Main
begin

text \<open>
  The values of \<open>f64\<close> the validators look at: not-a-number, the two infinities (\<open>True\<close> the positive
  one) and the finite values, with IEEE comparison, which is false as soon as one side is a
  not-a-number.
\<close>

datatype f64 = NaN | Infinite bool | Fin real

fun f64_lt :: "f64 \<Rightarrow> f64 \<Rightarrow> bool" where
  "f64_lt (Fin x) (Fin y) = (x < y)"
| "f64_lt (Fin x) (Infinite s) = s"
| "f64_lt (Infinite s) (Fin y) = (\<not> s)"
| "f64_lt (Infinite s) (Infinite t) = (\<not> s \<and> t)"
| "f64_lt NaN _ = False"
| "f64_lt _ NaN = False"

fun f64_le :: "f64 \<Rightarrow> f64 \<Rightarrow> bool" where
  "f64_le (Fin x) (Fin y) = (x \<le> y)"
| "f64_le (Fin x) (Infinite s) = s"
| "f64_le (Infinite s) (Fin y) = (\<not> s)"
| "f64_le (Infinite s) (Infinite t) = (\<not> s \<or> t)"
| "f64_le NaN _ = False"
| "f64_le _ NaN = False"

definition is_finite :: "f64 \<Rightarrow> bool" where
  "is_finite x = (case x of Fin _ \<Rightarrow> True | _ \<Rightarrow> False)"

text \<open>\<open>(a..=b).contains(&x)\<close>.\<close>

definition in_range :: "real \<Rightarrow> real \<Rightarrow> f64 \<Rightarrow> bool" where
  "in_range a b x \<longleftrightarrow> f64_le (Fin a) x \<and> f64_le x (Fin b)"

lemma is_finite_iff: "is_finite x \<longleftrightarrow> (\<exists>r. x = Fin r)"
  by (cases x) (simp_all add: is_finite_def)

lemma in_range_iff: "in_range a b x \<longleftrightarrow> (\<exists>r. x = Fin r \<and> a \<le> r \<and> r \<le> b)"
  by (cases x) (auto simp: in_range_def)

text \<open>\<open>f64::min\<close>: the other argument when one is not a number.\<close>

definition f64_min :: "f64 \<Rightarrow> f64 \<Rightarrow> f64" where
  "f64_min x y = (if x = NaN then y else if y = NaN then x else if f64_lt y x then y else x)"

lemma f64_le_min: "z \<noteq> NaN \<Longrightarrow> f64_le z (f64_min x y) \<longleftrightarrow>
    (x \<noteq> NaN \<or> y \<noteq> NaN) \<and> (x = NaN \<or> f64_le z x) \<and> (y = NaN \<or> f64_le z y)"
  by (cases x; cases y; cases z) (auto simp: f64_min_def)

end
