(* ===== verification/Mastery_Policy.thy ===== *)
theory Mastery_Policy
  imports Text F64
begin

text \<open>
  \<open>plugin-mastery-policy/src/lib.rs\<close>: the governed policy object, its validation and its loading.

  The decoder \<^verbatim>\<open>serde_json\<close> derives for the policy is an argument of \<open>policy_from_json\<close>; it calls
  the hand-written \<open>lg_deserialize\<close> for the governance section, and what is used of it
  (\<open>derived_decoder\<close>) is that a decoded policy carries either what that function returned or the
  default.  The decimal rendering of an \<open>f64\<close> is an argument too.
\<close>

datatype policy_error =
    QuotaOutOfRange string
  | AggregateLockViolated
  | MissingOwner
  | RedundantAssignmentPhase2 u32
  | NonPositive string
  | PolicyParse string

datatype probe_mode = Strict | Sampled u32 | Hybrid

datatype build_assignment = Single | Divided | Redundant u32

datatype policy_role = PSpecifier | PDesigner | PDeveloper | PTester

record spacing_params =
  initial_interval_days :: u32
  expansion_factor :: f64
  max_interval_days :: u32

record criticality_override =
  co_tag :: string
  human_only_roles :: "policy_role list"

record rotation =
  cadence_days :: u32
  rot_eligible_roles :: "policy_role list"
  criticality_overrides :: "criticality_override list"

record hunt =
  stake_escalation :: bool
  max_ladder_depth :: u32

record ledger_governance =
  retention_days :: u32
  lg_aggregate_only :: bool

record governance_wire =
  w_retention_days :: u32
  w_aggregate_only :: "bool option"

definition lg_new :: "u32 \<Rightarrow> ledger_governance" where
  "lg_new days = \<lparr>retention_days = days, lg_aggregate_only = True\<rparr>"

definition lg_default :: ledger_governance where
  "lg_default = lg_new 365"

definition aggregate_only_team_views :: "ledger_governance \<Rightarrow> bool" where
  "aggregate_only_team_views g = lg_aggregate_only g"

definition lock_message :: string where
  "lock_message = ''ledger_governance.aggregate_only_team_views is locked true and cannot be false (CG-23)''"

text \<open>\<open>#[serde(default = "default_true")]\<close> fills an absent flag.\<close>

definition lg_deserialize :: "governance_wire \<Rightarrow> string + ledger_governance" where
  "lg_deserialize wire =
     (let locked = (case w_aggregate_only wire of Some b \<Rightarrow> b | None \<Rightarrow> True) in
      if \<not> locked then Inl lock_message
      else Inr \<lparr>retention_days = w_retention_days wire, lg_aggregate_only = True\<rparr>)"

record mastery_policy =
  mode :: probe_mode
  criticality_tags :: "string list"
  mp_assignment :: build_assignment
  reserved_rung_quota :: f64
  withdrawal_cadence :: spacing_params
  mp_rotation :: rotation
  mp_hunt :: hunt
  governance :: ledger_governance
  owner :: string

definition validate_policy :: "(f64 \<Rightarrow> string) \<Rightarrow> mastery_policy \<Rightarrow> policy_error + unit" where
  "validate_policy show_f64 p =
     (if \<not> is_finite (reserved_rung_quota p) \<or> f64_lt (reserved_rung_quota p) (Fin 0) \<or>
         f64_lt (Fin 1) (reserved_rung_quota p)
      then Inl (QuotaOutOfRange (show_f64 (reserved_rung_quota p)))
      else if \<not> aggregate_only_team_views (governance p) then Inl AggregateLockViolated
      else if blank (owner p) then Inl MissingOwner
      else case mp_assignment p of
        Redundant r \<Rightarrow> Inl (RedundantAssignmentPhase2 r)
      | _ \<Rightarrow>
          (if max_ladder_depth (mp_hunt p) = 0 then Inl (NonPositive ''hunt.max_ladder_depth'')
           else if cadence_days (mp_rotation p) = 0 then Inl (NonPositive ''rotation.cadence_days'')
           else case mode p of
             Sampled k \<Rightarrow> (if k = 0 then Inl (NonPositive ''mode.sampled.k'') else Inr ())
           | _ \<Rightarrow> Inr ()))"

definition policy_from_json ::
  "((governance_wire \<Rightarrow> string + ledger_governance) \<Rightarrow> string \<Rightarrow> string + mastery_policy) \<Rightarrow>
     (f64 \<Rightarrow> string) \<Rightarrow> string \<Rightarrow> policy_error + mastery_policy" where
  "policy_from_json derived show_f64 json =
     (case derived lg_deserialize json of
        Inl e \<Rightarrow> Inl (PolicyParse e)
      | Inr p \<Rightarrow> thenE (validate_policy show_f64 p) (Inr p))"

definition derived_decoder ::
  "((governance_wire \<Rightarrow> string + ledger_governance) \<Rightarrow> string \<Rightarrow> string + mastery_policy) \<Rightarrow> bool" where
  "derived_decoder derived \<longleftrightarrow> (\<forall>lg json p. derived lg json = Inr p \<longrightarrow>
     governance p = lg_default \<or> (\<exists>wire. lg wire = Inr (governance p)))"

subsection \<open>Validation and loading\<close>

lemma quota_rejected_iff:
  "(\<not> is_finite q \<or> f64_lt q (Fin 0) \<or> f64_lt (Fin 1) q) \<longleftrightarrow> \<not> in_range 0 1 q"
  by (cases q) (auto simp: is_finite_def in_range_def)

lemma lg_deserialize_locked: "lg_deserialize w = Inr g \<Longrightarrow> aggregate_only_team_views g"
  by (auto simp: lg_deserialize_def aggregate_only_team_views_def Let_def split: if_splits)

lemma aggregate_only_default: "aggregate_only_team_views lg_default"
  by (simp add: lg_default_def lg_new_def aggregate_only_team_views_def)

lemma validate_policy_ok_iff:
  "validate_policy show_f64 p = Inr () \<longleftrightarrow> in_range 0 1 (reserved_rung_quota p) \<and>
     aggregate_only_team_views (governance p) \<and> \<not> blank (owner p) \<and>
     mp_assignment p \<in> {Single, Divided} \<and> max_ladder_depth (mp_hunt p) \<noteq> 0 \<and>
     cadence_days (mp_rotation p) \<noteq> 0 \<and> mode p \<noteq> Sampled 0"
  unfolding validate_policy_def quota_rejected_iff
  by (auto split: build_assignment.splits probe_mode.splits)

lemma lock_error_iff:
  "validate_policy show_f64 p = Inl AggregateLockViolated \<longleftrightarrow>
     in_range 0 1 (reserved_rung_quota p) \<and> \<not> aggregate_only_team_views (governance p)"
  unfolding validate_policy_def quota_rejected_iff
  by (auto split: build_assignment.splits probe_mode.splits)

text \<open>Property.  Loading a policy succeeds exactly when its document decodes to a policy whose quota is
  a number in [0, 1], whose team views are locked to aggregates, whose owner is not blank, whose
  assignment is not redundant and whose three counts are positive; and because the decoder itself
  enforces the lock, a document never gets as far as the lock check of the validation: a false
  lock is a parse error.\<close>

theorem policy_from_json_ok_iff:
  assumes "derived_decoder derived"
  shows "(policy_from_json derived show_f64 json = Inr p \<longleftrightarrow>
      derived lg_deserialize json = Inr p \<and> in_range 0 1 (reserved_rung_quota p) \<and>
      aggregate_only_team_views (governance p) \<and> \<not> blank (owner p) \<and>
      mp_assignment p \<in> {Single, Divided} \<and> max_ladder_depth (mp_hunt p) \<noteq> 0 \<and>
      cadence_days (mp_rotation p) \<noteq> 0 \<and> mode p \<noteq> Sampled 0) \<and>
    policy_from_json derived show_f64 json \<noteq> Inl AggregateLockViolated \<and>
    lg_deserialize \<lparr>w_retention_days = days, w_aggregate_only = Some False\<rparr> = Inl lock_message"
proof (intro conjI)
  show "policy_from_json derived show_f64 json = Inr p \<longleftrightarrow>
      derived lg_deserialize json = Inr p \<and> in_range 0 1 (reserved_rung_quota p) \<and>
      aggregate_only_team_views (governance p) \<and> \<not> blank (owner p) \<and>
      mp_assignment p \<in> {Single, Divided} \<and> max_ladder_depth (mp_hunt p) \<noteq> 0 \<and>
      cadence_days (mp_rotation p) \<noteq> 0 \<and> mode p \<noteq> Sampled 0"
    by (auto simp: policy_from_json_def validate_policy_ok_iff split: sum.splits)
  have "aggregate_only_team_views (governance q)" if "derived lg_deserialize json = Inr q" for q
    using assms that lg_deserialize_locked aggregate_only_default unfolding derived_decoder_def by metis
  moreover have "\<exists>q. derived lg_deserialize json = Inr q \<and> validate_policy show_f64 q = Inl AggregateLockViolated"
    if "policy_from_json derived show_f64 json = Inl AggregateLockViolated"
    using that by (auto simp: policy_from_json_def thenE_def split: sum.splits)
  ultimately show "policy_from_json derived show_f64 json \<noteq> Inl AggregateLockViolated"
    using lock_error_iff by blast
qed (simp add: lg_deserialize_def)

definition demo_policy :: "ledger_governance \<Rightarrow> mastery_policy" where
  "demo_policy g = \<lparr>mode = Sampled 3, criticality_tags = [''safety''], mp_assignment = Divided,
     reserved_rung_quota = Fin (1 / 4),
     withdrawal_cadence = \<lparr>initial_interval_days = 7, expansion_factor = Fin 2, max_interval_days = 90\<rparr>,
     mp_rotation = \<lparr>cadence_days = 14, rot_eligible_roles = [PSpecifier], criticality_overrides = []\<rparr>,
     mp_hunt = \<lparr>stake_escalation = True, max_ladder_depth = 5\<rparr>, governance = g, owner = ''alice''\<rparr>"

definition demo_decoder :: "(governance_wire \<Rightarrow> string + ledger_governance) \<Rightarrow> string \<Rightarrow> string + mastery_policy" where
  "demo_decoder lg json =
     (if json = ''p'' then Inr (demo_policy lg_default)
      else case lg \<lparr>w_retention_days = 30, w_aggregate_only = Some (json = ''t'')\<rparr> of
        Inl e \<Rightarrow> Inl e | Inr g \<Rightarrow> Inr (demo_policy g))"

lemma policy_from_json_ok_iff_witness:
  "policy_from_json demo_decoder (\<lambda>_. ''?'') ''t'' = Inr (demo_policy (lg_new 30)) \<and>
   policy_from_json demo_decoder (\<lambda>_. ''?'') ''f'' \<noteq> Inl AggregateLockViolated \<and>
   lg_deserialize \<lparr>w_retention_days = 30, w_aggregate_only = Some False\<rparr> = Inl lock_message"
proof -
  have d: "derived_decoder demo_decoder"
    by (auto simp: derived_decoder_def demo_decoder_def demo_policy_def split: sum.splits if_splits)
  have "\<not> blank ''alice''" by (simp add: blank_iff chars_ascii ascii_def is_whitespace_def)
  moreover have "demo_decoder lg_deserialize ''t'' = Inr (demo_policy (lg_new 30))"
    by (simp add: demo_decoder_def lg_deserialize_def lg_new_def)
  moreover have "in_range 0 1 (Fin (1 / 4))" by (simp add: in_range_def)
  ultimately show ?thesis
    using policy_from_json_ok_iff [OF d, of "\<lambda>_. ''?''" "''t''" "demo_policy (lg_new 30)" 30]
      policy_from_json_ok_iff [OF d, of "\<lambda>_. ''?''" "''f''" undefined 30]
    by (simp add: demo_policy_def lg_new_def aggregate_only_team_views_def)
qed

end
