(* ===== verification/Rotation.thy ===== *)
theory Rotation
  imports Agent "HOL-Library.Multiset"
begin

text \<open>
  \<open>plugin-rotation-scheduler/src/lib.rs\<close>: the assignment of roles to actors and the hand-off
  messages.

  The sum \<open>base as usize + ordinal\<close> is a 64-bit addition: compiled with overflow checks it
  panics, otherwise it wraps.  The flag \<open>checks\<close> says which build runs, and a panic is \<open>None\<close>.
\<close>

datatype role = Specifier | Designer | Developer | Tester

fun ordinal :: "role \<Rightarrow> nat" where
  "ordinal Specifier = 0"
| "ordinal Designer = 1"
| "ordinal Developer = 2"
| "ordinal Tester = 3"

definition role_order :: "role list" where
  "role_order = [Specifier, Designer, Developer, Tester]"

datatype criticality = Normal | SafetyCritical

record actor =
  actor_id :: string
  is_human :: bool

record human_override =
  ho_role :: role
  ho_when :: criticality

record rotation_policy =
  eligible_roles :: "role list"
  roster :: "actor list"
  cadence :: u64
  overrides :: "human_override list"

definition rotation_policy_new :: "role list \<Rightarrow> actor list \<Rightarrow> u64 \<Rightarrow> rotation_policy" where
  "rotation_policy_new roles actors c =
     \<lparr>eligible_roles = roles, roster = actors, cadence = max c 1, overrides = []\<rparr>"

definition force_human :: "role \<Rightarrow> criticality \<Rightarrow> rotation_policy \<Rightarrow> rotation_policy" where
  "force_human r c p = p\<lparr>overrides := overrides p @ [\<lparr>ho_role = r, ho_when = c\<rparr>]\<rparr>"

definition requires_human :: "rotation_policy \<Rightarrow> role \<Rightarrow> criticality \<Rightarrow> bool" where
  "requires_human p r c = list_ex (\<lambda>ov. ho_role ov = r \<and> ho_when ov = c) (overrides p)"

record rotation_item =
  item_origin_task :: uuid
  item_criticality :: criticality

datatype rotation_error = NoRoles | EmptyRoster | NoHumanAvailable role

record assignment =
  as_origin_task :: uuid
  slots :: "(role \<times> string) list"

definition actor_for :: "assignment \<Rightarrow> role \<Rightarrow> string option" where
  "actor_for a r = map_option snd (find (\<lambda>s. fst s = r) (slots a))"

definition assigned_roles :: "assignment \<Rightarrow> role list" where
  "assigned_roles a = map fst (slots a)"

definition handoffs :: "assignment \<Rightarrow> agent_message list" where
  "handoffs a = map (\<lambda>(i, from, to).
       Delegation (as_origin_task a) (word_of_nat i) (as_bytes (snd from @ ''->'' @ snd to)))
     (enumerate 0 (windows2 (slots a)))"

definition slot_index :: "bool \<Rightarrow> u64 \<Rightarrow> role \<Rightarrow> nat \<Rightarrow> nat option" where
  "slot_index checks base r len =
     (if checks \<and> 2 ^ 64 \<le> unat base + ordinal r then None
      else Some (unat (base + word_of_nat (ordinal r)) mod len))"

text \<open>The loop over the eligible roles; \<open>None\<close> is a panic.\<close>

fun assign_slots ::
  "bool \<Rightarrow> rotation_policy \<Rightarrow> criticality \<Rightarrow> u64 \<Rightarrow> role list \<Rightarrow> (rotation_error + (role \<times> string) list) option" where
  "assign_slots checks p c base [] = Some (Inr [])"
| "assign_slots checks p c base (r # rs) =
     (case (if requires_human p r c
            then Some (ok_or (NoHumanAvailable r) (map_option actor_id (find is_human (roster p))))
            else map_option (\<lambda>i. Inr (actor_id (roster p ! i))) (slot_index checks base r (length (roster p)))) of
        None \<Rightarrow> None
      | Some (Inl e) \<Rightarrow> Some (Inl e)
      | Some (Inr a) \<Rightarrow>
          (case assign_slots checks p c base rs of
             None \<Rightarrow> None
           | Some (Inl e) \<Rightarrow> Some (Inl e)
           | Some (Inr ss) \<Rightarrow> Some (Inr ((r, a) # ss))))"

definition rotation_base :: "rotation_policy \<Rightarrow> u64 \<Rightarrow> u64" where
  "rotation_base p cycle = cycle div max (cadence p) 1"

definition assign_roles :: "bool \<Rightarrow> rotation_policy \<Rightarrow> rotation_item \<Rightarrow> u64 \<Rightarrow> (rotation_error + assignment) option" where
  "assign_roles checks p item cycle =
     (if eligible_roles p = [] then Some (Inl NoRoles)
      else if roster p = [] then Some (Inl EmptyRoster)
      else case assign_slots checks p (item_criticality item) (rotation_base p cycle) (eligible_roles p) of
        None \<Rightarrow> None
      | Some (Inl e) \<Rightarrow> Some (Inl e)
      | Some (Inr ss) \<Rightarrow> Some (Inr \<lparr>as_origin_task = item_origin_task item, slots = ss\<rparr>))"

subsection \<open>The slots\<close>

text \<open>The actor the rule gives to one role.\<close>

definition slot_actor :: "rotation_policy \<Rightarrow> criticality \<Rightarrow> nat \<Rightarrow> role \<Rightarrow> actor option" where
  "slot_actor p c base r =
     (if requires_human p r c then find is_human (roster p)
      else Some (roster p ! ((base + ordinal r) mod length (roster p))))"

lemma ordinal_less: "ordinal r < 4"
  by (cases r) simp_all

lemma ordinal_inj: "ordinal r = ordinal s \<longleftrightarrow> r = s"
  by (cases r; cases s) simp_all

lemma slot_index_ok:
  assumes "unat base + 3 < 2 ^ 64"
  shows "slot_index checks base r n = Some ((unat base + ordinal r) mod n)"
proof -
  have r: "unat (word_of_nat (ordinal r) :: u64) = ordinal r"
    using ordinal_less [of r] by (simp add: unat_of_nat)
  have "unat (base + word_of_nat (ordinal r)) = unat base + ordinal r"
    using assms ordinal_less [of r] by (subst unat_add_lem [THEN iffD1]) (simp_all add: r)
  then show ?thesis using assms ordinal_less [of r] by (simp add: slot_index_def)
qed

lemma assign_slots_eq:
  assumes "unat base + 3 < 2 ^ 64"
  shows "assign_slots checks p c base rs =
     Some (traverse (\<lambda>r. case slot_actor p c (unat base) r of
        None \<Rightarrow> Inl (NoHumanAvailable r) | Some a \<Rightarrow> Inr (r, actor_id a)) rs)"
  by (induction rs) (auto simp: slot_index_ok [OF assms] slot_actor_def split: sum.splits option.splits)

lemma slot_actor_in_roster: "slot_actor p c b r = Some a \<Longrightarrow> roster p \<noteq> [] \<Longrightarrow> a \<in> set (roster p)"
  by (auto simp: slot_actor_def find_Some_iff split: if_splits)

lemma slot_actor_human: "slot_actor p c b r = Some a \<Longrightarrow> requires_human p r c \<Longrightarrow> is_human a"
  by (auto simp: slot_actor_def find_Some_iff)

lemma traverse_first_error:
  assumes "\<exists>x \<in> set xs. g x = None"
  shows "\<exists>x \<in> set xs. traverse (\<lambda>x. case g x of None \<Rightarrow> Inl (er x) | Some a \<Rightarrow> Inr (h x a)) xs = Inl (er x) \<and> g x = None"
  using assms
proof (induction xs)
  case (Cons x xs)
  then show ?case by (cases "g x") auto
qed simp

text \<open>Claim C39.  Whenever the cycle arithmetic stays in 64 bits, an assignment is a total function of
  its inputs.  It fails exactly for an empty role list, an empty roster, or a role that needs a
  human when the roster has none; otherwise it names the eligible roles in order, each with an
  actor of the roster, a human wherever an override asks for one, and else the actor at position
  \<open>base + ordinal\<close> modulo the roster.\<close>

theorem assign_roles_correct:
  assumes "unat (rotation_base p cycle) + 3 < 2 ^ 64"
  shows "(\<exists>e. assign_roles checks p item cycle = Some (Inl e) \<and>
       (e = NoRoles \<and> eligible_roles p = [] \<or>
        e = EmptyRoster \<and> eligible_roles p \<noteq> [] \<and> roster p = [] \<or>
        (\<exists>r \<in> set (eligible_roles p). e = NoHumanAvailable r \<and>
           requires_human p r (item_criticality item) \<and> list_all (\<lambda>a. \<not> is_human a) (roster p)))) \<or>
     (\<exists>a actors. assign_roles checks p item cycle = Some (Inr a) \<and>
        as_origin_task a = item_origin_task item \<and> eligible_roles p \<noteq> [] \<and>
        set actors \<subseteq> set (roster p) \<and>
        slots a = zip (eligible_roles p) (map actor_id actors) \<and> length actors = length (eligible_roles p) \<and>
        list_all2 (\<lambda>r x. if requires_human p r (item_criticality item) then is_human x
          else x = roster p ! ((unat (rotation_base p cycle) + ordinal r) mod length (roster p)))
          (eligible_roles p) actors)"
proof -
  let ?c = "item_criticality item" and ?b = "unat (rotation_base p cycle)"
  let ?f = "\<lambda>r. case slot_actor p ?c ?b r of None \<Rightarrow> Inl (NoHumanAvailable r) | Some a \<Rightarrow> Inr (r, actor_id a)"
  note eq = assign_slots_eq [OF assms, of checks p ?c]
  consider "eligible_roles p = []" | "eligible_roles p \<noteq> []" "roster p = []"
    | "eligible_roles p \<noteq> []" "roster p \<noteq> []" by blast
  then show ?thesis
  proof cases
    case 3
    show ?thesis
    proof (cases "\<exists>r \<in> set (eligible_roles p). slot_actor p ?c ?b r = None")
      case True
      obtain r where "r \<in> set (eligible_roles p)" "slot_actor p ?c ?b r = None"
        "traverse ?f (eligible_roles p) = Inl (NoHumanAvailable r)"
        using traverse_first_error [OF True, of NoHumanAvailable "\<lambda>r a. (r, actor_id a)"] by blast
      then show ?thesis using 3
        by (auto simp: assign_roles_def eq slot_actor_def find_None_iff list_all_iff split: if_splits)
    next
      case False
      define actors where "actors = map (\<lambda>r. the (slot_actor p ?c ?b r)) (eligible_roles p)"
      have some: "slot_actor p ?c ?b r = Some (the (slot_actor p ?c ?b r))" if "r \<in> set (eligible_roles p)" for r
        using False that by auto
      have "traverse ?f (eligible_roles p) = Inr (map (\<lambda>r. (r, actor_id (the (slot_actor p ?c ?b r)))) (eligible_roles p))"
        by (rule traverse_total) (subst some, simp_all)
      then have "assign_roles checks p item cycle = Some (Inr \<lparr>as_origin_task = item_origin_task item,
          slots = zip (eligible_roles p) (map actor_id actors)\<rparr>)"
        using 3 by (simp add: assign_roles_def eq actors_def comp_def zip_map2 zip_same_conv_map)
      moreover have "set actors \<subseteq> set (roster p)"
        using slot_actor_in_roster [OF some 3(2)] by (auto simp: actors_def)
      moreover have "list_all2 (\<lambda>r x. if requires_human p r ?c then is_human x
          else x = roster p ! ((?b + ordinal r) mod length (roster p))) (eligible_roles p) actors"
        using slot_actor_human [OF some] by (auto simp: actors_def list_all2_map2 list_all2_same slot_actor_def)
      moreover have "length actors = length (eligible_roles p)" by (simp add: actors_def)
      ultimately show ?thesis
        by (intro disjI2 exI [of _ "\<lparr>as_origin_task = item_origin_task item,
          slots = zip (eligible_roles p) (map actor_id actors)\<rparr>"] exI [of _ actors]) (simp add: 3)
    qed
  qed (simp_all add: assign_roles_def)
qed

definition demo_rotation :: rotation_policy where
  "demo_rotation = force_human Specifier SafetyCritical (rotation_policy_new role_order
     [\<lparr>actor_id = ''bot'', is_human = False\<rparr>, \<lparr>actor_id = ''ann'', is_human = True\<rparr>] 2)"

lemma assign_roles_correct_witness:
  "unat (rotation_base demo_rotation 2) = 1 \<and>
   (\<exists>a. assign_roles True demo_rotation \<lparr>item_origin_task = 7, item_criticality = SafetyCritical\<rparr> 2 = Some (Inr a))"
proof -
  have b: "rotation_base demo_rotation 2 = 1"
    by (simp add: rotation_base_def demo_rotation_def force_human_def rotation_policy_new_def)
  then have "unat (rotation_base demo_rotation 2) + 3 < 2 ^ 64" by simp
  from assign_roles_correct [OF this, of True "\<lparr>item_origin_task = 7, item_criticality = SafetyCritical\<rparr>"]
  show ?thesis using b
    by (auto simp: demo_rotation_def force_human_def rotation_policy_new_def role_order_def)
qed

subsection \<open>Fairness of the rotation\<close>

text \<open>The assignments \<open>k\<close> cadences apart, for one role.\<close>

definition rota :: "bool \<Rightarrow> rotation_policy \<Rightarrow> rotation_item \<Rightarrow> u64 \<Rightarrow> role \<Rightarrow> nat \<Rightarrow> string option" where
  "rota checks p item cycle r k =
     (case assign_roles checks p item (cycle + word_of_nat k * cadence p) of
        Some (Inr a) \<Rightarrow> actor_for a r
      | _ \<Rightarrow> None)"

lemma find_zip_map:
  "r \<in> set rs \<Longrightarrow> find (\<lambda>s. fst s = r) (map (\<lambda>x. (x, f x)) rs) = Some (r, f r)"
  by (induction rs) auto

lemma mod_window_bij:
  assumes "0 < (n::nat)"
  shows "bij_betw (\<lambda>k. (m + k) mod n) {0..<n} {0..<n}"
proof -
  have "inj_on (\<lambda>k. (m + k) mod n) {0..<n}"
  proof (rule linorder_inj_onI)
    fix x y
    assume xy: "x < y" "x \<in> {0..<n}" "y \<in> {0..<n}"
    show "(m + x) mod n \<noteq> (m + y) mod n"
    proof
      assume "(m + x) mod n = (m + y) mod n"
      then have "n dvd (m + y) - (m + x)" using xy by (metis add_le_cancel_left less_imp_le mod_eq_dvd_iff_nat)
      then have "n dvd y - x" by simp
      then show False using xy by (auto dest: dvd_imp_le)
    qed
  qed auto
  moreover have "(\<lambda>k. (m + k) mod n) ` {0..<n} \<subseteq> {0..<n}" using assms by auto
  ultimately show ?thesis by (simp add: bij_betw_def endo_inj_surj)
qed

lemma rotation_base_step:
  assumes "1 \<le> cadence p" "unat cycle + k * unat (cadence p) < 2 ^ 64"
  shows "unat (rotation_base p (cycle + word_of_nat k * cadence p)) = unat (rotation_base p cycle) + k"
proof -
  have c: "0 < unat (cadence p)" "max (cadence p) 1 = cadence p"
    using assms(1) by (simp_all add: word_le_nat_alt max_absorb1)
  have k: "k * unat (cadence p) < 2 ^ 64" using assms(2) by simp
  then have "k < 2 ^ 64" using c(1) by (metis le_less_trans mult.right_neutral mult_le_mono2 Suc_leI One_nat_def)
  then have "unat (word_of_nat k * cadence p) = k * unat (cadence p)"
    using k by (simp add: unat_word_ariths unat_of_nat)
  then have "unat (cycle + word_of_nat k * cadence p) = unat cycle + k * unat (cadence p)"
    using assms(2) by (simp add: unat_word_ariths)
  then show ?thesis using c by (simp add: rotation_base_def unat_div)
qed

lemma assign_unpinned:
  assumes "unat (rotation_base p cycle) + 3 < 2 ^ 64" "roster p \<noteq> []" "r \<in> set (eligible_roles p)"
    "list_all (\<lambda>r. \<not> requires_human p r (item_criticality item)) (eligible_roles p)"
  shows "\<exists>a. assign_roles checks p item cycle = Some (Inr a) \<and>
    actor_for a r = Some (actor_id (roster p ! ((unat (rotation_base p cycle) + ordinal r) mod length (roster p))))"
proof -
  let ?f = "\<lambda>r. actor_id (roster p ! ((unat (rotation_base p cycle) + ordinal r) mod length (roster p)))"
  have "assign_slots checks p (item_criticality item) (rotation_base p cycle) (eligible_roles p) =
      Some (Inr (map (\<lambda>r. (r, ?f r)) (eligible_roles p)))"
    unfolding assign_slots_eq [OF assms(1)] using assms(4)
    by (simp add: traverse_total [where g = "\<lambda>r. (r, ?f r)"] slot_actor_def list_all_iff)
  then show ?thesis
    using assms(2,3) find_zip_map [OF assms(3), of ?f] by (auto simp: assign_roles_def actor_for_def)
qed

text \<open>Property.  The rotation is fair: over as many consecutive cadences as the roster has actors,
  each actor takes each unpinned role exactly once, the round ends where it began, and within one
  cycle two roles meet the same position of the roster only when the roster is shorter than the
  number of roles.\<close>

theorem rotation_fair:
  assumes "roster p \<noteq> []" "r \<in> set (eligible_roles p)" "1 \<le> cadence p"
    and "list_all (\<lambda>r. \<not> requires_human p r (item_criticality item)) (eligible_roles p)"
    and "unat cycle + length (roster p) * unat (cadence p) + 3 < 2 ^ 64"
  shows "mset (map (rota checks p item cycle r) [0..<length (roster p)]) =
      mset (map (\<lambda>a. Some (actor_id a)) (roster p)) \<and>
    rota checks p item cycle r (length (roster p)) = rota checks p item cycle r 0 \<and>
    (length (roster p) < 4 \<or> r = s \<or> (unat (rotation_base p cycle) + ordinal r) mod length (roster p) \<noteq>
      (unat (rotation_base p cycle) + ordinal s) mod length (roster p))"
proof -
  let ?n = "length (roster p)" and ?m = "unat (rotation_base p cycle) + ordinal r"
  have c: "0 < unat (cadence p)" using assms(3) by (simp add: word_le_nat_alt)
  have rota: "rota checks p item cycle r k = Some (actor_id (roster p ! ((?m + k) mod ?n)))" if "k \<le> ?n" for k
  proof -
    let ?cy = "cycle + word_of_nat k * cadence p"
    have "k * unat (cadence p) \<le> ?n * unat (cadence p)" using that by simp
    then have sum: "unat cycle + k * unat (cadence p) + 3 < 2 ^ 64" using assms(5) by linarith
    have base: "unat (rotation_base p ?cy) = unat (rotation_base p cycle) + k"
      using rotation_base_step [OF assms(3), of cycle k] sum by simp
    have "unat (rotation_base p cycle) \<le> unat cycle"
      using div_le_dividend by (simp add: rotation_base_def unat_div)
    moreover have "k \<le> k * unat (cadence p)" using c by simp
    ultimately have "unat (rotation_base p ?cy) + 3 < 2 ^ 64" using base sum by linarith
    from assign_unpinned [OF this assms(1,2,4), of checks] base show ?thesis
      by (auto simp: rota_def add.assoc add.commute [of "ordinal r"])
  qed
  have "bij_betw (\<lambda>k. (?m + k) mod ?n) {0..<?n} {0..<?n}" using assms(1) by (simp add: mod_window_bij)
  then have "image_mset (\<lambda>k. (?m + k) mod ?n) (mset [0..<?n]) = mset [0..<?n]"
    by (simp add: bij_betw_def image_mset_mset_set)
  then have "image_mset (\<lambda>i. Some (actor_id (roster p ! i))) (image_mset (\<lambda>k. (?m + k) mod ?n) (mset [0..<?n])) =
      mset (map (\<lambda>a. Some (actor_id a)) (roster p))"
    by (metis (no_types, lifting) map_nth mset_map map_map comp_def map_eq_conv)
  moreover have "map (rota checks p item cycle r) [0..<?n] =
      map (\<lambda>k. Some (actor_id (roster p ! ((?m + k) mod ?n)))) [0..<?n]"
    using rota by (intro map_cong) simp_all
  ultimately have "mset (map (rota checks p item cycle r) [0..<?n]) = mset (map (\<lambda>a. Some (actor_id a)) (roster p))"
    by (simp only: mset_map image_mset.compositionality comp_def)
  moreover have "(?m + ?n) mod ?n = (?m + 0) mod ?n" by simp
  moreover have "(unat (rotation_base p cycle) + ordinal r) mod ?n \<noteq> (unat (rotation_base p cycle) + ordinal s) mod ?n"
    if n: "4 \<le> ?n" and rs: "r \<noteq> s"
  proof -
    have "inj_on (\<lambda>k. (unat (rotation_base p cycle) + k) mod ?n) {0..<?n}"
      using mod_window_bij [of ?n "unat (rotation_base p cycle)"] assms(1) by (simp add: bij_betw_def)
    moreover have "ordinal r \<in> {0..<?n}" "ordinal s \<in> {0..<?n}"
      using ordinal_less [of r] ordinal_less [of s] n by simp_all
    ultimately show ?thesis using rs ordinal_inj by (auto dest: inj_onD)
  qed
  ultimately show ?thesis using rota by (auto simp: not_less)
qed

lemma rotation_fair_witness:
  "\<exists>p. mset (map (rota True p \<lparr>item_origin_task = 7, item_criticality = Normal\<rparr> 0 Tester) [0..<2]) =
     mset [Some ''bot'', Some ''ann'']"
proof -
  have "roster demo_rotation \<noteq> []" "Tester \<in> set (eligible_roles demo_rotation)" "1 \<le> cadence demo_rotation"
    "list_all (\<lambda>r. \<not> requires_human demo_rotation r (item_criticality \<lparr>item_origin_task = 7, item_criticality = Normal\<rparr>))
      (eligible_roles demo_rotation)"
    "unat (0::u64) + length (roster demo_rotation) * unat (cadence demo_rotation) + 3 < 2 ^ 64"
    by (simp_all add: demo_rotation_def force_human_def rotation_policy_new_def role_order_def requires_human_def max_def)
  from rotation_fair [OF this, of True Tester] show ?thesis
    by (intro exI [of _ demo_rotation])
      (simp add: demo_rotation_def force_human_def rotation_policy_new_def numeral_2_eq_2)
qed

subsection \<open>Hand-offs\<close>

lemma length_handoffs [simp]: "length (handoffs a) = length (slots a) - 1"
  by (simp add: handoffs_def)

lemma handoffs_nth:
  assumes "Suc i < length (slots a)"
  shows "handoffs a ! i = Delegation (as_origin_task a) (word_of_nat i)
    (as_bytes (snd (slots a ! i) @ ''->'' @ snd (slots a ! Suc i)))"
proof -
  have "i < length (windows2 (slots a))" using assms by simp
  then show ?thesis using assms by (simp add: handoffs_def nth_enumerate_eq nth_windows2)
qed

text \<open>Property.  An assignment of \<open>n\<close> roles hands off \<open>n - 1\<close> times, each message a delegation of the
  assignment's task whose hop count is its position.  With at most 17 slots and short actor names
  every one of them passes the message validation; the seventeenth message and the following ones
  of a longer assignment are refused for their hop count.\<close>

theorem handoffs_valid:
  assumes "list_all (\<lambda>s. length (snd s) \<le> 500000) (slots a)"
  shows "length (handoffs a) = length (slots a) - 1 \<and>
    list_all (\<lambda>msg. origin_task msg = as_origin_task a) (handoffs a) \<and>
    (17 < length (slots a) \<or> list_all (\<lambda>msg. validate_message msg = Inr ()) (handoffs a) \<and>
       map (\<lambda>msg. unat (hops msg)) (handoffs a) = [0..<length (slots a) - 1]) \<and>
    (length (slots a) \<le> 17 \<or> validate_message (handoffs a ! 16) \<noteq> Inr ())"
proof -
  have nth: "handoffs a ! i = Delegation (as_origin_task a) (word_of_nat i)
      (as_bytes (snd (slots a ! i) @ ''->'' @ snd (slots a ! Suc i)))" if "i < length (slots a) - 1" for i
    using that by (intro handoffs_nth) simp
  have "list_all (\<lambda>msg. origin_task msg = as_origin_task a) (handoffs a)"
    by (simp add: list_all_length nth)
  moreover have "validate_message (handoffs a ! i) = Inr () \<and> unat (hops (handoffs a ! i)) = i"
    if i: "i < length (slots a) - 1" and n: "length (slots a) \<le> 17" for i
  proof -
    have "i < 256" "i < 16" using i n by simp_all
    moreover have "length (snd (slots a ! i)) \<le> 500000" "length (snd (slots a ! Suc i)) \<le> 500000"
      using assms i by (auto simp: list_all_length)
    ultimately show ?thesis by (simp add: nth [OF i] validate_message_iff unat_of_nat as_bytes_def)
  qed
  moreover have "validate_message (handoffs a ! 16) \<noteq> Inr ()" if "17 < length (slots a)"
    using that nth [of 16] by (simp add: validate_message_iff)
  ultimately show ?thesis
    by (auto simp: list_all_length not_le not_less intro!: nth_equalityI)
qed

lemma handoffs_valid_witness:
  "list_all (\<lambda>msg. validate_message msg = Inr ())
     (handoffs \<lparr>as_origin_task = 7, slots = [(Designer, ''bot''), (Tester, ''ann'')]\<rparr>)"
  using handoffs_valid [of "\<lparr>as_origin_task = 7, slots = [(Designer, ''bot''), (Tester, ''ann'')]\<rparr>"] by simp

end
