(* ===== verification/Withdrawal.thy ===== *)
theory Withdrawal
  imports Text
begin

text \<open>
  \<open>plugin-withdrawal-scheduler/src/lib.rs\<close>: the expanding-interval policy, the planner and the
  life cycle of a solo flight.  The largest time chrono represents is the argument \<open>max_utc\<close>; the
  64-bit arithmetic of the interval is written out on \<open>nat\<close> with its saturation.
\<close>

record seed_event =
  seed_actor :: string
  seed_task :: uuid
  last_practiced :: timestamp
  prior_sessions :: u32

record expansion_policy =
  base_days :: u32
  factor_percent :: u32
  cap_days :: u32

definition default_expansion :: expansion_policy where
  "default_expansion = \<lparr>base_days = 7, factor_percent = 200, cap_days = 90\<rparr>"

definition sat_mul64 :: "nat \<Rightarrow> nat \<Rightarrow> nat" where
  "sat_mul64 a b = min (a * b) (2 ^ 64 - 1)"

text \<open>The loop body, \<open>n\<close> times, with the early return.\<close>

fun interval_loop :: "expansion_policy \<Rightarrow> nat \<Rightarrow> nat \<Rightarrow> u32" where
  "interval_loop p value 0 = word_of_nat (min value (unat (cap_days p)))"
| "interval_loop p value (Suc n) =
     (let value' = sat_mul64 value (unat (factor_percent p)) div 100 in
      if unat (cap_days p) \<le> value' then cap_days p else interval_loop p value' n)"

definition interval_days :: "expansion_policy \<Rightarrow> u32 \<Rightarrow> u32" where
  "interval_days p n = interval_loop p (unat (base_days p)) (unat n)"

record planned_session =
  ps_actor :: string
  ps_task :: uuid
  ps_index :: u32
  scheduled_at :: timestamp
  ps_interval :: u32

datatype flight_state = Active | Completed | FAborted string

record solo_flight =
  sf_actor :: string
  sf_task :: uuid
  sf_index :: u32
  sf_state :: flight_state

definition flight_begin :: "planned_session \<Rightarrow> solo_flight" where
  "flight_begin s = \<lparr>sf_actor = ps_actor s, sf_task = ps_task s, sf_index = ps_index s, sf_state = Active\<rparr>"

definition agent_withdrawn :: "solo_flight \<Rightarrow> bool" where
  "agent_withdrawn f = (sf_state f = Active)"

datatype event_kind = Practice

datatype flight_outcome = Flown | OAborted string

record practice_event =
  pe_actor :: string
  pe_task :: uuid
  pe_index :: u32
  pe_kind :: event_kind
  pe_outcome :: flight_outcome
  penalised :: bool

definition practice_event_new :: "solo_flight \<Rightarrow> flight_outcome \<Rightarrow> practice_event" where
  "practice_event_new f out = \<lparr>pe_actor = sf_actor f, pe_task = sf_task f, pe_index = sf_index f,
     pe_kind = Practice, pe_outcome = out, penalised = False\<rparr>"

datatype schedule_error = NotActive | InvalidPolicy string

definition non_expanding_message :: "expansion_policy \<Rightarrow> string" where
  "non_expanding_message p = ''base_days '' @ nat_str (unat (base_days p)) @ '' too small for factor_percent '' @
     nat_str (unat (factor_percent p)) @ '': integer truncation leaves intervals non-expanding''"

definition scheduler_new :: "expansion_policy \<Rightarrow> schedule_error + expansion_policy" where
  "scheduler_new p =
     (if base_days p = 0 then Inl (InvalidPolicy ''base_days must be > 0'')
      else if factor_percent p \<le> 100 then Inl (InvalidPolicy ''factor_percent must be > 100 so intervals expand'')
      else if cap_days p < base_days p then Inl (InvalidPolicy ''cap_days must be >= base_days'')
      else let first_step = unat (base_days p) * unat (factor_percent p) div 100 in
        if first_step \<le> unat (base_days p) \<and> base_days p < cap_days p
        then Inl (InvalidPolicy (non_expanding_message p))
        else Inr p)"

definition sat_add32 :: "u32 \<Rightarrow> u32 \<Rightarrow> u32" where
  "sat_add32 a b = word_of_nat (min (unat a + unat b) (2 ^ 32 - 1))"

definition day_ns :: int where
  "day_ns = 86400 * 1000000000"

text \<open>\<open>checked_add_signed(..).unwrap_or(MAX_UTC)\<close>.\<close>

definition add_days :: "timestamp \<Rightarrow> timestamp \<Rightarrow> u32 \<Rightarrow> timestamp" where
  "add_days max_utc anchor days =
     (let t = anchor + int (unat days) * day_ns in if t \<le> max_utc then t else max_utc)"

text \<open>The inner loop over \<open>step\<close>, from \<open>step\<close> on, with \<open>k\<close> steps to go.\<close>

fun plan_steps :: "timestamp \<Rightarrow> expansion_policy \<Rightarrow> seed_event \<Rightarrow> timestamp \<Rightarrow> nat \<Rightarrow> nat \<Rightarrow> planned_session list" where
  "plan_steps max_utc p seed anchor step 0 = []"
| "plan_steps max_utc p seed anchor step (Suc k) =
     (let index = sat_add32 (prior_sessions seed) (word_of_nat step);
          days = interval_days p index;
          anchor' = add_days max_utc anchor days
      in \<lparr>ps_actor = seed_actor seed, ps_task = seed_task seed, ps_index = index, scheduled_at = anchor',
           ps_interval = days\<rparr> # plan_steps max_utc p seed anchor' (Suc step) k)"

definition plan :: "timestamp \<Rightarrow> expansion_policy \<Rightarrow> seed_event list \<Rightarrow> u32 \<Rightarrow> planned_session list" where
  "plan max_utc p seeds count =
     concat (map (\<lambda>seed. plan_steps max_utc p seed (last_practiced seed) 0 (unat count)) seeds)"

definition flight_complete :: "solo_flight \<Rightarrow> schedule_error + (solo_flight \<times> practice_event)" where
  "flight_complete f =
     (if \<not> agent_withdrawn f then Inl NotActive
      else Inr (f\<lparr>sf_state := Completed\<rparr>, practice_event_new f Flown))"

definition flight_abort :: "solo_flight \<Rightarrow> string \<Rightarrow> schedule_error + (solo_flight \<times> practice_event)" where
  "flight_abort f reason =
     (if \<not> agent_withdrawn f then Inl NotActive
      else Inr (f\<lparr>sf_state := FAborted reason\<rparr>, practice_event_new f (OAborted reason)))"

text \<open>A sequence of requests on one flight: \<open>None\<close> completes it, \<open>Some reason\<close> aborts it.  The events
  reach the ledger, a refused request changes nothing.\<close>

fun flight_requests :: "string option list \<Rightarrow> solo_flight \<Rightarrow> practice_event list \<times> solo_flight" where
  "flight_requests [] f = ([], f)"
| "flight_requests (a # as) f =
     (case (case a of None \<Rightarrow> flight_complete f | Some reason \<Rightarrow> flight_abort f reason) of
        Inl e \<Rightarrow> flight_requests as f
      | Inr (f', ev) \<Rightarrow> (case flight_requests as f' of (evs, f'') \<Rightarrow> (ev # evs, f'')))"

subsection \<open>The interval\<close>

text \<open>The uncapped ladder of the header: \<open>base * (factor / 100) ^ n\<close>, truncated at each step.\<close>

fun growth :: "expansion_policy \<Rightarrow> nat \<Rightarrow> nat \<Rightarrow> nat" where
  "growth p v 0 = v"
| "growth p v (Suc n) = growth p (v * unat (factor_percent p) div 100) n"

definition expanding :: "expansion_policy \<Rightarrow> bool" where
  "expanding p \<longleftrightarrow> base_days p \<noteq> 0 \<and> 100 < unat (factor_percent p) \<and> unat (base_days p) \<le> unat (cap_days p) \<and>
     (base_days p = cap_days p \<or> unat (base_days p) < unat (base_days p) * unat (factor_percent p) div 100)"

lemma scheduler_new_iff: "scheduler_new p = Inr q \<longleftrightarrow> q = p \<and> expanding p"
  by (auto simp: scheduler_new_def expanding_def Let_def word_le_nat_alt word_less_nat_alt
      not_le not_less word_unat_eq_iff split: if_splits)

lemma growth_step: "growth p v (Suc n) = growth p v n * unat (factor_percent p) div 100"
  by (induction n arbitrary: v) simp_all

lemma grow_once: "100 < f \<Longrightarrow> v \<le> v * f div (100::nat)"
  by (metis div_le_mono less_imp_le mult_le_mono2 nonzero_mult_div_cancel_right zero_neq_numeral)

lemma growth_ge: "100 < unat (factor_percent p) \<Longrightarrow> v \<le> growth p v n"
proof (induction n)
  case (Suc n)
  then show ?case using grow_once [of "unat (factor_percent p)" "growth p v n"]
    by (simp only: growth_step) (meson le_trans)
qed simp

lemma interval_loop_eq:
  assumes "100 < unat (factor_percent p)" "v < 2 ^ 32"
  shows "unat (interval_loop p v n) = min (unat (cap_days p)) (growth p v n)"
  using assms(2)
proof (induction n arbitrary: v)
  case 0
  have "min v (unat (cap_days p)) < 2 ^ 32" using 0 by simp
  then show ?case by (simp add: unat_of_nat min.commute)
next
  case (Suc n)
  let ?f = "unat (factor_percent p)"
  have "?f < 2 ^ 32" "unat (cap_days p) < 2 ^ 32"
    using u32_less [of "factor_percent p"] u32_less [of "cap_days p"] by simp_all
  then have "v * ?f < 2 ^ 32 * 2 ^ 32" using Suc.prems by (intro mult_strict_mono) simp_all
  then have sat: "sat_mul64 v ?f = v * ?f" by (simp add: sat_mul64_def)
  show ?case
  proof (cases "unat (cap_days p) \<le> v * ?f div 100")
    case True
    then have "unat (cap_days p) \<le> growth p v (Suc n)"
      using growth_ge [OF assms(1), of "v * ?f div 100" n] by simp
    then show ?thesis using True by (simp add: sat)
  next
    case False
    then have "v * ?f div 100 < 2 ^ 32" using \<open>unat (cap_days p) < 2 ^ 32\<close> by linarith
    then show ?thesis using False Suc.IH by (simp add: sat)
  qed
qed

lemma interval_days_eq:
  assumes "expanding p"
  shows "unat (interval_days p n) = min (unat (cap_days p)) (growth p (unat (base_days p)) (unat n))"
  using assms u32_less [of "base_days p"] by (simp add: interval_days_def interval_loop_eq expanding_def)

lemma growth_strict:
  assumes "expanding p" "base_days p \<noteq> cap_days p" "n < m"
  shows "growth p (unat (base_days p)) n < growth p (unat (base_days p)) m"
  using assms(3)
proof (rule strict_mono_onD [OF _ UNIV_I UNIV_I, rotated], intro strict_mono_Suc_iff [THEN iffD2] allI)
  fix n
  let ?b = "unat (base_days p)" and ?f = "unat (factor_percent p)"
  have f: "100 < ?f" and first: "?b + 1 \<le> ?b * ?f div 100" using assms(1,2) by (auto simp: expanding_def)
  have "(?b + 1) * 100 \<le> ?b * ?f" using first by (simp add: less_eq_div_iff_mult_less_eq)
  then have "100 \<le> ?b * (?f - 100)" by (simp add: algebra_simps)
  also have "\<dots> \<le> growth p ?b n * (?f - 100)" using growth_ge [OF f, of ?b n] by simp
  finally have "(growth p ?b n + 1) * 100 \<le> growth p ?b n * ?f" using f by (simp add: algebra_simps)
  then have "growth p ?b n + 1 \<le> growth p ?b n * ?f div 100" by (simp add: less_eq_div_iff_mult_less_eq)
  then show "growth p ?b n < growth p ?b (Suc n)" by (simp only: growth_step)
qed

text \<open>Claim C31.  A policy the scheduler accepts expands: every interval lies between the base and the cap,
  no 64-bit saturation ever takes effect, and a later session's interval is strictly longer than
  an earlier one's unless it has reached the cap.\<close>

theorem intervals_expand:
  assumes "scheduler_new p = Inr q"
  shows "q = p \<and> unat (interval_days q n) = min (unat (cap_days p)) (growth p (unat (base_days p)) (unat n)) \<and>
    base_days p \<le> interval_days q n \<and> interval_days q n \<le> cap_days p \<and>
    (m \<le> n \<or> interval_days q n < interval_days q m \<or> interval_days q m = cap_days p)"
proof -
  have q: "q = p" and e: "expanding p" using assms by (simp_all add: scheduler_new_iff)
  note eq = interval_days_eq [OF e]
  have f: "100 < unat (factor_percent p)" and bc: "unat (base_days p) \<le> unat (cap_days p)"
    using e by (simp_all add: expanding_def)
  have ge: "unat (base_days p) \<le> growth p (unat (base_days p)) k" for k using growth_ge [OF f] .
  have "interval_days p n < interval_days p m \<or> interval_days p m = cap_days p" if "n < m"
  proof (cases "base_days p = cap_days p")
    case True
    then show ?thesis using eq [of m] ge [of "unat m"] by (simp add: word_unat_eq_iff min_def)
  next
    case False
    have "unat n < unat m" using that by (simp add: word_less_nat_alt)
    from growth_strict [OF e False this] show ?thesis
      using eq [of n] eq [of m] by (simp add: word_unat_eq_iff word_less_nat_alt min_def)
  qed
  moreover have "base_days p \<le> interval_days p n" "interval_days p n \<le> cap_days p"
    using eq [of n] ge [of "unat n"] bc by (simp_all add: word_le_nat_alt)
  ultimately show ?thesis using q eq by auto
qed

lemma intervals_expand_witness:
  "scheduler_new default_expansion = Inr default_expansion \<and> 7 \<le> interval_days default_expansion 3 \<and>
   interval_days default_expansion 3 \<le> 90"
proof -
  have s: "scheduler_new default_expansion = Inr default_expansion"
    by (simp add: scheduler_new_def default_expansion_def)
  with intervals_expand [OF s, of 3] show ?thesis by (simp add: default_expansion_def)
qed

subsection \<open>The plan\<close>

lemma length_plan_steps [simp]: "length (plan_steps mx p seed t step k) = k"
  by (induction k arbitrary: t step) (simp_all add: Let_def)

lemma plan_steps_nth:
  "i < k \<Longrightarrow> plan_steps mx p seed t step k ! i =
     (let index = sat_add32 (prior_sessions seed) (word_of_nat (step + i));
          prev = (if i = 0 then t else scheduled_at (plan_steps mx p seed t step k ! (i - 1)))
      in \<lparr>ps_actor = seed_actor seed, ps_task = seed_task seed, ps_index = index,
          scheduled_at = add_days mx prev (interval_days p index), ps_interval = interval_days p index\<rparr>)"
proof (induction k arbitrary: t step i)
  case (Suc k)
  show ?case
  proof (cases i)
    case (Suc j)
    then show ?thesis using Suc.prems Suc.IH [of j "add_days mx t (interval_days p (sat_add32 (prior_sessions seed) (word_of_nat step)))" "Suc step"]
      by (cases j) (simp_all add: Let_def)
  qed (simp add: Let_def)
qed simp

lemma add_days_le: "add_days mx t d \<le> mx"
  by (simp add: add_days_def Let_def)

lemma add_days_later: "0 < unat d \<Longrightarrow> t < add_days mx t d \<or> add_days mx t d = mx"
  by (cases "0 < int (unat d)") (auto simp: add_days_def Let_def day_ns_def simp del: int_nat_eq uint_nat of_nat_unat)

lemma unat_sat_add32: "unat (sat_add32 a b) = min (unat a + unat b) (2 ^ 32 - 1)"
  by (simp add: sat_add32_def unat_of_nat)

text \<open>Property.  A plan of an accepted policy holds the requested number of sessions for every seed, in
  seed order.  The sessions of a seed carry on from the sessions it has had, each is scheduled its
  interval after the one before it, strictly later until the end of the representable time, and
  the intervals never shrink.\<close>

theorem plan_spaces_sessions:
  assumes "scheduler_new p = Inr p" "Suc i < unat count"
  shows "let ss = plan max_utc p [seed] count in
    length ss = unat count \<and>
    plan max_utc p (before @ seed # after) count = plan max_utc p before count @ ss @ plan max_utc p after count \<and>
    ps_actor (ss ! i) = seed_actor seed \<and> ps_task (ss ! i) = seed_task seed \<and>
    unat (ps_index (ss ! i)) = min (unat (prior_sessions seed) + i) (2 ^ 32 - 1) \<and>
    scheduled_at (ss ! 0) = add_days max_utc (last_practiced seed) (interval_days p (ps_index (ss ! 0))) \<and>
    scheduled_at (ss ! Suc i) = add_days max_utc (scheduled_at (ss ! i)) (interval_days p (ps_index (ss ! Suc i))) \<and>
    (scheduled_at (ss ! i) < scheduled_at (ss ! Suc i) \<or> scheduled_at (ss ! Suc i) = max_utc) \<and>
    ps_interval (ss ! i) \<le> ps_interval (ss ! Suc i)"
proof -
  define ss where "ss = plan max_utc p [seed] count"
  have e: "expanding p" using assms(1) by (simp add: scheduler_new_iff)
  have len: "length ss = unat count" by (simp add: ss_def plan_def)
  have cat: "plan max_utc p (before @ seed # after) count =
      plan max_utc p before count @ ss @ plan max_utc p after count"
    by (simp add: ss_def plan_def)
  have step: "unat (word_of_nat j :: u32) = j" if "j < unat count" for j
  proof -
    have "j < 2 ^ 32" using that u32_less [of count] by simp
    then show ?thesis by (simp add: unat_of_nat)
  qed
  have at_j: "unat (ps_index (ss ! j)) = min (unat (prior_sessions seed) + j) (2 ^ 32 - 1)"
    "ps_interval (ss ! j) = interval_days p (ps_index (ss ! j))"
    "ps_actor (ss ! j) = seed_actor seed" "ps_task (ss ! j) = seed_task seed"
    "scheduled_at (ss ! j) = add_days max_utc (if j = 0 then last_practiced seed else scheduled_at (ss ! (j - 1)))
      (interval_days p (ps_index (ss ! j)))" if "j < unat count" for j
    using plan_steps_nth [OF that, of max_utc p seed "last_practiced seed" 0] step [OF that]
    by (simp_all add: ss_def plan_def Let_def unat_sat_add32)
  have pos: "0 < unat (interval_days p k)" for k
  proof -
    have "base_days p \<le> interval_days p k" using intervals_expand [OF assms(1)] by blast
    then show ?thesis using e by (simp add: expanding_def word_le_nat_alt word_unat_eq_iff)
  qed
  have i: "i < unat count" "0 < unat count" using assms(2) by simp_all
  have "ps_interval (ss ! i) \<le> ps_interval (ss ! Suc i)"
  proof -
    have "ps_index (ss ! i) \<le> ps_index (ss ! Suc i)"
      using at_j(1) [OF i(1)] at_j(1) [OF assms(2)] by (simp add: word_le_nat_alt)
    then show ?thesis
      using intervals_expand [OF assms(1), where n = "ps_index (ss ! i)" and m = "ps_index (ss ! Suc i)"]
      by (auto simp: at_j(2) [OF i(1)] at_j(2) [OF assms(2)])
  qed
  then show ?thesis
    using len cat at_j(1,3,4) [OF i(1)] at_j(5) [OF i(2)] at_j(5) [OF assms(2)]
      add_days_later [OF pos, of "scheduled_at (ss ! i)" max_utc "ps_index (ss ! Suc i)"]
    unfolding ss_def [symmetric] Let_def by simp
qed

lemma plan_spaces_sessions_witness:
  "\<exists>ss. plan 1000000000000000000 default_expansion
      [\<lparr>seed_actor = ''ann'', seed_task = 1, last_practiced = 0, prior_sessions = 0\<rparr>] 3 = ss \<and>
    length ss = 3 \<and> ps_interval (ss ! 1) \<le> ps_interval (ss ! 2)"
proof -
  have s: "scheduler_new default_expansion = Inr default_expansion"
    by (simp add: scheduler_new_def default_expansion_def)
  have "Suc 1 < unat (3 :: u32)" by simp
  from plan_spaces_sessions [OF s this] show ?thesis
    by (simp add: Let_def numeral_2_eq_2 [symmetric])
qed

subsection \<open>The life of a flight\<close>

lemma flight_requests_terminal: "sf_state f \<noteq> Active \<Longrightarrow> flight_requests as f = ([], f)"
  by (induction as) (auto simp: flight_complete_def flight_abort_def agent_withdrawn_def split: option.splits)

text \<open>Property.  Whatever is requested of a flight, the ledger receives one event at most: the one of
  the first request, a practice event of the planned session that is never penalised; the flight
  then stays in the state that request gave it, every later request is refused, and the agent is
  withdrawn only as long as nothing has been requested.\<close>

theorem flight_reports_once:
  "flight_requests as (flight_begin s) =
     (case as of
        [] \<Rightarrow> ([], flight_begin s)
      | None # _ \<Rightarrow> ([practice_event_new (flight_begin s) Flown], (flight_begin s)\<lparr>sf_state := Completed\<rparr>)
      | Some reason # _ \<Rightarrow> ([practice_event_new (flight_begin s) (OAborted reason)],
          (flight_begin s)\<lparr>sf_state := FAborted reason\<rparr>)) \<and>
   (agent_withdrawn (snd (flight_requests as (flight_begin s))) \<longleftrightarrow> as = []) \<and>
   list_all (\<lambda>ev. \<not> penalised ev \<and> pe_kind ev = Practice \<and> pe_actor ev = ps_actor s \<and> pe_task ev = ps_task s \<and>
     pe_index ev = ps_index s) (fst (flight_requests as (flight_begin s)))"
proof (cases as)
  case (Cons a rest)
  then show ?thesis
    by (cases a) (simp_all add: flight_begin_def flight_complete_def flight_abort_def agent_withdrawn_def
      practice_event_new_def flight_requests_terminal)
qed (simp add: flight_begin_def agent_withdrawn_def)

end
