(* ===== verification/Probe_Ladder.thy ===== *)
theory Probe_Ladder
  imports Text F64 "HOL-Library.Multiset"
begin

text \<open>
  \<open>plugin-probe-ladder/src/lib.rs\<close>: prediction probes graded by execution, the staircase of rungs,
  the fading rule, the selection of probes and the ladder that collects the results.  Concept
  identifiers are their strings, compared byte by byte; hash sets of them are sets.
\<close>

datatype mastery_mode = MStrict | MSampled nat | MHybrid nat

datatype rung = Intro | Easy | Medium | Hard | Expert

fun rung_index :: "rung \<Rightarrow> nat" where
  "rung_index Intro = 0"
| "rung_index Easy = 1"
| "rung_index Medium = 2"
| "rung_index Hard = 3"
| "rung_index Expert = 4"

definition LADDER :: "rung list" where
  "LADDER = [Intro, Easy, Medium, Hard, Expert]"

definition rung_up :: "rung \<Rightarrow> rung" where
  "rung_up r = LADDER ! min (rung_index r + 1) (length LADDER - 1)"

definition rung_down :: "rung \<Rightarrow> rung" where
  "rung_down r = LADDER ! (rung_index r - 1)"

text \<open>\<open>#[derive(PartialOrd, Ord)]\<close>: the order of the discriminants.\<close>

instantiation rung :: linorder
begin

definition less_eq_rung :: "rung \<Rightarrow> rung \<Rightarrow> bool" where
  "less_eq_rung r s \<longleftrightarrow> rung_index r \<le> rung_index s"

definition less_rung :: "rung \<Rightarrow> rung \<Rightarrow> bool" where
  "less_rung r s \<longleftrightarrow> rung_index r < rung_index s"

instance
proof
  fix r s t :: rung
  show "r < s \<longleftrightarrow> r \<le> s \<and> \<not> s \<le> r" by (auto simp: less_eq_rung_def less_rung_def)
  show "r \<le> r" by (simp add: less_eq_rung_def)
  show "r \<le> s \<Longrightarrow> s \<le> t \<Longrightarrow> r \<le> t" by (simp add: less_eq_rung_def)
  show "r \<le> s \<Longrightarrow> s \<le> r \<Longrightarrow> r = s" by (cases r; cases s) (simp_all add: less_eq_rung_def)
  show "r \<le> s \<or> s \<le> r" by (auto simp: less_eq_rung_def)
qed

end

record probe =
  pr_concept :: string
  pr_rung :: rung
  predicted_output :: string
  scaffolded :: bool
  behaviour_is_anomalous :: bool

definition probe_new :: "string \<Rightarrow> rung \<Rightarrow> string \<Rightarrow> probe" where
  "probe_new c r out = \<lparr>pr_concept = c, pr_rung = r, predicted_output = out, scaffolded = False,
     behaviour_is_anomalous = False\<rparr>"

definition with_scaffold :: "probe \<Rightarrow> probe" where
  "with_scaffold p = p\<lparr>scaffolded := True\<rparr>"

definition with_anomalous_behaviour :: "probe \<Rightarrow> probe" where
  "with_anomalous_behaviour p = p\<lparr>behaviour_is_anomalous := True\<rparr>"

datatype grade = Pass | Miss bool

definition is_pass :: "grade \<Rightarrow> bool" where
  "is_pass g = (case g of Pass \<Rightarrow> True | Miss _ \<Rightarrow> False)"

record probe_result =
  res_grade :: grade
  next_rung :: rung
  credits_mastery :: bool
  crystallise :: bool

datatype probe_error = Faded | NotDark

definition grade_probe :: "probe \<Rightarrow> string \<Rightarrow> probe_result" where
  "grade_probe p actual =
     (if predicted_output p = actual then
        (let credits = \<not> scaffolded p in
         \<lparr>res_grade = Pass, next_rung = rung_up (pr_rung p), credits_mastery = credits, crystallise = credits\<rparr>)
      else \<lparr>res_grade = Miss (behaviour_is_anomalous p), next_rung = rung_down (pr_rung p),
        credits_mastery = False, crystallise = False\<rparr>)"

text \<open>The \<open>f64\<close> nearest to 0.85.\<close>

definition FADE_THRESHOLD :: f64 where
  "FADE_THRESHOLD = Fin (7656119366529843 / 2 ^ 53)"

definition is_faded :: "f64 \<Rightarrow> bool" where
  "is_faded calibration = f64_le FADE_THRESHOLD calibration"

definition select_probes :: "f64 \<Rightarrow> string list \<Rightarrow> mastery_mode \<Rightarrow> string set \<Rightarrow> probe_error + string list" where
  "select_probes calibration dark m crit =
     (if is_faded calibration then Inl Faded
      else let sorted = sort dark in
        Inr (case m of
          MStrict \<Rightarrow> sorted
        | MSampled k \<Rightarrow> take k sorted
        | MHybrid k \<Rightarrow>
            (case partition (\<lambda>c. c \<in> crit) sorted of
               (critical, rest) \<Rightarrow> critical @ take k rest)))"

record ladder =
  ladder_rung :: rung
  mastered :: "string set"
  crystallised :: "string list"
  defect_signals :: "string list"

definition ladder_new :: ladder where
  "ladder_new = \<lparr>ladder_rung = Intro, mastered = {}, crystallised = [], defect_signals = []\<rparr>"

definition starting_at :: "rung \<Rightarrow> ladder" where
  "starting_at r = ladder_new\<lparr>ladder_rung := r\<rparr>"

definition ladder_run :: "probe \<Rightarrow> string \<Rightarrow> ladder \<Rightarrow> probe_result \<times> ladder" where
  "ladder_run p actual l =
     (let result = grade_probe p actual;
          l1 = l\<lparr>ladder_rung := next_rung result\<rparr>;
          l2 = (if credits_mastery result then l1\<lparr>mastered := insert (pr_concept p) (mastered l1)\<rparr> else l1);
          l3 = (if crystallise result then l2\<lparr>crystallised := crystallised l2 @ [pr_concept p]\<rparr> else l2);
          l4 = (case res_grade result of
                  Miss True \<Rightarrow> l3\<lparr>defect_signals := defect_signals l3 @ [pr_concept p]\<rparr>
                | _ \<Rightarrow> l3)
      in (result, l4))"

text \<open>A session: probes and their execution outputs, in order.\<close>

definition ladder_session :: "(probe \<times> string) list \<Rightarrow> ladder \<Rightarrow> ladder" where
  "ladder_session ps l = fold (\<lambda>(p, out) s. snd (ladder_run p out s)) ps l"

subsection \<open>The staircase\<close>

lemma rung_up_index: "rung_index (rung_up r) = min (rung_index r + 1) 4"
  by (cases r) (simp_all add: rung_up_def LADDER_def)

lemma rung_down_index: "rung_index (rung_down r) = rung_index r - 1"
  by (cases r) (simp_all add: rung_down_def LADDER_def)

lemma rung_moves: "r \<le> rung_up r" "rung_down r \<le> r" "r \<noteq> Expert \<longleftrightarrow> r < rung_up r" "r \<noteq> Intro \<longleftrightarrow> rung_down r < r"
  by (cases r, simp_all add: less_eq_rung_def less_rung_def rung_up_index rung_down_index)+

lemma grade_probe_pass: "is_pass (res_grade (grade_probe p out)) \<longleftrightarrow> predicted_output p = out"
  by (simp add: grade_probe_def is_pass_def Let_def)

definition earned :: "(probe \<times> string) list \<Rightarrow> (probe \<times> string) list" where
  "earned ps = filter (\<lambda>(p, out). predicted_output p = out \<and> \<not> scaffolded p) ps"

definition anomalies :: "(probe \<times> string) list \<Rightarrow> (probe \<times> string) list" where
  "anomalies ps = filter (\<lambda>(p, out). predicted_output p \<noteq> out \<and> behaviour_is_anomalous p) ps"

lemma ladder_run_effect:
  "snd (ladder_run p out l) =
     \<lparr>ladder_rung = (if predicted_output p = out then rung_up (pr_rung p) else rung_down (pr_rung p)),
      mastered = mastered l \<union> (\<lambda>(q, _). pr_concept q) ` set (earned [(p, out)]),
      crystallised = crystallised l @ map (\<lambda>(q, _). pr_concept q) (earned [(p, out)]),
      defect_signals = defect_signals l @ map (\<lambda>(q, _). pr_concept q) (anomalies [(p, out)])\<rparr>"
  by (cases l) (auto simp: ladder_run_def grade_probe_def earned_def anomalies_def Let_def)

lemma earned_Cons: "earned (x # ps) = earned [x] @ earned ps"
  by (simp add: earned_def)

lemma anomalies_Cons: "anomalies (x # ps) = anomalies [x] @ anomalies ps"
  by (simp add: anomalies_def)

lemma ladder_session_collects:
  "mastered (ladder_session ps l) = mastered l \<union> (\<lambda>(p, _). pr_concept p) ` set (earned ps)"
  "crystallised (ladder_session ps l) = crystallised l @ map (\<lambda>(p, _). pr_concept p) (earned ps)"
  "defect_signals (ladder_session ps l) = defect_signals l @ map (\<lambda>(p, _). pr_concept p) (anomalies ps)"
proof (induction ps arbitrary: l)
  case (Cons x ps)
  {
    case 1
    then show ?case using Cons.IH(1) [of "snd (ladder_run (fst x) (snd x) l)"]
      by (subst earned_Cons) (cases x, auto simp: ladder_session_def ladder_run_effect)
  next
    case 2
    then show ?case using Cons.IH(2) [of "snd (ladder_run (fst x) (snd x) l)"]
      by (subst earned_Cons) (cases x, auto simp: ladder_session_def ladder_run_effect)
  next
    case 3
    then show ?case using Cons.IH(3) [of "snd (ladder_run (fst x) (snd x) l)"]
      by (subst anomalies_Cons) (cases x, auto simp: ladder_session_def ladder_run_effect)
  }
qed (simp_all add: ladder_session_def earned_def anomalies_def)

text \<open>Property.  After any session on a fresh ladder the mastered concepts are exactly those of the
  unscaffolded probes whose prediction equals the execution output, the regression suite holds
  one entry per such pass in order, and a defect signal is recorded exactly for the misses
  against anomalous behaviour; a scaffolded pass or a plain miss never counts.  The rung moves
  to the neighbour of the last probe's rung and stays on the ladder.\<close>

theorem ladder_credits_only_earned:
  "mastered (ladder_session ps (starting_at r)) =
     (\<lambda>(p, out). pr_concept p) ` {(p, out) \<in> set ps. predicted_output p = out \<and> \<not> scaffolded p} \<and>
   set (crystallised (ladder_session ps (starting_at r))) = mastered (ladder_session ps (starting_at r)) \<and>
   length (crystallised (ladder_session ps (starting_at r))) =
     length (filter (\<lambda>(p, out). predicted_output p = out \<and> \<not> scaffolded p) ps) \<and>
   set (defect_signals (ladder_session ps (starting_at r))) =
     (\<lambda>(p, out). pr_concept p) ` {(p, out) \<in> set ps. predicted_output p \<noteq> out \<and> behaviour_is_anomalous p} \<and>
   ladder_rung (ladder_session (ps @ [(p, out)]) (starting_at r)) =
     (if predicted_output p = out then rung_up (pr_rung p) else rung_down (pr_rung p)) \<and>
   rung_down (pr_rung p) \<le> pr_rung p \<and> pr_rung p \<le> rung_up (pr_rung p)"
proof -
  have e: "set (earned ps) = {(p, out) \<in> set ps. predicted_output p = out \<and> \<not> scaffolded p}"
    by (auto simp: earned_def)
  have a: "set (anomalies ps) = {(p, out) \<in> set ps. predicted_output p \<noteq> out \<and> behaviour_is_anomalous p}"
    by (auto simp: anomalies_def)
  have "ladder_rung (ladder_session (ps @ [(p, out)]) (starting_at r)) =
     (if predicted_output p = out then rung_up (pr_rung p) else rung_down (pr_rung p))"
    by (simp add: ladder_session_def ladder_run_effect)
  moreover have "mastered (starting_at r) = {}" "crystallised (starting_at r) = []" "defect_signals (starting_at r) = []"
    by (simp_all add: starting_at_def ladder_new_def)
  ultimately show ?thesis
    using rung_moves by (auto simp: ladder_session_collects e a earned_def)
qed

text \<open>Property.  The probes offered depend on the dark areas only as a multiset, not on the order they
  are listed in; nothing is offered that is not dark; the strict mode offers all of them in byte
  order, the sampled mode the first \<open>K\<close>, and the hybrid mode every critical one followed by the
  first \<open>K\<close> others.  A calibration at or above the threshold silences the ladder, one that is not
  a number does not.\<close>

theorem select_probes_deterministic:
  assumes "mset dark = mset dark'"
  shows "select_probes cal dark m crit = select_probes cal dark' m crit \<and>
    (select_probes cal dark m crit = Inl Faded \<longleftrightarrow> is_faded cal) \<and>
    \<not> is_faded NaN \<and>
    select_probes cal dark m crit \<noteq> Inl NotDark \<and>
    (is_faded cal \<or> (\<exists>ps. select_probes cal dark m crit = Inr ps \<and> mset ps \<subseteq># mset dark \<and>
      (case m of
         MStrict \<Rightarrow> mset ps = mset dark \<and> List.sorted ps
       | MSampled k \<Rightarrow> length ps = min k (length dark) \<and> List.sorted ps
       | MHybrid k \<Rightarrow> filter_mset (\<lambda>c. c \<in> crit) (mset ps) = filter_mset (\<lambda>c. c \<in> crit) (mset dark) \<and>
           size (filter_mset (\<lambda>c. c \<notin> crit) (mset ps)) =
             min k (size (filter_mset (\<lambda>c. c \<notin> crit) (mset dark))))))"
proof -
  have same: "sort dark = sort dark'"
    using assms by (intro properties_for_sort) simp_all
  have sub: "mset (take k xs) \<subseteq># mset xs" for k and xs :: "string list"
    by (metis append_take_drop_id mset_append mset_subset_eq_add_left)
  have part: "mset (filter P xs) + mset (filter (\<lambda>c. \<not> P c) xs) = mset xs" for P and xs :: "string list"
    by (simp only: mset_filter multiset_partition [symmetric])
  have crit_take: "filter_mset (\<lambda>c. c \<in> crit) (mset (take k (filter (\<lambda>c. c \<notin> crit) xs))) = {#}" for k xs
    by (auto simp: filter_mset_eq_mempty_iff dest: in_set_takeD)
  have rest_take: "filter_mset (\<lambda>c. c \<notin> crit) (mset (take k (filter (\<lambda>c. c \<notin> crit) xs))) =
      mset (take k (filter (\<lambda>c. c \<notin> crit) xs))" for k xs
    by (auto simp: filter_mset_eq_conv dest: in_set_takeD)
  have rest: "size (filter_mset (\<lambda>c. c \<notin> crit) (mset dark)) = length (filter (\<lambda>c. c \<notin> crit) (sort dark))"
    by (metis mset_filter mset_sort size_mset)
  have "\<exists>ps. select_probes cal dark m crit = Inr ps \<and> mset ps \<subseteq># mset dark \<and>
      (case m of
         MStrict \<Rightarrow> mset ps = mset dark \<and> List.sorted ps
       | MSampled k \<Rightarrow> length ps = min k (length dark) \<and> List.sorted ps
       | MHybrid k \<Rightarrow> filter_mset (\<lambda>c. c \<in> crit) (mset ps) = filter_mset (\<lambda>c. c \<in> crit) (mset dark) \<and>
           size (filter_mset (\<lambda>c. c \<notin> crit) (mset ps)) =
             min k (size (filter_mset (\<lambda>c. c \<notin> crit) (mset dark))))" if nf: "\<not> is_faded cal"
  proof (cases m)
    case (MHybrid k)
    let ?ps = "filter (\<lambda>c. c \<in> crit) (sort dark) @ take k (filter (\<lambda>c. c \<notin> crit) (sort dark))"
    have "select_probes cal dark m crit = Inr ?ps" using nf MHybrid by (simp add: select_probes_def Let_def comp_def)
    moreover have "mset ?ps \<subseteq># mset dark"
    proof -
      have "mset ?ps \<subseteq># mset (filter (\<lambda>c. c \<in> crit) (sort dark)) + mset (filter (\<lambda>c. c \<notin> crit) (sort dark))"
        unfolding mset_append by (rule subset_mset.add_left_mono [OF sub])
      also have "\<dots> = mset (sort dark)" by (rule part)
      finally show ?thesis by (simp only: mset_sort)
    qed
    moreover have "filter_mset (\<lambda>c. c \<in> crit) (mset ?ps) = filter_mset (\<lambda>c. c \<in> crit) (mset dark)"
    proof -
      have "filter_mset (\<lambda>c. c \<in> crit) (mset ?ps) = filter_mset (\<lambda>c. c \<in> crit) (mset (filter (\<lambda>c. c \<in> crit) (sort dark)))"
        by (simp only: mset_append filter_union_mset crit_take add_0_right)
      also have "\<dots> = mset (filter (\<lambda>c. c \<in> crit) (sort dark))"
        by (simp only: mset_filter [symmetric] filter_filter) simp
      finally show ?thesis by (simp only: mset_filter mset_sort)
    qed
    moreover have "size (filter_mset (\<lambda>c. c \<notin> crit) (mset ?ps)) =
        min k (size (filter_mset (\<lambda>c. c \<notin> crit) (mset dark)))"
    proof -
      have "filter_mset (\<lambda>c. c \<notin> crit) (mset (filter (\<lambda>c. c \<in> crit) (sort dark))) = {#}"
        by (auto simp: filter_mset_eq_mempty_iff)
      then have "filter_mset (\<lambda>c. c \<notin> crit) (mset ?ps) = mset (take k (filter (\<lambda>c. c \<notin> crit) (sort dark)))"
        by (simp only: mset_append filter_union_mset rest_take add_0_left)
      then show ?thesis by (simp only: rest size_mset length_take min.commute)
    qed
    ultimately show ?thesis using MHybrid by simp
  qed (use nf sub [of _ "sort dark"] in \<open>simp_all add: select_probes_def Let_def sorted_wrt_take min.commute\<close>)
  then show ?thesis
    using same by (auto simp: select_probes_def Let_def is_faded_def FADE_THRESHOLD_def)
qed

lemma select_probes_deterministic_witness:
  "select_probes (Fin 0) [''b'', ''a''] (MSampled 1) {} = select_probes (Fin 0) [''a'', ''b''] (MSampled 1) {} \<and>
   (\<exists>ps. select_probes (Fin 0) [''b'', ''a''] (MSampled 1) {} = Inr ps \<and> length ps = 1)"
  using select_probes_deterministic [of "[''b'', ''a'']" "[''a'', ''b'']" "Fin 0" "MSampled 1" "{}"]
  by (simp add: is_faded_def FADE_THRESHOLD_def) metis

end
