(* ===== verification/Interest_Router.thy ===== *)
theory Interest_Router
  imports Agent F64 "HOL-Library.Multiset"
begin

text \<open>
  \<open>plugin-interest-router/src/lib.rs\<close>: the four deterministic interest signals of a message stream, the
  pitch by calibration, the routing of a task and the resolution of a routed problem.

  The tallies are ordered maps from tasks; they are visited in key order.  The counters are 32-bit
  and wrap (\<open>+ 1\<close> on words), so the characterisation of the signals asks for fewer than \<open>2 ^ 32\<close>
  messages.
\<close>

definition RETRY_CLUSTER_THRESHOLD :: nat where
  "RETRY_CLUSTER_THRESHOLD = 3"

datatype signal_kind = RetryFailureCluster | NoveltyVsBaseline | CrossModuleAnomaly | ContractBoundaryAmbiguity

text \<open>\<open>derive(Ord)\<close>: the position of the variant.\<close>

fun kind_index :: "signal_kind \<Rightarrow> nat" where
  "kind_index RetryFailureCluster = 0"
| "kind_index NoveltyVsBaseline = 1"
| "kind_index CrossModuleAnomaly = 2"
| "kind_index ContractBoundaryAmbiguity = 3"

record interest_signal =
  is_kind :: signal_kind
  is_task :: uuid
  is_weight :: u32

record behavioural_baseline =
  known_tasks :: "uuid set"
  normal_max_hops :: u8

definition baseline_new :: "u8 \<Rightarrow> behavioural_baseline" where
  "baseline_new h = \<lparr>known_tasks = {}, normal_max_hops = h\<rparr>"

definition baseline_observe :: "uuid \<Rightarrow> behavioural_baseline \<Rightarrow> behavioural_baseline" where
  "baseline_observe t b = b\<lparr>known_tasks := insert t (known_tasks b)\<rparr>"

definition is_novel_task :: "behavioural_baseline \<Rightarrow> uuid \<Rightarrow> bool" where
  "is_novel_task b t \<longleftrightarrow> t \<notin> known_tasks b"

definition is_novel_hops :: "behavioural_baseline \<Rightarrow> u8 \<Rightarrow> bool" where
  "is_novel_hops b h \<longleftrightarrow> normal_max_hops b < h"

datatype flow_channel = Guided | Standard | Stretch

record human_channel =
  recipient :: string
  channel :: flow_channel

record routed_problem =
  rp_task :: uuid
  rp_signals :: "interest_signal list"
  rp_channel :: human_channel

datatype routing_outcome = Accepted routed_problem | Declined

datatype routing_error = InvalidCalibration f64 | NoSignals uuid

definition calibration_new :: "f64 \<Rightarrow> routing_error + f64" where
  "calibration_new v = (if is_finite v \<and> in_range 0 1 v then Inr v else Inl (InvalidCalibration v))"

text \<open>The \<open>f64\<close>s nearest to 0.34 and 0.67.\<close>

definition GUIDED_BELOW :: f64 where
  "GUIDED_BELOW = Fin (6124895493223875 / 2 ^ 54)"

definition STANDARD_BELOW :: f64 where
  "STANDARD_BELOW = Fin (6034823500676465 / 2 ^ 53)"

definition flow_channel_of :: "f64 \<Rightarrow> flow_channel" where
  "flow_channel_of score =
     (if f64_lt score GUIDED_BELOW then Guided else if f64_lt score STANDARD_BELOW then Standard else Stretch)"

subsection \<open>Derivation\<close>

record tallies =
  error_counts :: "uuid \<rightharpoonup> u32"
  delegations :: "uuid \<rightharpoonup> u32"
  results :: "uuid \<rightharpoonup> u32"
  error_max_hops :: "uuid \<rightharpoonup> u8"
  novel_tasks :: "uuid set"

text \<open>\<open>*m.entry(k).or_insert(0) += 1\<close>, and the maximum kept by an entry.\<close>

definition bump :: "uuid \<Rightarrow> (uuid \<rightharpoonup> u32) \<Rightarrow> (uuid \<rightharpoonup> u32)" where
  "bump k m = m(k \<mapsto> (case m k of Some n \<Rightarrow> n | None \<Rightarrow> 0) + 1)"

definition raise_max :: "uuid \<Rightarrow> u8 \<Rightarrow> (uuid \<rightharpoonup> u8) \<Rightarrow> (uuid \<rightharpoonup> u8)" where
  "raise_max k h m = (let old = (case m k of Some n \<Rightarrow> n | None \<Rightarrow> 0) in m(k \<mapsto> (if old < h then h else old)))"

definition tally :: "behavioural_baseline \<Rightarrow> agent_message \<Rightarrow> tallies \<Rightarrow> tallies" where
  "tally b msg t =
     (let task = origin_task msg;
          t1 = (if is_novel_task b task \<or> is_novel_hops b (hops msg)
                then t\<lparr>novel_tasks := insert task (novel_tasks t)\<rparr> else t)
      in case msg of
           MError _ _ _ \<Rightarrow> t1\<lparr>error_counts := bump task (error_counts t1),
              error_max_hops := raise_max task (hops msg) (error_max_hops t1)\<rparr>
         | Delegation _ _ _ \<Rightarrow> t1\<lparr>delegations := bump task (delegations t1)\<rparr>
         | MResult _ _ _ \<Rightarrow> t1\<lparr>results := bump task (results t1)\<rparr>
         | _ \<Rightarrow> t1)"

definition no_tallies :: tallies where
  "no_tallies = \<lparr>error_counts = Map.empty, delegations = Map.empty, results = Map.empty,
     error_max_hops = Map.empty, novel_tasks = {}\<rparr>"

text \<open>The entries of an ordered map, in key order.\<close>

definition entries :: "(uuid \<rightharpoonup> 'v) \<Rightarrow> (uuid \<times> 'v) list" where
  "entries m = map (\<lambda>k. (k, the (m k))) (sorted_list_of_set (dom m))"

definition signal_list :: "tallies \<Rightarrow> interest_signal list" where
  "signal_list t =
     map (\<lambda>(k, n). \<lparr>is_kind = RetryFailureCluster, is_task = k, is_weight = n\<rparr>)
       (filter (\<lambda>(k, n). RETRY_CLUSTER_THRESHOLD \<le> unat n) (entries (error_counts t))) @
     map (\<lambda>k. \<lparr>is_kind = NoveltyVsBaseline, is_task = k, is_weight = 1\<rparr>) (sorted_list_of_set (novel_tasks t)) @
     map (\<lambda>(k, d). \<lparr>is_kind = CrossModuleAnomaly, is_task = k, is_weight = ucast d\<rparr>)
       (filter (\<lambda>(k, d). 1 < d) (entries (error_max_hops t))) @
     map (\<lambda>(k, d). \<lparr>is_kind = ContractBoundaryAmbiguity, is_task = k,
         is_weight = d - (case results t k of Some r \<Rightarrow> r | None \<Rightarrow> 0)\<rparr>)
       (filter (\<lambda>(k, d). (case results t k of Some r \<Rightarrow> r | None \<Rightarrow> 0) < d) (entries (delegations t)))"

definition signal_key :: "interest_signal \<Rightarrow> uuid \<times> nat \<times> u32" where
  "signal_key s = (is_task s, kind_index (is_kind s), is_weight s)"

definition derive_signals :: "agent_message list \<Rightarrow> behavioural_baseline \<Rightarrow> interest_signal list" where
  "derive_signals msgs b = sort_key signal_key (signal_list (fold (tally b) msgs no_tallies))"

definition route :: "uuid \<Rightarrow> interest_signal list \<Rightarrow> string \<Rightarrow> f64 \<Rightarrow> routing_error + routed_problem" where
  "route task signals who calibration =
     (let for_task = filter (\<lambda>s. is_task s = task) signals in
      if for_task = [] then Inl (NoSignals task)
      else Inr \<lparr>rp_task = task, rp_signals = sort_key (\<lambda>s. (kind_index (is_kind s), is_weight s)) for_task,
        rp_channel = \<lparr>recipient = who, channel = flow_channel_of calibration\<rparr>\<rparr>)"

text \<open>\<open>record\<close> is the sink's \<open>record_accepted\<close>, on a sink of any type.\<close>

definition resolve :: "(routed_problem \<Rightarrow> 's \<Rightarrow> 's) \<Rightarrow> routed_problem \<Rightarrow> bool \<Rightarrow> 's \<Rightarrow> routing_outcome \<times> 's" where
  "resolve record_accepted p accepted sink =
     (if accepted then (Accepted p, record_accepted p sink) else (Declined, sink))"

subsection \<open>What the tallies count\<close>

definition is_error :: "agent_message \<Rightarrow> bool" where
  "is_error msg = (case msg of MError _ _ _ \<Rightarrow> True | _ \<Rightarrow> False)"

definition is_delegation :: "agent_message \<Rightarrow> bool" where
  "is_delegation msg = (case msg of Delegation _ _ _ \<Rightarrow> True | _ \<Rightarrow> False)"

definition is_result :: "agent_message \<Rightarrow> bool" where
  "is_result msg = (case msg of MResult _ _ _ \<Rightarrow> True | _ \<Rightarrow> False)"

definition count_of :: "(agent_message \<Rightarrow> bool) \<Rightarrow> uuid \<Rightarrow> agent_message list \<Rightarrow> nat" where
  "count_of P k msgs = length (filter (\<lambda>m. P m \<and> origin_task m = k) msgs)"

definition counted :: "nat \<Rightarrow> u32 option" where
  "counted n = (if n = 0 then None else Some (word_of_nat n))"

definition error_hops :: "uuid \<Rightarrow> agent_message list \<Rightarrow> u8 set" where
  "error_hops k msgs = hops ` {m \<in> set msgs. is_error m \<and> origin_task m = k}"

definition deepest_error :: "uuid \<Rightarrow> agent_message list \<Rightarrow> u8 option" where
  "deepest_error k msgs = (if error_hops k msgs = {} then None else Some (Max (error_hops k msgs)))"

definition is_novel :: "behavioural_baseline \<Rightarrow> agent_message \<Rightarrow> bool" where
  "is_novel b m \<longleftrightarrow> origin_task m \<notin> known_tasks b \<or> normal_max_hops b < hops m"

lemma bump_counted: "m k = counted n \<Longrightarrow> bump k m k = counted (Suc n)"
  by (auto simp: bump_def counted_def)

lemma count_of_snoc: "count_of P k (msgs @ [m]) = count_of P k msgs + (if P m \<and> origin_task m = k then 1 else 0)"
  by (simp add: count_of_def)

lemma error_hops_snoc:
  "error_hops k (msgs @ [m]) = (if is_error m \<and> origin_task m = k then insert (hops m) (error_hops k msgs)
     else error_hops k msgs)"
  by (auto simp: error_hops_def)

lemma finite_error_hops: "finite (error_hops k msgs)"
  by (simp add: error_hops_def)

lemma deepest_error_snoc:
  "deepest_error k (msgs @ [m]) = (if is_error m \<and> origin_task m = k
     then Some (max (case deepest_error k msgs of Some d \<Rightarrow> d | None \<Rightarrow> 0) (hops m)) else deepest_error k msgs)"
  using finite_error_hops [of k msgs] by (simp add: deepest_error_def error_hops_snoc Max_insert max.commute)

lemma tally_fields:
  "error_counts (tally b m t) = (if is_error m then bump (origin_task m) (error_counts t) else error_counts t)"
  "delegations (tally b m t) = (if is_delegation m then bump (origin_task m) (delegations t) else delegations t)"
  "results (tally b m t) = (if is_result m then bump (origin_task m) (results t) else results t)"
  "error_max_hops (tally b m t) =
     (if is_error m then raise_max (origin_task m) (hops m) (error_max_hops t) else error_max_hops t)"
  "novel_tasks (tally b m t) = (if is_novel b m then insert (origin_task m) (novel_tasks t) else novel_tasks t)"
  by (cases m; simp add: tally_def Let_def is_error_def is_delegation_def is_result_def is_novel_def
    is_novel_task_def is_novel_hops_def)+

lemma bump_apply: "bump k m j = (if j = k then Some ((case m k of Some n \<Rightarrow> n | None \<Rightarrow> 0) + 1) else m j)"
  by (simp add: bump_def)

lemma raise_max_apply:
  "raise_max k h m j = (if j = k then Some (max (case m k of Some n \<Rightarrow> n | None \<Rightarrow> 0) h) else m j)"
  by (auto simp: raise_max_def Let_def max_def)

lemma counted_Suc: "Some ((case counted n of Some n \<Rightarrow> n | None \<Rightarrow> 0) + 1) = counted (Suc n)"
  by (simp add: counted_def add.commute)

lemma tally_counts:
  "error_counts (fold (tally b) msgs no_tallies) k = counted (count_of is_error k msgs)"
  "delegations (fold (tally b) msgs no_tallies) k = counted (count_of is_delegation k msgs)"
  "results (fold (tally b) msgs no_tallies) k = counted (count_of is_result k msgs)"
  by (induction msgs arbitrary: k rule: rev_induct)
    (simp_all add: no_tallies_def counted_def [of 0] count_of_def [of _ _ "[]"] tally_fields count_of_snoc
      bump_apply counted_Suc)

lemma tally_deepest: "error_max_hops (fold (tally b) msgs no_tallies) k = deepest_error k msgs"
  by (induction msgs arbitrary: k rule: rev_induct)
    (simp_all add: no_tallies_def deepest_error_def [of _ "[]"] error_hops_def [of _ "[]"] tally_fields deepest_error_snoc raise_max_apply)

lemma tally_novel: "novel_tasks (fold (tally b) msgs no_tallies) = origin_task ` {m \<in> set msgs. is_novel b m}"
  by (induction msgs rule: rev_induct) (auto simp: no_tallies_def tally_fields)

lemmas tally_fold = tally_counts tally_deepest tally_novel

subsection \<open>The signals\<close>

lemma count_of_pos: "count_of P k msgs \<noteq> 0 \<Longrightarrow> k \<in> origin_task ` set msgs"
  by (auto simp: count_of_def filter_empty_conv)

lemma deepest_error_Some: "deepest_error k msgs = Some d \<Longrightarrow> k \<in> origin_task ` set msgs"
  by (auto simp: deepest_error_def error_hops_def split: if_splits)

lemma finite_tallies:
  "finite (dom (error_counts (fold (tally b) msgs no_tallies)))"
  "finite (dom (delegations (fold (tally b) msgs no_tallies)))"
  "finite (dom (error_max_hops (fold (tally b) msgs no_tallies)))"
  "finite (novel_tasks (fold (tally b) msgs no_tallies))"
proof -
  have "dom f \<subseteq> origin_task ` set msgs \<Longrightarrow> finite (dom f)" for f :: "uuid \<rightharpoonup> 'v"
    by (rule finite_subset) simp_all
  note fin = finite_subset [OF _ finite_imageI [OF finite_set], of _ origin_task msgs]
  show "finite (dom (error_counts (fold (tally b) msgs no_tallies)))"
    using count_of_pos [of is_error] by (intro fin) (auto simp: tally_fold counted_def split: if_splits)
  show "finite (dom (delegations (fold (tally b) msgs no_tallies)))"
    using count_of_pos [of is_delegation] by (intro fin) (auto simp: tally_fold counted_def split: if_splits)
  show "finite (dom (error_max_hops (fold (tally b) msgs no_tallies)))"
    using deepest_error_Some by (intro fin) (auto simp: tally_fold)
  show "finite (novel_tasks (fold (tally b) msgs no_tallies))" by (simp add: tally_fold)
qed

lemma set_entries: "finite (dom m) \<Longrightarrow> set (entries m) = {(k, v). m k = Some v}"
  by (force simp: entries_def)

lemma map_fst_entries: "map fst (entries m) = sorted_list_of_set (dom m)"
  by (simp add: entries_def comp_def)

lemma distinct_entries: "distinct (map fst (entries m))"
  by (simp add: map_fst_entries)

lemma count_of_le: "count_of P k msgs \<le> length msgs"
  by (simp add: count_of_def)

text \<open>When a signal is due.\<close>

definition due :: "agent_message list \<Rightarrow> behavioural_baseline \<Rightarrow> interest_signal \<Rightarrow> bool" where
  "due msgs b s \<longleftrightarrow> (case is_kind s of
     RetryFailureCluster \<Rightarrow> 3 \<le> count_of is_error (is_task s) msgs \<and>
       unat (is_weight s) = count_of is_error (is_task s) msgs
   | NoveltyVsBaseline \<Rightarrow> is_weight s = 1 \<and> (\<exists>m \<in> set msgs. origin_task m = is_task s \<and> is_novel b m)
   | CrossModuleAnomaly \<Rightarrow> (\<exists>d. deepest_error (is_task s) msgs = Some d \<and> 1 < d \<and> is_weight s = ucast d)
   | ContractBoundaryAmbiguity \<Rightarrow>
       count_of is_result (is_task s) msgs < count_of is_delegation (is_task s) msgs \<and>
       unat (is_weight s) = count_of is_delegation (is_task s) msgs - count_of is_result (is_task s) msgs)"

lemma signal_eqI: "is_kind s = k \<Longrightarrow> is_task s = t \<Longrightarrow> is_weight s = w \<Longrightarrow> s = \<lparr>is_kind = k, is_task = t, is_weight = w\<rparr>"
  by simp

lemma signal_in_block:
  "s \<in> set (map (\<lambda>(k, n). \<lparr>is_kind = kd, is_task = k, is_weight = w k n\<rparr>) (filter (\<lambda>(k, n). P k n) es)) \<longleftrightarrow>
     is_kind s = kd \<and> (\<exists>n. (is_task s, n) \<in> set es \<and> P (is_task s) n \<and> is_weight s = w (is_task s) n)"
  by (auto intro!: rev_image_eqI)

lemma set_signal_list:
  assumes "length msgs < 2 ^ 32"
  shows "s \<in> set (signal_list (fold (tally b) msgs no_tallies)) \<longleftrightarrow> due msgs b s"
proof -
  let ?t = "fold (tally b) msgs no_tallies"
  have small: "count_of P k msgs < 2 ^ 32" for P k using count_of_le [of P k msgs] assms by linarith
  have w: "unat (word_of_nat (count_of P k msgs) :: u32) = count_of P k msgs" for P k
    using small by (simp add: unat_of_nat)
  have sub: "unat (word_of_nat (count_of Q k msgs) - word_of_nat (count_of P k msgs) :: u32) =
      count_of Q k msgs - count_of P k msgs" if "count_of P k msgs < count_of Q k msgs" for P k Q
    using that by (simp add: unat_sub word_le_nat_alt w)
  note fin = finite_tallies [of b msgs]
  have counted_Some: "counted n = Some v \<longleftrightarrow> n \<noteq> 0 \<and> v = word_of_nat n" for n v by (auto simp: counted_def)
  have case_res: "(case counted (count_of is_result k msgs) of Some r \<Rightarrow> r | None \<Rightarrow> 0) =
      (word_of_nat (count_of is_result k msgs) :: u32)" for k by (simp add: counted_def)
  show ?thesis
  proof (cases "is_kind s")
    case RetryFailureCluster
    then have "s \<in> set (signal_list ?t) \<longleftrightarrow> (\<exists>n. error_counts ?t (is_task s) = Some n \<and>
        RETRY_CLUSTER_THRESHOLD \<le> unat n \<and> is_weight s = n)"
      unfolding signal_list_def set_append Un_iff signal_in_block set_entries [OF fin(1)]
      by (auto simp: case_prod_beta)
    then show ?thesis using RetryFailureCluster
      by (auto simp: tally_fold counted_Some RETRY_CLUSTER_THRESHOLD_def w due_def word_unat_eq_iff)
  next
    case NoveltyVsBaseline
    then have "s \<in> set (signal_list ?t) \<longleftrightarrow> is_task s \<in> novel_tasks ?t \<and> is_weight s = 1"
      unfolding signal_list_def set_append Un_iff signal_in_block
      using fin(4) by (cases s) (auto simp: case_prod_beta)
    then show ?thesis using NoveltyVsBaseline by (force simp: tally_fold due_def)
  next
    case CrossModuleAnomaly
    then have "s \<in> set (signal_list ?t) \<longleftrightarrow> (\<exists>d. error_max_hops ?t (is_task s) = Some d \<and> 1 < d \<and> is_weight s = ucast d)"
      unfolding signal_list_def set_append Un_iff signal_in_block set_entries [OF fin(3)]
      by (auto simp: case_prod_beta)
    then show ?thesis using CrossModuleAnomaly by (auto simp: tally_fold due_def)
  next
    case ContractBoundaryAmbiguity
    then have "s \<in> set (signal_list ?t) \<longleftrightarrow> (\<exists>d. delegations ?t (is_task s) = Some d \<and>
        (case results ?t (is_task s) of Some r \<Rightarrow> r | None \<Rightarrow> 0) < d \<and>
        is_weight s = d - (case results ?t (is_task s) of Some r \<Rightarrow> r | None \<Rightarrow> 0))"
      unfolding signal_list_def set_append Un_iff signal_in_block set_entries [OF fin(2)]
      by (auto simp: case_prod_beta)
    also have "\<dots> \<longleftrightarrow> count_of is_delegation (is_task s) msgs \<noteq> 0 \<and>
        (word_of_nat (count_of is_result (is_task s) msgs) :: u32) < word_of_nat (count_of is_delegation (is_task s) msgs) \<and>
        is_weight s = word_of_nat (count_of is_delegation (is_task s) msgs) - word_of_nat (count_of is_result (is_task s) msgs)"
      by (auto simp: tally_fold counted_Some case_res)
    also have "\<dots> \<longleftrightarrow> due msgs b s"
      using ContractBoundaryAmbiguity sub [of is_result "is_task s" is_delegation]
      by (auto simp: due_def word_less_nat_alt w word_unat_eq_iff)
    finally show ?thesis .
  qed
qed

lemma tallies_mset:
  assumes "mset msgs = mset msgs'"
  shows "fold (tally b) msgs no_tallies = fold (tally b) msgs' no_tallies"
proof -
  have "count_of P k msgs = count_of P k msgs'" for P k
    using assms by (simp add: count_of_def flip: size_mset)
  moreover have "set msgs = set msgs'" using assms by (rule mset_eq_setD)
  moreover have "deepest_error k msgs = deepest_error k msgs'" for k
    using \<open>set msgs = set msgs'\<close> by (simp add: deepest_error_def error_hops_def)
  ultimately show ?thesis by (intro tallies.equality ext) (simp_all add: tally_fold)
qed

lemma block_distinct:
  "distinct (map (\<lambda>(k, n). \<lparr>is_kind = kd, is_task = k, is_weight = w k n\<rparr>) (filter (\<lambda>(k, n). P k n) (entries m)))"
proof (rule distinct_map [THEN iffD2], intro conjI)
  show "distinct (filter (\<lambda>(k, n). P k n) (entries m))"
    using distinct_entries [of m] by (simp add: distinct_map)
  show "inj_on (\<lambda>(k, n). \<lparr>is_kind = kd, is_task = k, is_weight = w k n\<rparr>) (set (filter (\<lambda>(k, n). P k n) (entries m)))"
    using eq_key_imp_eq_value [OF distinct_entries [of m]] by (auto simp: inj_on_def)
qed

lemma signal_list_distinct: "distinct (signal_list (fold (tally b) msgs no_tallies))"
  unfolding signal_list_def distinct_append
  by (intro conjI block_distinct) (auto simp: distinct_map inj_on_def)

text \<open>Claim C30.  The derived signals are exactly the due ones: a retry cluster for a task with at least
  three errors, weighted by their number; novelty for a task that is unknown to the baseline or
  deeper than normal; a cross-module anomaly for an error more than one hop deep, weighted by the
  deepest error; and a contract ambiguity for delegations that outnumber the results, weighted by
  the difference.  They come without duplicates in the order of task, kind and weight, and the
  order in which the messages arrived plays no role.\<close>

theorem derive_signals_exact:
  assumes "length msgs < 2 ^ 32" "mset msgs = mset msgs'"
  shows "set (derive_signals msgs b) = {s. due msgs b s} \<and> distinct (derive_signals msgs b) \<and>
    List.sorted (map signal_key (derive_signals msgs b)) \<and> derive_signals msgs b = derive_signals msgs' b"
  using set_signal_list [OF assms(1)] signal_list_distinct tallies_mset [OF assms(2)]
  by (auto simp: derive_signals_def)

lemma derive_signals_exact_witness:
  "\<exists>ss. derive_signals [MError 1 0 ''x'', Delegation 2 0 []] (baseline_new 3) = ss \<and>
     derive_signals [Delegation 2 0 [], MError 1 0 ''x''] (baseline_new 3) = ss \<and>
     \<lparr>is_kind = ContractBoundaryAmbiguity, is_task = 2, is_weight = 1\<rparr> \<in> set ss"
proof -
  have "length [MError 1 0 ''x'', Delegation 2 0 []] < 2 ^ 32"
    "mset [MError 1 0 ''x'', Delegation 2 0 []] = mset [Delegation 2 0 [], MError 1 0 ''x'']" by simp_all
  note d = derive_signals_exact [OF this, of "baseline_new 3"]
  have "due [MError 1 0 ''x'', Delegation 2 0 []] (baseline_new 3)
      \<lparr>is_kind = ContractBoundaryAmbiguity, is_task = 2, is_weight = 1\<rparr>"
    by (simp add: due_def count_of_def is_delegation_def is_result_def)
  then have "\<lparr>is_kind = ContractBoundaryAmbiguity, is_task = 2, is_weight = 1\<rparr> \<in>
      set (derive_signals [MError 1 0 ''x'', Delegation 2 0 []] (baseline_new 3))"
    unfolding d [THEN conjunct1] by simp
  then show ?thesis
    using d [THEN conjunct2, THEN conjunct2, THEN conjunct2]
    by (intro exI [of _ "derive_signals [MError 1 0 ''x'', Delegation 2 0 []] (baseline_new 3)"] conjI refl) (simp_all only:)
qed

subsection \<open>Routing\<close>

text \<open>Property.  A task is routed exactly when it has a signal; the routed problem holds all of its
  signals and no other, ordered by kind and weight whatever the order they were given in, in the
  channel of the calibration: guided below 0.34, standard below 0.67, stretch above.  Accepting
  offers the problem to the sink once, declining leaves the sink as it was; and a score that is
  not a number in [0, 1] is never constructed.\<close>

theorem route_and_resolve:
  assumes "mset signals = mset signals'" "calibration_new v = Inr cal"
  shows "route task signals who cal = route task signals' who cal \<and>
    (route task signals who cal = Inl (NoSignals task) \<longleftrightarrow> list_all (\<lambda>s. is_task s \<noteq> task) signals) \<and>
    (case route task signals who cal of
       Inl e \<Rightarrow> e = NoSignals task
     | Inr p \<Rightarrow> rp_task p = task \<and> recipient (rp_channel p) = who \<and>
         mset (rp_signals p) = filter_mset (\<lambda>s. is_task s = task) (mset signals) \<and>
         List.sorted (map (\<lambda>s. (kind_index (is_kind s), is_weight s)) (rp_signals p)) \<and>
         resolve record_accepted p False sink = (Declined, sink) \<and>
         resolve record_accepted p True sink = (Accepted p, record_accepted p sink) \<and>
         (\<exists>x. cal = Fin x \<and> 0 \<le> x \<and> x \<le> 1 \<and>
            channel (rp_channel p) = (if x < 6124895493223875 / 2 ^ 54 then Guided
              else if x < 6034823500676465 / 2 ^ 53 then Standard else Stretch)))"
proof -
  let ?key = "\<lambda>s. (kind_index (is_kind s), is_weight s)" and ?f = "filter (\<lambda>s. is_task s = task)"
  have kind_inj: "kind_index a = kind_index c \<longleftrightarrow> a = c" for a c by (cases a; cases c) simp_all
  have "inj_on ?key (set (?f signals))"
    by (rule inj_onI) (auto simp: kind_inj intro!: interest_signal.equality)
  moreover have mset_f: "mset (?f signals) = mset (?f signals')" using assms(1) by simp
  ultimately have sorts: "sort_key ?key (?f signals) = sort_key ?key (?f signals')"
    by (intro sort_key_inj_key_eq) simp_all
  obtain x where x: "cal = Fin x" "0 \<le> x" "x \<le> 1"
    using assms(2) by (auto simp: calibration_new_def in_range_iff split: if_splits)
  have empty: "?f signals = [] \<longleftrightarrow> ?f signals' = []" using mset_f by (metis mset_zero_iff)
  show ?thesis
    using sorts empty x assms(1)
    by (auto simp: route_def Let_def resolve_def flow_channel_of_def GUIDED_BELOW_def STANDARD_BELOW_def
        filter_empty_conv list_all_iff)
qed

lemma route_and_resolve_witness:
  "\<exists>p. route 1 [\<lparr>is_kind = NoveltyVsBaseline, is_task = 1, is_weight = 1\<rparr>] ''ann'' (Fin (1 / 2)) = Inr p \<and>
     channel (rp_channel p) = Standard \<and> resolve (\<lambda>p n. n + 1) p False (0::nat) = (Declined, 0)"
proof -
  have "calibration_new (Fin (1 / 2)) = Inr (Fin (1 / 2))"
    by (simp add: calibration_new_def is_finite_def in_range_def)
  from route_and_resolve [OF refl this, where signals = "[\<lparr>is_kind = NoveltyVsBaseline, is_task = 1, is_weight = 1\<rparr>]"
      and task = 1 and who = "''ann''" and sink = "0::nat" and record_accepted = "\<lambda>p n. n + 1"]
  show ?thesis by (auto split: sum.splits)
qed

end
