(* ===== verification/Sandbox.thy ===== *)
theory Sandbox
  imports Plugin
begin

unbundle bit_operations_syntax

text \<open>
  The sandbox contract of \<open>core/src/sandbox.rs\<close> and its wasmtime runtime
  (\<open>plugin-sandbox-wasmtime/src/lib.rs\<close>): the bounds checks, the module cache, the budgets and the
  decoding of the packed result.  wasmtime itself is the record \<open>wasmtime\<close> of the calls the runtime
  makes; SHA-256 is the argument \<open>sha256\<close>.

  The contract a client relies on, \<open>sandbox_runtime\<close>, says that a call does not depend on the
  calls before it; the runtime provides it because its cache only ever holds what compiling would
  return.
\<close>

record resource_limits =
  max_memory_bytes :: u64
  max_wallclock_ms :: u64

definition default_limits :: resource_limits where
  "default_limits = \<lparr>max_memory_bytes = 16 * 1024 * 1024, max_wallclock_ms = 5000\<rparr>"

record safe_module =
  wasm_bytes :: bytes
  content_hash :: bytes

definition safe_module_new :: "(bytes \<Rightarrow> bytes) \<Rightarrow> bytes \<Rightarrow> safe_module" where
  "safe_module_new sha256 wasm = \<lparr>wasm_bytes = wasm, content_hash = sha256 wasm\<rparr>"

datatype sandbox_error =
    MemoryExceeded
  | Timeout
  | HostAccessAttempted capability
  | Trap string
  | Compile string

type_synonym 'c sandbox_exec =
  "safe_module \<Rightarrow> bytes \<Rightarrow> resource_limits \<Rightarrow> ('c, sandbox_error, bytes) op"

subsection \<open>The contract\<close>

text \<open>
  \<open>run m input limits\<close> is what a call returns whatever ran before; \<open>known\<close> are the modules in use.
\<close>

locale sandbox_runtime =
  fixes exec :: "'c sandbox_exec"
    and inv :: "'c \<Rightarrow> bool"
    and known :: "safe_module \<Rightarrow> bool"
    and run :: "safe_module \<Rightarrow> bytes \<Rightarrow> resource_limits \<Rightarrow> sandbox_error + bytes"
  assumes exec_run: "inv c \<Longrightarrow> known m \<Longrightarrow> fst (exec m input limits c) = run m input limits"
    and exec_inv: "inv c \<Longrightarrow> known m \<Longrightarrow> inv (snd (exec m input limits c))"
begin

lemma exec_split: "inv c \<Longrightarrow> known m \<Longrightarrow> \<exists>c'. exec m input limits c = (run m input limits, c') \<and> inv c'"
  using exec_run exec_inv by (metis prod.collapse)

end

subsection \<open>wasmtime\<close>

datatype call_trap = Interrupt | OutOfFuel | OtherTrap string

text \<open>
  \<open>wt_instantiate\<close> takes the two growth policies of the resource limiter, the fuel and the epoch
  deadline; no import is offered to the module.  \<open>wt_memory\<close> is the content of the exported
  \<open>memory\<close>, \<open>wt_run\<close> the call of the exported \<open>run\<close>.

  A record of this type is wasmtime as one call meets it: how far the background clock gets meanwhile, and
  what the host can allocate, are part of it.  A statement about one call holds for every such record; where calls
  follow each other, each has a record of its own (\<open>under_load\<close>).
\<close>

record ('m, 'i) wasmtime =
  wt_compile :: "bytes \<Rightarrow> string + 'm"
  wt_set_fuel :: "u64 \<Rightarrow> string + unit"
  wt_instantiate :: "(nat \<Rightarrow> bool) \<Rightarrow> (nat \<Rightarrow> nat option \<Rightarrow> bool) \<Rightarrow> u64 \<Rightarrow> u64 \<Rightarrow> 'm \<Rightarrow> string + 'i"
  wt_memory :: "'i \<Rightarrow> bytes option"
  wt_write :: "bytes \<Rightarrow> 'i \<Rightarrow> string + 'i"
  wt_get_run :: "'i \<Rightarrow> string + unit"
  wt_run :: "u32 \<Rightarrow> u32 \<Rightarrow> 'i \<Rightarrow> (call_trap + u64) \<times> 'i"

definition TICK_MS :: nat where
  "TICK_MS = 1"

definition MAX_TABLE_ELEMS :: nat where
  "MAX_TABLE_ELEMS = 10000000"

definition memory_growing :: "resource_limits \<Rightarrow> nat \<Rightarrow> bool" where
  "memory_growing limits desired \<longleftrightarrow> desired \<le> unat (max_memory_bytes limits)"

definition table_growing :: "nat \<Rightarrow> nat option \<Rightarrow> bool" where
  "table_growing desired maximum \<longleftrightarrow>
     (case maximum of Some m \<Rightarrow> desired \<le> m | None \<Rightarrow> True) \<and> desired \<le> MAX_TABLE_ELEMS"

definition call_fuel :: "resource_limits \<Rightarrow> u64" where
  "call_fuel limits = word_of_nat (min (unat (max_wallclock_ms limits) * 10000) (2 ^ 64 - 1))"

definition deadline_ticks :: "resource_limits \<Rightarrow> u64" where
  "deadline_ticks limits =
     word_of_nat (max ((unat (max_wallclock_ms limits) + TICK_MS - 1) div TICK_MS) 1)"

fun trap_error :: "call_trap \<Rightarrow> sandbox_error" where
  "trap_error Interrupt = Timeout"
| "trap_error OutOfFuel = Timeout"
| "trap_error (OtherTrap e) = Trap e"

type_synonym 'm module_cache = "bytes \<rightharpoonup> 'm"

definition compile_cached :: "('m, 'i) wasmtime \<Rightarrow> safe_module \<Rightarrow> ('m module_cache, sandbox_error, 'm) op" where
  "compile_cached W md cache =
     (case cache (content_hash md) of
        Some m \<Rightarrow> (Inr m, cache)
      | None \<Rightarrow>
          (case wt_compile W (wasm_bytes md) of
             Inl e \<Rightarrow> (Inl (Compile e), cache)
           | Inr m \<Rightarrow> (Inr m, cache(content_hash md \<mapsto> m))))"

text \<open>The input is copied to address 0 of the guest memory.\<close>

definition write_input :: "('m, 'i) wasmtime \<Rightarrow> bytes \<Rightarrow> 'i \<Rightarrow> sandbox_error + 'i" where
  "write_input W input inst =
     (case wt_memory W inst of
        None \<Rightarrow> Inl (Trap (''module must export 'memory'' @ [CHR 0x27]))
      | Some mem \<Rightarrow>
          (if input = [] then Inr inst
           else if length mem < length input then
             Inl (Trap (''input ('' @ nat_str (length input) @ '' bytes) exceeds WASM memory size ('' @
               nat_str (length mem) @ '' bytes)''))
           else case wt_write W input inst of Inl e \<Rightarrow> Inl (Trap e) | Inr inst' \<Rightarrow> Inr inst'))"

text \<open>The pointer and the length packed in the result, and the slice of the guest memory they name.\<close>

definition output_ptr :: "u64 \<Rightarrow> nat" where
  "output_ptr packed = unat (signed_drop_bit 32 packed AND mask 32)"

definition output_len :: "u64 \<Rightarrow> nat" where
  "output_len packed = unat (packed AND mask 32)"

definition read_output :: "('m, 'i) wasmtime \<Rightarrow> u64 \<Rightarrow> 'i \<Rightarrow> sandbox_error + bytes" where
  "read_output W packed inst =
     (if output_len packed = 0 then Inr []
      else case wt_memory W inst of
        None \<Rightarrow> Inl (Trap ''output pointer out of bounds'')
      | Some mem \<Rightarrow>
          (if length mem < output_ptr packed + output_len packed then Inl (Trap ''output pointer out of bounds'')
           else Inr (take (output_len packed) (drop (output_ptr packed) mem))))"

definition run_compiled :: "('m, 'i) wasmtime \<Rightarrow> bytes \<Rightarrow> resource_limits \<Rightarrow> 'm \<Rightarrow> sandbox_error + bytes" where
  "run_compiled W input limits compiled =
     (case wt_set_fuel W (call_fuel limits) of
        Inl e \<Rightarrow> Inl (Trap (''fuel setup: '' @ e))
      | Inr _ \<Rightarrow>
     (case wt_instantiate W (memory_growing limits) table_growing (call_fuel limits) (deadline_ticks limits) compiled of
        Inl e \<Rightarrow> Inl (Trap e)
      | Inr inst \<Rightarrow>
     (case write_input W input inst of
        Inl e \<Rightarrow> Inl e
      | Inr inst1 \<Rightarrow>
     (case wt_get_run W inst1 of
        Inl e \<Rightarrow> Inl (Trap (''module must export 'run': '' @ e))
      | Inr _ \<Rightarrow>
     (case wt_run W 0 (word_of_nat (length input)) inst1 of
        (Inl t, _) \<Rightarrow> Inl (trap_error t)
      | (Inr packed, inst2) \<Rightarrow> read_output W packed inst2)))))"

definition sandbox_execute :: "('m, 'i) wasmtime \<Rightarrow> 'm module_cache sandbox_exec" where
  "sandbox_execute W md input limits =
     (if 2 ^ 31 - 1 < length input then
        throwE (Trap (''input too large: '' @ nat_str (length input) @ '' bytes exceeds i32::MAX''))
      else bindE (compile_cached W md) (\<lambda>compiled. liftE (run_compiled W input limits compiled)))"

subsection \<open>The cache\<close>

text \<open>A call without the cache.\<close>

definition sandbox_run :: "('m, 'i) wasmtime \<Rightarrow> safe_module \<Rightarrow> bytes \<Rightarrow> resource_limits \<Rightarrow> sandbox_error + bytes" where
  "sandbox_run W md input limits = fst (sandbox_execute W md input limits Map.empty)"

text \<open>The modules \<open>B\<close> in use have distinct hashes, and a module carries the hash of its bytes.\<close>

definition known_module :: "(bytes \<Rightarrow> bytes) \<Rightarrow> bytes set \<Rightarrow> safe_module \<Rightarrow> bool" where
  "known_module sha256 B md \<longleftrightarrow> inj_on sha256 B \<and> wasm_bytes md \<in> B \<and> content_hash md = sha256 (wasm_bytes md)"

definition cache_ok :: "('m, 'i) wasmtime \<Rightarrow> (bytes \<Rightarrow> bytes) \<Rightarrow> bytes set \<Rightarrow> 'm module_cache \<Rightarrow> bool" where
  "cache_ok W sha256 B cache \<longleftrightarrow>
     (\<forall>h m. cache h = Some m \<longrightarrow> (\<exists>b \<in> B. h = sha256 b \<and> wt_compile W b = Inr m))"

lemma compile_cached_eq:
  assumes "cache_ok W sha256 B cache" "known_module sha256 B md"
  shows "\<exists>cache'. compile_cached W md cache =
    ((case wt_compile W (wasm_bytes md) of Inl e \<Rightarrow> Inl (Compile e) | Inr m \<Rightarrow> Inr m), cache') \<and> cache_ok W sha256 B cache'"
proof (cases "cache (content_hash md)")
  case (Some m)
  then obtain b where "b \<in> B" "sha256 b = sha256 (wasm_bytes md)" "wt_compile W b = Inr m"
    using assms unfolding cache_ok_def known_module_def by metis
  then have "wt_compile W (wasm_bytes md) = Inr m"
    using assms(2) unfolding known_module_def inj_on_def by metis
  then show ?thesis using Some assms(1) by (simp add: compile_cached_def)
next
  case None
  then show ?thesis using assms
    by (auto simp: compile_cached_def cache_ok_def known_module_def split: sum.splits)
qed

lemma sandbox_execute_eq:
  assumes "cache_ok W sha256 B cache" "known_module sha256 B md"
  shows "\<exists>cache'. sandbox_execute W md input limits cache = (sandbox_run W md input limits, cache') \<and>
    cache_ok W sha256 B cache'"
proof -
  have empty: "cache_ok W sha256 B Map.empty" by (simp add: cache_ok_def)
  show ?thesis
    using compile_cached_eq [OF assms] compile_cached_eq [OF empty assms(2)] assms(1)
    by (auto simp: sandbox_execute_def sandbox_run_def bindE_def split: sum.splits)
qed

interpretation wasmtime_sandbox: sandbox_runtime "sandbox_execute W" "cache_ok W sha256 B"
    "known_module sha256 B" "sandbox_run W"
  for W :: "('m, 'i) wasmtime" and sha256 B
proof
  fix c :: "'m module_cache" and m input limits
  assume "cache_ok W sha256 B c" "known_module sha256 B m"
  then show "fst (sandbox_execute W m input limits c) = sandbox_run W m input limits"
    "cache_ok W sha256 B (snd (sandbox_execute W m input limits c))"
    using sandbox_execute_eq by (metis fst_conv, metis snd_conv)
qed

text \<open>A call without the cache, step by step.\<close>

lemma sandbox_run_eq:
  "sandbox_run W md input limits =
    (if 2 ^ 31 - 1 < length input then
       Inl (Trap (''input too large: '' @ nat_str (length input) @ '' bytes exceeds i32::MAX''))
     else case wt_compile W (wasm_bytes md) of
       Inl e \<Rightarrow> Inl (Compile e) | Inr m \<Rightarrow> run_compiled W input limits m)"
  by (auto simp: sandbox_run_def sandbox_execute_def compile_cached_def bindE_def split: sum.splits)

subsection \<open>The environment of a call\<close>

text \<open>
  \<open>W\<close> is wasmtime when nothing disturbs the call, \<open>W'\<close> the same under load.  Compiling, the checks and the access to
  the guest memory are functions of their arguments, and so is the execution, as long as it is not cut off:
  the epoch may reach the deadline, and an instantiation may fail, because its start
  function is cut off or because the host cannot allocate its memory.
\<close>

definition under_load :: "('m, 'i) wasmtime \<Rightarrow> ('m, 'i) wasmtime \<Rightarrow> bool" where
  "under_load W W' \<longleftrightarrow>
     wt_compile W' = wt_compile W \<and> wt_set_fuel W' = wt_set_fuel W \<and> wt_memory W' = wt_memory W \<and>
     wt_write W' = wt_write W \<and> wt_get_run W' = wt_get_run W \<and>
     (\<forall>g t f d m. wt_instantiate W' g t f d m = wt_instantiate W g t f d m \<or> (\<exists>e. wt_instantiate W' g t f d m = Inl e)) \<and>
     (\<forall>a b i. wt_run W' a b i = wt_run W a b i \<or> fst (wt_run W' a b i) = Inl Interrupt)"

lemma under_loadD:
  assumes "under_load W W'"
  shows "wt_compile W' = wt_compile W" "wt_set_fuel W' = wt_set_fuel W" "wt_memory W' = wt_memory W"
    "wt_write W' = wt_write W" "wt_get_run W' = wt_get_run W"
    "wt_instantiate W' g t f d m = wt_instantiate W g t f d m \<or> (\<exists>e. wt_instantiate W' g t f d m = Inl e)"
    "wt_run W' a b i = wt_run W a b i \<or> fst (wt_run W' a b i) = Inl Interrupt"
  using assms unfolding under_load_def by blast+

text \<open>The module compiles, but does not instantiate.\<close>

definition start_refused :: "('m, 'i) wasmtime \<Rightarrow> resource_limits \<Rightarrow> bytes \<Rightarrow> string \<Rightarrow> bool" where
  "start_refused W limits wasm e \<longleftrightarrow>
     (\<exists>m. wt_compile W wasm = Inr m \<and>
        wt_instantiate W (memory_growing limits) table_growing (call_fuel limits) (deadline_ticks limits) m = Inl e)"

lemma start_refused_run:
  assumes "start_refused W limits (wasm_bytes md) e" "length input < 2 ^ 31" "wt_set_fuel W (call_fuel limits) = Inr ()"
  shows "sandbox_run W md input limits = Inl (Trap e)"
  using assms by (auto simp: start_refused_def sandbox_run_eq run_compiled_def)

text \<open>Under load a call returns what it returns undisturbed, or it times out, or its module does not instantiate.\<close>

lemma run_compiled_instance:
  assumes "wt_set_fuel W (call_fuel limits) = Inr u"
    and "wt_instantiate W (memory_growing limits) table_growing (call_fuel limits) (deadline_ticks limits) m = Inr i"
  shows "run_compiled W input limits m =
    (case write_input W input i of
       Inl e \<Rightarrow> Inl e
     | Inr i1 \<Rightarrow>
    (case wt_get_run W i1 of
       Inl e \<Rightarrow> Inl (Trap (''module must export 'run': '' @ e))
     | Inr _ \<Rightarrow>
    (case wt_run W 0 (word_of_nat (length input)) i1 of
       (Inl t, _) \<Rightarrow> Inl (trap_error t)
     | (Inr packed, i2) \<Rightarrow> read_output W packed i2)))"
  unfolding run_compiled_def assms sum.case ..

lemma run_compiled_under_load:
  assumes "under_load W W'"
  shows "run_compiled W' input limits m = run_compiled W input limits m \<or> run_compiled W' input limits m = Inl Timeout \<or>
    (\<exists>e. wt_instantiate W' (memory_growing limits) table_growing (call_fuel limits) (deadline_ticks limits) m = Inl e \<and>
       run_compiled W' input limits m = Inl (Trap e))"
proof (cases "wt_set_fuel W (call_fuel limits)")
  case (Inl e)
  then show ?thesis by (simp add: run_compiled_def under_loadD(2) [OF assms])
next
  case fuel: (Inr u)
  then have fuel': "wt_set_fuel W' (call_fuel limits) = Inr u" by (simp add: under_loadD(2) [OF assms])
  show ?thesis
  proof (cases "wt_instantiate W' (memory_growing limits) table_growing (call_fuel limits) (deadline_ticks limits) m")
    case (Inl e)
    then show ?thesis using fuel' by (simp add: run_compiled_def)
  next
    case (Inr i)
    then have same: "wt_instantiate W (memory_growing limits) table_growing (call_fuel limits) (deadline_ticks limits) m = Inr i"
      using under_loadD(6) [OF assms] by (metis Inl_Inr_False)
    have io: "write_input W' = write_input W" "read_output W' = read_output W"
      by (simp_all only: fun_eq_iff write_input_def read_output_def under_loadD(3) [OF assms] under_loadD(4) [OF assms] simp_thms)
    note runs = run_compiled_instance [OF fuel' Inr, of input] run_compiled_instance [OF fuel same, of input]
      io under_loadD(5) [OF assms]
    show ?thesis
    proof (cases "write_input W input i")
      case (Inl e)
      then show ?thesis by (simp add: runs)
    next
      case i1: (Inr i1)
      obtain q i2 where q: "wt_run W' 0 (word_of_nat (length input)) i1 = (q, i2)" by fastforce
      from under_loadD(7) [OF assms, of 0 "word_of_nat (length input)" i1] q
      have "wt_run W 0 (word_of_nat (length input)) i1 = (q, i2) \<or> q = Inl Interrupt" by auto
      then show ?thesis using q by (cases "wt_get_run W i1"; cases q) (auto simp: runs i1)
    qed
  qed
qed

lemma sandbox_run_under_load:
  assumes "under_load W W'"
  shows "sandbox_run W' md input limits = sandbox_run W md input limits \<or> sandbox_run W' md input limits = Inl Timeout \<or>
    (\<exists>e. start_refused W' limits (wasm_bytes md) e \<and> sandbox_run W' md input limits = Inl (Trap e))"
proof (cases "2 ^ 31 - 1 < length input")
  case True
  then show ?thesis by (simp add: sandbox_run_eq)
next
  case False
  then show ?thesis
  proof (cases "wt_compile W (wasm_bytes md)")
    case (Inr m)
    then show ?thesis using False run_compiled_under_load [OF assms, of input limits m]
      by (simp add: sandbox_run_eq start_refused_def under_loadD(1) [OF assms])
  qed (simp add: sandbox_run_eq under_loadD(1) [OF assms])
qed

lemma cache_ok_under_load: "under_load W W' \<Longrightarrow> cache_ok W' sha256 B cache = cache_ok W sha256 B cache"
  by (simp add: cache_ok_def under_loadD(1))

subsection \<open>What a call can return\<close>

text \<open>
  What wasmtime documents of its resource limiter: the memory of an instance has a size its growth
  policy allowed, initially and after every call.
\<close>

definition limiter_ok :: "('m, 'i) wasmtime \<Rightarrow> ((nat \<Rightarrow> bool) \<Rightarrow> 'i \<Rightarrow> bool) \<Rightarrow> bool" where
  "limiter_ok W bounded \<longleftrightarrow>
     (\<forall>g t f d m i. wt_instantiate W g t f d m = Inr i \<longrightarrow> bounded g i) \<and>
     (\<forall>g i input i'. bounded g i \<and> wt_write W input i = Inr i' \<longrightarrow> bounded g i') \<and>
     (\<forall>g i a b r i'. bounded g i \<and> wt_run W a b i = (r, i') \<longrightarrow> bounded g i') \<and>
     (\<forall>g i mem. bounded g i \<and> wt_memory W i = Some mem \<and> mem \<noteq> [] \<longrightarrow> g (length mem))"

lemma read_output_Inr:
  "read_output W packed i = Inr out \<Longrightarrow> out = [] \<or>
     (\<exists>mem. wt_memory W i = Some mem \<and> output_ptr packed + output_len packed \<le> length mem \<and>
       out = take (output_len packed) (drop (output_ptr packed) mem))"
  by (auto simp: read_output_def not_less split: if_splits option.splits)

lemma run_compiled_Inr:
  assumes "run_compiled W input limits m = Inr out"
  shows "\<exists>i i1 packed i2. wt_set_fuel W (call_fuel limits) = Inr () \<and>
    wt_instantiate W (memory_growing limits) table_growing (call_fuel limits) (deadline_ticks limits) m = Inr i \<and>
    write_input W input i = Inr i1 \<and> wt_run W 0 (word_of_nat (length input)) i1 = (Inr packed, i2) \<and>
    read_output W packed i2 = Inr out"
  using assms by (auto simp: run_compiled_def split: sum.splits prod.splits)

lemma write_input_keeps: "write_input W input i = Inr i1 \<Longrightarrow> i1 = i \<or> wt_write W input i = Inr i1"
  by (auto simp: write_input_def split: option.splits if_splits sum.splits)

lemma sandbox_run_errors:
  assumes "sandbox_run W md input limits = Inl e"
  shows "e \<noteq> MemoryExceeded \<and> (\<forall>cap. e \<noteq> HostAccessAttempted cap)"
proof -
  have "trap_error t \<noteq> MemoryExceeded \<and> trap_error t \<noteq> HostAccessAttempted cap" for t cap by (cases t) simp_all
  then show ?thesis using assms unfolding sandbox_run_eq
    by (auto simp: run_compiled_def write_input_def read_output_def
        split: if_splits sum.splits prod.splits option.splits)
qed

text \<open>The memory of an instance never grows past the limit it was made with.\<close>

lemma memory_bounded:
  assumes "limiter_ok W bounded"
    and "wt_instantiate W (memory_growing limits) table_growing f d m = Inr i" "write_input W input i = Inr i1"
    and "wt_run W a b i1 = (r, i2)" "wt_memory W i2 = Some mem"
  shows "length mem \<le> unat (max_memory_bytes limits)"
proof -
  let ?g = "memory_growing limits"
  have "bounded ?g i" using assms(1,2) unfolding limiter_ok_def by blast
  then have "bounded ?g i1" using assms(1) write_input_keeps [OF assms(3)] unfolding limiter_ok_def by blast
  then have "bounded ?g i2" using assms(1,4) unfolding limiter_ok_def by blast
  then have "mem = [] \<or> ?g (length mem)" using assms(1,5) unfolding limiter_ok_def by blast
  then show ?thesis by (auto simp: memory_growing_def)
qed

definition confined_result :: "('m, 'i) wasmtime \<Rightarrow> safe_module \<Rightarrow> bytes \<Rightarrow> resource_limits \<Rightarrow> bytes \<Rightarrow> bool" where
  "confined_result W md input limits out \<longleftrightarrow>
     length input < 2 ^ 31 \<and> length out \<le> unat (max_memory_bytes limits) \<and>
     (\<exists>m i i1 packed i2. wt_compile W (wasm_bytes md) = Inr m \<and>
        wt_instantiate W (memory_growing limits) table_growing (call_fuel limits) (deadline_ticks limits) m = Inr i \<and>
        write_input W input i = Inr i1 \<and> wt_run W 0 (word_of_nat (length input)) i1 = (Inr packed, i2) \<and>
        (out = [] \<or> (\<exists>mem. wt_memory W i2 = Some mem \<and> output_ptr packed + output_len packed \<le> length mem \<and>
           out = take (output_len packed) (drop (output_ptr packed) mem))))"

lemma sandbox_run_confined:
  assumes "limiter_ok W bounded" "sandbox_run W md input limits = Inr out"
  shows "confined_result W md input limits out"
proof -
  have len: "length input < 2 ^ 31" "\<not> 2 ^ 31 - 1 < length input"
    using assms(2) unfolding sandbox_run_eq by (auto split: if_splits)
  obtain m where m: "wt_compile W (wasm_bytes md) = Inr m" "run_compiled W input limits m = Inr out"
    using assms(2) [unfolded sandbox_run_eq if_not_P [OF len(2)]] by (auto split: sum.splits)
  from run_compiled_Inr [OF m(2)] obtain i i1 packed i2 where i:
    "wt_instantiate W (memory_growing limits) table_growing (call_fuel limits) (deadline_ticks limits) m = Inr i"
    "write_input W input i = Inr i1" "wt_run W 0 (word_of_nat (length input)) i1 = (Inr packed, i2)"
    "read_output W packed i2 = Inr out" by blast
  note out = read_output_Inr [OF i(4)]
  then have "length out \<le> unat (max_memory_bytes limits)"
    using memory_bounded [OF assms(1) i(1-3)] by fastforce
  then show ?thesis unfolding confined_result_def using len(1) m(1) i(1-3) out by blast
qed

lemma budgets:
  "1 \<le> deadline_ticks limits" "unat (call_fuel limits) = min (unat (max_wallclock_ms limits) * 10000) (2 ^ 64 - 1)"
proof -
  have "max (unat (max_wallclock_ms limits)) 1 < 2 ^ 64"
    using unsigned_less [of "max_wallclock_ms limits"] by simp
  then show "1 \<le> deadline_ticks limits"
    by (simp add: deadline_ticks_def TICK_MS_def word_le_nat_alt unat_of_nat)
  show "unat (call_fuel limits) = min (unat (max_wallclock_ms limits) * 10000) (2 ^ 64 - 1)"
    by (simp add: call_fuel_def unat_of_nat)
qed

text \<open>Claim C16.  A call never depends on the calls before it, because the module cache is transparent
  as long as the modules in use have distinct hashes.  What it returns is empty or a slice that
  lies inside the guest memory, so never longer than the memory limit; the guest ran with a fuel
  of ten thousand units per millisecond and a deadline of one tick at least; and a failure is a
  timeout, a trap or a compile error, never the two other errors of the contract.\<close>

theorem sandbox_execute_confined:
  assumes "cache_ok W sha256 B cache" "known_module sha256 B md" "limiter_ok W bounded"
  shows "fst (sandbox_execute W md input limits cache) = sandbox_run W md input limits \<and>
    cache_ok W sha256 B (snd (sandbox_execute W md input limits cache)) \<and>
    (case sandbox_run W md input limits of
       Inr out \<Rightarrow> length input < 2 ^ 31 \<and> length out \<le> unat (max_memory_bytes limits) \<and>
         (\<exists>m i i1 packed i2. wt_compile W (wasm_bytes md) = Inr m \<and>
            wt_instantiate W (memory_growing limits) table_growing (call_fuel limits) (deadline_ticks limits) m = Inr i \<and>
            write_input W input i = Inr i1 \<and> wt_run W 0 (word_of_nat (length input)) i1 = (Inr packed, i2) \<and>
            (out = [] \<or> (\<exists>mem. wt_memory W i2 = Some mem \<and> output_ptr packed + output_len packed \<le> length mem \<and>
               out = take (output_len packed) (drop (output_ptr packed) mem))))
     | Inl e \<Rightarrow> e \<noteq> MemoryExceeded \<and> (\<forall>cap. e \<noteq> HostAccessAttempted cap)) \<and>
    1 \<le> deadline_ticks limits \<and>
    unat (call_fuel limits) = min (unat (max_wallclock_ms limits) * 10000) (2 ^ 64 - 1)"
  using wasmtime_sandbox.exec_run [OF assms(1,2)] wasmtime_sandbox.exec_inv [OF assms(1,2)]
    sandbox_run_errors [of W md input limits] sandbox_run_confined [OF assms(3), of md input limits] budgets
  unfolding confined_result_def by (auto split: sum.splits)

text \<open>A guest that echoes its input: the packed result points at address 0.\<close>

definition echo_guest :: "(bytes, bytes) wasmtime" where
  "echo_guest = \<lparr>wt_compile = Inr, wt_set_fuel = (\<lambda>_. Inr ()),
     wt_instantiate = (\<lambda>g t f d m. if g 1 then Inr [0] else Inl ''memory''),
     wt_memory = (\<lambda>i. Some i), wt_write = (\<lambda>input i. if length input \<le> length i then Inr (input @ drop (length input) i) else Inl ''bounds''),
     wt_get_run = (\<lambda>_. Inr ()), wt_run = (\<lambda>a b i. (Inr (ucast b), i))\<rparr>"

lemma sandbox_execute_confined_witness:
  "fst (sandbox_execute echo_guest \<lparr>wasm_bytes = [1], content_hash = [1]\<rparr> [] default_limits [[1] \<mapsto> [1]]) =
     sandbox_run echo_guest \<lparr>wasm_bytes = [1], content_hash = [1]\<rparr> [] default_limits \<and>
   1 \<le> deadline_ticks default_limits"
proof -
  have cache: "cache_ok echo_guest (\<lambda>b. b) {[1]} [[1] \<mapsto> [1]]" by (simp add: cache_ok_def echo_guest_def)
  have known: "known_module (\<lambda>b. b) {[1]} \<lparr>wasm_bytes = [1], content_hash = [1]\<rparr>" by (simp add: known_module_def)
  have "limiter_ok echo_guest (\<lambda>g i. g (length i))"
    by (auto simp: limiter_ok_def echo_guest_def split: if_splits)
  from sandbox_execute_confined [OF cache known this, of "[]" default_limits] show ?thesis by blast
qed

end
