(* ===== verification/Hunt_Harness.thy ===== *)
theory Hunt_Harness
  imports Sandbox F64
begin

text \<open>
  \<open>plugin-hunt-harness/src/lib.rs\<close>: breaking tests run in the sandbox, the deterministic crediting of
  coverage, the defects they open and the escalation of the stakes.  Ordered sets of concepts are
  sets of their strings.  The sandbox is any \<open>sandbox_runtime\<close>.
\<close>

record hunt_test =
  ht_id :: string
  ht_author :: string
  ht_task :: uuid
  module_wasm :: bytes
  exercises :: "string set"



datatype verdict = Survived | Broke

record defect_record =
  hunt_test_id :: string
  def_task :: uuid
  def_author :: string
  def_credited :: "string set"
  def_detail :: string
  crystallise_on_fix :: bool

record hunt_outcome =
  ho_verdict :: verdict
  credited :: "string set"
  defect :: "defect_record option"

record stake_escalation =
  ladder_depth :: u32
  pitch :: string






definition hunt_outcome_of :: "hunt_test \<Rightarrow> string set \<Rightarrow> verdict \<Rightarrow> hunt_outcome" where
  "hunt_outcome_of test cred v = \<lparr>ho_verdict = v, credited = cred,
     defect = (case v of
       Broke \<Rightarrow> Some \<lparr>hunt_test_id = ht_id test, def_task = ht_task test, def_author = ht_author test,
         def_credited = cred, def_detail = ''hunt-test '' @ [CHR 0x27] @ ht_id test @ [CHR 0x27] @ '' broke the target'',
         crystallise_on_fix = True\<rparr>
     | Survived \<Rightarrow> None)\<rparr>"


text \<open>\<open>iter().map(..).reduce(f64::min)\<close> over an ordered set.\<close>

fun reduce_min :: "f64 list \<Rightarrow> f64 option" where
  "reduce_min [] = None"
| "reduce_min (x # xs) = Some (fold (\<lambda>y acc. f64_min acc y) xs x)"

definition dash :: string where
  "dash = [CHR 0xE2, CHR 0x80, CHR 0x94]"

definition sharp_pitch :: "u32 \<Rightarrow> string" where
  "sharp_pitch depth = ''This version survives your last test. You read this area well '' @ dash @
     '' try a sharper angle (depth '' @ nat_str (unat depth) @ '').''"

definition gentle_pitch :: "u32 \<Rightarrow> string" where
  "gentle_pitch depth = ''This version survives your last test. Break it again '' @ dash @
     '' a smaller, more concrete case may expose it (depth '' @ nat_str (unat depth) @ '').''"

definition escalate_stakes ::
  "hunt_test \<Rightarrow> hunt_outcome \<Rightarrow> (string \<Rightarrow> string \<Rightarrow> f64) \<Rightarrow> u32 \<Rightarrow> u32 \<Rightarrow> stake_escalation option" where
  "escalate_stakes test out calibration depth max_depth =
     (if ho_verdict out \<noteq> Survived then None
      else if max_depth \<le> depth then None
      else let calib = reduce_min (map (calibration (ht_author test)) (sorted_list_of_set (exercises test)));
               next_depth = depth + 1;
               p = (if (case calib of Some c \<Rightarrow> f64_le (Fin (3 / 4)) c | None \<Rightarrow> False)
                    then sharp_pitch next_depth else gentle_pitch next_depth)
           in Some \<lparr>ladder_depth = next_depth, pitch = p\<rparr>)"

subsection \<open>Hunts in a sandbox\<close>
















definition demo_hunt :: hunt_test where
  "demo_hunt = \<lparr>ht_id = ''h1'', ht_author = ''ann'', ht_task = 7, module_wasm = [1], exercises = {''auth'', ''x''}\<rparr>"




subsection \<open>Escalation\<close>

lemma f64_le_reduce:
  assumes "z \<noteq> NaN"
  shows "f64_le z (fold (\<lambda>y acc. f64_min acc y) xs x) \<longleftrightarrow>
    (\<exists>y \<in> set (x # xs). y \<noteq> NaN) \<and> list_all (\<lambda>y. y = NaN \<or> f64_le z y) (x # xs)"
proof (induction xs arbitrary: x)
  case Nil
  then show ?case by (cases x; cases z) (auto simp: assms)
next
  case (Cons y xs)
  have "f64_min x y = NaN \<longleftrightarrow> x = NaN \<and> y = NaN" by (auto simp: f64_min_def)
  then show ?case using Cons.IH [of "f64_min x y"] f64_le_min [OF assms, of x y] by auto
qed

lemma pitches_differ: "sharp_pitch d \<noteq> gentle_pitch e"
proof
  assume "sharp_pitch d = gentle_pitch e"
  then have "sharp_pitch d ! 38 = gentle_pitch e ! 38" by simp
  then show False by (simp add: sharp_pitch_def gentle_pitch_def)
qed

text \<open>Property.  A hunt is escalated exactly when the target survived and the ladder is not at its cap; the
  depth then grows by one, never wraps and never exceeds the cap.  The sharper angle is offered
  exactly when the calibration ledger has a number for some exercised concept and every number it
  has is at least 3/4; with no evidence the pitch is the gentle one.\<close>

theorem escalation_pitch:
  assumes "finite (exercises test)"
  shows "case escalate_stakes test out calibration depth max_depth of
      None \<Rightarrow> ho_verdict out = Broke \<or> max_depth \<le> depth
    | Some s \<Rightarrow> ho_verdict out = Survived \<and> unat (ladder_depth s) = unat depth + 1 \<and> ladder_depth s \<le> max_depth \<and>
        pitch s \<in> {sharp_pitch (ladder_depth s), gentle_pitch (ladder_depth s)} \<and>
        (pitch s = sharp_pitch (ladder_depth s) \<longleftrightarrow>
         (\<exists>c \<in> exercises test. calibration (ht_author test) c \<noteq> NaN) \<and>
         (\<forall>c \<in> exercises test. calibration (ht_author test) c = NaN \<or>
            f64_le (Fin (3 / 4)) (calibration (ht_author test) c)))"
proof (cases "escalate_stakes test out calibration depth max_depth")
  case None
  then show ?thesis by (cases "ho_verdict out") (auto simp: escalate_stakes_def Let_def split: if_splits)
next
  case (Some s)
  define cs where "cs = map (calibration (ht_author test)) (sorted_list_of_set (exercises test))"
  have set_cs: "set cs = calibration (ht_author test) ` exercises test" using assms by (simp add: cs_def)
  have sv: "ho_verdict out = Survived" "depth < max_depth"
    using Some by (auto simp: escalate_stakes_def not_le split: if_splits)
  have "unat depth + 1 < 2 ^ 32"
    using sv(2) u32_less [of max_depth] by (simp add: word_less_nat_alt)
  then have d: "unat (depth + 1) = unat depth + 1" by (simp add: unat_word_ariths)
  have "(case reduce_min cs of Some c \<Rightarrow> f64_le (Fin (3 / 4)) c | None \<Rightarrow> False) \<longleftrightarrow>
      (\<exists>y \<in> set cs. y \<noteq> NaN) \<and> list_all (\<lambda>y. y = NaN \<or> f64_le (Fin (3 / 4)) y) cs"
    using f64_le_reduce [of "Fin (3 / 4)"] by (cases cs) simp_all
  moreover have "s = \<lparr>ladder_depth = depth + 1,
       pitch = (if case reduce_min cs of Some c \<Rightarrow> f64_le (Fin (3 / 4)) c | None \<Rightarrow> False
         then sharp_pitch (depth + 1) else gentle_pitch (depth + 1))\<rparr>"
  proof -
    have "\<not> max_depth \<le> depth" using sv(2) by (simp add: not_le)
    with Some sv(1) show ?thesis unfolding escalate_stakes_def cs_def Let_def by simp
  qed
  ultimately show ?thesis
    using Some sv d set_cs pitches_differ [of "depth + 1" "depth + 1"]
    by (auto simp: list_all_iff word_le_nat_alt word_less_nat_alt)
qed

lemma escalation_pitch_witness:
  "\<exists>s. escalate_stakes demo_hunt (hunt_outcome_of demo_hunt {} Survived) (\<lambda>_ _. NaN) 0 3 = Some s \<and> ladder_depth s \<le> 3"
proof -
  have "finite (exercises demo_hunt)" by (simp add: demo_hunt_def)
  from escalation_pitch [OF this, where out = "hunt_outcome_of demo_hunt {} Survived" and calibration = "\<lambda>_ _. NaN"
      and depth = 0 and max_depth = 3]
  show ?thesis by (auto simp: hunt_outcome_of_def split: option.splits)
qed

end
