(* ===== verification/Provider_Ollama.thy ===== *)
theory Provider_Ollama
  imports Agent
begin

text \<open>
  \<open>plugin-provider-ollama/src/lib.rs\<close>: the validation of the base URL, the capped reading of a body,
  the request and the classification of errors.

  Arguments of the model: the URL parser and printer of the \<^verbatim>\<open>url\<close> crate (a parsed URL is the
  record of the accessors the code reads), the HTTP client, whose answer is a status, an advertised
  length and a body that may break off with an error, and the JSON decoders.
\<close>

definition MAX_RESPONSE_BYTES :: nat where
  "MAX_RESPONSE_BYTES = 8 * 1024 * 1024"

record url =
  u_scheme :: string
  u_username :: string
  u_password :: "string option"
  u_host :: "string option"
  u_rest :: string

definition redact_userinfo :: "(url \<Rightarrow> string) \<Rightarrow> url \<Rightarrow> string" where
  "redact_userinfo show_url u = show_url (u\<lparr>u_username := [], u_password := None\<rparr>)"

definition validate_base_url :: "(string \<Rightarrow> string + url) \<Rightarrow> (url \<Rightarrow> string) \<Rightarrow> string \<Rightarrow> string + unit" where
  "validate_base_url parse show_url raw =
     (case parse raw of
        Inl e \<Rightarrow> Inl (''base_url '' @ quoted raw @ '' is not a valid URL: '' @ e)
      | Inr u \<Rightarrow>
          (if u_username u \<noteq> [] \<or> u_password u \<noteq> None then
             Inl (''base_url '' @ quoted (redact_userinfo show_url u) @
               '' is not permitted: must not contain userinfo (user:pass@)'')
           else let host = (case u_host u of Some h \<Rightarrow> h | None \<Rightarrow> []) in
             if u_scheme u = ''https'' then Inr ()
             else if u_scheme u = ''http'' \<and> (host = ''localhost'' \<or> host = ''127.0.0.1'') then Inr ()
             else Inl (''base_url '' @ quoted (redact_userinfo show_url u) @
               '' is not permitted: must be http://localhost, http://127.0.0.1, or https://'')))"

record ollama_provider =
  base_url :: string

definition ollama_new ::
  "(string \<Rightarrow> string + url) \<Rightarrow> (url \<Rightarrow> string) \<Rightarrow> string + unit \<Rightarrow> string \<Rightarrow> string + ollama_provider" where
  "ollama_new parse show_url client raw =
     thenE (validate_base_url parse show_url raw)
       (case client of
          Inl e \<Rightarrow> Inl (''failed to build HTTP client: '' @ e)
        | Inr _ \<Rightarrow> Inr \<lparr>base_url = raw\<rparr>)"

subsection \<open>The HTTP exchange\<close>

text \<open>A body: the bytes that can be read, and whether reading past them fails.\<close>

record http_response =
  hr_status :: nat
  hr_content_length :: "u64 option"
  hr_body :: bytes
  hr_breaks :: bool

datatype send_error = SendTimeout | SendConnect | SendOther

text \<open>\<open>take(n).read_to_end\<close>: reading stops after \<open>n\<close> bytes, before any failure behind them.\<close>

definition read_limited :: "nat \<Rightarrow> http_response \<Rightarrow> bytes option" where
  "read_limited n resp =
     (if n \<le> length (hr_body resp) then Some (take n (hr_body resp))
      else if hr_breaks resp then None else Some (hr_body resp))"

definition read_capped_body :: "http_response \<Rightarrow> provider_error + bytes" where
  "read_capped_body resp =
     (if (case hr_content_length resp of Some len \<Rightarrow> MAX_RESPONSE_BYTES < unat len | None \<Rightarrow> False)
      then Inl (Transport ''response too large'')
      else case read_limited (MAX_RESPONSE_BYTES + 1) resp of
        None \<Rightarrow> Inl (Transport ''response read failed'')
      | Some buf \<Rightarrow>
          (if MAX_RESPONSE_BYTES < length buf then Inl (Transport ''response too large'') else Inr buf))"

record ollama_message =
  om_role :: string
  om_content :: string

record ollama_request =
  or_model :: string
  or_messages :: "ollama_message list"
  or_stream :: bool
  num_predict :: u32

record ollama_response =
  resp_content :: string
  prompt_eval_count :: "u64 option"
  eval_count :: "u64 option"
  resp_done :: bool

fun role_str :: "message_role \<Rightarrow> string" where
  "role_str System = ''system''"
| "role_str User = ''user''"
| "role_str Assistant = ''assistant''"

definition ollama_request_of :: "generation_request \<Rightarrow> ollama_request" where
  "ollama_request_of req = \<lparr>or_model = req_model req,
     or_messages = map (\<lambda>m. \<lparr>om_role = role_str (msg_role m), om_content = msg_content m\<rparr>) (req_messages req),
     or_stream = False, num_predict = max_output_tokens req\<rparr>"

fun send_error_category :: "send_error \<Rightarrow> provider_error" where
  "send_error_category SendTimeout = Transport ''connection timed out''"
| "send_error_category SendConnect = Transport ''connection refused''"
| "send_error_category SendOther = Transport ''network error''"

record 'h ollama_env =
  http_post :: "string \<Rightarrow> ollama_request \<Rightarrow> 'h \<Rightarrow> (send_error + http_response) \<times> 'h"
  http_get :: "string \<Rightarrow> 'h \<Rightarrow> (send_error + http_response) \<times> 'h"
  decode_chat :: "bytes \<Rightarrow> ollama_response option"
  decode_tags :: "bytes \<Rightarrow> (string option list) option"

definition status_error :: "nat \<Rightarrow> provider_error option" where
  "status_error s =
     (if s = 401 then Some Unauthorized
      else if s = 429 then Some RateLimited
      else if 400 \<le> s then Some (Provider (''server returned HTTP '' @ nat_str s))
      else None)"

definition chat_response :: "ollama_response \<Rightarrow> generation_response" where
  "chat_response r =
     \<lparr>content = [TextBlock (strip_control (resp_content r))],
      resp_usage = \<lparr>input_tokens = (case prompt_eval_count r of Some n \<Rightarrow> n | None \<Rightarrow> 0),
        output_tokens = (case eval_count r of Some n \<Rightarrow> n | None \<Rightarrow> 0), cost = None\<rparr>\<rparr>"

definition read_chat :: "'h ollama_env \<Rightarrow> http_response \<Rightarrow> provider_error + generation_response" where
  "read_chat E resp =
     (case status_error (hr_status resp) of
        Some e \<Rightarrow> Inl e
      | None \<Rightarrow>
          (case read_capped_body resp of
             Inl e \<Rightarrow> Inl e
           | Inr buf \<Rightarrow>
               (case decode_chat E buf of
                  None \<Rightarrow> Inl (Transport ''response decode failed'')
                | Some r \<Rightarrow> Inr (chat_response r))))"

definition ollama_generate ::
  "'h ollama_env \<Rightarrow> ollama_provider \<Rightarrow> generation_request \<Rightarrow> ('h, provider_error, generation_response) op" where
  "ollama_generate E p req h =
     (case http_post E (base_url p @ ''/api/chat'') (ollama_request_of req) h of
        (Inl e, h') \<Rightarrow> (Inl (send_error_category e), h')
      | (Inr resp, h') \<Rightarrow> (read_chat E resp, h'))"

definition model_named :: "string \<Rightarrow> model_descriptor" where
  "model_named n = \<lparr>md_id = n, md_description = None, cost_per_input_token = None, cost_per_output_token = None\<rparr>"

text \<open>\<open>decode_tags\<close>: the names of the \<open>models\<close> array, \<open>None\<close> where an element has no name; an absent
  array is an empty one.\<close>

definition ollama_models :: "'h ollama_env \<Rightarrow> ollama_provider \<Rightarrow> 'h \<Rightarrow> model_descriptor list \<times> 'h" where
  "ollama_models E p h =
     (case http_get E (base_url p @ ''/api/tags'') h of
        (Inl e, h') \<Rightarrow> ([], h')
      | (Inr resp, h') \<Rightarrow>
          (case read_capped_body resp of
             Inl e \<Rightarrow> ([], h')
           | Inr buf \<Rightarrow>
               (case decode_tags E buf of
                  None \<Rightarrow> ([], h')
                | Some names \<Rightarrow> (map model_named (List.map_filter (\<lambda>n. n) names), h'))))"

subsection \<open>The base URL\<close>

text \<open>Property.  A base URL is accepted exactly when it parses, carries no user or password, and is
  https or http to exactly localhost or 127.0.0.1.  Every refusal of a URL that parses is built
  from the URL without its user and password, so no password reaches an error; only the refusal of
  a URL that does not parse repeats the raw text.\<close>

theorem validate_base_url_iff:
  "(validate_base_url parse show_url raw = Inr () \<longleftrightarrow>
      (\<exists>u. parse raw = Inr u \<and> u_username u = [] \<and> u_password u = None \<and>
         (u_scheme u = ''https'' \<or> u_scheme u = ''http'' \<and> u_host u \<in> {Some ''localhost'', Some ''127.0.0.1''}))) \<and>
   (case parse raw of
      Inl e \<Rightarrow> validate_base_url parse show_url raw = Inl (''base_url '' @ quoted raw @ '' is not a valid URL: '' @ e)
    | Inr u \<Rightarrow> u_password u = None \<or>
        validate_base_url parse show_url raw = validate_base_url (\<lambda>_. Inr (u\<lparr>u_username := ''user'', u_password := Some pw\<rparr>)) show_url raw')"
proof -
  have "\<exists>h. u_host u = Some h \<or> u_host u = None" for u :: url by (cases "u_host u") auto
  then show ?thesis
    by (auto simp: validate_base_url_def redact_userinfo_def Let_def split: sum.splits option.splits)
qed

subsection \<open>The exchange\<close>

lemma read_capped_ok:
  "read_capped_body resp = Inr buf \<Longrightarrow> length buf \<le> MAX_RESPONSE_BYTES \<and> buf = hr_body resp \<and> \<not> hr_breaks resp"
  by (auto simp: read_capped_body_def read_limited_def not_less split: if_splits option.splits)

lemma read_capped_total:
  assumes "length (hr_body resp) \<le> MAX_RESPONSE_BYTES" "\<not> hr_breaks resp"
    "(case hr_content_length resp of Some len \<Rightarrow> unat len \<le> MAX_RESPONSE_BYTES | None \<Rightarrow> True)"
  shows "read_capped_body resp = Inr (hr_body resp)"
  using assms by (auto simp: read_capped_body_def read_limited_def split: option.splits)

lemma read_limited_bound: "read_limited n resp = Some buf \<Longrightarrow> length buf \<le> n"
  by (auto simp: read_limited_def split: if_splits)

definition decoder_ok :: "'h ollama_env \<Rightarrow> bool" where
  "decoder_ok E \<longleftrightarrow> (\<forall>b r. decode_chat E b = Some r \<longrightarrow> rust_str (resp_content r))"

lemma strip_control_clean: "rust_str s \<Longrightarrow> list_all (\<lambda>c. \<not> dropped_char c) (chars (strip_control s))"
  using strip_chars_clean by (auto simp: list_all_iff chars_strip_control(1))

lemma read_chat_Inr:
  "read_chat E resp = Inr r \<Longrightarrow> hr_status resp < 400 \<and> length (hr_body resp) \<le> MAX_RESPONSE_BYTES \<and>
     (\<exists>d. decode_chat E (hr_body resp) = Some d \<and> r = chat_response d)"
  by (auto simp: read_chat_def status_error_def split: option.splits sum.splits if_splits dest: read_capped_ok)

interpretation ollama: text_provider "ollama_generate E p" "decoder_ok E"
  for E :: "'h ollama_env" and p
proof
  fix req r and h h' :: 'h
  assume E: "decoder_ok E" and gen: "ollama_generate E p req h = (Inr r, h')"
  then obtain resp where "read_chat E resp = Inr r"
    by (auto simp: ollama_generate_def split: prod.splits sum.splits)
  from read_chat_Inr [OF this] obtain d where d: "decode_chat E (hr_body resp) = Some d" "r = chat_response d"
    by blast
  then have "full_text r = strip_control (resp_content d)" by (simp add: full_text_blocks chat_response_def)
  then show "list_all (\<lambda>c. \<not> dropped_char c) (chars (full_text r))"
    using E d(1) strip_control_clean by (auto simp: decoder_ok_def)
qed

text \<open>The texts an error of the provider can carry.\<close>

definition opaque_error :: "provider_error \<Rightarrow> bool" where
  "opaque_error e \<longleftrightarrow> e \<in> {Unauthorized, RateLimited, Transport ''connection timed out'', Transport ''connection refused'',
     Transport ''network error'', Transport ''response too large'', Transport ''response read failed'',
     Transport ''response decode failed''} \<or>
     (\<exists>s. 400 \<le> s \<and> e = Provider (''server returned HTTP '' @ nat_str s))"

text \<open>Claim C40.  A generation sends the messages of the request, unchanged and in order, to the chat
  endpoint below the base URL, without streaming.  It succeeds only with a status below 400 and a
  complete body of at most 8 MiB that decodes; the text is then the decoded one with every control
  character removed.  Nothing longer than 8 MiB and one byte is ever buffered, and an error is one
  of eight fixed categories or the bare status number: no text of the server or of the transport
  reaches it.\<close>

theorem ollama_generate_safe:
  assumes "decoder_ok E" "ollama_generate E p req h = (out, h')"
  shows "\<exists>answer. http_post E (base_url p @ ''/api/chat'') (ollama_request_of req) h = (answer, h') \<and>
    map om_content (or_messages (ollama_request_of req)) = map msg_content (req_messages req) \<and>
    \<not> or_stream (ollama_request_of req) \<and>
    (case out of
       Inl e \<Rightarrow> opaque_error e
     | Inr r \<Rightarrow> list_all (\<lambda>c. \<not> dropped_char c) (chars (full_text r)) \<and>
         (\<exists>resp d. answer = Inr resp \<and> hr_status resp < 400 \<and> length (hr_body resp) \<le> 8 * 1024 * 1024 \<and>
            \<not> hr_breaks resp \<and> decode_chat E (hr_body resp) = Some d \<and>
            full_text r = strip_control (resp_content d))) \<and>
    (case answer of Inl e \<Rightarrow> out = Inl (send_error_category e)
     | Inr resp \<Rightarrow> (case read_limited (MAX_RESPONSE_BYTES + 1) resp of
         None \<Rightarrow> \<not> is_ok out | Some buf \<Rightarrow> length buf \<le> 8 * 1024 * 1024 + 1))"
proof -
  obtain answer where a: "http_post E (base_url p @ ''/api/chat'') (ollama_request_of req) h = (answer, h')"
    and out: "out = (case answer of Inl e \<Rightarrow> Inl (send_error_category e) | Inr resp \<Rightarrow> read_chat E resp)"
    using assms(2) by (auto simp: ollama_generate_def split: prod.splits sum.splits)
  have msgs: "map om_content (or_messages (ollama_request_of req)) = map msg_content (req_messages req)"
    "\<not> or_stream (ollama_request_of req)" by (simp_all add: ollama_request_of_def comp_def)
  have capped: "e \<in> {Transport ''response too large'', Transport ''response read failed''}"
    if "read_capped_body resp = Inl e" for resp e
    using that by (auto simp: read_capped_body_def split: if_splits option.splits)
  have errors: "opaque_error e" if r: "read_chat E resp = Inl e" for resp e
  proof (cases "status_error (hr_status resp)")
    case (Some e0)
    then show ?thesis using r by (auto simp: read_chat_def status_error_def opaque_error_def split: if_splits)
  next
    case None
    then show ?thesis using r capped [of resp]
      by (auto simp: read_chat_def opaque_error_def split: sum.splits option.splits)
  qed
  have ok: "list_all (\<lambda>c. \<not> dropped_char c) (chars (full_text r)) \<and>
      (\<exists>resp d. answer = Inr resp \<and> hr_status resp < 400 \<and> length (hr_body resp) \<le> 8 * 1024 * 1024 \<and>
        \<not> hr_breaks resp \<and> decode_chat E (hr_body resp) = Some d \<and> full_text r = strip_control (resp_content d))"
    if r: "out = Inr r" for r
  proof -
    obtain resp where resp: "answer = Inr resp" "read_chat E resp = Inr r" using out r by (auto split: sum.splits)
    then obtain buf where "read_capped_body resp = Inr buf"
      by (auto simp: read_chat_def split: option.splits sum.splits)
    then have "\<not> hr_breaks resp" using read_capped_ok by blast
    moreover have "list_all (\<lambda>c. \<not> dropped_char c) (chars (full_text r))"
      using ollama.clean_text [OF assms(1)] assms(2) r by blast
    ultimately show ?thesis using resp read_chat_Inr [OF resp(2)]
      by (auto simp: MAX_RESPONSE_BYTES_def full_text_blocks chat_response_def)
  qed
  have "\<not> is_ok (read_chat E resp)" if "read_limited (MAX_RESPONSE_BYTES + 1) resp = None" for resp
    using that by (auto simp: read_chat_def read_capped_body_def split: option.splits)
  moreover have "length buf \<le> 8 * 1024 * 1024 + 1" if "read_limited (MAX_RESPONSE_BYTES + 1) resp = Some buf" for resp buf
    using read_limited_bound [OF that] by (simp add: MAX_RESPONSE_BYTES_def)
  moreover have "opaque_error (send_error_category e)" for e by (cases e) (simp_all add: opaque_error_def)
  ultimately show ?thesis
    using a msgs errors ok out by (intro exI [of _ answer] conjI) (auto split: sum.splits option.splits)
qed

definition demo_ollama :: "unit ollama_env" where
  "demo_ollama = \<lparr>http_post = (\<lambda>u r h. (Inr \<lparr>hr_status = 200, hr_content_length = None, hr_body = [1], hr_breaks = False\<rparr>, h)),
     http_get = (\<lambda>u h. (Inl SendOther, h)),
     decode_chat = (\<lambda>b. Some \<lparr>resp_content = ''hi'', prompt_eval_count = None, eval_count = None, resp_done = True\<rparr>),
     decode_tags = (\<lambda>b. None)\<rparr>"

lemma ollama_generate_safe_witness:
  "\<exists>r. ollama_generate demo_ollama \<lparr>base_url = ''http://localhost:11434''\<rparr>
      \<lparr>req_messages = [], max_output_tokens = 5, req_model = ''m''\<rparr> () = (Inr r, ()) \<and>
    list_all (\<lambda>c. \<not> dropped_char c) (chars (full_text r))"
proof -
  have d: "decoder_ok demo_ollama"
    by (auto simp: decoder_ok_def demo_ollama_def ascii_def intro!: rust_str_ascii)
  let ?x = "ollama_generate demo_ollama \<lparr>base_url = ''http://localhost:11434''\<rparr>
      \<lparr>req_messages = [], max_output_tokens = 5, req_model = ''m''\<rparr> ()"
  have x: "?x = (fst ?x, ())" by (simp add: prod_eq_iff)
  have "is_ok (fst ?x)"
    by (simp add: ollama_generate_def demo_ollama_def read_chat_def status_error_def read_capped_body_def
        read_limited_def MAX_RESPONSE_BYTES_def is_ok_def)
  then obtain r where r: "fst ?x = Inr r" by (auto simp: is_ok_iff)
  with x have "?x = (Inr r, ())" by simp
  moreover from ollama_generate_safe [OF d x] r have "list_all (\<lambda>c. \<not> dropped_char c) (chars (full_text r))" by auto
  ultimately show ?thesis by blast
qed

end
