(* ===== verification/Digest.thy ===== *)
theory Digest
  imports Provider_Ollama F64
begin

text \<open>
  \<open>plugin-digest-generator/src/lib.rs\<close>: the calibration score, the fading of the richness, the
  coherence filter and the assembly of a digest, whose text comes from a provider.
\<close>

definition f64_clamp01 :: "f64 \<Rightarrow> f64" where
  "f64_clamp01 x = (if f64_lt x (Fin 0) then Fin 0 else if f64_lt (Fin 1) x then Fin 1 else x)"

definition digest_calibration :: "f64 \<Rightarrow> f64" where
  "digest_calibration score = (if score = NaN then Fin 0 else f64_clamp01 score)"

datatype richness = Rich | DStandard | Terse

text \<open>The \<open>f64\<close>s nearest to 0.66 and 0.33.\<close>

definition TERSE_FROM :: f64 where
  "TERSE_FROM = Fin (5944751508129055 / 2 ^ 53)"

definition STANDARD_FROM :: f64 where
  "STANDARD_FROM = Fin (5944751508129055 / 2 ^ 54)"

definition for_calibration :: "f64 \<Rightarrow> richness" where
  "for_calibration s =
     (if f64_le TERSE_FROM s then Terse else if f64_le STANDARD_FROM s then DStandard else Rich)"

fun enrichment_budget :: "richness \<Rightarrow> nat" where
  "enrichment_budget Rich = 2 ^ 64 - 1"
| "enrichment_budget DStandard = 2"
| "enrichment_budget Terse = 0"

fun visual_count_of :: "richness \<Rightarrow> nat" where
  "visual_count_of Rich = 2"
| "visual_count_of DStandard = 1"
| "visual_count_of Terse = 0"

record enrichment =
  en_label :: string
  maps_to :: "string list"

record digest_request =
  instruction :: string
  in_play :: "string list"
  candidate_enrichments :: "enrichment list"
  dr_calibration :: f64
  dr_model :: string
  dr_max_output_tokens :: u32
  request_richer :: bool

definition digest_request_new ::
  "string \<Rightarrow> string list \<Rightarrow> enrichment list \<Rightarrow> f64 \<Rightarrow> string \<Rightarrow> digest_request" where
  "digest_request_new instr play cands cal model = \<lparr>instruction = instr, in_play = play,
     candidate_enrichments = cands, dr_calibration = cal, dr_model = model, dr_max_output_tokens = 512,
     request_richer = False\<rparr>"

definition with_richer_form :: "digest_request \<Rightarrow> digest_request" where
  "with_richer_form req = req\<lparr>request_richer := True\<rparr>"

record digest =
  surface_text :: string
  dg_richness :: richness
  visual_count :: nat
  admitted_enrichments :: "enrichment list"
  instruction_first :: bool

datatype digest_error = MissingInstruction | DigestProvider provider_error

definition coherence_filter :: "enrichment list \<Rightarrow> string list \<Rightarrow> enrichment list" where
  "coherence_filter cands play = filter (\<lambda>e. list_ex (\<lambda>c. c \<in> set play) (maps_to e)) cands"

fun style_of :: "richness \<Rightarrow> string" where
  "style_of Rich = ''a rich, multimodal walkthrough''"
| "style_of DStandard = ''a standard words-plus-one-visual brief''"
| "style_of Terse = ''a terse single-representation summary''"

definition surface_prompt :: "digest_request \<Rightarrow> richness \<Rightarrow> enrichment list \<Rightarrow> string" where
  "surface_prompt req r admitted =
     ''Write '' @ style_of r @ '' of the following lesson. Instruction: '' @ instruction req @ [CHR 0x0A] @
     ''Relevant enrichments: '' @
     (if map en_label admitted = [] then ''(none)'' else join '', '' (map en_label admitted)) @ [CHR 0x0A] @
     ''Surface text only; do not add facts beyond those listed.''"

definition surface_request :: "digest_request \<Rightarrow> richness \<Rightarrow> enrichment list \<Rightarrow> generation_request" where
  "surface_request req r admitted =
     \<lparr>req_messages = [msg_system (''You fill digest surface text. You never decide, grade, '' @ ''or add unlisted facts.''),
        msg_user (surface_prompt req r admitted)],
      max_output_tokens = dr_max_output_tokens req, req_model = dr_model req\<rparr>"

definition fill_surface_text ::
  "(generation_request \<Rightarrow> ('p, provider_error, generation_response) op) \<Rightarrow> digest_request \<Rightarrow> richness \<Rightarrow>
     enrichment list \<Rightarrow> ('p, digest_error, string) op" where
  "fill_surface_text gen req r admitted =
     bindE (map_err DigestProvider (gen (surface_request req r admitted))) (\<lambda>resp. retE (full_text resp))"

definition digest_richness :: "digest_request \<Rightarrow> richness" where
  "digest_richness req = (if request_richer req then Rich else for_calibration (dr_calibration req))"

definition digest_admitted :: "digest_request \<Rightarrow> enrichment list" where
  "digest_admitted req =
     (let admitted = coherence_filter (candidate_enrichments req) (in_play req);
          budget = enrichment_budget (digest_richness req)
      in if budget < length admitted then take budget admitted else admitted)"

definition generate_digest ::
  "(generation_request \<Rightarrow> ('p, provider_error, generation_response) op) \<Rightarrow> digest_request \<Rightarrow>
     ('p, digest_error, digest) op" where
  "generate_digest gen req =
     (if blank (instruction req) then throwE MissingInstruction
      else let r = digest_richness req; admitted = digest_admitted req in
        bindE (fill_surface_text gen req r admitted) (\<lambda>s.
        retE \<lparr>surface_text = s, dg_richness = r, visual_count = visual_count_of r,
           admitted_enrichments = admitted, instruction_first = True\<rparr>))"

subsection \<open>Fading\<close>

lemma digest_calibration_range: "\<exists>x. digest_calibration s = Fin x \<and> 0 \<le> x \<and> x \<le> 1"
  by (cases s) (auto simp: digest_calibration_def f64_clamp01_def)

fun rank :: "richness \<Rightarrow> nat" where
  "rank Terse = 0"
| "rank DStandard = 1"
| "rank Rich = 2"

lemma f64_le_trans_Fin: "f64_le (Fin a) x \<Longrightarrow> f64_le x y \<Longrightarrow> f64_le (Fin a) y"
  by (cases x; cases y) auto

lemma fading_monotone: "f64_le s t \<Longrightarrow> rank (for_calibration t) \<le> rank (for_calibration s)"
  using f64_le_trans_Fin [of _ s t] by (auto simp: for_calibration_def TERSE_FROM_def STANDARD_FROM_def)

lemma rank_counts:
  "rank r \<le> rank q \<Longrightarrow> enrichment_budget r \<le> enrichment_budget q \<and> visual_count_of r \<le> visual_count_of q"
  by (cases r; cases q) simp_all

lemma admitted_prefix:
  "digest_admitted req = take (enrichment_budget (digest_richness req))
     (coherence_filter (candidate_enrichments req) (in_play req))"
  by (simp add: digest_admitted_def Let_def not_less)

lemma coherent: "e \<in> set (coherence_filter cands play) \<longleftrightarrow> e \<in> set cands \<and> (\<exists>c \<in> set (maps_to e). c \<in> set play)"
  by (auto simp: coherence_filter_def list_ex_iff)

lemma digest_admitted_coherent:
  "e \<in> set (digest_admitted req) \<Longrightarrow>
     e \<in> set (candidate_enrichments req) \<and> (\<exists>c \<in> set (maps_to e). c \<in> set (in_play req))"
  unfolding admitted_prefix using coherent by (metis in_set_takeD)

context text_provider
begin

lemma digest_text_clean:
  assumes "sane" "generate_digest gen req p = (Inr d, p')"
  shows "list_all (\<lambda>c. \<not> dropped_char c) (chars (surface_text d))"
  using assms clean_text by (auto simp: generate_digest_def fill_surface_text_def Let_def monadE split: if_splits)

end

text \<open>Property.  A digest is assembled exactly when there is an instruction and the provider answers; the
  provider only supplies its text, which is free of control characters for the Ollama provider.
  Richness, visuals and enrichments are fixed before the provider is asked: every enrichment is a
  candidate that maps to a concept in play, in the order of the candidates, and a reader with a
  higher calibration never gets a richer form, more visuals or more enrichments.\<close>

theorem digest_structure:
  assumes "decoder_ok E"
  shows "(case generate_digest (ollama_generate E p) req h of
      (Inl MissingInstruction, h') \<Rightarrow> blank (instruction req) \<and> h' = h
    | (Inl (DigestProvider e), h') \<Rightarrow> \<not> blank (instruction req) \<and>
        ollama_generate E p (surface_request req (digest_richness req) (digest_admitted req)) h = (Inl e, h')
    | (Inr d, h') \<Rightarrow> \<not> blank (instruction req) \<and> instruction_first d \<and>
        list_all (\<lambda>c. \<not> dropped_char c) (chars (surface_text d)) \<and>
        dg_richness d = digest_richness req \<and> visual_count d = visual_count_of (digest_richness req) \<and>
        admitted_enrichments d = digest_admitted req) \<and>
    list_all (\<lambda>e. e \<in> set (candidate_enrichments req) \<and> (\<exists>c \<in> set (maps_to e). c \<in> set (in_play req)))
      (digest_admitted req) \<and>
    prefix (digest_admitted req) (coherence_filter (candidate_enrichments req) (in_play req)) \<and>
    (request_richer req \<or> \<not> f64_le (dr_calibration req) cal \<or>
      rank (digest_richness (req\<lparr>dr_calibration := cal\<rparr>)) \<le> rank (digest_richness req) \<and>
      visual_count_of (digest_richness (req\<lparr>dr_calibration := cal\<rparr>)) \<le> visual_count_of (digest_richness req) \<and>
      length (digest_admitted (req\<lparr>dr_calibration := cal\<rparr>)) \<le> length (digest_admitted req)) \<and>
    digest_richness (with_richer_form req) = Rich"
proof -
  obtain r h' where g: "generate_digest (ollama_generate E p) req h = (r, h')" by fastforce
  have run: "case (r, h') of
      (Inl MissingInstruction, h') \<Rightarrow> blank (instruction req) \<and> h' = h
    | (Inl (DigestProvider e), h') \<Rightarrow> \<not> blank (instruction req) \<and>
        ollama_generate E p (surface_request req (digest_richness req) (digest_admitted req)) h = (Inl e, h')
    | (Inr d, h') \<Rightarrow> \<not> blank (instruction req) \<and> instruction_first d \<and>
        list_all (\<lambda>c. \<not> dropped_char c) (chars (surface_text d)) \<and>
        dg_richness d = digest_richness req \<and> visual_count d = visual_count_of (digest_richness req) \<and>
        admitted_enrichments d = digest_admitted req"
  proof (cases r)
    case (Inl e)
    then show ?thesis using g
      by (cases e) (auto simp: generate_digest_def fill_surface_text_def Let_def monadE split: if_splits)
  next
    case (Inr d)
    have "list_all (\<lambda>c. \<not> dropped_char c) (chars (surface_text d))"
      using ollama.digest_text_clean [OF assms] g Inr by blast
    then show ?thesis using g Inr
      by (auto simp: generate_digest_def fill_surface_text_def Let_def monadE split: if_splits)
  qed
  have fade: "rank (digest_richness (req\<lparr>dr_calibration := cal\<rparr>)) \<le> rank (digest_richness req)"
    if "\<not> request_richer req" "f64_le (dr_calibration req) cal"
    using that fading_monotone by (simp add: digest_richness_def)
  then have "visual_count_of (digest_richness (req\<lparr>dr_calibration := cal\<rparr>)) \<le> visual_count_of (digest_richness req)"
    "length (digest_admitted (req\<lparr>dr_calibration := cal\<rparr>)) \<le> length (digest_admitted req)"
    if "\<not> request_richer req" "f64_le (dr_calibration req) cal"
    using rank_counts [OF fade [OF that]] by (auto simp: admitted_prefix)
  moreover have "list_all (\<lambda>e. e \<in> set (candidate_enrichments req) \<and> (\<exists>c \<in> set (maps_to e). c \<in> set (in_play req)))
      (digest_admitted req)"
    using digest_admitted_coherent by (auto simp: list_all_iff)
  moreover have "prefix (digest_admitted req) (coherence_filter (candidate_enrichments req) (in_play req))"
    by (simp add: admitted_prefix take_is_prefix)
  moreover have "digest_richness (with_richer_form req) = Rich"
    by (simp add: digest_richness_def with_richer_form_def)
  ultimately show ?thesis using g run fade by auto
qed

lemma digest_structure_witness:
  "\<exists>req. digest_richness req = Terse \<and> digest_richness (with_richer_form req) = Rich \<and>
     (case generate_digest (ollama_generate demo_ollama \<lparr>base_url = ''http://localhost''\<rparr>) req () of
        (Inl MissingInstruction, h') \<Rightarrow> blank (instruction req) \<and> h' = ()
      | (Inl (DigestProvider e), h') \<Rightarrow> \<not> blank (instruction req)
      | (Inr d, h') \<Rightarrow> \<not> blank (instruction req) \<and> instruction_first d)"
proof -
  have d: "decoder_ok demo_ollama"
    by (auto simp: decoder_ok_def demo_ollama_def ascii_def intro!: rust_str_ascii)
  let ?req = "digest_request_new ''lesson'' [''auth''] [] (digest_calibration (Fin 1)) ''m''"
  have "digest_richness ?req = Terse"
    by (simp add: digest_richness_def digest_request_new_def digest_calibration_def f64_clamp01_def
        for_calibration_def TERSE_FROM_def)
  with digest_structure [OF d, where req = ?req and h = "()" and p = "\<lparr>base_url = ''http://localhost''\<rparr>"]
  show ?thesis
    by (intro exI [of _ ?req]) (auto split: sum.splits prod.splits digest_error.splits)
qed

end
