(* ===== verification/Main_Program.thy ===== *)
theory Main_Program
  imports Bootstrap Pipeline Provider_Ollama Sandbox
begin

text \<open>
  \<open>src/main.rs\<close>: the program as a whole -- boot, the two databases, the provider, the sandbox
  demonstration and one task through the pipeline.

  \<open>main_env\<close> collects what the process finds around it: the environment variables, the random root
  key, the clocks, the results of connecting to the database files, the HTTP world, wasmtime, the
  text-format assembler (\<^verbatim>\<open>wat\<close>) and the JSON parser.  What is printed is not modelled; the report
  holds the values that are printed.
\<close>

record ('j, 'c, 'r, 'm, 'i, 'h) main_env =
  me_var :: "string \<Rightarrow> string option"
  me_sec :: sec_env
  me_channel :: "('j, 'c, 'r) broadcast"
  me_payload :: "nat \<Rightarrow> 'j"
  me_key :: bytes
  me_boot_clock :: "nat \<Rightarrow> timestamp"
  me_task_clock :: "nat \<Rightarrow> timestamp"
  me_task_id :: uuid
  me_kanban_codec :: kanban_codec
  me_log_codec :: codec
  me_kanban_file :: "string \<Rightarrow> int + (task_row list option \<times> history_row list option)"
  me_kanban_fault :: "int option"
  me_log_file :: "string \<Rightarrow> int + log_row list option"
  me_log_fault :: "int option"
  me_url_parse :: "string \<Rightarrow> string + url"
  me_url_show :: "url \<Rightarrow> string"
  me_http_client :: "string + unit"
  me_ollama :: "'h ollama_env"
  me_engine :: "string + unit"
  me_wasmtime :: "('m, 'i) wasmtime"
  me_wat :: "string \<Rightarrow> string + bytes"
  me_llm :: llm_codec

datatype main_error =
    BootFailed bootstrap_error
  | KanbanFailed rusqlite_error
  | LoggerFailed rusqlite_error
  | SandboxFailed sandbox_error
  | WatFailed string
  | MainPanic string

record ('h) main_report =
  mr_decisions :: nat
  mr_safe_ok :: bool
  mr_isolated :: bool
  mr_outcome :: pipeline_outcome
  mr_state :: "(kanban_db conn, log_db conn, 'h, stdin) pipe_state"

text \<open>\<open>open_kanban\<close> and \<open>open_logger\<close>: on disk when the variable is set to a non-empty path.\<close>

definition open_kanban ::
  "(string \<Rightarrow> string option) \<Rightarrow> (string \<Rightarrow> int + (task_row list option \<times> history_row list option)) \<Rightarrow> int option \<Rightarrow>
   string \<Rightarrow> rusqlite_error + kanban_db conn" where
  "open_kanban var file fault env_var =
     (case var env_var of
        Some path \<Rightarrow> (if path \<noteq> [] then kanban_open file fault path else kanban_open file fault '':memory:'')
      | None \<Rightarrow> kanban_open file fault '':memory:'')"

definition open_logger ::
  "(string \<Rightarrow> string option) \<Rightarrow> (string \<Rightarrow> int + log_row list option) \<Rightarrow> int option \<Rightarrow>
   string \<Rightarrow> rusqlite_error + log_db conn" where
  "open_logger var file fault env_var =
     (case var env_var of
        Some path \<Rightarrow> (if path \<noteq> [] then logger_open file fault path else logger_open file fault '':memory:'')
      | None \<Rightarrow> logger_open file fault '':memory:'')"

text \<open>\<open>default_local\<close> panics when the constructor refuses.\<close>

definition ollama_default_local ::
  "(string \<Rightarrow> string + url) \<Rightarrow> (url \<Rightarrow> string) \<Rightarrow> string + unit \<Rightarrow> string + ollama_provider" where
  "ollama_default_local parse show_url client =
     (case ollama_new parse show_url client ''http://localhost:11434'' of
        Inl e \<Rightarrow> Inl (''localhost URL is always valid: '' @ e)
      | Inr p \<Rightarrow> Inr p)"

text \<open>\<open>WasmtimeSandbox::new\<close>, up to its ticker: an engine and an empty cache.\<close>

definition wasmtime_sandbox_new :: "string + unit \<Rightarrow> sandbox_error + 'm module_cache" where
  "wasmtime_sandbox_new engine = (case engine of Inl e \<Rightarrow> Inl (Compile e) | Inr _ \<Rightarrow> Inr Map.empty)"

definition wat_ok :: string where
  "wat_ok = nl @ ''(module'' @ nl @ ''  (memory (export \"memory\") 1)'' @ nl @
     ''  (func (export \"run\") (param i32 i32) (result i64) i64.const 0)'' @ nl @ '')'' @ nl"

definition bad_wat :: string where
  "bad_wat = nl @ ''(module'' @ nl @ ''  (import \"env\" \"read_file\" (func (param i32) (result i32)))'' @ nl @
     ''  (memory (export \"memory\") 1)'' @ nl @
     ''  (func (export \"run\") (param i32 i32) (result i64) i64.const 0)'' @ nl @ '')'' @ nl"

definition demo_prompt :: string where
  "demo_prompt = ''What is 2 + 2? Answer with {\"status\":\"done\",\"result\":\"4\"}''"

text \<open>The handler the pipeline is built with.\<close>

definition main_escalation :: "(string \<Rightarrow> string option) \<Rightarrow> escalation \<Rightarrow> (stdin, escalation_error, human_response) op" where
  "main_escalation var =
     (if var ''WYRTLOOM_INTERACTIVE'' \<noteq> None then cli_escalate else scripted_escalate Stop)"

definition run_wat ::
  "('j, 'c, 'r, 'm, 'i, 'h) main_env \<Rightarrow> string \<Rightarrow> ('m module_cache, main_error, bool) op" where
  "run_wat M source cache =
     (case me_wat M source of
        Inl e \<Rightarrow> (Inl (WatFailed e), cache)
      | Inr wasm \<Rightarrow>
          (case sandbox_execute (me_wasmtime M) (safe_module_new (sha256 (me_sec M)) wasm) [] default_limits cache of
             (r, cache') \<Rightarrow> (Inr (is_ok r), cache')))"

definition main_task ::
  "('j, 'c, 'r, 'm, 'i, 'h) main_env \<Rightarrow> ollama_provider \<Rightarrow> kanban_db conn \<Rightarrow> log_db conn \<Rightarrow> 'h \<Rightarrow> stdin \<Rightarrow>
   pipeline_outcome \<times> (kanban_db conn, log_db conn, 'h, stdin) pipe_state" where
  "main_task M prov kb lg http inp =
     pipeline_run (me_llm M) (uuid_str (me_kanban_codec M))
       (main_pipeline (me_kanban_codec M) (me_log_codec M) (ollama_generate (me_ollama M) prov) (main_escalation (me_var M)))
       (me_task_clock M) (me_task_id M) ''arithmetic-demo'' demo_prompt
       \<lparr>ps_board = kb, ps_log = lg, ps_provider = http, ps_human = inp\<rparr>"

definition main_run ::
  "('j, 'c, 'r, 'm, 'i, 'h) main_env \<Rightarrow> 'h \<Rightarrow> stdin \<Rightarrow> main_error + 'h main_report" where
  "main_run M http inp =
     (case bootstrap_run (me_sec M) (me_channel M) (me_payload M) (me_key M) (me_boot_clock M) (main_registry ()) of
        Inl e \<Rightarrow> Inl (BootFailed e)
      | Inr sys \<Rightarrow>
     (case open_kanban (me_var M) (me_kanban_file M) (me_kanban_fault M) ''WYRTLOOM_KANBAN_DB'' of
        Inl e \<Rightarrow> Inl (KanbanFailed e)
      | Inr kb \<Rightarrow>
     (case ollama_default_local (me_url_parse M) (me_url_show M) (me_http_client M) of
        Inl e \<Rightarrow> Inl (MainPanic e)
      | Inr prov \<Rightarrow>
     (case open_logger (me_var M) (me_log_file M) (me_log_fault M) ''WYRTLOOM_LOGGER_DB'' of
        Inl e \<Rightarrow> Inl (LoggerFailed e)
      | Inr lg \<Rightarrow>
     (case wasmtime_sandbox_new (me_engine M) of
        Inl e \<Rightarrow> Inl (SandboxFailed e)
      | Inr cache \<Rightarrow>
     (case run_wat M wat_ok cache of
        (Inl e, _) \<Rightarrow> Inl e
      | (Inr safe, cache1) \<Rightarrow>
     (case run_wat M bad_wat cache1 of
        (Inl e, _) \<Rightarrow> Inl e
      | (Inr bad, _) \<Rightarrow>
     (case main_task M prov kb lg http inp of
        (out, s) \<Rightarrow>
          Inr \<lparr>mr_decisions = length (audit_log_snapshot (bs_security sys)), mr_safe_ok = safe,
               mr_isolated = (\<not> bad), mr_outcome = out, mr_state = s\<rparr>))))))))"

subsection \<open>What a task run returns\<close>

text \<open>What the pipeline makes of the provider's answer: whether the task is blocked, and with which text.\<close>

definition llm_verdict :: "llm_codec \<Rightarrow> provider_error + generation_response \<Rightarrow> bool \<times> string" where
  "llm_verdict J answer =
     (case answer of
        Inl e \<Rightarrow> (True, provider_error_str e)
      | Inr resp \<Rightarrow> (case parse_llm_output J (full_text resp) of
            Inr parsed \<Rightarrow> parsed
          | Inl err \<Rightarrow> (True, ''unparseable LLM output: '' @ err)))"

lemma execute_llm_verdict:
  "fst (execute_llm J P now tid prompt s) = llm_verdict J (fst (pl_provider P (task_request (pl_profile P) prompt) (ps_provider s)))"
  by (auto simp: execute_llm_def llm_verdict_def task_request_def Let_def split: prod.splits sum.splits)

lemma agent_moves_keeps: "agent_moves P now tid to why s = (r, s') \<Longrightarrow> ps_provider s' = ps_provider s"
  by (auto simp: agent_moves_def split: prod.splits)

lemma start_task_keeps: "start_task us P clock tid title s = (Inr i, s') \<Longrightarrow> ps_provider s' = ps_provider s"
  by (auto simp: start_task_def apfst_def map_prod_def split: prod.splits sum.splits dest!: agent_moves_keeps)

context pipeline_env
begin

lemma pipeline_run_stop:
  assumes "stores_ok binv linv s" "tid \<notin> dom (bview (ps_board s))"
    and "pl_escalation P = scripted_escalate Stop"
    and "llm_verdict J (fst (pl_provider P (task_request (pl_profile P) prompt) (ps_provider s))) = (bl, msg)"
  shows "fst (pipeline_run J us P clock tid title prompt s) = (if bl then PStopped tid else PDone tid msg)"
proof -
  obtain s1 where st: "start_task us P clock tid title s = (Inr tid, s1)"
    using start_task_run [OF assms(1,2)] by blast
  from start_task_keeps [OF this] have "ps_provider s1 = ps_provider s" .
  then have "fst (execute_llm J P (clock 4) tid prompt s1) = (bl, msg)"
    using assms(4) by (simp add: execute_llm_verdict)
  then obtain s2 where "execute_llm J P (clock 4) tid prompt s1 = ((bl, msg), s2)" by (metis prod.collapse)
  then show ?thesis using st assms(3)
    by (cases bl) (simp_all add: pipeline_run_def handle_blocked_def scripted_escalate_def)
qed

end

subsection \<open>The whole run\<close>

text \<open>What the documentation of wasmtime says of a module with imports: nothing is offered to it, so it
  is not instantiated.\<close>

definition import_refused :: "('m, 'i) wasmtime \<Rightarrow> bytes \<Rightarrow> bool" where
  "import_refused W wasm \<longleftrightarrow>
     (case wt_compile W wasm of
        Inl e \<Rightarrow> True
      | Inr m \<Rightarrow> \<not> is_ok (wt_instantiate W (memory_growing default_limits) table_growing (call_fuel default_limits)
          (deadline_ticks default_limits) m))"

text \<open>A process without configuration: nothing in the environment, an engine, an HTTP client, a URL parser
  that knows \<open>localhost\<close>, and a root key that is not all zero.\<close>

definition plain_env :: "('j, 'c, 'r, 'm, 'i, 'h) main_env \<Rightarrow> bool" where
  "plain_env M \<longleftrightarrow> me_key M \<noteq> replicate 32 0 \<and>
     list_all (\<lambda>v. me_var M v = None \<or> me_var M v = Some []) [''WYRTLOOM_KANBAN_DB'', ''WYRTLOOM_LOGGER_DB''] \<and>
     me_var M ''WYRTLOOM_INTERACTIVE'' = None \<and>
     me_kanban_fault M = None \<and> me_log_fault M = None \<and> is_ok (me_http_client M) \<and> is_ok (me_engine M) \<and>
     (\<exists>u. me_url_parse M ''http://localhost:11434'' = Inr u \<and> u_scheme u = ''http'' \<and> u_username u = [] \<and>
        u_password u = None \<and> u_host u = Some ''localhost'') \<and>
     is_ok (me_wat M wat_ok)"

lemma open_plain:
  "var v = None \<or> var v = Some [] \<Longrightarrow> open_kanban var file None v = Inr empty_board"
  "var v = None \<or> var v = Some [] \<Longrightarrow> open_logger var lfile None v = Inr empty_log"
  by (auto simp: open_kanban_def open_logger_def open_in_memory logger_open_memory)

lemma default_local_ok:
  assumes "parse ''http://localhost:11434'' = Inr u" "u_scheme u = ''http''" "u_username u = []" "u_password u = None"
    "u_host u = Some ''localhost''" "is_ok client"
  shows "ollama_default_local parse show_url client = Inr \<lparr>base_url = ''http://localhost:11434''\<rparr>"
  using assms by (auto simp: ollama_default_local_def ollama_new_def validate_base_url_def is_ok_iff)

lemma sandbox_new_ok: "is_ok engine \<Longrightarrow> wasmtime_sandbox_new engine = Inr Map.empty"
  by (auto simp: wasmtime_sandbox_new_def is_ok_iff)

lemma run_wat_total:
  assumes "me_wat M source = Inr wasm"
  shows "\<exists>cache'. run_wat M source cache =
    (Inr (is_ok (fst (sandbox_execute (me_wasmtime M) (safe_module_new (sha256 (me_sec M)) wasm) [] default_limits cache))), cache')"
  using assms by (auto simp: run_wat_def split: prod.splits)

lemma run_wat_runs:
  assumes "me_wat M source = Inr wasm" "cache_ok (me_wasmtime M) h B cache" "known_module h B (safe_module_new h wasm)"
    and "h = sha256 (me_sec M)"
  shows "\<exists>r cache'. run_wat M source cache = (Inr r, cache') \<and> cache_ok (me_wasmtime M) h B cache'"
  using wasmtime_sandbox.exec_inv [OF assms(2,3), of "[]" default_limits] assms(1,4)
  by (auto simp: run_wat_def split: prod.splits)

lemma refused_not_ok:
  assumes "import_refused W wasm" "cache_ok W h B cache" "known_module h B (safe_module_new h wasm)"
  shows "\<not> is_ok (fst (sandbox_execute W (safe_module_new h wasm) [] default_limits cache))"
proof -
  let ?md = "safe_module_new h wasm"
  have "fst (sandbox_execute W ?md [] default_limits cache) = sandbox_run W ?md [] default_limits"
    by (rule wasmtime_sandbox.exec_run [OF assms(2,3)])
  moreover have "\<not> is_ok (sandbox_run W ?md [] default_limits)"
    using assms(1)
    by (auto simp: sandbox_run_def sandbox_execute_def compile_cached_def run_compiled_def safe_module_new_def
        import_refused_def bindE_def split: sum.splits)
  ultimately show ?thesis by simp
qed

text \<open>Up to the task nothing can go wrong in such a process.\<close>

lemma main_run_plain:
  assumes "plain_env M" "me_wat M wat_ok = Inr good" "me_wat M bad_wat = Inr bad"
    and "inj_on (sha256 (me_sec M)) {good, bad}" "import_refused (me_wasmtime M) bad"
  shows "\<exists>safe. main_run M http inp =
    (case main_task M \<lparr>base_url = ''http://localhost:11434''\<rparr> empty_board empty_log http inp of (out, s') \<Rightarrow>
       Inr \<lparr>mr_decisions = 6, mr_safe_ok = safe, mr_isolated = True, mr_outcome = out, mr_state = s'\<rparr>)"
proof -
  let ?h = "sha256 (me_sec M)" and ?W = "me_wasmtime M"
  let ?prov = "\<lparr>base_url = ''http://localhost:11434''\<rparr>"
  note env = assms(1) [unfolded plain_env_def]
  have boot: "is_ok (bootstrap_run (me_sec M) (me_channel M) (me_payload M) (me_key M) (me_boot_clock M) (main_registry ()))"
    using bootstrap_run_ok_iff main_manifests_load [of "()"] env by blast
  then obtain sys where sys: "bootstrap_run (me_sec M) (me_channel M) (me_payload M) (me_key M) (me_boot_clock M) (main_registry ()) = Inr sys"
    by (auto simp: is_ok_iff)
  then have grants: "length (audit_log_snapshot (bs_security sys)) = 6"
    using bootstrap_run_grants [OF sys] by (simp add: audit_log_snapshot_def main_registry_def)
  have opened: "open_kanban (me_var M) (me_kanban_file M) (me_kanban_fault M) ''WYRTLOOM_KANBAN_DB'' = Inr empty_board"
    "open_logger (me_var M) (me_log_file M) (me_log_fault M) ''WYRTLOOM_LOGGER_DB'' = Inr empty_log"
    using env open_plain by auto
  have prov: "ollama_default_local (me_url_parse M) (me_url_show M) (me_http_client M) = Inr ?prov"
    using env by (elim conjE exE) (rule default_local_ok)
  have engine: "is_ok (me_engine M)" using env by blast
  have ok0: "cache_ok ?W ?h {good, bad} Map.empty" by (simp add: cache_ok_def)
  have known: "known_module ?h {good, bad} (safe_module_new ?h good)" "known_module ?h {good, bad} (safe_module_new ?h bad)"
    using assms(4) by (simp_all add: known_module_def safe_module_new_def)
  obtain safe cache1 where safe: "run_wat M wat_ok Map.empty = (Inr safe, cache1)" "cache_ok ?W ?h {good, bad} cache1"
    using run_wat_runs [OF assms(2) ok0 known(1) refl] by blast
  obtain cache2 where "run_wat M bad_wat cache1 = (Inr (is_ok (fst (sandbox_execute ?W (safe_module_new ?h bad) [] default_limits cache1))), cache2)"
    using run_wat_total [OF assms(3)] by blast
  then have bad: "run_wat M bad_wat cache1 = (Inr False, cache2)"
    using refused_not_ok [OF assms(5) safe(2) known(2)] by simp
  show ?thesis
    using sys opened prov safe(1) bad grants
    by (simp add: main_run_def sandbox_new_ok [OF engine] split: prod.split)
qed

text \<open>Claim C6.  The program as a whole, started without configuration: it boots with the six grants of
  its plugins, reports the module with a host import as isolated, and its report of the task is the
  truth -- \<open>Done\<close> with the result exactly when the provider's answer holds a response object with
  status \<open>done\<close>, \<open>Stopped\<close> in every other case, failures of the provider included; the board then
  holds this one task, in the state reported, and the log at most one entry, for this task.\<close>

theorem main_reports_truth:
  assumes "plain_env M" "kan_ok (me_kanban_codec M)" "codec_ok (me_log_codec M)"
    and "me_wat M wat_ok = Inr good" "me_wat M bad_wat = Inr bad"
    and "inj_on (sha256 (me_sec M)) {good, bad}" "import_refused (me_wasmtime M) bad"
  shows "\<exists>rep t. main_run M http inp = Inr rep \<and> mr_decisions rep = 6 \<and> mr_isolated rep \<and>
    mr_outcome rep = (case llm_verdict (me_llm M) (fst (ollama_generate (me_ollama M)
        \<lparr>base_url = ''http://localhost:11434''\<rparr> (task_request default_v01 demo_prompt) http)) of
        (True, _) \<Rightarrow> PStopped (me_task_id M)
      | (False, result) \<Rightarrow> PDone (me_task_id M) result) \<and>
    kanban_view (me_kanban_codec M) (ps_board (mr_state rep)) = [me_task_id M \<mapsto> t] \<and>
    t_state t = (case mr_outcome rep of PDone _ _ \<Rightarrow> Done | _ \<Rightarrow> Blocked) \<and>
    (\<exists>e. cl_task e = me_task_id M \<and>
       logger_view (me_log_codec M) (ps_log (mr_state rep)) = (if storable e then [e] else []))"
proof -
  let ?K = "me_kanban_codec M" and ?L = "me_log_codec M"
  let ?prov = "\<lparr>base_url = ''http://localhost:11434''\<rparr>"
  let ?s = "\<lparr>ps_board = empty_board, ps_log = empty_log, ps_provider = http, ps_human = inp\<rparr>"
  let ?P = "main_pipeline ?K ?L (ollama_generate (me_ollama M) ?prov) (main_escalation (me_var M))"
  obtain out s' where task: "main_task M ?prov empty_board empty_log http inp = (out, s')" by fastforce
  obtain safe where run: "main_run M http inp =
      Inr \<lparr>mr_decisions = 6, mr_safe_ok = safe, mr_isolated = True, mr_outcome = out, mr_state = s'\<rparr>"
    using main_run_plain [OF assms(1,4-7), of http inp] unfolding task by auto
  have stores: "stores_ok (kanban_inv ?K) (logger_inv ?L) ?s" "me_task_id M \<notin> dom (kanban_view ?K (ps_board ?s))"
    using assms(2,3) by (simp_all add: stores_ok_def)
  have "main_escalation (me_var M) = scripted_escalate Stop" using assms(1) by (simp add: plain_env_def main_escalation_def)
  then have P: "pl_escalation ?P = scripted_escalate Stop" "pl_provider ?P = ollama_generate (me_ollama M) ?prov"
      "pl_profile ?P = default_v01" by (simp_all add: main_pipeline_def)
  obtain bl msg where verdict: "llm_verdict (me_llm M) (fst (ollama_generate (me_ollama M) ?prov (task_request default_v01 demo_prompt) http)) = (bl, msg)"
    by fastforce
  have out: "out = (if bl then PStopped (me_task_id M) else PDone (me_task_id M) msg)"
    using sqlite_pipeline.pipeline_run_stop [OF stores P(1), of "me_llm M" demo_prompt bl msg] task verdict P(2,3)
    by (simp add: main_task_def) (metis fst_conv)
  define e where "e = call_entry ?P (me_task_clock M 4) (me_task_id M) (model_answer ?P demo_prompt http)"
  have e: "cl_task e = me_task_id M" "logger_view ?L (ps_log s') = (if storable e then [e] else [])"
    using sqlite_pipeline.pipeline_run_outcome [OF stores task [unfolded main_task_def], THEN conjunct2, THEN conjunct2]
    by (simp_all add: e_def Let_def)
  from sqlite_pipeline.pipeline_run_outcome [OF stores task [unfolded main_task_def]] obtain t where
    "kanban_view ?K (ps_board s') = [me_task_id M \<mapsto> t]" "t_state t = (if bl then Blocked else Done)"
    using out by (auto split: if_splits)
  then show ?thesis using run out verdict e
    by (intro exI [of _ "\<lparr>mr_decisions = 6, mr_safe_ok = safe, mr_isolated = True, mr_outcome = out, mr_state = s'\<rparr>"] exI [of _ t])
      (auto split: if_splits)
qed

text \<open>A process whose provider cannot be reached, and whose engine refuses the second module.\<close>

definition offline :: "unit ollama_env" where
  "offline = demo_ollama\<lparr>http_post := (\<lambda>u r h. (Inl SendConnect, h))\<rparr>"

definition demo_main :: "(nat, nat event list, nat, bytes, bytes, unit) main_env" where
  "demo_main = \<lparr>me_var = Map.empty, me_sec = demo_env, me_channel = list_channel, me_payload = id, me_key = [1],
     me_boot_clock = (\<lambda>_. 0), me_task_clock = int, me_task_id = 7,
     me_kanban_codec = demo_kanban_codec, me_log_codec = demo_codec,
     me_kanban_file = (\<lambda>_. Inl 14), me_kanban_fault = None, me_log_file = (\<lambda>_. Inl 14), me_log_fault = None,
     me_url_parse = (\<lambda>_. Inr \<lparr>u_scheme = ''http'', u_username = [], u_password = None, u_host = Some ''localhost'', u_rest = []\<rparr>),
     me_url_show = (\<lambda>_. []), me_http_client = Inr (), me_ollama = offline, me_engine = Inr (),
     me_wasmtime = echo_guest\<lparr>wt_instantiate := (\<lambda>g t f d m. if m = [1] then Inr [0] else Inl ''unknown import'')\<rparr>,
     me_wat = (\<lambda>s. Inr [if s = wat_ok then 1 else 2]), me_llm = demo_llm_codec\<rparr>"

lemma main_reports_truth_witness:
  "\<exists>rep. main_run demo_main () [] = Inr rep \<and> mr_outcome rep = PStopped 7 \<and> mr_isolated rep \<and> mr_decisions rep = 6"
proof -
  have texts: "wat_ok \<noteq> bad_wat" by (simp add: wat_ok_def bad_wat_def)
  have "plain_env demo_main" by (simp add: plain_env_def demo_main_def numeral_eq_Suc)
  moreover have "kan_ok (me_kanban_codec demo_main)" "codec_ok (me_log_codec demo_main)"
    by (simp_all add: demo_main_def demo_kan_ok demo_codec_ok)
  moreover have "me_wat demo_main wat_ok = Inr [1]" "me_wat demo_main bad_wat = Inr [2]"
    using texts by (simp_all add: demo_main_def)
  moreover have "inj_on (sha256 (me_sec demo_main)) {[1], [2]}" by (simp add: demo_main_def demo_env_def)
  moreover have "import_refused (me_wasmtime demo_main) [2]"
    by (simp add: import_refused_def demo_main_def echo_guest_def)
  ultimately obtain rep where rep: "main_run demo_main () [] = Inr rep" "mr_decisions rep = 6" "mr_isolated rep"
    "mr_outcome rep = (case llm_verdict (me_llm demo_main) (fst (ollama_generate (me_ollama demo_main)
        \<lparr>base_url = ''http://localhost:11434''\<rparr> (task_request default_v01 demo_prompt) ())) of
        (True, _) \<Rightarrow> PStopped (me_task_id demo_main)
      | (False, result) \<Rightarrow> PDone (me_task_id demo_main) result)"
    using main_reports_truth [of demo_main "[1]" "[2]" "()" "[]"] by blast
  moreover have "mr_outcome rep = PStopped 7"
    unfolding rep(4) by (simp add: demo_main_def offline_def ollama_generate_def llm_verdict_def)
  ultimately show ?thesis by blast
qed

end
