(* ===== verification/Gate_Threads.thy ===== *)
theory Gate_Threads
  imports Gate_Engine
begin

text \<open>
  Gates under concurrency.  The board, the logger and the security module are shared between threads,
  and \<open>guarded_transition\<close> of \<open>plugin-gate-engine/src/lib.rs\<close> takes their locks one call at a time: it
  validates the token, asks the board for the task, moves the task and writes the audit entry in four
  separate critical sections.  \<open>gate_step\<close> interleaves the sections of any number of such calls with
  whatever else the program does to the board, the log and the security module between them.

  \<open>gs_moves\<close> is a trace for the statements: the thread of every move a gate has made, with the board
  before and after it.
\<close>

record gate_call =
  gc_token :: "gate_token option"
  gc_task :: uuid
  gc_to :: task_state
  gc_actor :: string
  gc_reason :: "string option"

datatype gate_pc =
    Waiting
  | Validated gate_token
  | Looked gate_token
  | Logging call_outcome "gate_error + unit"
  | Returned "gate_error + unit"

record ('b, 'l) gate_sys =
  gs_board :: 'b
  gs_log :: 'l
  gs_sec :: security_module
  gs_pc :: "nat \<Rightarrow> gate_pc"
  gs_moves :: "(nat \<times> 'b \<times> 'b) list"

subsection \<open>The sections of a call\<close>

text \<open>Steps 1 to 3: the token is present, fits the request and carries a valid stamp.\<close>

definition gate_admit :: "sec_env \<Rightarrow> security_module \<Rightarrow> gate_call \<Rightarrow> gate_pc" where
  "gate_admit E m gc =
     (case gc_token gc of
        None \<Rightarrow> Logging (Failed ''ungated transition refused: no approval token'') (Inl TokenRequired)
      | Some token \<Rightarrow>
          if gt_to token \<noteq> gc_to gc \<or> gt_task token \<noteq> gc_task gc \<or> gt_actor token \<noteq> gc_actor gc then
            Logging (Failed (''token/request mismatch: token authorises '' @ state_str (gt_from token) @
              arrow @ state_str (gt_to token) @ '' for '' @ gt_actor token @ '', requested '' @ arrow @
              state_str (gc_to gc) @ '' for '' @ gc_actor gc)) (Inl InvalidToken)
          else case validate_token E m token of
            Inl e \<Rightarrow> Logging (Failed ''approval token failed HMAC validation'') (Inl e)
          | Inr _ \<Rightarrow> Validated token)"

text \<open>Step 4: the board's current state is the one the token was issued from.\<close>

definition gate_look :: "'b kanban_board \<Rightarrow> (uuid \<Rightarrow> string) \<Rightarrow> gate_call \<Rightarrow> gate_token \<Rightarrow> 'b \<Rightarrow> gate_pc \<times> 'b" where
  "gate_look K us gc token b =
     (case kb_get K (gc_task gc) b of
        (Inl e, b1) \<Rightarrow>
          (Logging (Failed (''board lookup failed during guarded transition: '' @ kanban_error_str us e))
            (Inl (GateKanban e)), b1)
      | (Inr t, b1) \<Rightarrow>
          (if t_state t \<noteq> gt_from token then
             Logging (Failed (''stage mismatch: board is '' @ state_str (t_state t) @
               '', token issued from '' @ state_str (gt_from token)))
               (Inl (StageMismatch (t_state t) (gt_from token)))
           else Looked token, b1))"

text \<open>Step 5: the move itself.\<close>

definition gate_move :: "'b kanban_board \<Rightarrow> (uuid \<Rightarrow> string) \<Rightarrow> timestamp \<Rightarrow> gate_call \<Rightarrow> 'b \<Rightarrow> gate_pc \<times> 'b" where
  "gate_move K us now gc b =
     (case kb_transition K now (gc_task gc) (gc_to gc) (gc_actor gc) (gc_reason gc) b of
        (Inr _, b1) \<Rightarrow> (Logging Completed (Inr ()), b1)
      | (Inl e, b1) \<Rightarrow>
          (Logging (Failed (''board rejected guarded transition '' @ arrow @ state_str (gc_to gc) @ '': '' @
             kanban_error_str us e)) (Inl (GateKanban e)), b1))"

text \<open>\<open>audit(\<dots>)?\<close>, then the result.\<close>

definition gate_log ::
  "'l call_logger \<Rightarrow> timestamp \<Rightarrow> gate_call \<Rightarrow> call_outcome \<Rightarrow> gate_error + unit \<Rightarrow> 'b \<times> 'l \<Rightarrow> gate_pc \<times> 'b \<times> 'l" where
  "gate_log L now gc outcome r s =
     (let (q, s1) = gate_audit L now (gc_task gc) outcome s in (Returned (thenE q r), s1))"

definition moved_now :: "gate_pc \<Rightarrow> bool" where
  "moved_now p \<longleftrightarrow> p = Logging Completed (Inr ())"

text \<open>\<open>calls\<close> are the arguments of the calls, \<open>others\<close> is what else may be done to the board.\<close>

inductive gate_step ::
  "sec_env \<Rightarrow> 'b kanban_board \<Rightarrow> 'l call_logger \<Rightarrow> (uuid \<Rightarrow> string) \<Rightarrow> (nat \<Rightarrow> gate_call) \<Rightarrow> ('b \<Rightarrow> kanban_op \<Rightarrow> bool) \<Rightarrow>
   ('b, 'l) gate_sys \<Rightarrow> ('b, 'l) gate_sys \<Rightarrow> bool"
  for E K L us calls others where
  admit: "gs_pc s i = Waiting \<Longrightarrow>
    gate_step E K L us calls others s (s\<lparr>gs_pc := (gs_pc s)(i := gate_admit E (gs_sec s) (calls i))\<rparr>)"
| look: "gs_pc s i = Validated t \<Longrightarrow> gate_look K us (calls i) t (gs_board s) = (p, b) \<Longrightarrow>
    gate_step E K L us calls others s (s\<lparr>gs_pc := (gs_pc s)(i := p), gs_board := b\<rparr>)"
| move: "gs_pc s i = Looked t \<Longrightarrow> gate_move K us now (calls i) (gs_board s) = (p, b) \<Longrightarrow>
    gate_step E K L us calls others s (s\<lparr>
      gs_moves := gs_moves s @ (if moved_now p then [(i, gs_board s, b)] else []),
      gs_pc := (gs_pc s)(i := p), gs_board := b\<rparr>)"
| log: "gs_pc s i = Logging oc r \<Longrightarrow> gate_log L now (calls i) oc r (gs_board s, gs_log s) = (p, b, l) \<Longrightarrow>
    gate_step E K L us calls others s (s\<lparr>gs_pc := (gs_pc s)(i := p), gs_board := b, gs_log := l\<rparr>)"
| board: "others (gs_board s) c \<Longrightarrow>
    gate_step E K L us calls others s (s\<lparr>gs_board := board_step K c (gs_board s)\<rparr>)"
| record_log: "cl_provider e \<noteq> GATE_AUDIT_PROVIDER \<Longrightarrow>
    gate_step E K L us calls others s (s\<lparr>gs_log := snd (lg_record L e (gs_log s))\<rparr>)"
| security: "gate_step E K L us calls others s (s\<lparr>gs_sec := sec_step E (gs_sec s) x\<rparr>)"

inductive_cases gate_step_elim: "gate_step E K L us calls others s s'"

lemmas gate_stepE = gate_step_elim [consumes 1, case_names admit look move log board record_log security]

subsection \<open>One call alone\<close>

text \<open>Writing the entry and returning: what follows a decision.\<close>

lemma log_last:
  assumes "gs_pc s i = Logging oc r" "gate_audit L now (gc_task (calls i)) oc (gs_board s, gs_log s) = (q, (b', l'))"
  shows "gate_step E K L us calls others s
    (s\<lparr>gs_pc := (gs_pc s)(i := Returned (thenE q r)), gs_board := b', gs_log := l'\<rparr>)"
  using gate_step.log [of s i oc r L now calls] assms by (simp add: gate_log_def)

lemma refuse_sections:
  assumes "gs_pc s i = Logging (Failed why) (Inl e)"
    and "refuse L now (gc_task (calls i)) why e (gs_board s, gs_log s) = (q, (b', l'))"
  shows "gate_step E K L us calls others s (s\<lparr>gs_pc := (gs_pc s)(i := Returned q), gs_board := b', gs_log := l'\<rparr>)"
proof -
  obtain r b l where a: "gate_audit L now (gc_task (calls i)) (Failed why) (gs_board s, gs_log s) = (r, (b, l))"
    by (metis prod.exhaust)
  have "(thenE r (Inl e), (b, l)) = (q, (b', l'))"
    using assms(2) unfolding refuse_def bindE_def a by (cases r) auto
  then show ?thesis using log_last [where calls = calls, OF assms(1) a] by simp
qed

text \<open>From each decision on, the call runs to its result in one more section.\<close>

lemma refused_run:
  assumes "gs_pc s i = Logging (Failed why) (Inl e)"
    and "refuse L now (gc_task (calls i)) why e (gs_board s, gs_log s) = (q, (b', l'))"
    and "(gate_step E K L us calls others)\<^sup>*\<^sup>* s0 s"
  shows "(gate_step E K L us calls others)\<^sup>*\<^sup>* s0
    (s\<lparr>gs_pc := (gs_pc s)(i := Returned q), gs_board := b', gs_log := l'\<rparr>)"
  using refuse_sections [where calls = calls, OF assms(1,2)] assms(3) by (rule rtranclp.rtrancl_into_rtrancl [rotated])

lemma alone_run:
  fixes E K L us calls others and s :: "('b, 'l) gate_sys"
  assumes wait: "gs_pc s i = Waiting"
    and run: "guarded_transition E (gs_sec s) L K us now_board now_log (gc_token (calls i)) (gc_task (calls i)) (gc_to (calls i))
      (gc_actor (calls i)) (gc_reason (calls i)) (gs_board s, gs_log s) = (q, (b', l'))"
  shows "\<exists>ms. (gate_step E K L us calls others)\<^sup>*\<^sup>* s
    (s\<lparr>gs_moves := ms, gs_pc := (gs_pc s)(i := Returned q), gs_board := b', gs_log := l'\<rparr>)"
proof -
  let ?step = "gate_step E K L us calls others" and ?gc = "calls i"
  let ?at = "\<lambda>p b ms. s\<lparr>gs_moves := ms, gs_pc := (gs_pc s)(i := p), gs_board := b\<rparr>"
  have refused: ?thesis
    if "?step\<^sup>*\<^sup>* s (?at (Logging (Failed why) (Inl e)) b ms)" "refuse L now_log (gc_task ?gc) why e (b, gs_log s) = (q, (b', l'))"
    for why e b ms
  proof -
    have "?step\<^sup>*\<^sup>* s ((?at (Logging (Failed why) (Inl e)) b ms)\<lparr>gs_pc := (gs_pc (?at (Logging (Failed why) (Inl e)) b ms))(i := Returned q),
        gs_board := b', gs_log := l'\<rparr>)"
      using refused_run [where now = now_log and calls = calls and i = i and q = q and b' = b' and l' = l' and why = why and e = e and L = L, OF _ _ that(1)] that(2) by simp
    then show ?thesis by (intro exI [of _ ms]) simp
  qed
  have admit: "?step\<^sup>*\<^sup>* s (?at (gate_admit E (gs_sec s) ?gc) (gs_board s) (gs_moves s))"
    using gate_step.admit [OF wait, of E K L us calls others] by (intro r_into_rtranclp) simp
  show ?thesis
  proof (cases "\<exists>t. gate_admit E (gs_sec s) ?gc = Validated t")
    case False
    then obtain why e where p: "gate_admit E (gs_sec s) ?gc = Logging (Failed why) (Inl e)"
      and r: "refuse L now_log (gc_task ?gc) why e (gs_board s, gs_log s) = (q, (b', l'))"
      using run by (auto simp: gate_admit_def guarded_transition_def split: option.splits if_splits sum.splits)
    show ?thesis by (rule refused [OF admit [unfolded p] r])
  next
    case True
    then obtain t where t: "gate_admit E (gs_sec s) ?gc = Validated t" by blast
    obtain p2 b1 where look: "gate_look K us ?gc t (gs_board s) = (p2, b1)" by fastforce
    have looked: "?step\<^sup>*\<^sup>* s (?at p2 b1 (gs_moves s))"
      using rtranclp.rtrancl_into_rtrancl [OF admit [unfolded t] gate_step.look [of _ i t K us calls p2 b1]] look by simp
    show ?thesis
    proof (cases "p2 = Looked t")
      case False
      then obtain why e where p: "p2 = Logging (Failed why) (Inl e)"
        and r: "refuse L now_log (gc_task ?gc) why e (b1, gs_log s) = (q, (b', l'))"
        using run t look
        by (auto simp: gate_admit_def gate_look_def guarded_transition_def on_board_def
            split: option.splits if_splits sum.splits prod.splits)
      show ?thesis by (rule refused [OF looked [unfolded p] r])
    next
      case True
      obtain p3 b2 where move: "gate_move K us now_board ?gc b1 = (p3, b2)" by fastforce
      let ?ms = "gs_moves s @ (if moved_now p3 then [(i, b1, b2)] else [])"
      have moved: "?step\<^sup>*\<^sup>* s (?at p3 b2 ?ms)"
        using rtranclp.rtrancl_into_rtrancl [OF looked [unfolded True] gate_step.move [of _ i t K us now_board calls p3 b2]] move
        by (simp cong: if_cong)
      show ?thesis
      proof (cases "p3 = Logging Completed (Inr ())")
        case False
        then obtain why e where p: "p3 = Logging (Failed why) (Inl e)"
          and r: "refuse L now_log (gc_task ?gc) why e (b2, gs_log s) = (q, (b', l'))"
          using run t look True move
          by (auto simp: gate_admit_def gate_look_def gate_move_def guarded_transition_def on_board_def
              split: option.splits if_splits sum.splits prod.splits)
        show ?thesis by (rule refused [OF moved [unfolded p] r])
      next
        case ok: True
        then have "gate_audit L now_log (gc_task ?gc) Completed (b2, gs_log s) = (q, (b', l'))"
          using run t look True move
          by (auto simp: gate_admit_def gate_look_def gate_move_def guarded_transition_def on_board_def
              split: option.splits if_splits sum.splits prod.splits)
        then have "?step (?at p3 b2 ?ms) ((?at p3 b2 ?ms)\<lparr>gs_pc := (gs_pc (?at p3 b2 ?ms))(i := Returned (thenE q (Inr ()))),
            gs_board := b', gs_log := l'\<rparr>)"
          by (intro log_last) (simp_all add: ok)
        moreover have "thenE q (Inr ()) = q" by (cases q) simp_all
        ultimately show ?thesis using moved by (intro exI [of _ ?ms]) (simp add: rtranclp.rtrancl_into_rtrancl)
      qed
    qed
  qed
qed

subsection \<open>Any number of calls, interleaved\<close>

definition admitted :: "sec_env \<Rightarrow> security_module \<Rightarrow> gate_call \<Rightarrow> gate_token \<Rightarrow> bool" where
  "admitted E m gc t \<longleftrightarrow> gc_token gc = Some t \<and> gt_task t = gc_task gc \<and> gt_to t = gc_to gc \<and> gt_actor t = gc_actor gc \<and>
     is_valid E m (gt_stamp t) (token_message t)"

definition granted_move :: "sec_env \<Rightarrow> security_module \<Rightarrow> gate_call \<Rightarrow> board \<Rightarrow> board \<Rightarrow> bool" where
  "granted_move E m gc b b' \<longleftrightarrow> (\<exists>t now. admitted E m gc t \<and>
     spec_transition now (gc_task gc) (gc_to gc) (gc_actor gc) (gc_reason gc) b = (Inr (), b'))"

definition returned :: "gate_pc \<Rightarrow> bool" where
  "returned p \<longleftrightarrow> (\<exists>q. p = Returned q)"

definition gate_made :: "call_log \<Rightarrow> bool" where
  "gate_made e \<longleftrightarrow> cl_provider e = GATE_AUDIT_PROVIDER"

definition pc_ok :: "sec_env \<Rightarrow> security_module \<Rightarrow> gate_call \<Rightarrow> gate_pc \<Rightarrow> bool" where
  "pc_ok E m gc p \<longleftrightarrow>
     (case p of
        Validated t \<Rightarrow> admitted E m gc t
      | Looked t \<Rightarrow> admitted E m gc t
      | Logging oc r \<Rightarrow> r = Inr () \<longrightarrow> oc = Completed
      | _ \<Rightarrow> True)"

definition has_moved :: "gate_pc \<Rightarrow> bool" where
  "has_moved p \<longleftrightarrow> moved_now p \<or> p = Returned (Inr ())"

lemma pc_simps [simp]:
  "\<not> returned Waiting" "\<not> returned (Validated t)" "\<not> returned (Looked t)" "\<not> returned (Logging oc r)" "returned (Returned q)"
  "\<not> has_moved Waiting" "\<not> has_moved (Validated t)" "\<not> has_moved (Looked t)"
  "has_moved (Logging oc r) \<longleftrightarrow> oc = Completed \<and> r = Inr ()" "has_moved (Returned q) \<longleftrightarrow> q = Inr ()"
  "pc_ok E m gc Waiting" "pc_ok E m gc (Validated t) \<longleftrightarrow> admitted E m gc t" "pc_ok E m gc (Looked t) \<longleftrightarrow> admitted E m gc t"
  "pc_ok E m gc (Logging oc r) \<longleftrightarrow> (r = Inr () \<longrightarrow> oc = Completed)" "pc_ok E m gc (Returned q)"
  "moved_now (Logging oc r) \<longleftrightarrow> oc = Completed \<and> r = Inr ()"
  by (auto simp: returned_def has_moved_def pc_ok_def moved_now_def)

text \<open>A stamp that is valid later was valid at the start: the key stays, and nothing is un-revoked.\<close>

definition sec_after :: "security_module \<Rightarrow> security_module \<Rightarrow> bool" where
  "sec_after m m' \<longleftrightarrow> k_session m' = k_session m \<and> invalidated m \<subseteq> invalidated m'"

lemma sec_after_valid: "sec_after m m' \<Longrightarrow> is_valid E m' st c \<Longrightarrow> is_valid E m st c"
  by (auto simp: sec_after_def is_valid_def compute_mac_def split: if_splits)

lemma sec_after_step: "sec_after m m' \<Longrightarrow> sec_after m (sec_step E m' x)"
  using sec_step_keeps [where E = E and m = m' and x = x] by (auto simp: sec_after_def)

lemma gate_admit_cases:
  assumes "sec_after m0 m"
  obtains (refused) why e where "gate_admit E m gc = Logging (Failed why) (Inl e)"
  | (admitted) t where "gate_admit E m gc = Validated t" "admitted E m0 gc t"
proof (cases "gate_admit E m gc")
  case (Validated t)
  then have "admitted E m gc t"
    by (auto simp: gate_admit_def admitted_def validate_token_iff split: option.splits if_splits sum.splits)
  then show ?thesis using admitted Validated sec_after_valid [OF assms] by (auto simp: admitted_def)
qed (auto simp: gate_admit_def intro: refused split: option.splits if_splits sum.splits)

definition gates_inv ::
  "sec_env \<Rightarrow> security_module \<Rightarrow> (nat \<Rightarrow> gate_call) \<Rightarrow> ('b \<Rightarrow> bool) \<Rightarrow> ('b \<Rightarrow> board) \<Rightarrow> ('l \<Rightarrow> bool) \<Rightarrow> ('l \<Rightarrow> call_log list) \<Rightarrow>
   nat \<Rightarrow> ('b, 'l) gate_sys \<Rightarrow> bool" where
  "gates_inv E m calls binv bview linv lview n s \<longleftrightarrow>
     binv (gs_board s) \<and> linv (gs_log s) \<and> sec_after m (gs_sec s) \<and> (\<forall>i. pc_ok E m (calls i) (gs_pc s i)) \<and>
     finite {i. returned (gs_pc s i)} \<and>
     length (filter gate_made (lview (gs_log s))) = n + card {i. returned (gs_pc s i)} \<and>
     (\<forall>i. i \<in> fst ` set (gs_moves s) \<longleftrightarrow> has_moved (gs_pc s i)) \<and> distinct (map fst (gs_moves s)) \<and>
     (\<forall>(i, b, b') \<in> set (gs_moves s). granted_move E m (calls i) (bview b) (bview b'))"

lemma returned_upd: "\<not> returned p \<Longrightarrow> \<not> returned (f i) \<Longrightarrow> {j. returned ((f(i := p)) j)} = {j. returned (f j)}"
  by auto

lemma returned_upd_new: "\<not> returned (f i) \<Longrightarrow> {j. returned ((f(i := Returned q)) j)} = insert i {j. returned (f j)}"
  by auto

text \<open>Which calls change the state of a task.\<close>

fun restates :: "uuid \<Rightarrow> kanban_op \<Rightarrow> bool" where
  "restates tid (KCreate i now nt) = (i = tid)"
| "restates tid (KTransition now i to a r) = (i = tid)"
| "restates tid (KBlock now i a br) = (i = tid)"
| "restates tid (KClaim i w) = False"

definition state_of :: "board \<Rightarrow> uuid \<Rightarrow> task_state option" where
  "state_of b tid = map_option t_state (b tid)"

lemma state_of_step: "\<not> restates tid c \<Longrightarrow> state_of (spec_step c b) tid = state_of b tid"
  by (cases c) (auto simp: state_of_def spec_create_def spec_transition_def spec_claim_def spec_block_def
      split: option.splits sum.splits)

text \<open>The state a gate looked at, and the states its moves left.\<close>

definition lone_inv :: "gate_call \<Rightarrow> ('b \<Rightarrow> board) \<Rightarrow> nat \<Rightarrow> ('b, 'l) gate_sys \<Rightarrow> bool" where
  "lone_inv gc bview i s \<longleftrightarrow>
     (\<forall>t. gs_pc s i = Looked t \<longrightarrow> gc_token gc = Some t \<and> state_of (bview (gs_board s)) (gc_task gc) = Some (gt_from t)) \<and>
     (\<forall>b b'. (i, b, b') \<in> set (gs_moves s) \<longrightarrow> state_of (bview b) (gc_task gc) = map_option gt_from (gc_token gc))"

context gate_env
begin

lemma gate_look_keeps:
  assumes "binv b" "gate_look K us gc t b = (p, b')"
  shows "binv b' \<and> bview b' = bview b \<and>
    (p = Looked t \<and> map_option t_state (bview b (gc_task gc)) = Some (gt_from t) \<or> (\<exists>why e. p = Logging (Failed why) (Inl e)))"
proof -
  obtain g b1 where get: "kb_get K (gc_task gc) b = (g, b1)" by fastforce
  have b1: "binv b1" "bview b1 = bview b" "g = ok_or (NotFound (gc_task gc)) (bview b (gc_task gc))"
    using board.get_law [OF assms(1) get] by (auto simp: spec_get_def)
  then show ?thesis
    using assms(2) unfolding gate_look_def get by (cases "bview b (gc_task gc)") (auto split: if_splits)
qed

lemma gate_move_keeps:
  assumes "binv b" "gate_move K us now gc b = (p, b')"
  shows "binv b' \<and>
    (p = Logging Completed (Inr ()) \<and>
       spec_transition now (gc_task gc) (gc_to gc) (gc_actor gc) (gc_reason gc) (bview b) = (Inr (), bview b') \<or>
     (\<exists>why e. p = Logging (Failed why) (Inl e)) \<and> bview b' = bview b)"
proof -
  obtain r b1 where tr: "kb_transition K now (gc_task gc) (gc_to gc) (gc_actor gc) (gc_reason gc) b = (r, b1)" by fastforce
  have "binv b1" "(r, bview b1) = spec_transition now (gc_task gc) (gc_to gc) (gc_actor gc) (gc_reason gc) (bview b)"
    using board.transition_law [OF assms(1) tr] by auto
  moreover have "bview b1 = bview b" if "r = Inl e" for e
    using calculation(2) that spec_transition_err by metis
  ultimately show ?thesis using assms(2) tr by (cases r) (auto simp: gate_move_def)
qed

lemma gate_log_keeps:
  assumes "linv l" "gate_log L now gc oc r (b, l) = (p, (b', l'))"
  shows "p = Returned r \<and> b' = b \<and> linv l' \<and>
    length (filter gate_made (lview l')) = Suc (length (filter gate_made (lview l)))"
proof -
  obtain q b1 l1 where a: "gate_audit L now (gc_task gc) oc (b, l) = (q, (b1, l1))" by (metis prod.exhaust)
  from gate_audit_run [OF assms(1) a] assms(2) a show ?thesis
    by (auto simp: gate_log_def gate_made_def gate_entry_def)
qed

lemma record_keeps:
  assumes "linv l" "cl_provider e \<noteq> GATE_AUDIT_PROVIDER"
  shows "linv (snd (lg_record L e l)) \<and> filter gate_made (lview (snd (lg_record L e l))) = filter gate_made (lview l)"
proof (cases "storable e")
  case True
  then show ?thesis using logs.record_law [OF assms(1) True] assms(2) by (cases "lg_record L e l") (auto simp: gate_made_def)
next
  case False
  then show ?thesis using logs.refuse_law [OF assms(1) False] by (cases "lg_record L e l") auto
qed

text \<open>A section that neither moves a task nor returns leaves the counts alone.\<close>

lemma inv_quiet:
  assumes "gates_inv E m calls binv bview linv lview n s" "\<not> returned (gs_pc s i)" "\<not> has_moved (gs_pc s i)"
    and "\<not> returned p" "\<not> has_moved p" "pc_ok E m (calls i) p" "binv b"
  shows "gates_inv E m calls binv bview linv lview n (s\<lparr>gs_pc := (gs_pc s)(i := p), gs_board := b\<rparr>)"
  using assms returned_upd [of p "gs_pc s" i] by (simp add: gates_inv_def)

lemma inv_moved:
  assumes "gates_inv E m calls binv bview linv lview n s" "gs_pc s i = Looked t" "binv b"
    and "granted_move E m (calls i) (bview (gs_board s)) (bview b)"
  shows "gates_inv E m calls binv bview linv lview n (s\<lparr>gs_moves := gs_moves s @ [(i, gs_board s, b)],
      gs_pc := (gs_pc s)(i := Logging Completed (Inr ())), gs_board := b\<rparr>)"
  using assms returned_upd [of "Logging Completed (Inr ())" "gs_pc s" i]
  by (auto simp: gates_inv_def)

lemma inv_returned:
  assumes "gates_inv E m calls binv bview linv lview n s" "gs_pc s i = Logging oc r" "linv l"
    and "length (filter gate_made (lview l)) = Suc (length (filter gate_made (lview (gs_log s))))"
  shows "gates_inv E m calls binv bview linv lview n (s\<lparr>gs_pc := (gs_pc s)(i := Returned r), gs_log := l\<rparr>)"
proof -
  have "pc_ok E m (calls i) (gs_pc s i)" using assms(1) by (simp add: gates_inv_def)
  then have "has_moved (Returned r) = has_moved (gs_pc s i)" using assms(2) by auto
  then show ?thesis using assms returned_upd_new [of "gs_pc s" i r] by (auto simp: gates_inv_def)
qed

lemma inv_step:
  assumes "gates_inv E m calls binv bview linv lview n s" "gate_step E K L us calls others s s'"
    and "\<And>b c. binv b \<Longrightarrow> others b c \<Longrightarrow> fresh_run [c] (dom (bview b))"
  shows "gates_inv E m calls binv bview linv lview n s'"
  using assms(2)
proof (cases rule: gate_stepE)
  case (admit i)
  have "sec_after m (gs_sec s)" "binv (gs_board s)" using assms(1) by (auto simp: gates_inv_def)
  then show ?thesis
    using inv_quiet [OF assms(1), of i "gate_admit E (gs_sec s) (calls i)" "gs_board s"] admit
    by (cases rule: gate_admit_cases [of m "gs_sec s" E "calls i"]) auto
next
  case (look i t p b)
  have "binv (gs_board s)" "pc_ok E m (calls i) (gs_pc s i)" using assms(1) by (auto simp: gates_inv_def)
  then show ?thesis
    using gate_look_keeps [OF _ look(3)] inv_quiet [OF assms(1), of i p b] look by auto
next
  case (move i t now p b)
  have "binv (gs_board s)" "admitted E m (calls i) t" using assms(1) move(2) by (auto simp: gates_inv_def dest: spec [of _ i])
  then show ?thesis
    using gate_move_keeps [OF _ move(3)] inv_quiet [OF assms(1), of i p b] inv_moved [OF assms(1) move(2)] move
    by (auto simp: granted_move_def)
next
  case (log i oc r now p b l)
  have "linv (gs_log s)" using assms(1) by (simp add: gates_inv_def)
  from gate_log_keeps [OF this log(3)] show ?thesis
    using inv_returned [OF assms(1) log(2)] log by auto
next
  case (board c)
  have "binv (gs_board s)" using assms(1) by (simp add: gates_inv_def)
  then have "binv (board_step K c (gs_board s))"
    using board.step_view(1) [of "gs_board s" c "[]"] assms(3) board by auto
  then show ?thesis using assms(1) board by (simp add: gates_inv_def)
next
  case (record_log e)
  then show ?thesis using assms(1) record_keeps [of "gs_log s" e] by (simp add: gates_inv_def)
next
  case (security x)
  then show ?thesis using assms(1) sec_after_step by (simp add: gates_inv_def)
qed

lemma inv_run:
  assumes "(gate_step E K L us calls others)\<^sup>*\<^sup>* s s'" "gates_inv E m calls binv bview linv lview n s"
    and "\<And>b c. binv b \<Longrightarrow> others b c \<Longrightarrow> fresh_run [c] (dom (bview b))"
  shows "gates_inv E m calls binv bview linv lview n s'"
  using assms(1,2) by (induction rule: rtranclp_induct) (auto intro: inv_step assms(3))

text \<open>While nothing else touches the task, it is still where the gate saw it.\<close>

lemma lone_step:
  assumes "gates_inv E m calls binv bview linv lview n s" "gate_step E K L us calls others s s'"
    and "\<And>b c. binv b \<Longrightarrow> others b c \<Longrightarrow> fresh_run [c] (dom (bview b)) \<and> \<not> restates (gc_task (calls i)) c"
    and "\<And>j. j \<noteq> i \<Longrightarrow> gc_task (calls j) \<noteq> gc_task (calls i)"
    and "lone_inv (calls i) bview i s"
  shows "lone_inv (calls i) bview i s'"
proof -
  have inv: "binv (gs_board s)" "pc_ok E m (calls j) (gs_pc s j)" for j
    using assms(1) by (auto simp: gates_inv_def)
  show ?thesis
    using assms(2)
  proof (cases rule: gate_stepE)
    case (admit j)
    then show ?thesis using assms(5)
      by (auto simp: lone_inv_def gate_admit_def split: option.splits if_splits sum.splits)
  next
    case (look j t p b)
    from gate_look_keeps [OF inv(1) look(3)] show ?thesis
      using assms(5) look inv(2) [of j] by (auto simp: lone_inv_def state_of_def admitted_def)
  next
    case (move j t now p b)
    have same: "state_of (bview b) (gc_task (calls i)) = state_of (bview (gs_board s)) (gc_task (calls i))" if "j \<noteq> i"
    proof -
      have "bview b = spec_step (KTransition now (gc_task (calls j)) (gc_to (calls j)) (gc_actor (calls j)) (gc_reason (calls j)))
          (bview (gs_board s)) \<or> bview b = bview (gs_board s)"
        using gate_move_keeps [OF inv(1) move(3)] by auto
      then show ?thesis using assms(4) [OF that] by (elim disjE) (simp_all add: state_of_step del: spec_step.simps)
    qed
    from gate_move_keeps [OF inv(1) move(3)] show ?thesis
      using assms(5) move same by (cases "j = i") (auto simp: lone_inv_def)
  next
    case (log j oc r now p b l)
    have "linv (gs_log s)" using assms(1) by (simp add: gates_inv_def)
    from gate_log_keeps [OF this log(3)] show ?thesis using assms(5) log by (auto simp: lone_inv_def)
  next
    case (board c)
    then have "fresh_run [c] (dom (bview (gs_board s)))" "\<not> restates (gc_task (calls i)) c" using assms(3) inv(1) by blast+
    then show ?thesis using board.step_view(2) [OF inv(1)] assms(5) board by (simp add: lone_inv_def state_of_step)
  qed (use assms(5) in \<open>auto simp: lone_inv_def\<close>)
qed

lemma lone_run:
  assumes "(gate_step E K L us calls others)\<^sup>*\<^sup>* s s'" "gates_inv E m calls binv bview linv lview n s" "lone_inv (calls i) bview i s"
    and "\<And>b c. binv b \<Longrightarrow> others b c \<Longrightarrow> fresh_run [c] (dom (bview b)) \<and> \<not> restates (gc_task (calls i)) c"
    and "\<And>j. j \<noteq> i \<Longrightarrow> gc_task (calls j) \<noteq> gc_task (calls i)"
  shows "lone_inv (calls i) bview i s'"
  using assms(1-3)
proof (induction rule: rtranclp_induct)
  case (step t u)
  have "gates_inv E m calls binv bview linv lview n t" by (rule inv_run [OF step.hyps(1) step.prems(1)]) (use assms(4) in blast)
  from lone_step [OF this step.hyps(2) assms(4,5)] show ?case using step.IH step.prems by blast
qed

text \<open>Between the look and the move another caller can take the task somewhere else.\<close>

lemma other_move:
  assumes "binv (gs_board s)" "others (gs_board s) (KTransition now tid to a r)"
    and "spec_transition now tid to a r (bview (gs_board s)) = (Inr (), v)"
  shows "\<exists>s'. gate_step E K L us calls others s s' \<and> gs_pc s' = gs_pc s \<and> gs_moves s' = gs_moves s \<and> gs_log s' = gs_log s \<and>
    binv (gs_board s') \<and> bview (gs_board s') = v"
  using gate_step.board [where others = others and s = s, OF assms(2), of E K L us calls] board.step_view [OF assms(1), of "KTransition now tid to a r" "[]"] assms(3)
  by (intro exI [of _ "s\<lparr>gs_board := board_step K (KTransition now tid to a r) (gs_board s)\<rparr>"]) simp

lemma race_run:
  assumes "binv (gs_board s)" "linv (gs_log s)" "gs_pc s i = Waiting"
    and t: "admitted E (gs_sec s) (calls i) t" "gt_from t = Blocked" "gt_to t = Running"
    and task: "bview (gs_board s) tid = Some tk" "tid = gc_task (calls i)" "t_state tk = Blocked" "t_depends_on tk = []"
    and others: "\<And>b to. others b (KTransition now tid to a None)"
  shows "\<exists>s' b b'. (gate_step E K L us calls others)\<^sup>*\<^sup>* s s' \<and> gs_pc s' i = Returned (Inr ()) \<and>
    gs_moves s' = gs_moves s @ [(i, b, b')] \<and> state_of (bview b) tid = Some Ready"
proof -
  let ?step = "gate_step E K L us calls others" and ?gc = "calls i"
  let ?v1 = "(bview (gs_board s))(tid \<mapsto> moved now Todo a None tk)"
  let ?v2 = "?v1(tid \<mapsto> moved now Ready a None (moved now Todo a None tk))"
  have "gate_admit E (gs_sec s) ?gc = Validated t"
    using t(1) by (auto simp: gate_admit_def admitted_def validate_token_def token_message_def Let_def)
  then obtain s1 where s1: "?step s s1" "gs_pc s1 i = Validated t" "gs_board s1 = gs_board s" "gs_log s1 = gs_log s" "gs_moves s1 = gs_moves s"
    using gate_step.admit [OF assms(3), of E K L us calls others] by fastforce
  obtain p b where look: "gate_look K us ?gc t (gs_board s1) = (p, b)" by fastforce
  have b: "binv b" "bview b = bview (gs_board s)" "p = Looked t"
  proof -
    from gate_look_keeps [OF _ look] have *: "binv b" "bview b = bview (gs_board s)"
      "p = Looked t \<or> (\<exists>why e. p = Logging (Failed why) (Inl e))" using s1 assms(1) by auto
    show "binv b" "bview b = bview (gs_board s)" by (rule *)+
    obtain g b1 where get: "kb_get K tid (gs_board s1) = (g, b1)" by fastforce
    have "g = Inr tk" using board.get_law [OF _ get] assms(1) s1(3) task(1) by (simp add: spec_get_def)
    then show "p = Looked t" using look get task t(2) by (simp add: gate_look_def)
  qed
  let ?s2 = "s1\<lparr>gs_pc := (gs_pc s1)(i := Looked t), gs_board := b\<rparr>"
  have s2: "?step s1 ?s2" using gate_step.look [where calls = calls, OF s1(2) look] b(3) by simp
  have "spec_transition now tid Todo a None (bview (gs_board ?s2)) = (Inr (), ?v1)"
    using task b(2) by (simp add: spec_transition_def)
  from other_move [where others = others and E = E and us = us and calls = calls, OF _ others this] obtain s3 where s3: "?step ?s2 s3" "gs_pc s3 i = Looked t" "gs_moves s3 = gs_moves s"
    "gs_log s3 = gs_log s" "binv (gs_board s3)" "bview (gs_board s3) = ?v1"
    using b(1) s1(4,5) by auto
  have "spec_transition now tid Ready a None (bview (gs_board s3)) = (Inr (), ?v2)"
    using task(4) s3(6) by (simp add: spec_transition_def moved_def)
  from other_move [where others = others and E = E and us = us and calls = calls, OF s3(5) others this] obtain s4 where s4: "?step s3 s4" "gs_pc s4 i = Looked t" "gs_moves s4 = gs_moves s"
    "gs_log s4 = gs_log s" "binv (gs_board s4)" "bview (gs_board s4) = ?v2"
    using s3 by auto
  obtain p5 b5 where move: "gate_move K us now ?gc (gs_board s4) = (p5, b5)" by fastforce
  have "gc_to ?gc = Running" using t by (simp add: admitted_def)
  then have "is_ok (fst (spec_transition now (gc_task ?gc) (gc_to ?gc) (gc_actor ?gc) (gc_reason ?gc) (bview (gs_board s4))))"
    unfolding s4(6) by (simp add: spec_transition_def task(2)) (simp add: moved_def)
  moreover obtain r b' where tr: "kb_transition K now (gc_task ?gc) (gc_to ?gc) (gc_actor ?gc) (gc_reason ?gc) (gs_board s4) = (r, b')"
    by fastforce
  ultimately have "is_ok r" using board.transition_law [OF s4(5) tr] by (metis fst_conv)
  then have p5: "p5 = Logging Completed (Inr ())" using move tr by (auto simp: gate_move_def is_ok_iff)
  let ?s5 = "s4\<lparr>gs_moves := gs_moves s @ [(i, gs_board s4, b5)], gs_pc := (gs_pc s4)(i := p5), gs_board := b5\<rparr>"
  have s5: "?step s4 ?s5" using gate_step.move [where calls = calls, OF s4(2) move, of E L others] p5 s4(3) by simp
  obtain p6 b6 l6 where log: "gate_log L now ?gc Completed (Inr ()) (b5, gs_log s4) = (p6, (b6, l6))" by (metis prod.exhaust)
  have "linv (gs_log s4)" using assms(2) s4(4) by simp
  from gate_log_keeps [OF this log] have p6: "p6 = Returned (Inr ())" by simp
  let ?s6 = "?s5\<lparr>gs_pc := (gs_pc ?s5)(i := p6), gs_board := b6, gs_log := l6\<rparr>"
  have s6: "?step ?s5 ?s6" using gate_step.log [of ?s5 i Completed "Inr ()" L now calls p6 b6 l6] p5 log by simp
  have "?step\<^sup>*\<^sup>* s ?s6" using s1(1) s2 s3(1) s4(1) s5 s6 by (meson converse_rtranclp_into_rtranclp rtranclp.rtrancl_refl)
  moreover have "state_of (bview (gs_board s4)) tid = Some Ready" by (simp add: s4(6) state_of_def moved_def)
  ultimately show ?thesis using p6 by (intro exI [of _ ?s6] exI [of _ "gs_board s4"] exI [of _ b5]) simp
qed

end

lemma gates_inv_start:
  assumes "binv (gs_board s)" "linv (gs_log s)" "\<forall>i. gs_pc s i = Waiting" "gs_moves s = []"
  shows "gates_inv E (gs_sec s) calls binv bview linv lview (length (filter gate_made (lview (gs_log s)))) s"
  using assms by (simp add: gates_inv_def sec_after_def)

lemma lone_inv_start: "\<forall>i. gs_pc s i = Waiting \<Longrightarrow> gs_moves s = [] \<Longrightarrow> lone_inv gc bview i s"
  by (simp add: lone_inv_def)

text \<open>What else may be done to the board: anything, as long as new tasks get new identifiers.\<close>

definition any_call :: "'x kanban_codec_scheme \<Rightarrow> kanban_db conn \<Rightarrow> kanban_op \<Rightarrow> bool" where
  "any_call cdc b c \<longleftrightarrow> fresh_run [c] (dom (kanban_view cdc b))"

definition gates_start :: "security_module \<Rightarrow> kanban_db conn \<Rightarrow> (kanban_db conn, log_db conn) gate_sys" where
  "gates_start m b = \<lparr>gs_board = b, gs_log = empty_log, gs_sec = m, gs_pc = (\<lambda>_. Waiting), gs_moves = []\<rparr>"

text \<open>A concrete run: task 7 in the backlog, and one call with a token to release it.\<close>

lemma demo_log: "logger_inv demo_codec empty_log"
  using demo_codec_ok by simp

definition demo_calls :: "gate_token \<Rightarrow> nat \<Rightarrow> gate_call" where
  "demo_calls t j = \<lparr>gc_token = Some t, gc_task = (if j = 0 then 7 else 8), gc_to = gt_to t, gc_actor = ''a'', gc_reason = None\<rparr>"

lemma demo_calls_task: "gc_task (demo_calls t j) = (if j = 0 then 7 else 8)"
  by (simp add: demo_calls_def)

lemma demo_run:
  fixes others
  assumes "\<And>b c. kanban_inv demo_kanban_codec b \<Longrightarrow> others b c \<Longrightarrow> fresh_run [c] (dom (kanban_view demo_kanban_codec b))"
  defines "m \<equiv> with_key demo_env [1] policy_permissive"
  shows "\<exists>t s'. gt_from t = Backlog \<and>
    (gate_step demo_env (sqlite_kanban demo_kanban_codec) (sqlite_logger demo_codec) demo_uuid_str (demo_calls t) others)\<^sup>*\<^sup>*
      (gates_start m backlog_board) s' \<and>
    gs_pc s' = (\<lambda>_. Waiting)(0 := Returned (Inr ())) \<and> (\<exists>b b'. (0, b, b') \<in> set (gs_moves s'))"
proof -
  let ?s = "gates_start m backlog_board" and ?K = "sqlite_kanban demo_kanban_codec" and ?L = "sqlite_logger demo_codec"
  obtain t where t: "gt_task t = 7" "gt_from t = Backlog" "gt_to t = Todo" "gt_actor t = ''a''"
    "is_valid demo_env m (gt_stamp t) (token_message t)"
    using demo_token [of m] by (auto simp: m_def)
  obtain q b' l' where run: "guarded_transition demo_env m ?L ?K demo_uuid_str 8 8 (Some t) 7 Todo ''a'' None
      (backlog_board, empty_log) = (q, (b', l'))"
    by (metis prod.exhaust)
  have "fst (guarded_transition demo_env m ?L ?K demo_uuid_str 8 8 (Some t) 7 Todo ''a'' None (backlog_board, empty_log)) = Inr ()"
    unfolding sqlite_gate.guarded_accepts [OF backlog_board(1) demo_log] backlog_board(2) using t
    by (simp add: spec_transition_def) (simp add: created_def)
  then have q: "q = Inr ()" using run by simp
  have "\<exists>ms. (gate_step demo_env ?K ?L demo_uuid_str (demo_calls t) others)\<^sup>*\<^sup>* ?s
      (?s\<lparr>gs_moves := ms, gs_pc := (gs_pc ?s)(0 := Returned q), gs_board := b', gs_log := l'\<rparr>)"
    by (rule alone_run [where now_board = 8 and now_log = 8]) (use run t in \<open>simp_all add: gates_start_def demo_calls_def\<close>)
  then obtain s' where s': "(gate_step demo_env ?K ?L demo_uuid_str (demo_calls t) others)\<^sup>*\<^sup>* ?s s'"
    "gs_pc s' = (\<lambda>_. Waiting)(0 := Returned (Inr ()))"
    using q by (force simp: gates_start_def)
  have "gates_inv demo_env m (demo_calls t) (kanban_inv demo_kanban_codec) (kanban_view demo_kanban_codec)
      (logger_inv demo_codec) (logger_view demo_codec) (length (filter gate_made (logger_view demo_codec empty_log))) ?s"
    using backlog_board(1) demo_log by (simp add: gates_inv_def gates_start_def sec_after_def)
  from sqlite_gate.inv_run [OF s'(1) this assms(1)] have "0 \<in> fst ` set (gs_moves s')"
    using s'(2) by (auto simp: gates_inv_def)
  then obtain x where "x \<in> set (gs_moves s')" "fst x = 0" by auto
  then have "(0, fst (snd x), snd (snd x)) \<in> set (gs_moves s')" by (metis prod.collapse)
  then show ?thesis using s' t(2) by blast
qed

subsection \<open>Properties\<close>

text \<open>Claim C7.  Gates under concurrency.  Whatever the interleaving of any number of guarded
  transitions with each other and with the rest of the program: a call that returns \<open>Ok\<close> has moved its
  task exactly once and a call that returns an error has not moved it; every move a gate makes is the
  requested legal transition of the task as it then is, and rests on a token for exactly this task,
  target and actor whose stamp was not revoked when the calls began; and at every moment the log
  holds exactly one gate entry more for each call that has returned, so no decision goes unlogged.\<close>

theorem concurrent_gates_sound:
  assumes "(gate_step E (sqlite_kanban cdc) (sqlite_logger cdc') us calls (any_call cdc))\<^sup>*\<^sup>* s s'"
    and "kanban_inv cdc (gs_board s)" "logger_inv cdc' (gs_log s)" "\<forall>i. gs_pc s i = Waiting" "gs_moves s = []"
  shows "distinct (map fst (gs_moves s')) \<and>
    (gs_pc s' i = Returned (Inr ()) \<longrightarrow> i \<in> fst ` set (gs_moves s')) \<and>
    (gs_pc s' i = Returned (Inl e) \<longrightarrow> i \<notin> fst ` set (gs_moves s')) \<and>
    (\<forall>(j, b, b') \<in> set (gs_moves s'). \<exists>t now.
       gc_token (calls j) = Some t \<and> gt_task t = gc_task (calls j) \<and> gt_to t = gc_to (calls j) \<and> gt_actor t = gc_actor (calls j) \<and>
       is_valid E (gs_sec s) (gt_stamp t) (token_message t) \<and>
       spec_transition now (gc_task (calls j)) (gc_to (calls j)) (gc_actor (calls j)) (gc_reason (calls j)) (kanban_view cdc b) =
         (Inr (), kanban_view cdc b')) \<and>
    length (filter gate_made (logger_view cdc' (gs_log s'))) =
      length (filter gate_made (logger_view cdc' (gs_log s))) + card {i. returned (gs_pc s' i)}"
proof -
  let ?inv = "gates_inv E (gs_sec s) calls (kanban_inv cdc) (kanban_view cdc) (logger_inv cdc') (logger_view cdc')
      (length (filter gate_made (logger_view cdc' (gs_log s))))"
  have "?inv s" by (rule gates_inv_start) (simp_all add: assms(2-5))
  then have "?inv s'" by (rule sqlite_gate.inv_run [OF assms(1)]) (simp add: any_call_def)
  then show ?thesis by (auto simp: gates_inv_def granted_move_def admitted_def)
qed

lemma concurrent_gates_sound_witness:
  "\<exists>t s'. (gate_step demo_env (sqlite_kanban demo_kanban_codec) (sqlite_logger demo_codec) demo_uuid_str (demo_calls t)
        (any_call demo_kanban_codec))\<^sup>*\<^sup>* (gates_start (with_key demo_env [1] policy_permissive) backlog_board) s' \<and>
     0 \<in> fst ` set (gs_moves s') \<and> length (filter gate_made (logger_view demo_codec (gs_log s'))) = 1"
proof -
  let ?s = "gates_start (with_key demo_env [1] policy_permissive) backlog_board"
  obtain t s' where run: "(gate_step demo_env (sqlite_kanban demo_kanban_codec) (sqlite_logger demo_codec) demo_uuid_str (demo_calls t)
      (any_call demo_kanban_codec))\<^sup>*\<^sup>* ?s s'" and pc: "gs_pc s' = (\<lambda>_. Waiting)(0 := Returned (Inr ()))"
    using demo_run [of "any_call demo_kanban_codec"] by (auto simp: any_call_def)
  have "{i. returned (gs_pc s' i)} = {0}" using pc by (auto split: if_splits)
  then show ?thesis
    using concurrent_gates_sound [OF run, of 0] run pc backlog_board(1) demo_log
    by (intro exI [of _ t] exI [of _ s']) (auto simp: gates_start_def)
qed

text \<open>Property.  If nothing else changes the state of a call's task while the calls run -- no other gate
  call names the task, and the rest of the program neither moves nor blocks it -- then the move
  leaves the very state the token was issued from, whatever else happens in between.\<close>

theorem undisturbed_gate_leaves_source:
  assumes "(gate_step E (sqlite_kanban cdc) (sqlite_logger cdc') us calls
      (\<lambda>b c. any_call cdc b c \<and> \<not> restates (gc_task (calls i)) c))\<^sup>*\<^sup>* s s'"
    and "kanban_inv cdc (gs_board s)" "logger_inv cdc' (gs_log s)" "\<forall>i. gs_pc s i = Waiting" "gs_moves s = []"
    and "\<And>j. j \<noteq> i \<Longrightarrow> gc_task (calls j) \<noteq> gc_task (calls i)"
    and "(i, b, b') \<in> set (gs_moves s')"
  shows "\<exists>t. gc_token (calls i) = Some t \<and> state_of (kanban_view cdc b) (gc_task (calls i)) = Some (gt_from t)"
proof -
  let ?inv = "gates_inv E (gs_sec s) calls (kanban_inv cdc) (kanban_view cdc) (logger_inv cdc') (logger_view cdc')
      (length (filter gate_made (logger_view cdc' (gs_log s))))"
  have start: "?inv s" by (rule gates_inv_start) (simp_all add: assms(2-5))
  have "lone_inv (calls i) (kanban_view cdc) i s'"
    by (rule sqlite_gate.lone_run [OF assms(1) start lone_inv_start [OF assms(4,5)]]) (use assms(6) in \<open>auto simp: any_call_def\<close>)
  then have state: "state_of (kanban_view cdc b) (gc_task (calls i)) = map_option gt_from (gc_token (calls i))"
    using assms(7) by (auto simp: lone_inv_def)
  have "?inv s'"
    by (rule sqlite_gate.inv_run [OF assms(1) start]) (simp add: any_call_def)
  then have "\<exists>t. gc_token (calls i) = Some t"
    using assms(7) by (force simp: gates_inv_def granted_move_def admitted_def)
  then show ?thesis using state by auto
qed

lemma undisturbed_gate_leaves_source_witness:
  "\<exists>t s' b b'. (0, b, b') \<in> set (gs_moves s') \<and> state_of (kanban_view demo_kanban_codec b) 7 = Some Backlog \<and>
     (gate_step demo_env (sqlite_kanban demo_kanban_codec) (sqlite_logger demo_codec) demo_uuid_str (demo_calls t)
       (\<lambda>b c. any_call demo_kanban_codec b c \<and> \<not> restates 7 c))\<^sup>*\<^sup>*
       (gates_start (with_key demo_env [1] policy_permissive) backlog_board) s'"
proof -
  let ?s = "gates_start (with_key demo_env [1] policy_permissive) backlog_board"
  obtain t s' b b' where run: "(gate_step demo_env (sqlite_kanban demo_kanban_codec) (sqlite_logger demo_codec) demo_uuid_str (demo_calls t)
      (\<lambda>b c. any_call demo_kanban_codec b c \<and> \<not> restates 7 c))\<^sup>*\<^sup>* ?s s'" "(0, b, b') \<in> set (gs_moves s')" "gt_from t = Backlog"
    using demo_run [of "\<lambda>b c. any_call demo_kanban_codec b c \<and> \<not> restates 7 c"] by (auto simp: any_call_def)
  have "\<exists>u. gc_token (demo_calls t 0) = Some u \<and> state_of (kanban_view demo_kanban_codec b) (gc_task (demo_calls t 0)) = Some (gt_from u)"
    by (rule undisturbed_gate_leaves_source [where s = ?s and s' = s' and calls = "demo_calls t"])
      (use run backlog_board(1) demo_log in \<open>simp_all add: gates_start_def demo_calls_task split: if_splits\<close>)
  then have "state_of (kanban_view demo_kanban_codec b) 7 = Some Backlog" using run(3) by (auto simp: demo_calls_def)
  then show ?thesis using run(1,2) by blast
qed

text \<open>Property.  The look and the move are separate sections, so the check of the source state does not
  hold under concurrency: a token to resume a blocked task moves a task that another caller has sent
  back to \<open>Ready\<close> in between, and the call returns \<open>Ok\<close>.\<close>

theorem gate_source_check_races:
  assumes "kanban_inv cdc (gs_board s)" "logger_inv cdc' (gs_log s)" "gs_pc s i = Waiting"
    and "gc_token (calls i) = Some t" "gt_task t = gc_task (calls i)" "gt_to t = gc_to (calls i)" "gt_actor t = gc_actor (calls i)"
    and "is_valid E (gs_sec s) (gt_stamp t) (token_message t)" "gt_from t = Blocked" "gt_to t = Running"
    and "kanban_view cdc (gs_board s) (gc_task (calls i)) = Some tk" "t_state tk = Blocked" "t_depends_on tk = []"
  shows "\<exists>s' b b'. (gate_step E (sqlite_kanban cdc) (sqlite_logger cdc') us calls (any_call cdc))\<^sup>*\<^sup>* s s' \<and>
    gs_pc s' i = Returned (Inr ()) \<and> gs_moves s' = gs_moves s @ [(i, b, b')] \<and>
    state_of (kanban_view cdc b) (gc_task (calls i)) = Some Ready"
  by (rule sqlite_gate.race_run [where now = 0 and a = "''b''" and tk = tk and t = t and tid = "gc_task (calls i)"])
    (use assms in \<open>simp_all add: admitted_def any_call_def\<close>)

lemma gate_source_check_races_witness:
  "\<exists>t s s' b b'. gt_from t = Blocked \<and> (gate_step demo_env (sqlite_kanban demo_kanban_codec) (sqlite_logger demo_codec) demo_uuid_str
       (demo_calls t) (any_call demo_kanban_codec))\<^sup>*\<^sup>* s s' \<and>
     gs_pc s' 0 = Returned (Inr ()) \<and> gs_moves s' = [(0, b, b')] \<and> state_of (kanban_view demo_kanban_codec b) 7 = Some Ready"
proof -
  let ?m = "with_key demo_env [1] policy_permissive"
  let ?t = "signed demo_env ?m \<lparr>gt_task = 7, gt_from = Blocked, gt_to = Running, gt_actor = ''a'',
      gt_blame = default_blame, gt_digest_summary = ''d'', gt_stamp = []\<rparr>"
  let ?ops = "[KTransition 4 7 Todo ''a'' None, KTransition 5 7 Ready ''a'' None, KTransition 6 7 Running ''a'' None,
      KBlock 7 7 ''a'' \<lparr>br_reason = [], br_blocked_by = ByHuman []\<rparr>]"
  let ?b = "fold (board_step (sqlite_kanban demo_kanban_codec)) ?ops backlog_board"
  have b: "kanban_inv demo_kanban_codec ?b" "kanban_view demo_kanban_codec ?b = fold spec_step ?ops (kanban_view demo_kanban_codec backlog_board)"
    using sqlite_board.run_view [OF backlog_board(1), of ?ops] by simp_all
  have "\<exists>tk. kanban_view demo_kanban_codec ?b 7 = Some tk \<and> t_state tk = Blocked \<and> t_depends_on tk = []"
    unfolding b(2) backlog_board(2) by (simp add: spec_transition_def spec_block_def created_def moved_def blocked_def)
  then obtain tk where tk: "kanban_view demo_kanban_codec ?b 7 = Some tk" "t_state tk = Blocked" "t_depends_on tk = []" by blast
  have valid: "is_valid demo_env ?m (gt_stamp ?t) (token_message ?t)"
    using signed_valid [OF demo_mac32, of ?m] by simp
  have "\<exists>s' b b'. (gate_step demo_env (sqlite_kanban demo_kanban_codec) (sqlite_logger demo_codec) demo_uuid_str
       (demo_calls ?t) (any_call demo_kanban_codec))\<^sup>*\<^sup>* (gates_start ?m ?b) s' \<and>
     gs_pc s' 0 = Returned (Inr ()) \<and> gs_moves s' = gs_moves (gates_start ?m ?b) @ [(0, b, b')] \<and>
     state_of (kanban_view demo_kanban_codec b) (gc_task (demo_calls ?t 0)) = Some Ready"
    by (rule gate_source_check_races [where t = ?t and tk = tk])
      (use b(1) tk valid demo_log in \<open>simp_all add: gates_start_def demo_calls_def\<close>)
  moreover have "gs_moves (gates_start ?m ?b) = []" "gc_task (demo_calls ?t 0) = 7" "gt_from ?t = Blocked"
    by (simp_all add: gates_start_def demo_calls_def)
  ultimately show ?thesis by (metis append_Nil)
qed

end
