(* ===== verification/Pipeline_Threads.thy ===== *)
theory Pipeline_Threads
  imports Pipeline
begin

text \<open>
  The pipeline of \<open>src/pipeline.rs\<close> on a board it shares: the trait object is an \<^verbatim>\<open>Arc\<close>, so other threads may
  call it between any two calls of the pipeline.  \<open>shared_kanban K\<close> is the board \<open>K\<close> with a schedule of what the
  others do: before each call of the pipeline the next batch of their operations runs.
\<close>

subsection \<open>A board with others on it\<close>

fun others_run :: "'b kanban_board \<Rightarrow> 'b \<times> kanban_op list list \<Rightarrow> 'b \<times> kanban_op list list" where
  "others_run K (b, []) = (b, [])"
| "others_run K (b, ops # later) = (fold (board_step K) ops b, later)"

definition after_others ::
  "'b kanban_board \<Rightarrow> ('b, 'e, 'a) op \<Rightarrow> ('b \<times> kanban_op list list, 'e, 'a) op" where
  "after_others K m s = (case others_run K s of (b, later) \<Rightarrow> (case m b of (r, b') \<Rightarrow> (r, (b', later))))"

definition shared_kanban :: "'b kanban_board \<Rightarrow> ('b \<times> kanban_op list list) kanban_board" where
  "shared_kanban K =
     \<lparr>kb_create = (\<lambda>tid now nt. after_others K (kb_create K tid now nt)),
      kb_transition = (\<lambda>now tid to a r. after_others K (kb_transition K now tid to a r)),
      kb_claim = (\<lambda>tid w. after_others K (kb_claim K tid w)),
      kb_get = (\<lambda>tid. after_others K (kb_get K tid)),
      kb_block = (\<lambda>now tid a br. after_others K (kb_block K now tid a br)),
      kb_list = (\<lambda>q. after_others K (kb_list K q))\<rparr>"

definition shared_pipeline :: "('b, 'l, 'p, 'h) pipeline \<Rightarrow> ('b \<times> kanban_op list list, 'l, 'p, 'h) pipeline" where
  "shared_pipeline P =
     \<lparr>pl_kanban = shared_kanban (pl_kanban P), pl_provider = pl_provider P, pl_logger = pl_logger P,
      pl_escalation = pl_escalation P, pl_profile = pl_profile P, pl_agent_id = pl_agent_id P\<rparr>"

definition among :: "kanban_op list list \<Rightarrow> ('b, 'l, 'p, 'h) pipe_state \<Rightarrow> ('b \<times> kanban_op list list, 'l, 'p, 'h) pipe_state" where
  "among others s = \<lparr>ps_board = (ps_board s, others), ps_log = ps_log s, ps_provider = ps_provider s, ps_human = ps_human s\<rparr>"

subsection \<open>Operations on other tasks\<close>

fun op_task :: "kanban_op \<Rightarrow> uuid" where
  "op_task (KCreate tid now nt) = tid"
| "op_task (KTransition now tid to a r) = tid"
| "op_task (KClaim tid w) = tid"
| "op_task (KBlock now tid a br) = tid"

fun creates :: "kanban_op list \<Rightarrow> uuid set" where
  "creates [] = {}"
| "creates (KCreate tid now nt # ops) = insert tid (creates ops)"
| "creates (_ # ops) = creates ops"

lemma fresh_run_append: "fresh_run (xs @ ys) used \<longleftrightarrow> fresh_run xs used \<and> fresh_run ys (used \<union> creates xs)"
  by (induction xs used rule: fresh_run.induct) simp_all

lemma fresh_run_mono: "fresh_run ops used \<Longrightarrow> used' \<subseteq> used \<Longrightarrow> fresh_run ops used'"
  by (induction ops used arbitrary: used' rule: fresh_run.induct) (auto, blast)

lemma dom_run: "dom (fold spec_step ops b) = dom b \<union> creates ops"
proof (induction ops arbitrary: b)
  case (Cons c ops)
  then show ?case unfolding fold_simps Cons.IH dom_spec_step by (cases c) auto
qed simp

lemma spec_step_frame: "op_task c \<noteq> tid \<Longrightarrow> spec_step c b tid = b tid"
  by (cases c) (auto simp: spec_create_def spec_transition_def spec_claim_def spec_block_def split: option.splits sum.splits)

lemma spec_run_frame: "list_all (\<lambda>c. op_task c \<noteq> tid) ops \<Longrightarrow> fold spec_step ops b tid = b tid"
  by (induction ops arbitrary: b) (simp_all add: spec_step_frame)

text \<open>A task without dependencies: what an operation on it answers, and makes of it, depends on it alone.\<close>

lemma spec_transition_local:
  assumes "b tid = c tid" "\<forall>t. c tid = Some t \<longrightarrow> t_depends_on t = []"
  shows "fst (spec_transition now tid to a r b) = fst (spec_transition now tid to a r c)"
    "snd (spec_transition now tid to a r b) tid = snd (spec_transition now tid to a r c) tid"
  using assms by (auto simp: spec_transition_def split: option.splits)

lemma spec_claim_local:
  assumes "b tid = c tid"
  shows "fst (spec_claim tid w b) = fst (spec_claim tid w c)" "snd (spec_claim tid w b) tid = snd (spec_claim tid w c) tid"
  using assms by (auto simp: spec_claim_def split: option.splits)

lemma spec_block_local:
  assumes "b tid = c tid"
  shows "fst (spec_block now tid a br b) = fst (spec_block now tid a br c)"
    "snd (spec_block now tid a br b) tid = snd (spec_block now tid a br c) tid"
  using assms by (auto simp: spec_block_def split: option.splits)

lemma spec_depends_on:
  assumes "\<forall>t. c tid = Some t \<longrightarrow> t_depends_on t = []"
  shows "\<forall>t. snd (spec_transition now tid to a r c) tid = Some t \<longrightarrow> t_depends_on t = []"
    "\<forall>t. snd (spec_claim tid w c) tid = Some t \<longrightarrow> t_depends_on t = []"
    "\<forall>t. snd (spec_block now tid a br c) tid = Some t \<longrightarrow> t_depends_on t = []"
  using assms by (auto simp: spec_transition_def spec_claim_def spec_block_def moved_def blocked_def split: option.splits)

lemma spec_dom:
  "dom (snd (spec_transition now tid to a r c)) = dom c" "dom (snd (spec_claim tid w c)) = dom c"
  "dom (snd (spec_block now tid a br c)) = dom c"
  using dom_spec_step [of "KTransition now tid to a r" c] dom_spec_step [of "KClaim tid w" c]
    dom_spec_step [of "KBlock now tid a br" c] by simp_all

subsection \<open>The pipeline does not notice\<close>

text \<open>The boards with and without the others agree on the task of the pipeline, which waits for no other.\<close>

definition agree ::
  "('b \<Rightarrow> bool) \<Rightarrow> ('b \<Rightarrow> board) \<Rightarrow> uuid \<Rightarrow> 'b \<times> kanban_op list list \<Rightarrow> 'b \<Rightarrow> bool" where
  "agree binv bview tid x c \<longleftrightarrow>
     binv (fst x) \<and> binv c \<and> bview (fst x) tid = bview c tid \<and>
     list_all (\<lambda>op. op_task op \<noteq> tid) (concat (snd x)) \<and>
     fresh_run (concat (snd x)) (insert tid (dom (bview (fst x)))) \<and>
     (\<forall>t. bview c tid = Some t \<longrightarrow> t_depends_on t = [])"

definition same_but_board ::
  "('b \<Rightarrow> bool) \<Rightarrow> ('b \<Rightarrow> board) \<Rightarrow> uuid \<Rightarrow> ('b \<times> kanban_op list list, 'l, 'p, 'h) pipe_state \<Rightarrow>
   ('b, 'l, 'p, 'h) pipe_state \<Rightarrow> bool" where
  "same_but_board binv bview tid s' s \<longleftrightarrow>
     agree binv bview tid (ps_board s') (ps_board s) \<and> ps_log s' = ps_log s \<and> ps_provider s' = ps_provider s \<and> ps_human s' = ps_human s"

lemma same_but_board_upd:
  "same_but_board binv bview tid s' s \<Longrightarrow> agree binv bview tid x c \<Longrightarrow>
     same_but_board binv bview tid (s'\<lparr>ps_board := x\<rparr>) (s\<lparr>ps_board := c\<rparr>)"
  "same_but_board binv bview tid s' s \<Longrightarrow> same_but_board binv bview tid (s'\<lparr>ps_human := h\<rparr>) (s\<lparr>ps_human := h\<rparr>)"
  "same_but_board binv bview tid s' s \<Longrightarrow>
     same_but_board binv bview tid (s'\<lparr>ps_provider := p, ps_log := l\<rparr>) (s\<lparr>ps_provider := p, ps_log := l\<rparr>)"
  by (simp_all add: same_but_board_def)

context kanban_contract
begin

lemma others_agree: "agree inv view tid x c \<Longrightarrow> agree inv view tid (others_run K x) c"
proof (cases x)
  case (Pair b batches)
  assume a: "agree inv view tid x c"
  show ?thesis
  proof (cases batches)
    case Nil
    then show ?thesis using a Pair by simp
  next
    case (Cons ops later)
    have f: "fresh_run ops (insert tid (dom (view b)))" "fresh_run (concat later) (insert tid (dom (view b)) \<union> creates ops)"
      and apart: "list_all (\<lambda>c. op_task c \<noteq> tid) ops" "list_all (\<lambda>c. op_task c \<noteq> tid) (concat later)"
      using a Pair Cons by (simp_all add: agree_def fresh_run_append)
    have "fresh_run ops (dom (view b))" using fresh_run_mono [OF f(1)] by blast
    from run_view [OF _ this] a Pair have run: "inv (fold (board_step K) ops b)"
      "view (fold (board_step K) ops b) = fold spec_step ops (view b)" by (simp_all add: agree_def)
    have "insert tid (dom (fold spec_step ops (view b))) = insert tid (dom (view b)) \<union> creates ops" by (simp add: dom_run)
    then show ?thesis using a Pair Cons run f(2) apart by (simp add: agree_def spec_run_frame)
  qed
qed

text \<open>One call on each board.\<close>

lemma call_agree:
  assumes "agree inv view tid x c" "after_others K m x = (r', x1)" "m c = (r, c1)"
    and law: "\<And>b q b1. inv b \<Longrightarrow> m b = (q, b1) \<Longrightarrow> inv b1 \<and> (q, view b1) = sp (view b)"
    and "\<And>v w. v tid = w tid \<Longrightarrow> \<forall>t. w tid = Some t \<longrightarrow> t_depends_on t = [] \<Longrightarrow>
      fst (sp v) = fst (sp w) \<and> snd (sp v) tid = snd (sp w) tid"
    and "\<And>w. \<forall>t. w tid = Some t \<longrightarrow> t_depends_on t = [] \<Longrightarrow> \<forall>t. snd (sp w) tid = Some t \<longrightarrow> t_depends_on t = []"
    and "\<And>v. dom (snd (sp v)) \<subseteq> insert tid (dom v)"
  shows "r' = r \<and> agree inv view tid x1 c1"
proof -
  obtain b later where b: "others_run K x = (b, later)" by fastforce
  obtain b1 where b1: "m b = (r', b1)" "x1 = (b1, later)"
    using assms(2) b by (auto simp: after_others_def split: prod.splits)
  have a: "agree inv view tid (b, later) c" using others_agree [OF assms(1)] b by simp
  have lb: "inv b1" "(r', view b1) = sp (view b)" using law [OF _ b1(1)] a by (simp_all add: agree_def)
  have lc: "inv c1" "(r, view c1) = sp (view c)" using law [OF _ assms(3)] a by (simp_all add: agree_def)
  have sp: "sp (view b) = (r', view b1)" "sp (view c) = (r, view c1)" using lb(2) lc(2) by simp_all
  have "view b tid = view c tid" "\<forall>t. view c tid = Some t \<longrightarrow> t_depends_on t = []" using a by (simp_all add: agree_def)
  from assms(5) [of "view b" "view c", OF this] assms(6) [of "view c", OF this(2)] have "r' = r" "view b1 tid = view c1 tid"
    "\<forall>t. view c1 tid = Some t \<longrightarrow> t_depends_on t = []" unfolding sp by simp_all
  moreover have "insert tid (dom (view b1)) \<subseteq> insert tid (dom (view b))" using assms(7) [of "view b"] unfolding sp by auto
  then have "fresh_run (concat later) (insert tid (dom (view b1)))"
    using a fresh_run_mono unfolding agree_def by (metis snd_conv fst_conv)
  ultimately show ?thesis using a lb(1) lc(1) b1(2) by (simp add: agree_def)
qed

lemma transition_agree:
  assumes "agree inv view tid x c" "kb_transition (shared_kanban K) now tid to a why x = (r', x1)" "kb_transition K now tid to a why c = (r, c1)"
  shows "r' = r \<and> agree inv view tid x1 c1"
proof (rule call_agree [where m = "kb_transition K now tid to a why" and sp = "spec_transition now tid to a why", OF assms(1) _ assms(3)])
  show "after_others K (kb_transition K now tid to a why) x = (r', x1)" using assms(2) by (simp add: shared_kanban_def)
  show "inv b1 \<and> (q, view b1) = spec_transition now tid to a why (view b)" if "inv b" "kb_transition K now tid to a why b = (q, b1)" for b q b1
    using transition_law [OF that] .
  show "fst (spec_transition now tid to a why v) = fst (spec_transition now tid to a why u) \<and> snd (spec_transition now tid to a why v) tid = snd (spec_transition now tid to a why u) tid"
    if "v tid = u tid" "\<forall>t. u tid = Some t \<longrightarrow> t_depends_on t = []" for v u
    using spec_transition_local that by metis
  show "\<forall>t. snd (spec_transition now tid to a why u) tid = Some t \<longrightarrow> t_depends_on t = []"
    if "\<forall>t. u tid = Some t \<longrightarrow> t_depends_on t = []" for u using spec_depends_on(1) [where c = u, OF that] .
  show "dom (snd (spec_transition now tid to a why v)) \<subseteq> insert tid (dom v)" for v by (simp only: spec_dom subset_insertI)
qed

lemma claim_agree:
  assumes "agree inv view tid x c" "kb_claim (shared_kanban K) tid w x = (r', x1)" "kb_claim K tid w c = (r, c1)"
  shows "r' = r \<and> agree inv view tid x1 c1"
proof (rule call_agree [where m = "kb_claim K tid w" and sp = "spec_claim tid w", OF assms(1) _ assms(3)])
  show "after_others K (kb_claim K tid w) x = (r', x1)" using assms(2) by (simp add: shared_kanban_def)
  show "inv b1 \<and> (q, view b1) = spec_claim tid w (view b)" if "inv b" "kb_claim K tid w b = (q, b1)" for b q b1
    using claim_law [OF that] .
  show "fst (spec_claim tid w v) = fst (spec_claim tid w u) \<and> snd (spec_claim tid w v) tid = snd (spec_claim tid w u) tid"
    if "v tid = u tid" "\<forall>t. u tid = Some t \<longrightarrow> t_depends_on t = []" for v u
    using spec_claim_local that by metis
  show "\<forall>t. snd (spec_claim tid w u) tid = Some t \<longrightarrow> t_depends_on t = []"
    if "\<forall>t. u tid = Some t \<longrightarrow> t_depends_on t = []" for u using spec_depends_on(2) [where c = u, OF that] .
  show "dom (snd (spec_claim tid w v)) \<subseteq> insert tid (dom v)" for v by (simp only: spec_dom subset_insertI)
qed

lemma block_agree:
  assumes "agree inv view tid x c" "kb_block (shared_kanban K) now tid a br x = (r', x1)" "kb_block K now tid a br c = (r, c1)"
  shows "r' = r \<and> agree inv view tid x1 c1"
proof (rule call_agree [where m = "kb_block K now tid a br" and sp = "spec_block now tid a br", OF assms(1) _ assms(3)])
  show "after_others K (kb_block K now tid a br) x = (r', x1)" using assms(2) by (simp add: shared_kanban_def)
  show "inv b1 \<and> (q, view b1) = spec_block now tid a br (view b)" if "inv b" "kb_block K now tid a br b = (q, b1)" for b q b1
    using block_law [OF that] .
  show "fst (spec_block now tid a br v) = fst (spec_block now tid a br u) \<and> snd (spec_block now tid a br v) tid = snd (spec_block now tid a br u) tid"
    if "v tid = u tid" "\<forall>t. u tid = Some t \<longrightarrow> t_depends_on t = []" for v u
    using spec_block_local that by metis
  show "\<forall>t. snd (spec_block now tid a br u) tid = Some t \<longrightarrow> t_depends_on t = []"
    if "\<forall>t. u tid = Some t \<longrightarrow> t_depends_on t = []" for u using spec_depends_on(3) [where c = u, OF that] .
  show "dom (snd (spec_block now tid a br v)) \<subseteq> insert tid (dom v)" for v by (simp only: spec_dom subset_insertI)
qed

lemma create_agree:
  assumes "agree inv view tid x c" "tid \<notin> dom (view c)" "nt_depends_on nt = []"
    and "kb_create (shared_kanban K) tid now nt x = (r', x1)" "kb_create K tid now nt c = (r, c1)"
  shows "r' = Inr tid \<and> r = Inr tid \<and> agree inv view tid x1 c1"
proof -
  obtain b later where b: "others_run K x = (b, later)" by fastforce
  obtain b1 where b1: "kb_create K tid now nt b = (r', b1)" "x1 = (b1, later)"
    using assms(4) b by (auto simp: shared_kanban_def after_others_def split: prod.splits)
  have a: "agree inv view tid (b, later) c" using others_agree [OF assms(1)] b by simp
  then have "tid \<notin> dom (view b)" using assms(2) by (auto simp: agree_def)
  then have "inv b1 \<and> (r', view b1) = spec_create tid now nt (view b)" "inv c1 \<and> (r, view c1) = spec_create tid now nt (view c)"
    using create_law [OF _ _ b1(1)] create_law [OF _ assms(2,5)] a by (simp_all add: agree_def)
  then show ?thesis using a b1(2) assms(3) by (simp add: agree_def spec_create_def created_def)
qed

end

context pipeline_env
begin

lemma shared_moves:
  assumes "same_but_board binv bview tid s' s" "agent_moves (shared_pipeline P) now tid to why s' = (r', s1')" "agent_moves P now tid to why s = (r, s1)"
  shows "r' = r \<and> same_but_board binv bview tid s1' s1"
proof -
  obtain q' x where q': "kb_transition (shared_kanban K) now tid to (pl_agent_id P) why (ps_board s') = (q', x)" by (metis surj_pair)
  obtain q c where q: "kb_transition K now tid to (pl_agent_id P) why (ps_board s) = (q, c)" by fastforce
  have "agree binv bview tid (ps_board s') (ps_board s)" using assms(1) by (simp add: same_but_board_def)
  from board.transition_agree [OF this q' q] show ?thesis using assms q q'
    by (auto simp: agent_moves_def shared_pipeline_def uses same_but_board_upd)
qed

lemma shared_block:
  assumes "same_but_board binv bview tid s' s"
  shows "same_but_board binv bview tid (block_task (shared_pipeline P) now tid why s') (block_task P now tid why s)"
proof -
  let ?br = "\<lparr>br_reason = why, br_blocked_by = ByHuman ''human:cli''\<rparr>"
  obtain q' x where q': "kb_block (shared_kanban K) now tid (pl_agent_id P) ?br (ps_board s') = (q', x)" by (metis surj_pair)
  obtain q c where q: "kb_block K now tid (pl_agent_id P) ?br (ps_board s) = (q, c)" by fastforce
  have "agree binv bview tid (ps_board s') (ps_board s)" using assms(1) by (simp add: same_but_board_def)
  from board.block_agree [OF this q' q] show ?thesis using assms q q'
    by (simp add: block_task_def shared_pipeline_def uses same_but_board_upd)
qed

lemma shared_handle_blocked:
  assumes "same_but_board binv bview tid s' s" "handle_blocked (shared_pipeline P) now tid title why s' = (r', s1')"
    "handle_blocked P now tid title why s = (r, s1)"
  shows "r' = r \<and> same_but_board binv bview tid s1' s1"
proof -
  obtain answer h where a: "pl_escalation P (blocked_escalation tid title why) (ps_human s) = (answer, h)" by fastforce
  let ?s' = "s'\<lparr>ps_human := h\<rparr>" and ?s = "s\<lparr>ps_human := h\<rparr>"
  have human: "ps_human s' = ps_human s" using assms(1) by (simp add: same_but_board_def)
  have s: "same_but_board binv bview tid ?s' ?s" using same_but_board_upd(2) [OF assms(1)] .
  note blocked = shared_block [OF s]
  have moves: "same_but_board binv bview tid (snd (agent_moves (shared_pipeline P) now tid Done x ?s')) (snd (agent_moves P now tid Done x ?s))" for x
    using shared_moves [OF s] by (metis prod.collapse)
  show ?thesis using assms(2,3) a human blocked moves
    by (auto simp: handle_blocked_def record_blocked_def Let_def shared_pipeline_def [of P, THEN arg_cong [of _ _ pl_escalation]]
        split: sum.splits human_response.splits if_splits)
qed

lemma shared_fields:
  "pl_provider (shared_pipeline P) = pl_provider P" "pl_logger (shared_pipeline P) = pl_logger P"
  "pl_escalation (shared_pipeline P) = pl_escalation P" "pl_profile (shared_pipeline P) = pl_profile P"
  "pl_agent_id (shared_pipeline P) = pl_agent_id P" "pl_kanban (shared_pipeline P) = shared_kanban K"
  "make_call_log (shared_pipeline P) = make_call_log P"
  by (simp_all add: shared_pipeline_def uses make_call_log_def fun_eq_iff)

lemma shared_execute:
  assumes "same_but_board binv bview tid s' s" "execute_llm J (shared_pipeline P) now i prompt s' = (r', s1')"
    "execute_llm J P now i prompt s = (r, s1)"
  shows "r' = r \<and> same_but_board binv bview tid s1' s1"
proof -
  have eq: "ps_log s' = ps_log s" "ps_provider s' = ps_provider s" using assms(1) by (simp_all add: same_but_board_def)
  show ?thesis using assms eq unfolding execute_llm_def shared_fields
    by (auto simp: Let_def same_but_board_def split: prod.splits sum.splits)
qed

lemma shared_start:
  assumes "same_but_board binv bview tid s' s" "tid \<notin> dom (bview (ps_board s))"
    and "start_task us (shared_pipeline P) clock tid title s' = (r', s1')" "start_task us P clock tid title s = (r, s1)"
  shows "r' = r \<and> same_but_board binv bview tid s1' s1 \<and> (\<forall>i. r = Inr i \<longrightarrow> i = tid)"
proof -
  let ?Q = "shared_pipeline P" and ?me = "pl_agent_id P" and ?R = "same_but_board binv bview tid"
  let ?nt = "\<lparr>nt_title = title, nt_actor = ?me, nt_depends_on = []\<rparr>"
  obtain q0' x0 where c0': "kb_create (shared_kanban K) tid (clock 0) ?nt (ps_board s') = (q0', x0)" by (metis surj_pair)
  obtain q0 b0 where c0: "kb_create K tid (clock 0) ?nt (ps_board s) = (q0, b0)" by fastforce
  have "agree binv bview tid (ps_board s') (ps_board s)" using assms(1) by (simp add: same_but_board_def)
  from board.create_agree [OF this assms(2) _ c0' c0] have r0: "q0' = Inr tid" "q0 = Inr tid"
    and "agree binv bview tid x0 b0" by simp_all
  then have R0: "?R (s'\<lparr>ps_board := x0\<rparr>) (s\<lparr>ps_board := b0\<rparr>)" using same_but_board_upd(1) [OF assms(1)] by blast
  obtain q1' s1a where m1': "agent_moves ?Q (clock 1) tid Todo None (s'\<lparr>ps_board := x0\<rparr>) = (q1', s1a)" by (metis surj_pair)
  obtain q1 s1b where m1: "agent_moves P (clock 1) tid Todo None (s\<lparr>ps_board := b0\<rparr>) = (q1, s1b)" by fastforce
  have R1: "q1' = q1" "?R s1a s1b" using shared_moves [OF R0 m1' m1] by simp_all
  obtain q2' s2a where m2': "agent_moves ?Q (clock 2) tid Ready None s1a = (q2', s2a)" by (metis surj_pair)
  obtain q2 s2b where m2: "agent_moves P (clock 2) tid Ready None s1b = (q2, s2b)" by fastforce
  have R2: "q2' = q2" "?R s2a s2b" using shared_moves [OF R1(2) m2' m2] by simp_all
  obtain q3' x3 where c3': "kb_claim (shared_kanban K) tid ?me (ps_board s2a) = (q3', x3)" by (metis surj_pair)
  obtain q3 b3 where c3: "kb_claim K tid ?me (ps_board s2b) = (q3, b3)" by fastforce
  have "agree binv bview tid (ps_board s2a) (ps_board s2b)" using R2(2) by (simp add: same_but_board_def)
  from board.claim_agree [OF this c3' c3] have R3: "q3' = q3" "?R (s2a\<lparr>ps_board := x3\<rparr>) (s2b\<lparr>ps_board := b3\<rparr>)"
    using same_but_board_upd(1) [OF R2(2)] by simp_all
  obtain q4' s4a where m4': "agent_moves ?Q (clock 3) tid Running None (s2a\<lparr>ps_board := x3\<rparr>) = (q4', s4a)" by (metis surj_pair)
  obtain q4 s4b where m4: "agent_moves P (clock 3) tid Running None (s2b\<lparr>ps_board := b3\<rparr>) = (q4, s4b)" by fastforce
  have R4: "q4' = q4" "?R s4a s4b" using shared_moves [OF R3(2) m4' m4] by simp_all
  note blocked = shared_block [OF R1(2)] shared_block [OF R2(2)] shared_block [OF R3(2)] shared_block [OF R4(2)]
  show ?thesis using assms(3,4) c0' c0 r0 m1' m1 R1 m2' m2 R2 c3' c3 R3 m4' m4 R4 blocked
    by (auto simp: start_task_def shared_fields uses record_blocked_def split: sum.splits)
qed

lemma shared_run:
  assumes "same_but_board binv bview tid s' s" "tid \<notin> dom (bview (ps_board s))"
    and "pipeline_run J us (shared_pipeline P) clock tid title prompt s' = (out', s1')" "pipeline_run J us P clock tid title prompt s = (out, s1)"
  shows "out' = out \<and> same_but_board binv bview tid s1' s1"
proof -
  let ?Q = "shared_pipeline P" and ?R = "same_but_board binv bview tid"
  obtain r0' s0' where st': "start_task us ?Q clock tid title s' = (r0', s0')" by (metis surj_pair)
  obtain r0 s0 where st: "start_task us P clock tid title s = (r0, s0)" by fastforce
  note start = shared_start [OF assms(1,2) st' st]
  show ?thesis
  proof (cases r0)
    case (Inl o)
    then show ?thesis using assms(3,4) st' st start by (simp add: pipeline_run_def)
  next
    case (Inr i)
    then have i: "r0 = Inr tid" "r0' = Inr tid" "?R s0' s0" using start by simp_all
    obtain bl' msg' s2' where ex': "execute_llm J ?Q (clock 4) tid prompt s0' = ((bl', msg'), s2')" by (metis surj_pair)
    obtain bl msg s2 where ex: "execute_llm J P (clock 4) tid prompt s0 = ((bl, msg), s2)" by (metis surj_pair)
    have R2: "bl' = bl" "msg' = msg" "?R s2' s2" using shared_execute [OF i(3) ex' ex] by simp_all
    show ?thesis
    proof (cases bl)
      case True
      then have "handle_blocked ?Q (clock 5) tid title msg s2' = (out', s1')" "handle_blocked P (clock 5) tid title msg s2 = (out, s1)"
        using assms(3,4) st' st ex' ex i(1,2) R2(1,2) by (simp_all add: pipeline_run_def)
      then show ?thesis using shared_handle_blocked [OF R2(3)] by blast
    next
      case False
      then have "out' = PDone tid msg" "out = PDone tid msg"
        "s1' = snd (agent_moves ?Q (clock 5) tid Done (Some ''completed'') s2')" "s1 = snd (agent_moves P (clock 5) tid Done (Some ''completed'') s2)"
        using assms(3,4) st' st ex' ex i(1,2) R2(1,2) by (simp_all add: pipeline_run_def)
      then show ?thesis using shared_moves [OF R2(3)] by (metis prod.collapse)
    qed
  qed
qed

end

subsection \<open>Properties\<close>

text \<open>Claim C12.  Pipelines on one board do not disturb each other.  Whatever other threads do on the board between
  the calls of a run, to other tasks than its own, the run reports the same outcome, makes the same
  calls of provider, human and log, and leaves its own task as it would have left it alone; so the
  outcome matches the task on the shared board.\<close>

theorem pipeline_undisturbed:
  assumes "stores_ok (kanban_inv cdc) (logger_inv cdc') s" "tid \<notin> dom (kanban_view cdc (ps_board s))"
    and "list_all (\<lambda>c. op_task c \<noteq> tid) (concat others)"
    and "fresh_run (concat others) (insert tid (dom (kanban_view cdc (ps_board s))))"
    and "P = main_pipeline cdc cdc' provider escalate"
    and "pipeline_run J us P clock tid title prompt s = (out, s1)"
    and "pipeline_run J us (shared_pipeline P) clock tid title prompt (among others s) = (out', s2)"
  shows "out' = out \<and> ps_log s2 = ps_log s1 \<and> ps_provider s2 = ps_provider s1 \<and> ps_human s2 = ps_human s1 \<and>
    kanban_inv cdc (fst (ps_board s2)) \<and>
    kanban_view cdc (fst (ps_board s2)) tid = kanban_view cdc (ps_board s1) tid \<and>
    (\<exists>t. kanban_view cdc (fst (ps_board s2)) tid = Some t \<and> t_title t = title \<and>
      (case out' of
         PDone i text \<Rightarrow> i = tid \<and> t_state t = Done
       | PStopped i \<Rightarrow> i = tid \<and> t_state t = Blocked \<and> map_option br_reason (t_block_reason t) = Some ''stopped by human''
       | PBlocked i why \<Rightarrow> i = tid \<and> t_state t = Blocked \<and> map_option br_reason (t_block_reason t) = Some why))"
proof -
  have "same_but_board (kanban_inv cdc) (kanban_view cdc) tid (among others s) s"
    using assms(1-4) by (auto simp: same_but_board_def agree_def among_def stores_ok_def)
  from sqlite_pipeline.shared_run [OF this assms(2)] assms(5-7)
  have same: "out' = out" "same_but_board (kanban_inv cdc) (kanban_view cdc) tid s2 s1" by blast+
  obtain t where t: "kanban_view cdc (ps_board s1) = (kanban_view cdc (ps_board s))(tid \<mapsto> t)" "t_title t = title"
    "case out of
       PDone i text \<Rightarrow> i = tid \<and> t_state t = Done
     | PStopped i \<Rightarrow> i = tid \<and> t_state t = Blocked \<and> map_option br_reason (t_block_reason t) = Some ''stopped by human''
     | PBlocked i why \<Rightarrow> i = tid \<and> t_state t = Blocked \<and> map_option br_reason (t_block_reason t) = Some why"
    using sqlite_pipeline.pipeline_run_outcome [OF assms(1,2) assms(6) [unfolded assms(5)]] by blast
  then have "kanban_view cdc (ps_board s1) tid = Some t" by simp
  then show ?thesis using same t(2,3) unfolding same_but_board_def agree_def
    by (intro conjI exI [of _ t]) simp_all
qed

lemma pipeline_undisturbed_witness:
  "\<exists>P nt. P = main_pipeline demo_kanban_codec demo_codec (fixed_provider ''{done}'') (scripted_escalate Stop) \<and>
     fst (pipeline_run demo_llm_codec demo_uuid_str (shared_pipeline P) int 7 ''t'' ''p''
       (among [[KCreate 8 1 nt], [KTransition 2 8 Todo ''b'' None], [KTransition 3 8 Backlog ''b'' None]] demo_start)) =
     fst (pipeline_run demo_llm_codec demo_uuid_str P int 7 ''t'' ''p'' demo_start)"
proof -
  let ?P = "main_pipeline demo_kanban_codec demo_codec (fixed_provider ''{done}'') (scripted_escalate Stop)"
  let ?nt = "\<lparr>nt_title = ''u'', nt_actor = ''b'', nt_depends_on = [7]\<rparr>"
  let ?others = "[[KCreate 8 1 ?nt], [KTransition 2 8 Todo ''b'' None], [KTransition 3 8 Backlog ''b'' None]]"
  obtain out s1 where r: "pipeline_run demo_llm_codec demo_uuid_str ?P int 7 ''t'' ''p'' demo_start = (out, s1)" by fastforce
  obtain out' s2 where r': "pipeline_run demo_llm_codec demo_uuid_str (shared_pipeline ?P) int 7 ''t'' ''p'' (among ?others demo_start) = (out', s2)"
    by (metis surj_pair)
  have "kanban_view demo_kanban_codec (ps_board demo_start) = Map.empty" by (simp add: demo_start_def)
  then have "fresh_run (concat ?others) (insert 7 (dom (kanban_view demo_kanban_codec (ps_board demo_start))))" by simp
  from pipeline_undisturbed [OF demo_start_ok _ this refl r r'] have "out' = out" by simp
  then show ?thesis using r r' by (intro exI [of _ ?P] exI [of _ ?nt]) simp
qed

end
