(* ===== verification/Sandbox_Ticker.thy ===== *)
theory Sandbox_Ticker
  imports Sandbox
begin

text \<open>
  The background ticker of \<open>plugin-sandbox-wasmtime/src/lib.rs\<close> and its shutdown: the thread started
  by \<open>new\<close>, and \<open>drop\<close>, as a step relation that interleaves them with the passing of time.

  The flag is read and written with relaxed ordering: \<open>tk_stop\<close> is what was stored, \<open>tk_seen\<close> what the
  ticker's loads return, and the store becomes visible by a step of its own.  \<open>tk_now\<close> counts
  nanoseconds; \<open>sleep\<close> returns at some point after its duration.  The epoch is the counter of the
  engine, against which wasmtime compares the deadline of a call; it is a 64-bit counter there and a natural number
  here, which differ after \<open>2 ^ 64\<close> ticks of a millisecond (more than 500 million years).
\<close>

datatype ticker_pc = TCheck | TSleep | TIncrement | TExited

datatype drop_pc = Alive | Joining | Dropped

record ticker_sys =
  tk_epoch :: nat
  tk_now :: nat
  tk_wake :: nat
  tk_stop :: bool
  tk_seen :: bool
  tk_pc :: ticker_pc
  tk_drop :: drop_pc

definition tick_ns :: nat where
  "tick_ns = TICK_MS * 1000000"

definition ticker_spawned :: ticker_sys where
  "ticker_spawned = \<lparr>tk_epoch = 0, tk_now = 0, tk_wake = 0, tk_stop = False, tk_seen = False, tk_pc = TCheck, tk_drop = Alive\<rparr>"

text \<open>The steps of the ticker's loop, of \<open>drop\<close>, of the memory and of the clock.\<close>

inductive ticker_step :: "ticker_sys \<Rightarrow> ticker_sys \<Rightarrow> bool" where
  check_go: "tk_pc s = TCheck \<Longrightarrow> \<not> tk_seen s \<Longrightarrow>
    ticker_step s (s\<lparr>tk_pc := TSleep, tk_wake := tk_now s + tick_ns\<rparr>)"
| check_stop: "tk_pc s = TCheck \<Longrightarrow> tk_seen s \<Longrightarrow> ticker_step s (s\<lparr>tk_pc := TExited\<rparr>)"
| slept: "tk_pc s = TSleep \<Longrightarrow> tk_wake s \<le> tk_now s \<Longrightarrow> ticker_step s (s\<lparr>tk_pc := TIncrement\<rparr>)"
| increment: "tk_pc s = TIncrement \<Longrightarrow> ticker_step s (s\<lparr>tk_pc := TCheck, tk_epoch := tk_epoch s + 1\<rparr>)"
| drop_store: "tk_drop s = Alive \<Longrightarrow> ticker_step s (s\<lparr>tk_drop := Joining, tk_stop := True\<rparr>)"
| drop_joined: "tk_drop s = Joining \<Longrightarrow> tk_pc s = TExited \<Longrightarrow> ticker_step s (s\<lparr>tk_drop := Dropped\<rparr>)"
| visible: "tk_stop s \<Longrightarrow> \<not> tk_seen s \<Longrightarrow> ticker_step s (s\<lparr>tk_seen := True\<rparr>)"
| elapse: "0 < d \<Longrightarrow> ticker_step s (s\<lparr>tk_now := tk_now s + d\<rparr>)"

inductive_cases ticker_stepE: "ticker_step s s'"

subsection \<open>Invariants\<close>

definition ticker_inv :: "ticker_sys \<Rightarrow> bool" where
  "ticker_inv s \<longleftrightarrow> (tk_seen s \<longrightarrow> tk_stop s) \<and> (tk_stop s \<longleftrightarrow> tk_drop s \<noteq> Alive) \<and>
     (tk_pc s = TExited \<longrightarrow> tk_seen s) \<and> (tk_drop s = Dropped \<longrightarrow> tk_pc s = TExited) \<and>
     (tk_pc s \<noteq> TSleep \<longrightarrow> tk_wake s \<le> tk_now s) \<and> tk_wake s \<le> tk_now s + tick_ns"

lemma ticker_inv_spawned: "ticker_inv ticker_spawned"
  by (simp add: ticker_inv_def ticker_spawned_def)

lemma ticker_inv_step: "ticker_step s s' \<Longrightarrow> ticker_inv s \<Longrightarrow> ticker_inv s'"
  by (erule ticker_stepE) (auto simp: ticker_inv_def)

lemma ticker_inv_run: "ticker_step\<^sup>*\<^sup>* s s' \<Longrightarrow> ticker_inv s \<Longrightarrow> ticker_inv s'"
  by (induction rule: rtranclp_induct) (auto intro: ticker_inv_step)

text \<open>After the drop nothing ticks any more.\<close>

lemma dropped_step:
  "ticker_step s s' \<Longrightarrow> ticker_inv s \<Longrightarrow> tk_drop s = Dropped \<Longrightarrow> tk_drop s' = Dropped \<and> tk_epoch s' = tk_epoch s"
  by (erule ticker_stepE) (auto simp: ticker_inv_def)

lemma dropped_run:
  "ticker_step\<^sup>*\<^sup>* s s' \<Longrightarrow> ticker_inv s \<Longrightarrow> tk_drop s = Dropped \<Longrightarrow> tk_drop s' = Dropped \<and> tk_epoch s' = tk_epoch s"
proof (induction rule: rtranclp_induct)
  case (step t u)
  then show ?case using dropped_step [of t u] ticker_inv_run [of s t] by simp
qed simp

subsection \<open>The shutdown ends\<close>

text \<open>How many steps of the threads are left once the stop is visible; the clock is not counted.\<close>

fun pc_rank :: "ticker_pc \<Rightarrow> nat" where
  "pc_rank TSleep = 3"
| "pc_rank TIncrement = 2"
| "pc_rank TCheck = 1"
| "pc_rank TExited = 0"

definition shutdown_rank :: "ticker_sys \<Rightarrow> nat" where
  "shutdown_rank s = pc_rank (tk_pc s) + (if tk_drop s = Joining then 1 else 0)"

definition stopping :: "ticker_sys \<Rightarrow> bool" where
  "stopping s \<longleftrightarrow> tk_seen s \<and> tk_drop s \<noteq> Alive"

text \<open>A step of the clock alone.\<close>

definition idle_step :: "ticker_sys \<Rightarrow> ticker_sys \<Rightarrow> bool" where
  "idle_step s s' \<longleftrightarrow> s' = s\<lparr>tk_now := tk_now s'\<rparr>"

lemma shutdown_step:
  "ticker_step s s' \<Longrightarrow> stopping s \<Longrightarrow> stopping s' \<and>
     (if idle_step s s' then shutdown_rank s' = shutdown_rank s else shutdown_rank s' < shutdown_rank s)"
  by (erule ticker_stepE) (auto simp: stopping_def shutdown_rank_def idle_step_def)

text \<open>Runs, with the number of steps of the threads.\<close>

inductive ticker_path :: "ticker_sys \<Rightarrow> nat \<Rightarrow> ticker_sys \<Rightarrow> bool" for s where
  path_start: "ticker_path s 0 s"
| path_idle: "ticker_path s n t \<Longrightarrow> ticker_step t u \<Longrightarrow> idle_step t u \<Longrightarrow> ticker_path s n u"
| path_busy: "ticker_path s n t \<Longrightarrow> ticker_step t u \<Longrightarrow> \<not> idle_step t u \<Longrightarrow> ticker_path s (Suc n) u"

lemma path_run: "ticker_path s n t \<Longrightarrow> ticker_step\<^sup>*\<^sup>* s t"
  by (induction rule: ticker_path.induct) (auto intro: rtranclp.rtrancl_into_rtrancl)

lemma shutdown_path: "ticker_path s n t \<Longrightarrow> stopping s \<Longrightarrow> stopping t \<and> n + shutdown_rank t \<le> shutdown_rank s"
proof (induction rule: ticker_path.induct)
  case (path_idle n t u)
  then show ?case using shutdown_step [of t u] by auto
next
  case (path_busy n t u)
  then show ?case using shutdown_step [of t u] by auto
qed simp

lemma shutdown_rank_le: "shutdown_rank s \<le> 4"
  by (cases "tk_pc s") (simp_all add: shutdown_rank_def)

text \<open>A stopping ticker increments once more at most.\<close>

definition pending :: "ticker_sys \<Rightarrow> nat" where
  "pending s = (if tk_pc s = TSleep \<or> tk_pc s = TIncrement then 1 else 0)"

lemma pending_step:
  "ticker_step s s' \<Longrightarrow> stopping s \<Longrightarrow> tk_epoch s' + pending s' \<le> tk_epoch s + pending s"
  by (erule ticker_stepE) (auto simp: stopping_def pending_def)

lemma pending_path: "ticker_path s n t \<Longrightarrow> stopping s \<Longrightarrow> tk_epoch t + pending t \<le> tk_epoch s + pending s"
proof (induction rule: ticker_path.induct)
  case (path_idle n t u)
  then show ?case using pending_step [of t u] shutdown_path [of s n t] by auto
next
  case (path_busy n t u)
  then show ?case using pending_step [of t u] shutdown_path [of s n t] by auto
qed simp

text \<open>From every state in which the drop has begun it can be completed.\<close>

lemma sleep_on: "tk_pc s = TSleep \<Longrightarrow> ticker_step\<^sup>*\<^sup>* s (s\<lparr>tk_now := tk_now s + (tk_wake s - tk_now s), tk_pc := TIncrement\<rparr>)"
proof -
  assume pc: "tk_pc s = TSleep"
  let ?s1 = "s\<lparr>tk_now := tk_now s + (tk_wake s - tk_now s)\<rparr>"
  have "ticker_step\<^sup>*\<^sup>* s ?s1"
  proof (cases "tk_wake s \<le> tk_now s")
    case False
    then show ?thesis by (intro r_into_rtranclp elapse) simp
  qed simp
  moreover have "ticker_step ?s1 (?s1\<lparr>tk_pc := TIncrement\<rparr>)" using pc by (intro slept) simp_all
  ultimately show ?thesis by (simp add: rtranclp.rtrancl_into_rtrancl)
qed

lemma exit_from_check:
  assumes "tk_pc s = TCheck" "tk_seen s" "tk_drop s = Joining"
  shows "\<exists>s'. ticker_step\<^sup>*\<^sup>* s s' \<and> tk_drop s' = Dropped"
proof -
  have "ticker_step s (s\<lparr>tk_pc := TExited\<rparr>)" using assms by (intro check_stop)
  moreover have "ticker_step (s\<lparr>tk_pc := TExited\<rparr>) (s\<lparr>tk_pc := TExited, tk_drop := Dropped\<rparr>)"
    using drop_joined [of "s\<lparr>tk_pc := TExited\<rparr>"] assms by simp
  ultimately show ?thesis by (intro exI [of _ "s\<lparr>tk_pc := TExited, tk_drop := Dropped\<rparr>"]) auto
qed

lemma exit_from_increment:
  assumes "tk_pc s = TIncrement" "tk_seen s" "tk_drop s = Joining"
  shows "\<exists>s'. ticker_step\<^sup>*\<^sup>* s s' \<and> tk_drop s' = Dropped"
proof -
  let ?s1 = "s\<lparr>tk_pc := TCheck, tk_epoch := tk_epoch s + 1\<rparr>"
  have "ticker_step s ?s1" using assms(1) by (rule increment)
  moreover have "\<exists>s'. ticker_step\<^sup>*\<^sup>* ?s1 s' \<and> tk_drop s' = Dropped" using assms by (intro exit_from_check) simp_all
  ultimately show ?thesis by (meson converse_rtranclp_into_rtranclp)
qed

lemma shutdown_reachable:
  assumes "ticker_inv s" "tk_seen s" "tk_drop s \<noteq> Alive"
  shows "\<exists>s'. ticker_step\<^sup>*\<^sup>* s s' \<and> tk_drop s' = Dropped"
proof (cases "tk_drop s = Dropped")
  case False
  then have joining: "tk_drop s = Joining" using assms(3) by (cases "tk_drop s") simp_all
  show ?thesis
  proof (cases "tk_pc s")
    case TCheck
    then show ?thesis using assms(2) joining by (rule exit_from_check)
  next
    case TIncrement
    then show ?thesis using assms(2) joining by (rule exit_from_increment)
  next
    case TSleep
    let ?s1 = "s\<lparr>tk_now := tk_now s + (tk_wake s - tk_now s), tk_pc := TIncrement\<rparr>"
    have "\<exists>s'. ticker_step\<^sup>*\<^sup>* ?s1 s' \<and> tk_drop s' = Dropped"
      using assms(2) joining by (intro exit_from_increment) simp_all
    then show ?thesis using sleep_on [OF TSleep] by (meson rtranclp_trans)
  next
    case TExited
    then have "ticker_step s (s\<lparr>tk_drop := Dropped\<rparr>)" using joining by (intro drop_joined)
    then show ?thesis by (intro exI [of _ "s\<lparr>tk_drop := Dropped\<rparr>"]) auto
  qed
qed auto

text \<open>Claim C10.  Dropping a sandbox ends.  Once the drop has begun it can be completed from every state;
  as soon as the stop has become visible to the ticker, every run has at most four more steps of the
  two threads and at most one more tick; and after the drop the epoch never moves again, so the
  thread and the engine it holds are gone.\<close>

theorem drop_terminates:
  assumes "ticker_step\<^sup>*\<^sup>* ticker_spawned s" "tk_drop s \<noteq> Alive"
  shows "(\<exists>s'. ticker_step\<^sup>*\<^sup>* s s' \<and> tk_drop s' = Dropped) \<and>
    (tk_seen s \<and> ticker_path s n t \<longrightarrow> n \<le> 4 \<and> tk_epoch t \<le> tk_epoch s + 1) \<and>
    (tk_drop s = Dropped \<and> ticker_path s n t \<longrightarrow> tk_epoch t = tk_epoch s)"
proof -
  have inv: "ticker_inv s" using ticker_inv_run [OF assms(1) ticker_inv_spawned] .
  have "\<exists>s'. ticker_step\<^sup>*\<^sup>* s s' \<and> tk_drop s' = Dropped"
  proof (cases "tk_seen s")
    case True
    then show ?thesis by (rule shutdown_reachable [OF inv _ assms(2)])
  next
    case False
    have step: "ticker_step s (s\<lparr>tk_seen := True\<rparr>)" using inv assms(2) False by (intro visible) (simp_all add: ticker_inv_def)
    have "\<exists>s'. ticker_step\<^sup>*\<^sup>* (s\<lparr>tk_seen := True\<rparr>) s' \<and> tk_drop s' = Dropped"
      using ticker_inv_step [OF step inv] assms(2) by (intro shutdown_reachable) simp_all
    then show ?thesis using step by (meson converse_rtranclp_into_rtranclp)
  qed
  moreover have "n \<le> 4 \<and> tk_epoch t \<le> tk_epoch s + 1" if "tk_seen s" "ticker_path s n t"
  proof -
    have "stopping s" using that(1) assms(2) by (simp add: stopping_def)
    then show ?thesis using shutdown_path [OF that(2)] shutdown_rank_le [of s] pending_path [OF that(2)]
      by (auto simp: pending_def split: if_splits)
  qed
  moreover have "tk_epoch t = tk_epoch s" if "tk_drop s = Dropped" "ticker_path s n t"
    using dropped_run [OF path_run [OF that(2)] inv that(1)] by simp
  ultimately show ?thesis by blast
qed

lemma drop_terminates_witness:
  "\<exists>s s'. tk_drop s = Joining \<and> ticker_step\<^sup>*\<^sup>* s s' \<and> tk_drop s' = Dropped"
proof -
  let ?s = "ticker_spawned\<lparr>tk_drop := Joining, tk_stop := True\<rparr>"
  have "ticker_step ticker_spawned ?s" by (rule drop_store) (simp add: ticker_spawned_def)
  then have "\<exists>s'. ticker_step\<^sup>*\<^sup>* ?s s' \<and> tk_drop s' = Dropped"
    by (intro drop_terminates [THEN conjunct1]) simp_all
  moreover have "tk_drop ?s = Joining" by simp
  ultimately show ?thesis by blast
qed

subsection \<open>No call is interrupted early\<close>

text \<open>
  Along any run from the start \<open>s\<close> of a call: either nothing has been counted yet, or the ticks
  counted after the first one have each waited for a full sleep begun after the start.
\<close>

definition slept_from :: "ticker_sys \<Rightarrow> nat" where
  "slept_from s = (if tk_pc s = TSleep \<or> tk_pc s = TIncrement then tk_wake s - tick_ns else tk_wake s)"

definition paced :: "ticker_sys \<Rightarrow> ticker_sys \<Rightarrow> bool" where
  "paced s t \<longleftrightarrow> tk_now s \<le> tk_now t \<and> (tk_epoch t = tk_epoch s \<or>
     tk_epoch s < tk_epoch t \<and>
     (tk_epoch t - tk_epoch s - 1) * tick_ns + tk_now s \<le> max (tk_now s) (slept_from t) \<and>
     (tk_pc t = TSleep \<or> tk_pc t = TIncrement \<longrightarrow> tk_now s + tick_ns \<le> tk_wake t))"

lemma paced_refl: "paced s s"
  by (simp add: paced_def)

lemma diff_mult_pred: "(m :: nat) < n \<Longrightarrow> (n - m) * k = (n - m - 1) * k + k"
  by (cases "n - m") simp_all

lemma paced_step: "ticker_step t u \<Longrightarrow> ticker_inv t \<Longrightarrow> paced s t \<Longrightarrow> paced s u"
proof (erule ticker_stepE)
  assume inv: "ticker_inv t" and p: "paced s t" and pc: "tk_pc t = TIncrement"
    and u: "u = t\<lparr>tk_pc := TCheck, tk_epoch := Suc (tk_epoch t)\<rparr>"
  show ?thesis
  proof (cases "tk_epoch t = tk_epoch s")
    case True
    then show ?thesis using p u by (simp add: paced_def)
  next
    case False
    then have t: "tk_epoch s < tk_epoch t" "tk_now s + tick_ns \<le> tk_wake t"
      "(tk_epoch t - tk_epoch s - 1) * tick_ns + tk_now s \<le> max (tk_now s) (tk_wake t - tick_ns)" "tk_now s \<le> tk_now t"
      using p pc by (simp_all add: paced_def slept_from_def)
    have "(tk_epoch t - tk_epoch s - 1) * tick_ns + tk_now s + tick_ns \<le> tk_wake t" using t(2,3) by simp
    moreover have "(tk_epoch t - tk_epoch s) * tick_ns = (tk_epoch t - tk_epoch s - 1) * tick_ns + tick_ns"
      using t(1) by (rule diff_mult_pred)
    ultimately show ?thesis using u t by (simp add: paced_def slept_from_def)
  qed
qed (auto simp: paced_def slept_from_def ticker_inv_def)

lemma paced_run: "ticker_step\<^sup>*\<^sup>* s t \<Longrightarrow> ticker_inv s \<Longrightarrow> paced s t"
proof (induction rule: rtranclp_induct)
  case (step t u)
  then show ?case using paced_step [of t u s] ticker_inv_run [of s t] by simp
qed (simp add: paced_refl)

lemma deadline_ticks_bounds:
  "unat (deadline_ticks limits) = max (unat (max_wallclock_ms limits)) 1"
proof -
  have "max (unat (max_wallclock_ms limits)) 1 < 2 ^ 64" using unsigned_less [of "max_wallclock_ms limits"] by simp
  then show ?thesis by (simp add: deadline_ticks_def TICK_MS_def unat_of_nat)
qed

text \<open>Claim C17.  The shared clock never cuts a call short by more than one tick: a call that starts in any
  state of the system, with the deadline the runtime sets for its limits, is not past its deadline
  before its wall-clock limit less one millisecond has gone by, however the calls, the ticker and
  the shutdown interleave.\<close>

theorem no_early_timeout:
  assumes "ticker_step\<^sup>*\<^sup>* ticker_spawned s" "ticker_step\<^sup>*\<^sup>* s t"
    and "tk_epoch s + unat (deadline_ticks limits) \<le> tk_epoch t"
  shows "tk_now s + (unat (max_wallclock_ms limits) - 1) * 1000000 \<le> tk_now t"
proof -
  have inv: "ticker_inv s" "ticker_inv t"
    using ticker_inv_run [OF assms(1) ticker_inv_spawned] ticker_inv_run [OF assms(2)] by simp_all
  let ?d = "max (unat (max_wallclock_ms limits)) 1"
  have d: "tk_epoch s + ?d \<le> tk_epoch t" using assms(3) by (simp add: deadline_ticks_bounds)
  then have ne: "tk_epoch t \<noteq> tk_epoch s" by simp
  with paced_run [OF assms(2) inv(1)]
  have p: "(tk_epoch t - tk_epoch s - 1) * tick_ns + tk_now s \<le> max (tk_now s) (slept_from t)" "tk_now s \<le> tk_now t"
    by (simp_all add: paced_def)
  have "slept_from t \<le> tk_now t" using inv(2) by (auto simp: slept_from_def ticker_inv_def)
  then have "(tk_epoch t - tk_epoch s - 1) * tick_ns + tk_now s \<le> tk_now t" using p by simp
  moreover have "(?d - 1) * tick_ns \<le> (tk_epoch t - tk_epoch s - 1) * tick_ns" using d by (intro mult_right_mono) simp_all
  ultimately show ?thesis by (simp add: tick_ns_def TICK_MS_def)
qed

lemma no_early_timeout_witness:
  "\<exists>t. ticker_step\<^sup>*\<^sup>* ticker_spawned t \<and> tk_epoch t = 1 \<and>
     tk_now ticker_spawned + (unat (1 :: u64) - 1) * 1000000 \<le> tk_now t"
proof -
  let ?s1 = "ticker_spawned\<lparr>tk_pc := TSleep, tk_wake := tick_ns\<rparr>"
  let ?s2 = "?s1\<lparr>tk_now := tick_ns, tk_pc := TIncrement\<rparr>"
  let ?s3 = "?s2\<lparr>tk_pc := TCheck, tk_epoch := 1\<rparr>"
  have "ticker_step ticker_spawned ?s1" using check_go [of ticker_spawned] by (simp add: ticker_spawned_def)
  moreover have "ticker_step\<^sup>*\<^sup>* ?s1 ?s2" using sleep_on [of ?s1] by (simp add: ticker_spawned_def)
  moreover have "ticker_step ?s2 ?s3" using increment [of ?s2] by (simp add: ticker_spawned_def)
  ultimately have run: "ticker_step\<^sup>*\<^sup>* ticker_spawned ?s3"
    by (meson converse_rtranclp_into_rtranclp rtranclp.rtrancl_into_rtrancl)
  have "tk_epoch ticker_spawned + unat (deadline_ticks \<lparr>max_memory_bytes = 0, max_wallclock_ms = 1\<rparr>) \<le> tk_epoch ?s3"
    by (simp add: deadline_ticks_bounds ticker_spawned_def)
  from no_early_timeout [OF rtranclp.rtrancl_refl run this] run show ?thesis
    by (intro exI [of _ ?s3]) simp
qed

end
