(* ===== verification/Kanban_Live.thy ===== *)
theory Kanban_Live
  imports Kanban_Sqlite
begin

text \<open>
  Progress on the board: which tasks can be brought to \<open>Done\<close>, and which never can.  The lemmas are
  about the specification of the board and carried over to the SQLite board by its interpretation
  of the contract.
\<close>

lemma deps_done_iff: "deps_done b ds = Inr () \<longleftrightarrow> (\<forall>d \<in> set ds. \<exists>u. b d = Some u \<and> t_state u = Done)"
  by (induction b ds rule: deps_done.induct) (auto split: option.splits)

text \<open>A shortest legal way to \<open>Done\<close>.\<close>

fun route_to_done :: "task_state \<Rightarrow> task_state list" where
  "route_to_done Backlog = [Todo, Ready, Running, Done]"
| "route_to_done Todo = [Ready, Running, Done]"
| "route_to_done Ready = [Running, Done]"
| "route_to_done Running = [Done]"
| "route_to_done Blocked = [Done]"
| "route_to_done Done = []"
| "route_to_done Archived = []"

fun legal_path :: "task_state \<Rightarrow> task_state list \<Rightarrow> bool" where
  "legal_path s [] = True"
| "legal_path s (t # ts) = (is_legal_transition s t \<and> legal_path t ts)"

lemma legal_route: "legal_path s (route_to_done s)"
  by (cases s) simp_all

lemma last_route: "s \<noteq> Archived \<Longrightarrow> last (s # route_to_done s) = Done"
  by (cases s) simp_all

lemma length_route: "length (route_to_done s) \<le> 4"
  by (cases s) simp_all

text \<open>The length is least: no legal path to \<open>Done\<close> is shorter.\<close>

lemma route_step: "is_legal_transition s t \<Longrightarrow> t \<noteq> Archived \<Longrightarrow> length (route_to_done s) \<le> Suc (length (route_to_done t))"
  by (cases s; cases t) simp_all

definition moves_to :: "uuid \<Rightarrow> string \<Rightarrow> timestamp \<Rightarrow> task_state list \<Rightarrow> kanban_op list" where
  "moves_to tid a now = map (\<lambda>to. KTransition now tid to a None)"

lemma spec_walk:
  assumes "b tid = Some t" "legal_path (t_state t) ts" "Ready \<in> set ts \<Longrightarrow> deps_done (b(tid := None)) (t_depends_on t) = Inr ()"
  shows "\<exists>u. fold spec_step (moves_to tid a now ts) b = b(tid \<mapsto> u) \<and> t_state u = last (t_state t # ts)"
  using assms
proof (induction ts arbitrary: b t)
  case Nil
  then show ?case by (intro exI [of _ t]) (auto simp: moves_to_def)
next
  case (Cons to ts)
  let ?u = "moved now to a None t"
  have "to = Ready \<Longrightarrow> deps_done b (t_depends_on t) = Inr ()"
    using Cons.prems(3) by (fastforce simp: deps_done_iff split: if_splits)
  then have "spec_step (KTransition now tid to a None) b = b(tid \<mapsto> ?u)"
    using Cons.prems(1,2) by (simp add: spec_transition_def)
  moreover have "\<exists>u. fold spec_step (moves_to tid a now ts) (b(tid \<mapsto> ?u)) = (b(tid \<mapsto> ?u))(tid \<mapsto> u) \<and>
      t_state u = last (t_state ?u # ts)"
  proof (rule Cons.IH)
    have deps: "t_depends_on ?u = t_depends_on t" by (simp add: moved_def)
    show "deps_done ((b(tid \<mapsto> ?u))(tid := None)) (t_depends_on ?u) = Inr ()" if "Ready \<in> set ts"
      unfolding fun_upd_upd deps by (rule Cons.prems(3)) (simp add: that)
  qed (use Cons.prems(2) in \<open>simp_all add: moved_def\<close>)
  ultimately show ?case by (auto simp: moves_to_def moved_def)
qed

lemma fresh_moves: "fresh_run (moves_to tid a now ts) used"
  unfolding moves_to_def by (induction ts) simp_all

lemma ready_on_route: "Ready \<in> set (route_to_done s) \<Longrightarrow> s = Backlog \<or> s = Todo"
  by (cases s) simp_all

text \<open>Claim C9.  No task gets stuck by the rules of the board: a task that is not archived, and whose
  dependencies are done if it has not been released yet, can be brought to \<open>Done\<close> by at most four
  transitions, each of which the board accepts.\<close>

theorem task_can_finish:
  assumes "kanban_inv cdc c" "kanban_view cdc c tid = Some t" "t_state t \<noteq> Archived"
    and "t_state t = Backlog \<or> t_state t = Todo \<Longrightarrow>
      \<forall>d \<in> set (t_depends_on t). \<exists>u. kanban_view cdc c d = Some u \<and> t_state u = Done"
  shows "\<exists>tos u. length tos \<le> 4 \<and>
    fst (kanban_get cdc tid (fold (board_step (sqlite_kanban cdc)) (map (\<lambda>to. KTransition now tid to a None) tos) c)) = Inr u \<and>
    t_state u = Done"
proof -
  let ?ts = "route_to_done (t_state t)" and ?b = "kanban_view cdc c"
  let ?ops = "moves_to tid a now ?ts"
  have "deps_done (?b(tid := None)) (t_depends_on t) = Inr ()" if "Ready \<in> set ?ts"
  proof -
    have "t_state t = Backlog \<or> t_state t = Todo" using that by (rule ready_on_route)
    then show ?thesis using assms(2,4) by (auto simp: deps_done_iff)
  qed
  from spec_walk [OF assms(2) legal_route this] obtain u where
    u: "fold spec_step ?ops ?b = ?b(tid \<mapsto> u)" "t_state u = Done"
    using last_route [OF assms(3)] by auto
  let ?c = "fold (board_step (sqlite_kanban cdc)) ?ops c"
  have "kanban_inv cdc ?c" "kanban_view cdc ?c = ?b(tid \<mapsto> u)"
    using sqlite_board.run_view [OF assms(1) fresh_moves] u(1) by simp_all
  then have "fst (kanban_get cdc tid ?c) = Inr u"
    using kanban_get_refines [of cdc ?c tid] by (cases "kanban_get cdc tid ?c") (auto simp: spec_get_def)
  then show ?thesis using length_route [of "t_state t"] u(2) unfolding moves_to_def by blast
qed

lemma task_can_finish_witness:
  "\<exists>tos u. length tos \<le> 4 \<and> fst (kanban_get demo_kanban_codec 7 (fold (board_step (sqlite_kanban demo_kanban_codec))
      (map (\<lambda>to. KTransition 4 7 to ''a'' None) tos)
      (board_step (sqlite_kanban demo_kanban_codec)
        (KCreate 7 3 \<lparr>nt_title = ''t'', nt_actor = ''a'', nt_depends_on = []\<rparr>) empty_board))) = Inr u \<and> t_state u = Done"
proof -
  let ?nt = "\<lparr>nt_title = ''t'', nt_actor = ''a'', nt_depends_on = []\<rparr>"
  let ?c = "board_step (sqlite_kanban demo_kanban_codec) (KCreate 7 3 ?nt) empty_board"
  have "kanban_inv demo_kanban_codec ?c" "kanban_view demo_kanban_codec ?c = spec_step (KCreate 7 3 ?nt) Map.empty"
    using sqlite_board.step_view [OF empty_board_inv(1) [OF demo_kan_ok], of "KCreate 7 3 ?nt" "[]"] by simp_all
  then show ?thesis
    by (intro task_can_finish [of _ _ _ "created 7 3 ?nt"]) (simp_all add: spec_create_def created_def)
qed

subsection \<open>Stranded tasks\<close>

text \<open>A dependency that has been archived does not count as done.\<close>

definition archived :: "board \<Rightarrow> uuid \<Rightarrow> bool" where
  "archived b d \<longleftrightarrow> (case b d of None \<Rightarrow> False | Some u \<Rightarrow> t_state u = Archived)"

definition stranded :: "board \<Rightarrow> uuid \<Rightarrow> bool" where
  "stranded b tid \<longleftrightarrow> (case b tid of None \<Rightarrow> False
     | Some t \<Rightarrow> (t_state t = Backlog \<or> t_state t = Todo) \<and> list_ex (archived b) (t_depends_on t))"

fun op_target :: "kanban_op \<Rightarrow> uuid" where
  "op_target (KCreate tid now nt) = tid"
| "op_target (KTransition now tid to a r) = tid"
| "op_target (KClaim tid w) = tid"
| "op_target (KBlock now tid a br) = tid"

lemma spec_step_other: "i \<noteq> op_target c \<Longrightarrow> spec_step c b i = b i"
  by (cases c) (auto simp: spec_create_def spec_transition_def spec_claim_def spec_block_def split: option.splits sum.splits)

lemma archived_step:
  assumes "archived b d" "fresh_run (c # ops) (dom b)"
  shows "archived (spec_step c b) d"
proof (cases "op_target c = d")
  case True
  from assms(1) obtain u where u: "b d = Some u" "t_state u = Archived" by (auto simp: archived_def split: option.splits)
  have "\<not> is_legal_transition Archived s" for s by (cases s) simp_all
  then show ?thesis using u True assms(2)
    by (cases c) (auto simp: archived_def spec_transition_def spec_claim_def spec_block_def)
next
  case False
  then show ?thesis using assms(1) spec_step_other [of d c b] by (simp add: archived_def)
qed

lemma stranded_step:
  assumes "stranded b tid" "fresh_run (c # ops) (dom b)"
  shows "stranded (spec_step c b) tid"
proof -
  obtain t where t: "b tid = Some t" "t_state t = Backlog \<or> t_state t = Todo" "list_ex (archived b) (t_depends_on t)"
    using assms(1) by (auto simp: stranded_def split: option.splits)
  have deps: "list_ex (archived (spec_step c b)) (t_depends_on t)"
    using t(3) archived_step [OF _ assms(2)] by (auto simp: list_ex_iff)
  have not_done: "deps_done b (t_depends_on t) \<noteq> Inr ()"
    using t(3) by (fastforce simp: deps_done_iff list_ex_iff archived_def split: option.splits)
  have legal: "is_legal_transition (t_state t) s \<Longrightarrow> s = Backlog \<or> s = Todo \<or> s = Ready" for s
    using t(2) by (cases s) auto
  have "\<exists>u. spec_step c b tid = Some u \<and> (t_state u = Backlog \<or> t_state u = Todo) \<and> t_depends_on u = t_depends_on t"
  proof (cases "op_target c = tid")
    case True
    then show ?thesis
    proof (cases c)
      case (KTransition now i to a r)
      then show ?thesis using True t(1,2) legal [of to] not_done
        by (auto simp: spec_transition_def moved_def split: sum.splits)
    next
      case (KBlock now i a br)
      then show ?thesis using True t(1,2) legal [of Blocked] by (auto simp: spec_block_def)
    next
      case (KClaim i w)
      then show ?thesis using True t(1,2) by (auto simp: spec_claim_def)
    qed (use assms(2) t(1) in auto)
  next
    case False
    then show ?thesis using t(1,2) spec_step_other [of tid c b] by auto
  qed
  then show ?thesis using deps by (auto simp: stranded_def)
qed

lemma stranded_run:
  "stranded b tid \<Longrightarrow> fresh_run ops (dom b) \<Longrightarrow> stranded (fold spec_step ops b) tid"
proof (induction ops arbitrary: b)
  case (Cons c ops)
  have "fresh_run ops (dom (spec_step c b))"
    using Cons.prems(2) unfolding dom_spec_step by (cases c) simp_all
  then show ?case using Cons.IH stranded_step [OF Cons.prems] by simp
qed simp

text \<open>Property.  Archiving strands the dependents: once a dependency of a task in \<open>Backlog\<close> or \<open>Todo\<close> has
  been archived, no sequence of operations on the board ever brings the task past \<open>Todo\<close>, since
  only \<open>Done\<close> counts as done and an archived task never becomes \<open>Done\<close> again.\<close>

theorem archived_dependency_strands:
  assumes "kanban_inv cdc c" "kanban_view cdc c tid = Some t" "t_state t = Backlog \<or> t_state t = Todo"
    and "d \<in> set (t_depends_on t)" "kanban_view cdc c d = Some u" "t_state u = Archived"
    and "fresh_run ops (dom (kanban_view cdc c))"
  shows "\<exists>v. fst (kanban_get cdc tid (fold (board_step (sqlite_kanban cdc)) ops c)) = Inr v \<and>
    (t_state v = Backlog \<or> t_state v = Todo)"
proof -
  let ?c = "fold (board_step (sqlite_kanban cdc)) ops c"
  have "stranded (kanban_view cdc c) tid"
    using assms(2-6) by (auto simp: stranded_def archived_def list_ex_iff intro!: bexI [of _ d])
  then have "stranded (kanban_view cdc ?c) tid" and inv: "kanban_inv cdc ?c"
    using stranded_run assms(7) sqlite_board.run_view [OF assms(1,7)] by simp_all
  then obtain v where "kanban_view cdc ?c tid = Some v" "t_state v = Backlog \<or> t_state v = Todo"
    by (auto simp: stranded_def split: option.splits)
  then show ?thesis using kanban_get_refines [OF inv, of tid]
    by (cases "kanban_get cdc tid ?c") (auto simp: spec_get_def)
qed

lemma archived_dependency_strands_witness:
  "\<exists>c v. fst (kanban_get demo_kanban_codec 8 (board_step (sqlite_kanban demo_kanban_codec) (KTransition 9 8 Ready ''a'' None) c)) = Inr v \<and>
     t_state v \<noteq> Ready \<and> map_option t_state (kanban_view demo_kanban_codec c 7) = Some Archived"
proof -
  let ?nt = "\<lambda>ds. \<lparr>nt_title = ''t'', nt_actor = ''a'', nt_depends_on = ds\<rparr>"
  let ?walk = "moves_to 7 ''a'' 5 [Todo, Ready, Running, Done, Archived]"
  let ?ops = "KCreate 7 3 (?nt []) # ?walk @ [KCreate 8 3 (?nt [7])]"
  let ?c = "fold (board_step (sqlite_kanban demo_kanban_codec)) ?ops empty_board"
  have run: "kanban_inv demo_kanban_codec ?c" "kanban_view demo_kanban_codec ?c = fold spec_step ?ops Map.empty"
    using sqlite_board.run_view [OF empty_board_inv(1) [OF demo_kan_ok], of ?ops] by (simp_all add: moves_to_def)
  obtain u where walk: "fold spec_step ?walk [7 \<mapsto> created 7 3 (?nt [])] = [7 \<mapsto> u]" "t_state u = Archived"
    using spec_walk [of "[7 \<mapsto> created 7 3 (?nt [])]" 7 "created 7 3 (?nt [])" "[Todo, Ready, Running, Done, Archived]" "''a''" 5]
    by (auto simp: created_def)
  have view: "kanban_view demo_kanban_codec ?c = [7 \<mapsto> u, 8 \<mapsto> created 8 3 (?nt [7])]"
    by (rule trans [OF run(2)]) (simp add: spec_create_def walk(1))
  define t where "t = created 8 3 (?nt [7])"
  have t: "kanban_view demo_kanban_codec ?c 8 = Some t" "t_state t = Backlog" "t_depends_on t = [7]"
    and u: "kanban_view demo_kanban_codec ?c 7 = Some u" "t_state u = Archived"
    using walk(2) unfolding view by (simp_all add: t_def) (simp_all add: created_def)
  have "\<exists>v. fst (kanban_get demo_kanban_codec 8 (fold (board_step (sqlite_kanban demo_kanban_codec)) [KTransition 9 8 Ready ''a'' None] ?c)) = Inr v \<and>
    (t_state v = Backlog \<or> t_state v = Todo)"
    by (rule archived_dependency_strands [OF run(1) t(1) _ _ u]) (simp_all add: t)
  then obtain v where "fst (kanban_get demo_kanban_codec 8 (board_step (sqlite_kanban demo_kanban_codec) (KTransition 9 8 Ready ''a'' None) ?c)) = Inr v"
    "t_state v \<noteq> Ready" by auto
  then show ?thesis using u by (intro exI [of _ ?c] exI [of _ v]) simp
qed

end
