(* ===== verification/Ledger_Base.thy ===== *)
theory Ledger_Base
  imports Sqlite Text
begin

text \<open>
  What the four SQLite ledgers of the conversation workflow share: opening a database, taking the
  lock with \<open>unwrap\<close>, reading the rows of a query one by one and decoding each, and the law of a
  row codec, stated as the locale \<open>row_codec\<close> and interpreted by each ledger on its own rows.

  \<open>lock().unwrap()\<close> panics on a poisoned mutex: \<open>Panic\<close>, beside the errors of the ledger.
\<close>

datatype 'e abort = Panic | Err 'e

type_synonym ('db, 'e, 'a) ledger_op = "('db conn, 'e abort, 'a) op"

definition as_err :: "'e + 'a \<Rightarrow> 'e abort + 'a" where
  "as_err r = (case r of Inl e \<Rightarrow> Inl (Err e) | Inr a \<Rightarrow> Inr a)"

definition lock_unwrap :: "('db, 'e, unit) ledger_op" where
  "lock_unwrap = lock_conn Panic"

text \<open>
  \<open>open\<close>: \<open>tables\<close> is what the file holds, \<open>create\<close> adds the missing tables, \<open>faults\<close> are the failures of
  the statements executed on the way.
\<close>

definition open_db ::
  "('t \<Rightarrow> 'db) \<Rightarrow> 't \<Rightarrow> (string \<Rightarrow> int + 't) \<Rightarrow> int option list \<Rightarrow> string \<Rightarrow> rusqlite_error + 'db conn" where
  "open_db create no_tables connect faults path =
     (case (if path = '':memory:'' then Inr no_tables
            else case validate_db_path path of
              Inl e \<Rightarrow> Inl (InvalidPath e)
            | Inr _ \<Rightarrow> (case connect path of Inl code \<Rightarrow> Inl (SqliteFailure code) | Inr t \<Rightarrow> Inr t)) of
        Inl e \<Rightarrow> Inl e
      | Inr tables \<Rightarrow>
          (case find (\<lambda>f. f \<noteq> None) faults of
             Some (Some code) \<Rightarrow> Inl (SqliteFailure code)
           | _ \<Rightarrow> Inr (conn_new (create tables))))"

text \<open>\<open>prepare\<close>, \<open>query_map\<close>, and the loop over the rows, with the error of each of the three steps.\<close>

definition read_rows :: "'e \<Rightarrow> 'e \<Rightarrow> 'e \<Rightarrow> ('db \<Rightarrow> 'r list) \<Rightarrow> ('r \<Rightarrow> 'e + 'a) \<Rightarrow> ('db, 'e, 'a list) ledger_op" where
  "read_rows prepare query row sel dec =
     bindE (map_err (\<lambda>_. Err prepare) sql_fault) (\<lambda>_.
     bindE (map_err (\<lambda>_. Err query) (sql_read sel)) (\<lambda>rows.
     mapE (\<lambda>r. bindE (map_err (\<lambda>_. Err row) sql_fault) (\<lambda>_. liftE (as_err (dec r)))) rows))"

text \<open>A statement executed for its effect, its failure mapped to one error.\<close>

definition execute :: "'e \<Rightarrow> ('db \<Rightarrow> int + 'a \<times> 'db) \<Rightarrow> ('db, 'e, 'a) ledger_op" where
  "execute e f = map_err (\<lambda>_. Err e) (sql_exec f)"

subsection \<open>On a healthy connection\<close>

lemma as_err_simps [simp]: "as_err (Inl e) = Inl (Err e)" "as_err (Inr a) = Inr a"
  by (simp_all add: as_err_def)

lemma as_err_Inr [simp]: "as_err r = Inr a \<longleftrightarrow> r = Inr a"
  by (cases r) simp_all

lemma lock_unwrap_free [simp]: "\<not> c_poisoned c \<Longrightarrow> lock_unwrap c = (Inr (), c)"
  by (simp add: lock_unwrap_def)

lemma mapE_rows:
  "c_faults c = [] \<Longrightarrow>
   mapE (\<lambda>r. bindE (map_err (\<lambda>_. Err row) sql_fault) (\<lambda>_. liftE (as_err (dec r)))) rows c = (as_err (traverse dec rows), c)"
  by (induction rows) (auto simp: bindE_def map_err_def split: sum.splits)

lemma read_rows_healthy [simp]:
  "c_faults c = [] \<Longrightarrow> read_rows p q row sel dec c = (as_err (traverse dec (sel (c_db c))), c)"
proof -
  assume c: "c_faults c = []"
  then have "map_err (\<lambda>_. Err p) sql_fault c = (Inr (), c)" "map_err (\<lambda>_. Err q) (sql_read sel) c = (Inr (sel (c_db c)), c)"
    by (simp_all add: map_err_def)
  then show ?thesis using c by (simp add: read_rows_def bindE_step mapE_rows)
qed

lemma execute_healthy [simp]:
  "c_faults c = [] \<Longrightarrow> execute e f c =
     (case f (c_db c) of Inl code \<Rightarrow> (Inl (Err e), c) | Inr (a, db) \<Rightarrow> (Inr a, c\<lparr>c_db := db\<rparr>))"
  by (auto simp: execute_def map_err_def split: sum.splits prod.splits)

lemma bind_lock [simp]: "\<not> c_poisoned c \<Longrightarrow> bindE lock_unwrap f c = f () c"
  by (simp add: bindE_def)

lemma healthyD: "healthy c \<Longrightarrow> c_faults c = []" "healthy c \<Longrightarrow> \<not> c_poisoned c"
  by (simp_all add: healthy_def)

lemma healthy_db [simp]: "healthy (c\<lparr>c_db := db\<rparr>) = healthy c"
  by (simp add: healthy_def)

subsection \<open>Under faults\<close>

text \<open>Reading never changes the data; a statement changes it by its effect or not at all.\<close>

lemma keeps_lock_unwrap [frame]: "keeps same_data lock_unwrap"
  by (simp add: keeps_def lock_unwrap_def lock_conn_def)

lemma keeps_read_rows [frame]: "keeps same_data (read_rows p q row sel dec)"
  unfolding read_rows_def by (intro frame | assumption)+

lemma read_rows_keeps: "read_rows p q row sel dec c = (r, c') \<Longrightarrow> c_db c' = c_db c"
  using keepsD [OF keeps_read_rows, of p q row sel dec c r c'] by (simp add: same_data_def)

lemma execute_effect:
  assumes "execute e f c = (r, c')"
  shows "(r = Inl (Err e) \<and> c_db c' = c_db c) \<or> (\<exists>a. r = Inr a \<and> f (c_db c) = Inr (a, c_db c'))"
proof -
  obtain r1 c1 where f1: "sql_fault c = (r1, c1)" by fastforce
  then have "c_db c1 = c_db c" using same_data_fault [of c] by (simp add: same_data_def)
  then show ?thesis
    using assms f1 by (auto simp: execute_def map_err_def sql_exec_def bindE_def split: sum.splits prod.splits)
qed

subsection \<open>Row codecs\<close>

lemma insort_key_map: "insort_key f (g x) (map g xs) = map g (insort_key (\<lambda>x. f (g x)) x xs)"
  by (induction xs) auto

lemma sort_key_map: "sort_key f (map g xs) = map g (sort_key (\<lambda>x. f (g x)) xs)"
  by (induction xs) (simp_all add: insort_key_map)

locale row_codec =
  fixes enc :: "'a \<Rightarrow> 'r"
    and dec :: "'r \<Rightarrow> 'e + 'a"
    and ok :: "'a \<Rightarrow> bool"
  assumes dec_enc: "ok x \<Longrightarrow> dec (enc x) = Inr x"
begin

lemma enc_inject: "ok x \<Longrightarrow> ok y \<Longrightarrow> enc x = enc y \<longleftrightarrow> x = y"
  by (metis dec_enc sum.inject(2))

lemma traverse_enc: "list_all ok xs \<Longrightarrow> traverse dec (map enc xs) = Inr xs"
  by (induction xs) (simp_all add: dec_enc)

text \<open>A query on encoded rows returns the query on the values.\<close>

lemma query_enc:
  assumes "list_all ok xs" "\<And>x. P (enc x) = Q x" "\<And>x. key (enc x) = k x"
  shows "traverse dec (sort_key key (filter P (map enc xs))) = Inr (sort_key k (filter Q xs))"
proof -
  have "sort_key key (filter P (map enc xs)) = map enc (sort_key k (filter Q xs))"
    using assms(2,3) by (simp add: filter_map comp_def sort_key_map)
  moreover have "list_all ok (sort_key k (filter Q xs))" using assms(1) by (simp add: list_all_iff)
  ultimately show ?thesis by (simp add: traverse_enc)
qed

lemma select_enc:
  assumes "list_all ok xs" "\<And>x. P (enc x) = Q x"
  shows "traverse dec (filter P (map enc xs)) = Inr (filter Q xs)"
proof -
  have "filter P (map enc xs) = map enc (filter Q xs)" using assms(2) by (simp add: filter_map comp_def)
  moreover have "list_all ok (filter Q xs)" using assms(1) by (simp add: list_all_iff)
  ultimately show ?thesis by (simp add: traverse_enc)
qed

end

end
