(* ===== verification/Coverage_Map.thy ===== *)
theory Coverage_Map
  imports Ledger_Base
begin

text \<open>
  \<open>plugin-coverage-map/src/lib.rs\<close>: the inventory of concepts, their links to artifacts and to humans,
  and the dark concepts.  The three tables are lists of rows; the foreign keys are enforced by the
  connection.  The clock reading of a link is the argument \<open>now\<close>.
\<close>

record concept =
  co_id :: string
  co_component :: string
  co_label :: string
  co_created_at :: timestamp

datatype coverage_error = CovStorage string

record concept_row =
  cr_id :: string
  cr_component :: string
  cr_label :: string
  cr_created_at :: string

record artifact_row =
  ar_concept :: string
  ar_ref :: string
  ar_linked_at :: string

record actor_row =
  ac_concept :: string
  ac_actor :: string
  ac_living :: bool
  ac_linked_at :: string

record coverage_db =
  cv_concepts :: "concept_row list"
  cv_artifacts :: "artifact_row list"
  cv_actors :: "actor_row list"

type_synonym 'a coverage_op = "(coverage_db, coverage_error, 'a) ledger_op"

definition coverage_create ::
  "concept_row list option \<times> artifact_row list option \<times> actor_row list option \<Rightarrow> coverage_db" where
  "coverage_create t =
     \<lparr>cv_concepts = (case fst t of None \<Rightarrow> [] | Some rs \<Rightarrow> rs),
      cv_artifacts = (case fst (snd t) of None \<Rightarrow> [] | Some rs \<Rightarrow> rs),
      cv_actors = (case snd (snd t) of None \<Rightarrow> [] | Some rs \<Rightarrow> rs)\<rparr>"

definition coverage_open where
  "coverage_open = open_db coverage_create (None, None, None)"

definition parse_coverage_ts :: "'x codec_scheme \<Rightarrow> string \<Rightarrow> coverage_error + timestamp" where
  "parse_coverage_ts cdc s = ok_or (CovStorage ''integrity error: malformed timestamp'') (parse_ts cdc s)"

definition concept_row_of :: "'x codec_scheme \<Rightarrow> concept \<Rightarrow> concept_row" where
  "concept_row_of cdc c = \<lparr>cr_id = co_id c, cr_component = co_component c, cr_label = co_label c,
     cr_created_at = ts_str cdc (co_created_at c)\<rparr>"

definition row_concept :: "'x codec_scheme \<Rightarrow> concept_row \<Rightarrow> coverage_error + concept" where
  "row_concept cdc r =
     (case parse_coverage_ts cdc (cr_created_at r) of
        Inl e \<Rightarrow> Inl e
      | Inr t \<Rightarrow> Inr \<lparr>co_id = cr_id r, co_component = cr_component r, co_label = cr_label r, co_created_at = t\<rparr>)"

text \<open>\<open>INSERT \<dots> ON CONFLICT(id) DO UPDATE SET component, label\<close>.\<close>

definition upsert_concept :: "concept_row \<Rightarrow> coverage_db \<Rightarrow> coverage_db" where
  "upsert_concept r db =
     (if list_ex (\<lambda>x. cr_id x = cr_id r) (cv_concepts db)
      then db\<lparr>cv_concepts := update_where (\<lambda>x. cr_id x = cr_id r)
             (\<lambda>x. x\<lparr>cr_component := cr_component r, cr_label := cr_label r\<rparr>) (cv_concepts db)\<rparr>
      else db\<lparr>cv_concepts := cv_concepts db @ [r]\<rparr>)"

definition add_concept :: "'x codec_scheme \<Rightarrow> concept \<Rightarrow> unit coverage_op" where
  "add_concept cdc c =
     bindE lock_unwrap (\<lambda>_.
     execute (CovStorage ''insert concept failed'') (\<lambda>db. Inr ((), upsert_concept (concept_row_of cdc c) db)))"

definition has_concept :: "coverage_db \<Rightarrow> string \<Rightarrow> bool" where
  "has_concept db k = list_ex (\<lambda>x. cr_id x = k) (cv_concepts db)"

definition ensure_concept_exists :: "string \<Rightarrow> unit coverage_op" where
  "ensure_concept_exists k =
     bindE lock_unwrap (\<lambda>_.
     bindE (map_err (\<lambda>_. Err (CovStorage ''concept lookup failed'')) (sql_read (\<lambda>db. has_concept db k))) (\<lambda>exists.
     if exists then retE () else throwE (Err (CovStorage (''unknown concept '' @ quoted k)))))"

text \<open>787 is \<open>SQLITE_CONSTRAINT_FOREIGNKEY\<close>.\<close>

definition insert_artifact :: "artifact_row \<Rightarrow> coverage_db \<Rightarrow> int + unit \<times> coverage_db" where
  "insert_artifact r db =
     (if list_ex (\<lambda>x. ar_concept x = ar_concept r \<and> ar_ref x = ar_ref r) (cv_artifacts db) then Inr ((), db)
      else if has_concept db (ar_concept r) then Inr ((), db\<lparr>cv_artifacts := cv_artifacts db @ [r]\<rparr>)
      else Inl 787)"

definition link_artifact :: "'x codec_scheme \<Rightarrow> timestamp \<Rightarrow> string \<Rightarrow> string \<Rightarrow> unit coverage_op" where
  "link_artifact cdc now k ref =
     bindE (ensure_concept_exists k) (\<lambda>_.
     bindE lock_unwrap (\<lambda>_.
     execute (CovStorage ''link artifact failed'')
       (insert_artifact \<lparr>ar_concept = k, ar_ref = ref, ar_linked_at = ts_str cdc now\<rparr>)))"

definition upsert_actor :: "actor_row \<Rightarrow> coverage_db \<Rightarrow> int + unit \<times> coverage_db" where
  "upsert_actor r db =
     (if list_ex (\<lambda>x. ac_concept x = ac_concept r \<and> ac_actor x = ac_actor r) (cv_actors db)
      then Inr ((), db\<lparr>cv_actors := update_where (\<lambda>x. ac_concept x = ac_concept r \<and> ac_actor x = ac_actor r)
             (\<lambda>x. x\<lparr>ac_living := True, ac_linked_at := ac_linked_at r\<rparr>) (cv_actors db)\<rparr>)
      else if has_concept db (ac_concept r) then Inr ((), db\<lparr>cv_actors := cv_actors db @ [r]\<rparr>)
      else Inl 787)"

definition link_actor :: "'x codec_scheme \<Rightarrow> timestamp \<Rightarrow> string \<Rightarrow> string \<Rightarrow> unit coverage_op" where
  "link_actor cdc now k a =
     bindE (ensure_concept_exists k) (\<lambda>_.
     bindE lock_unwrap (\<lambda>_.
     execute (CovStorage ''link actor failed'')
       (upsert_actor \<lparr>ac_concept = k, ac_actor = a, ac_living = True, ac_linked_at = ts_str cdc now\<rparr>)))"

definition decay_actor_link :: "string \<Rightarrow> string \<Rightarrow> unit coverage_op" where
  "decay_actor_link k a =
     bindE lock_unwrap (\<lambda>_.
     execute (CovStorage ''decay actor link failed'')
       (\<lambda>db. Inr ((), db\<lparr>cv_actors := update_where (\<lambda>x. ac_concept x = k \<and> ac_actor x = a)
          (\<lambda>x. x\<lparr>ac_living := False\<rparr>) (cv_actors db)\<rparr>)))"

definition query_concepts :: "'x codec_scheme \<Rightarrow> (coverage_db \<Rightarrow> concept_row list) \<Rightarrow> concept list coverage_op" where
  "query_concepts cdc sel =
     bindE lock_unwrap (\<lambda>_.
     read_rows (CovStorage ''prepare failed'') (CovStorage ''query failed'') (CovStorage ''row read failed'')
       sel (row_concept cdc))"

definition all_concepts :: "'x codec_scheme \<Rightarrow> concept list coverage_op" where
  "all_concepts cdc = query_concepts cdc (\<lambda>db. sort_key cr_id (cv_concepts db))"

definition has_living :: "actor_row list \<Rightarrow> string \<Rightarrow> bool" where
  "has_living rows k = list_ex (\<lambda>a. ac_concept a = k \<and> ac_living a) rows"

definition dark_concepts :: "'x codec_scheme \<Rightarrow> concept list coverage_op" where
  "dark_concepts cdc =
     query_concepts cdc (\<lambda>db. sort_key cr_id (filter (\<lambda>c. \<not> has_living (cv_actors db) (cr_id c)) (cv_concepts db)))"

definition query_strings :: "(coverage_db \<Rightarrow> string list) \<Rightarrow> string list coverage_op" where
  "query_strings sel =
     bindE lock_unwrap (\<lambda>_.
     read_rows (CovStorage ''prepare failed'') (CovStorage ''query failed'') (CovStorage ''row read failed'') sel Inr)"

definition artifacts_for :: "string \<Rightarrow> string list coverage_op" where
  "artifacts_for k = query_strings (\<lambda>db. map ar_ref (sort_key ar_ref (filter (\<lambda>x. ar_concept x = k) (cv_artifacts db))))"

definition living_actors_for :: "string \<Rightarrow> string list coverage_op" where
  "living_actors_for k =
     query_strings (\<lambda>db. map ac_actor (sort_key ac_actor (filter (\<lambda>x. ac_concept x = k \<and> ac_living x) (cv_actors db))))"

subsection \<open>The invariant of the tables\<close>

interpretation concept_rows: row_codec "concept_row_of cdc" "row_concept cdc" "\<lambda>_. codec_ok cdc"
  for cdc :: "'x codec_scheme"
  by unfold_locales (simp add: concept_row_of_def row_concept_def parse_coverage_ts_def)

text \<open>A write request.\<close>

datatype coverage_request =
    AddConcept concept
  | LinkArtifact timestamp string string
  | LinkActor timestamp string string
  | Decay string string

fun coverage_step :: "'x codec_scheme \<Rightarrow> coverage_request \<Rightarrow> unit coverage_op" where
  "coverage_step cdc (AddConcept c) = add_concept cdc c"
| "coverage_step cdc (LinkArtifact now k ref) = link_artifact cdc now k ref"
| "coverage_step cdc (LinkActor now k a) = link_actor cdc now k a"
| "coverage_step cdc (Decay k a) = decay_actor_link k a"

text \<open>
  The keys are unique, every concept row decodes, and every link names a registered concept.
\<close>

definition coverage_inv :: "'x codec_scheme \<Rightarrow> coverage_db \<Rightarrow> bool" where
  "coverage_inv cdc db \<longleftrightarrow> distinct (map cr_id (cv_concepts db)) \<and>
     distinct (map (\<lambda>x. (ar_concept x, ar_ref x)) (cv_artifacts db)) \<and>
     distinct (map (\<lambda>x. (ac_concept x, ac_actor x)) (cv_actors db)) \<and>
     list_all (\<lambda>x. has_concept db (ar_concept x)) (cv_artifacts db) \<and>
     list_all (\<lambda>x. has_concept db (ac_concept x)) (cv_actors db) \<and>
     list_all (\<lambda>r. \<exists>c. r = concept_row_of cdc c) (cv_concepts db)"

lemma has_concept_iff: "has_concept db k \<longleftrightarrow> k \<in> cr_id ` set (cv_concepts db)"
  by (auto simp: has_concept_def list_ex_iff)

lemma set_update_where: "set (update_where P f rs) = (\<lambda>r. if P r then f r else r) ` set rs"
  by (simp add: update_where_def)

lemma upsert_concept_ids: "set (map cr_id (cv_concepts (upsert_concept r db))) = insert (cr_id r) (set (map cr_id (cv_concepts db)))"
proof (cases "list_ex (\<lambda>x. cr_id x = cr_id r) (cv_concepts db)")
  case True
  then have "map cr_id (cv_concepts (upsert_concept r db)) = map cr_id (cv_concepts db)"
    by (simp add: upsert_concept_def map_update_where)
  moreover have "cr_id r \<in> set (map cr_id (cv_concepts db))" using True by (auto simp: list_ex_iff intro: rev_image_eqI)
  ultimately show ?thesis by (simp only: insert_absorb)
qed (simp add: upsert_concept_def)

lemma upsert_concept_inv:
  assumes "coverage_inv cdc db"
  shows "coverage_inv cdc (upsert_concept (concept_row_of cdc c) db)"
proof -
  let ?r = "concept_row_of cdc c"
  have more: "has_concept db k \<Longrightarrow> has_concept (upsert_concept ?r db) k" for k
    using upsert_concept_ids [of ?r db] by (auto simp: has_concept_iff)
  have links: "cv_artifacts (upsert_concept ?r db) = cv_artifacts db" "cv_actors (upsert_concept ?r db) = cv_actors db"
    by (simp_all add: upsert_concept_def)
  have "distinct (map cr_id (cv_concepts (upsert_concept ?r db)))"
    using assms by (auto simp: upsert_concept_def coverage_inv_def list_ex_iff map_update_where)
  moreover have "\<exists>c2. x\<lparr>cr_component := cr_component ?r, cr_label := cr_label ?r\<rparr> = concept_row_of cdc c2"
    if "x = concept_row_of cdc c1" for x c1
    using that by (intro exI [of _ "c1\<lparr>co_component := co_component c, co_label := co_label c\<rparr>"])
      (simp add: concept_row_of_def)
  then have "list_all (\<lambda>r. \<exists>c. r = concept_row_of cdc c) (cv_concepts (upsert_concept ?r db))"
    using assms by (auto simp: upsert_concept_def coverage_inv_def list_all_iff set_update_where)
  ultimately show ?thesis
    using assms more by (auto simp: coverage_inv_def links list_all_iff)
qed

lemma insert_artifact_inv:
  "coverage_inv cdc db \<Longrightarrow> insert_artifact r db = Inr (u, db') \<Longrightarrow> coverage_inv cdc db'"
  by (auto simp: insert_artifact_def coverage_inv_def has_concept_def list_ex_iff split: if_splits) blast

lemma upsert_actor_inv:
  assumes "coverage_inv cdc db" "upsert_actor r db = Inr (u, db')"
  shows "coverage_inv cdc db'"
proof (cases "list_ex (\<lambda>x. ac_concept x = ac_concept r \<and> ac_actor x = ac_actor r) (cv_actors db)")
  case True
  then have "db' = db\<lparr>cv_actors := update_where (\<lambda>x. ac_concept x = ac_concept r \<and> ac_actor x = ac_actor r)
      (\<lambda>x. x\<lparr>ac_living := True, ac_linked_at := ac_linked_at r\<rparr>) (cv_actors db)\<rparr>"
    using assms(2) by (simp add: upsert_actor_def)
  then show ?thesis using assms(1)
    by (simp add: coverage_inv_def map_update_where has_concept_def) (auto simp: list_all_iff set_update_where)
next
  case False
  then have "has_concept db (ac_concept r)" "db' = db\<lparr>cv_actors := cv_actors db @ [r]\<rparr>"
    using assms(2) by (auto simp: upsert_actor_def split: if_splits)
  moreover have "(ac_concept r, ac_actor r) \<notin> set (map (\<lambda>x. (ac_concept x, ac_actor x)) (cv_actors db))"
    using False by (auto simp: list_ex_iff)
  ultimately show ?thesis using assms(1) by (simp add: coverage_inv_def has_concept_def)
qed

lemma ensure_keeps: "ensure_concept_exists k c = (r, c') \<Longrightarrow> c_db c' = c_db c"
proof -
  have "keeps same_data (ensure_concept_exists k)"
    unfolding ensure_concept_exists_def by (intro frame) (auto intro!: frame)
  then show "ensure_concept_exists k c = (r, c') \<Longrightarrow> c_db c' = c_db c"
    using keepsD [of same_data "ensure_concept_exists k" c r c'] by (simp add: same_data_def)
qed

lemma lock_unwrap_keeps: "lock_unwrap c = (r, c') \<Longrightarrow> c' = c"
  by (auto simp: lock_unwrap_def lock_conn_def split: if_splits)

lemma guarded_execute:
  assumes "bindE lock_unwrap (\<lambda>_. execute e f) c = (r, c')"
  shows "c_db c' = c_db c \<or> (\<exists>a. r = Inr a \<and> f (c_db c) = Inr (a, c_db c'))"
  using assms lock_unwrap_keeps [of c] execute_effect [of e f c]
  by (auto simp: bindE_def split: prod.splits sum.splits)

lemma ensured_execute:
  assumes "bindE (ensure_concept_exists k) (\<lambda>_. bindE lock_unwrap (\<lambda>_. execute e f)) c = (r, c')"
  shows "c_db c' = c_db c \<or> (\<exists>a. r = Inr a \<and> f (c_db c) = Inr (a, c_db c'))"
proof (cases "ensure_concept_exists k c")
  case (Pair q c1)
  then have "c_db c1 = c_db c" by (rule ensure_keeps)
  then show ?thesis using assms Pair guarded_execute [of e f c1 r c']
    by (cases q) (auto simp: bindE_def)
qed

lemma coverage_step_safe:
  assumes "coverage_inv cdc (c_db c)" "coverage_step cdc req c = (r, c')"
  shows "coverage_inv cdc (c_db c') \<and> (is_ok r \<or> c_db c' = c_db c)"
proof (cases req)
  case (AddConcept x)
  then show ?thesis
    using assms guarded_execute [of _ _ c r c'] upsert_concept_inv [OF assms(1), of x]
    by (fastforce simp: add_concept_def)
next
  case (LinkArtifact now k ref)
  then show ?thesis
    using assms ensured_execute [of k _ _ c r c'] insert_artifact_inv [OF assms(1)]
    by (fastforce simp: link_artifact_def)
next
  case (LinkActor now k a)
  then show ?thesis
    using assms ensured_execute [of k _ _ c r c'] upsert_actor_inv [OF assms(1)]
    by (fastforce simp: link_actor_def)
next
  case (Decay k a)
  have "coverage_inv cdc (c_db c\<lparr>cv_actors := update_where (\<lambda>x. ac_concept x = k \<and> ac_actor x = a)
      (\<lambda>x. x\<lparr>ac_living := False\<rparr>) (cv_actors (c_db c))\<rparr>)"
    using assms(1) by (auto simp: coverage_inv_def has_concept_def map_update_where list_all_iff set_update_where)
  then show ?thesis
    using assms Decay guarded_execute [of _ _ c r c'] by (fastforce simp: decay_actor_link_def)
qed

lemmas coverage_stays_inv = coverage_step_safe [THEN conjunct1]

text \<open>Claim C34.  Every write keeps the tables well formed, whatever statements fail: concepts and links
  stay unique, no link ever names an unregistered concept and every stored concept is read
  back as the concept that was written; a write that returns an error has changed nothing.\<close>

theorem coverage_stays_well_formed:
  assumes "coverage_inv cdc (c_db c)" "coverage_step cdc req c = (r, c')"
  shows "coverage_inv cdc (c_db c') \<and> (is_ok r \<or> c_db c' = c_db c) \<and>
    (codec_ok cdc \<longrightarrow> list_all (\<lambda>row. \<exists>x. row_concept cdc row = Inr x \<and> row = concept_row_of cdc x) (cv_concepts (c_db c')))"
proof -
  have "coverage_inv cdc (c_db c')" using coverage_step_safe [OF assms] by blast
  then have "list_all (\<lambda>row. \<exists>x. row_concept cdc row = Inr x \<and> row = concept_row_of cdc x) (cv_concepts (c_db c'))" if "codec_ok cdc"
    using concept_rows.dec_enc [OF that] by (auto simp: coverage_inv_def list_all_iff)
  then show ?thesis using coverage_step_safe [OF assms] by blast
qed

lemma coverage_stays_well_formed_witness:
  "\<exists>c'. coverage_step demo_codec (LinkActor 1 ''auth'' ''ann'') ((conn_new \<lparr>cv_concepts = [], cv_artifacts = [], cv_actors = []\<rparr>)
      \<lparr>c_faults := [Some 13]\<rparr>) = (Inl (Err (CovStorage ''concept lookup failed'')), c') \<and>
    cv_actors (c_db c') = [] \<and> coverage_inv demo_codec (c_db c')"
proof -
  let ?c = "(conn_new \<lparr>cv_concepts = [], cv_artifacts = [], cv_actors = []\<rparr>)\<lparr>c_faults := [Some 13]\<rparr>"
  have inv: "coverage_inv demo_codec (c_db ?c)" by (simp add: coverage_inv_def conn_new_def)
  have step: "coverage_step demo_codec (LinkActor 1 ''auth'' ''ann'') ?c =
      (Inl (Err (CovStorage ''concept lookup failed'')), ?c\<lparr>c_faults := []\<rparr>)"
    by (simp add: link_actor_def ensure_concept_exists_def bindE_def map_err_def sql_read_def sql_fault_def
        lock_unwrap_def lock_conn_def conn_new_def)
  from coverage_stays_well_formed [OF inv step] step show ?thesis by (auto simp: conn_new_def)
qed

subsection \<open>The abstract map\<close>

text \<open>What the map promises: the concepts, the artifact links and the living human links.\<close>

record coverage_spec =
  sp_concepts :: "string \<rightharpoonup> concept"
  sp_artifacts :: "(string \<times> string) set"
  sp_living :: "(string \<times> string) set"

definition linked :: "actor_row list \<Rightarrow> string \<Rightarrow> string \<Rightarrow> bool" where
  "linked rows k a = list_ex (\<lambda>x. ac_concept x = k \<and> ac_actor x = a \<and> ac_living x) rows"

definition coverage_view :: "'x codec_scheme \<Rightarrow> coverage_db \<Rightarrow> coverage_spec" where
  "coverage_view cdc db =
     \<lparr>sp_concepts = (\<lambda>k. map_option (\<lambda>r. projr (row_concept cdc r)) (find (\<lambda>r. cr_id r = k) (cv_concepts db))),
      sp_artifacts = (\<lambda>x. (ar_concept x, ar_ref x)) ` set (cv_artifacts db),
      sp_living = {(k, a). linked (cv_actors db) k a}\<rparr>"

definition unknown_concept :: "string \<Rightarrow> coverage_error abort" where
  "unknown_concept k = Err (CovStorage (''unknown concept '' @ quoted k))"

fun spec_coverage :: "coverage_request \<Rightarrow> coverage_spec \<Rightarrow> (coverage_error abort + unit) \<times> coverage_spec" where
  "spec_coverage (AddConcept c) s =
     (Inr (), s\<lparr>sp_concepts := (sp_concepts s)(co_id c \<mapsto>
        (case sp_concepts s (co_id c) of None \<Rightarrow> c | Some old \<Rightarrow> c\<lparr>co_created_at := co_created_at old\<rparr>))\<rparr>)"
| "spec_coverage (LinkArtifact now k ref) s =
     (if sp_concepts s k = None then (Inl (unknown_concept k), s)
      else (Inr (), s\<lparr>sp_artifacts := insert (k, ref) (sp_artifacts s)\<rparr>))"
| "spec_coverage (LinkActor now k a) s =
     (if sp_concepts s k = None then (Inl (unknown_concept k), s)
      else (Inr (), s\<lparr>sp_living := insert (k, a) (sp_living s)\<rparr>))"
| "spec_coverage (Decay k a) s = (Inr (), s\<lparr>sp_living := sp_living s - {(k, a)}\<rparr>)"

lemma view_None_iff: "sp_concepts (coverage_view cdc db) k = None \<longleftrightarrow> \<not> has_concept db k"
  by (auto simp: coverage_view_def find_None_iff has_concept_def list_ex_iff)

lemma ensure_healthy:
  "healthy c \<Longrightarrow> ensure_concept_exists k c = ((if has_concept (c_db c) k then Inr () else Inl (unknown_concept k)), c)"
  by (simp add: ensure_concept_exists_def healthyD bindE_def map_err_def unknown_concept_def)

lemma view_upsert_concept:
  assumes "codec_ok cdc" "coverage_inv cdc db"
  shows "coverage_view cdc (upsert_concept (concept_row_of cdc x) db) = snd (spec_coverage (AddConcept x) (coverage_view cdc db))"
proof -
  let ?r = "concept_row_of cdc x"
  let ?f = "\<lambda>r. r\<lparr>cr_component := cr_component ?r, cr_label := cr_label ?r\<rparr>"
  have id: "cr_id ?r = co_id x" by (simp add: concept_row_of_def)
  have dec: "row_concept cdc ?r = Inr x" using concept_rows.dec_enc [OF assms(1)] .
  have links: "cv_artifacts (upsert_concept ?r db) = cv_artifacts db" "cv_actors (upsert_concept ?r db) = cv_actors db"
    by (simp_all add: upsert_concept_def)
  have "map_option (\<lambda>r. projr (row_concept cdc r)) (find (\<lambda>r. cr_id r = k) (cv_concepts (upsert_concept ?r db))) =
      ((sp_concepts (coverage_view cdc db))(co_id x \<mapsto> (case sp_concepts (coverage_view cdc db) (co_id x) of
         None \<Rightarrow> x | Some old \<Rightarrow> x\<lparr>co_created_at := co_created_at old\<rparr>))) k" for k
  proof (cases "find (\<lambda>r. cr_id r = co_id x) (cv_concepts db)")
    case None
    then have "\<not> list_ex (\<lambda>r. cr_id r = cr_id ?r) (cv_concepts db)" by (simp add: find_None_iff list_ex_iff id)
    then have "cv_concepts (upsert_concept ?r db) = cv_concepts db @ [?r]" by (simp add: upsert_concept_def)
    then show ?thesis using None dec by (auto simp: find_snoc coverage_view_def id split: option.splits)
  next
    case (Some r0)
    then have r0: "r0 \<in> set (cv_concepts db)" "cr_id r0 = co_id x" by (auto simp: find_Some_iff)
    then obtain y where y: "r0 = concept_row_of cdc y" using assms(2) by (auto simp: coverage_inv_def list_all_iff)
    have "list_ex (\<lambda>r. cr_id r = cr_id ?r) (cv_concepts db)" using r0 id by (auto simp: list_ex_iff)
    then have "cv_concepts (upsert_concept ?r db) = update_where (\<lambda>r. cr_id r = co_id x) ?f (cv_concepts db)"
      by (simp add: upsert_concept_def id)
    then have "find (\<lambda>r. cr_id r = k) (cv_concepts (upsert_concept ?r db)) =
        map_option (\<lambda>r. if k = co_id x then ?f r else r) (find (\<lambda>r. cr_id r = k) (cv_concepts db))"
      by (simp add: find_update_where_key)
    moreover have "?f r0 = concept_row_of cdc (x\<lparr>co_created_at := co_created_at y\<rparr>)"
      using r0(2) y by (simp add: concept_row_of_def)
    moreover have "row_concept cdc r0 = Inr y" using y concept_rows.dec_enc [OF assms(1)] by simp
    ultimately show ?thesis using Some concept_rows.dec_enc [OF assms(1)]
      by (auto simp: coverage_view_def option.map_ident)
  qed
  then show ?thesis by (simp add: coverage_view_def links fun_eq_iff)
qed

lemma view_insert_artifact:
  "has_concept db k \<Longrightarrow> \<exists>db'. insert_artifact \<lparr>ar_concept = k, ar_ref = ref, ar_linked_at = t\<rparr> db = Inr ((), db') \<and>
     coverage_view cdc db' = snd (spec_coverage (LinkArtifact now k ref) (coverage_view cdc db))"
proof -
  assume has: "has_concept db k"
  then have k: "sp_concepts (coverage_view cdc db) k \<noteq> None" using view_None_iff by blast
  show ?thesis
  proof (cases "list_ex (\<lambda>x. ar_concept x = k \<and> ar_ref x = ref) (cv_artifacts db)")
    case True
    then have "(k, ref) \<in> (\<lambda>x. (ar_concept x, ar_ref x)) ` set (cv_artifacts db)"
      by (auto simp: list_ex_iff intro: rev_image_eqI)
    then show ?thesis using True k
      by (simp add: insert_artifact_def) (simp add: coverage_view_def insert_absorb)
  next
    case False
    then show ?thesis using has k by (auto simp: insert_artifact_def coverage_view_def)
  qed
qed

lemma linked_revive:
  assumes "list_ex (\<lambda>x. ac_concept x = k \<and> ac_actor x = a) rows"
  shows "linked (update_where (\<lambda>x. ac_concept x = k \<and> ac_actor x = a)
      (\<lambda>x. x\<lparr>ac_living := True, ac_linked_at := t\<rparr>) rows) k' a' \<longleftrightarrow> k' = k \<and> a' = a \<or> linked rows k' a'"
  using assms unfolding linked_def by (induction rows) (auto simp: update_where_def list_ex_iff)

lemma linked_decay:
  "linked (update_where (\<lambda>x. ac_concept x = k \<and> ac_actor x = a) (\<lambda>x. x\<lparr>ac_living := False\<rparr>) rows) k' a' \<longleftrightarrow>
     linked rows k' a' \<and> \<not> (k' = k \<and> a' = a)"
  unfolding linked_def by (induction rows) (auto simp: update_where_def)

lemma view_upsert_actor:
  assumes "has_concept db k"
  shows "\<exists>db'. upsert_actor \<lparr>ac_concept = k, ac_actor = a, ac_living = True, ac_linked_at = t\<rparr> db = Inr ((), db') \<and>
     coverage_view cdc db' = snd (spec_coverage (LinkActor now k a) (coverage_view cdc db))"
proof -
  have k: "sp_concepts (coverage_view cdc db) k \<noteq> None" using assms view_None_iff by blast
  show ?thesis
  proof (cases "list_ex (\<lambda>x. ac_concept x = k \<and> ac_actor x = a) (cv_actors db)")
    case True
    then show ?thesis using k linked_revive [OF True]
      by (simp add: upsert_actor_def) (auto simp: coverage_view_def)
  next
    case False
    have "linked (rows @ [\<lparr>ac_concept = k, ac_actor = a, ac_living = True, ac_linked_at = t\<rparr>]) k' a' \<longleftrightarrow>
        k' = k \<and> a' = a \<or> linked rows k' a'" for rows k' a' by (auto simp: linked_def)
    then show ?thesis using False k assms by (simp add: upsert_actor_def) (auto simp: coverage_view_def)
  qed
qed

lemma view_decay:
  "coverage_view cdc (db\<lparr>cv_actors := update_where (\<lambda>x. ac_concept x = k \<and> ac_actor x = a)
      (\<lambda>x. x\<lparr>ac_living := False\<rparr>) (cv_actors db)\<rparr>) = snd (spec_coverage (Decay k a) (coverage_view cdc db))"
  by (auto simp: coverage_view_def linked_decay)

lemma coverage_step_refines:
  assumes "codec_ok cdc" "healthy c" "coverage_inv cdc (c_db c)" "coverage_step cdc req c = (r, c')"
  shows "healthy c' \<and> (r, coverage_view cdc (c_db c')) = spec_coverage req (coverage_view cdc (c_db c))"
proof (cases req)
  case (AddConcept x)
  then show ?thesis using assms view_upsert_concept [OF assms(1,3), of x]
    by (auto simp: add_concept_def healthyD)
next
  case (LinkArtifact now k ref)
  show ?thesis
  proof (cases "has_concept (c_db c) k")
    case True
    then show ?thesis using assms LinkArtifact view_insert_artifact [OF True, of ref "ts_str cdc now" cdc now]
      view_None_iff [of cdc "c_db c" k]
      by (auto simp: link_artifact_def bindE_step ensure_healthy healthyD)
  next
    case False
    then show ?thesis using assms LinkArtifact view_None_iff [of cdc "c_db c" k]
      by (auto simp: link_artifact_def bindE_def ensure_healthy)
  qed
next
  case (LinkActor now k a)
  show ?thesis
  proof (cases "has_concept (c_db c) k")
    case True
    then show ?thesis using assms LinkActor view_upsert_actor [OF True, of a "ts_str cdc now" cdc now]
      view_None_iff [of cdc "c_db c" k]
      by (auto simp: link_actor_def bindE_step ensure_healthy healthyD)
  next
    case False
    then show ?thesis using assms LinkActor view_None_iff [of cdc "c_db c" k]
      by (auto simp: link_actor_def bindE_def ensure_healthy)
  qed
next
  case (Decay k a)
  then show ?thesis using assms view_decay by (auto simp: decay_actor_link_def healthyD)
qed

subsection \<open>The queries\<close>

lemma stored_concepts:
  "coverage_inv cdc db \<Longrightarrow> \<exists>xs. cv_concepts db = map (concept_row_of cdc) xs \<and> distinct (map co_id xs)"
proof -
  assume inv: "coverage_inv cdc db"
  have "\<exists>xs. rs = map (concept_row_of cdc) xs" if "list_all (\<lambda>r. \<exists>c. r = concept_row_of cdc c) rs" for rs
    using that
  proof (induction rs)
    case (Cons r rs)
    then obtain c xs where "r = concept_row_of cdc c" "rs = map (concept_row_of cdc) xs" by auto
    then show ?case by (intro exI [of _ "c # xs"]) simp
  qed simp
  then obtain xs where xs: "cv_concepts db = map (concept_row_of cdc) xs"
    using inv unfolding coverage_inv_def by blast
  then have "map cr_id (cv_concepts db) = map co_id xs" by (simp add: concept_row_of_def)
  moreover have "distinct (map cr_id (cv_concepts db))" using inv by (simp only: coverage_inv_def)
  ultimately show ?thesis using xs by (intro exI [of _ xs]) (simp only:)
qed

lemma find_key_distinct:
  "distinct (map key xs) \<Longrightarrow> find (\<lambda>x. key x = k) xs = Some x \<longleftrightarrow> x \<in> set xs \<and> key x = k"
  by (induction xs) (auto simp: image_iff)

lemma view_concept_iff:
  assumes "codec_ok cdc" "cv_concepts db = map (concept_row_of cdc) xs" "distinct (map co_id xs)"
  shows "sp_concepts (coverage_view cdc db) k = Some x \<longleftrightarrow> x \<in> set xs \<and> co_id x = k"
proof -
  have "find (\<lambda>r. cr_id r = k) (map (concept_row_of cdc) xs) = map_option (concept_row_of cdc) (find (\<lambda>x. co_id x = k) xs)"
    by (induction xs) (auto simp: concept_row_of_def)
  then have "sp_concepts (coverage_view cdc db) k = find (\<lambda>x. co_id x = k) xs"
    using assms(2) concept_rows.dec_enc [OF assms(1)]
    by (cases "find (\<lambda>x. co_id x = k) xs") (simp_all add: coverage_view_def)
  then show ?thesis using find_key_distinct [OF assms(3)] by simp
qed

lemma concept_query:
  assumes "codec_ok cdc" "healthy c" "cv_concepts (c_db c) = map (concept_row_of cdc) xs" "distinct (map co_id xs)"
  shows "query_concepts cdc (\<lambda>db. sort_key cr_id (filter (\<lambda>r. P db (cr_id r)) (cv_concepts db))) c =
     (Inr (sort_key co_id (filter (\<lambda>x. P (c_db c) (co_id x)) xs)), c)"
  using concept_rows.query_enc [where xs = xs and cdc = cdc and P = "\<lambda>r. P (c_db c) (cr_id r)"
      and Q = "\<lambda>x. P (c_db c) (co_id x)" and key = cr_id and k = co_id] assms
  by (simp add: query_concepts_def healthyD concept_row_of_def list_all_iff)

definition listed :: "concept list \<Rightarrow> (concept \<Rightarrow> bool) \<Rightarrow> bool" where
  "listed xs P \<longleftrightarrow> List.sorted (map co_id xs) \<and> distinct (map co_id xs) \<and> set xs = {x. P x}"

lemma listed_filter:
  "distinct (map co_id xs) \<Longrightarrow> (\<And>x. x \<in> set xs \<and> Q x \<longleftrightarrow> P x) \<Longrightarrow> listed (sort_key co_id (filter Q xs)) P"
  by (auto simp: listed_def distinct_map intro: inj_on_subset)

lemma concept_queries:
  assumes "codec_ok cdc" "healthy c" "coverage_inv cdc (c_db c)"
  shows "\<exists>xs ds. all_concepts cdc c = (Inr xs, c) \<and> dark_concepts cdc c = (Inr ds, c) \<and>
     listed xs (\<lambda>x. sp_concepts (coverage_view cdc (c_db c)) (co_id x) = Some x) \<and>
     listed ds (\<lambda>x. sp_concepts (coverage_view cdc (c_db c)) (co_id x) = Some x \<and>
       (\<forall>a. (co_id x, a) \<notin> sp_living (coverage_view cdc (c_db c))))"
proof -
  obtain xs where xs: "cv_concepts (c_db c) = map (concept_row_of cdc) xs" "distinct (map co_id xs)"
    using stored_concepts [OF assms(3)] by blast
  have dark: "\<not> has_living (cv_actors (c_db c)) k \<longleftrightarrow> (\<forall>a. (k, a) \<notin> sp_living (coverage_view cdc (c_db c)))" for k
    by (auto simp: has_living_def linked_def coverage_view_def list_ex_iff)
  note view = view_concept_iff [OF assms(1) xs]
  have "all_concepts cdc c = (Inr (sort_key co_id (filter (\<lambda>x. True) xs)), c)"
    using concept_query [OF assms(1,2) xs, of "\<lambda>db k. True"] by (simp add: all_concepts_def)
  moreover have "dark_concepts cdc c = (Inr (sort_key co_id (filter (\<lambda>x. \<not> has_living (cv_actors (c_db c)) (co_id x)) xs)), c)"
    using concept_query [OF assms(1,2) xs, of "\<lambda>db k. \<not> has_living (cv_actors db) k"] by (simp add: dark_concepts_def)
  moreover have "listed (sort_key co_id (filter (\<lambda>x. True) xs))
      (\<lambda>x. sp_concepts (coverage_view cdc (c_db c)) (co_id x) = Some x)"
    by (rule listed_filter [OF xs(2)]) (simp add: view)
  moreover have "listed (sort_key co_id (filter (\<lambda>x. \<not> has_living (cv_actors (c_db c)) (co_id x)) xs))
      (\<lambda>x. sp_concepts (coverage_view cdc (c_db c)) (co_id x) = Some x \<and>
       (\<forall>a. (co_id x, a) \<notin> sp_living (coverage_view cdc (c_db c))))"
    by (rule listed_filter [OF xs(2)]) (simp add: view dark)
  ultimately show ?thesis by blast
qed

lemma traverse_Inr_id [simp]: "traverse Inr xs = Inr xs"
  by (induction xs) simp_all

lemma living_query:
  assumes "healthy c" "coverage_inv cdc (c_db c)"
  shows "\<exists>as. living_actors_for k c = (Inr as, c) \<and> List.sorted as \<and> distinct as \<and>
     set as = {a. (k, a) \<in> sp_living (coverage_view cdc (c_db c))}"
proof -
  let ?f = "filter (\<lambda>x. ac_concept x = k \<and> ac_living x) (cv_actors (c_db c))"
  have "distinct (map ac_actor ?f)"
    using assms(2) by (auto simp: coverage_inv_def distinct_map inj_on_def)
  then have "distinct (map ac_actor (sort_key ac_actor ?f))" by (auto simp: distinct_map)
  moreover have "living_actors_for k c = (Inr (map ac_actor (sort_key ac_actor ?f)), c)"
    using assms(1) by (simp add: living_actors_for_def query_strings_def healthyD)
  ultimately show ?thesis
    by (intro exI [of _ "map ac_actor (sort_key ac_actor ?f)"])
      (auto simp: coverage_view_def linked_def list_ex_iff)
qed

definition coverage_run :: "'x codec_scheme \<Rightarrow> coverage_request list \<Rightarrow> coverage_db conn \<Rightarrow> coverage_db conn" where
  "coverage_run cdc reqs c = fold (\<lambda>req c. snd (coverage_step cdc req c)) reqs c"

definition empty_coverage :: "coverage_db conn" where
  "empty_coverage = conn_new \<lparr>cv_concepts = [], cv_artifacts = [], cv_actors = []\<rparr>"

definition empty_spec :: coverage_spec where
  "empty_spec = \<lparr>sp_concepts = Map.empty, sp_artifacts = {}, sp_living = {}\<rparr>"

lemma coverage_run_refines:
  assumes "codec_ok cdc" "healthy c" "coverage_inv cdc (c_db c)"
  shows "healthy (coverage_run cdc reqs c) \<and> coverage_inv cdc (c_db (coverage_run cdc reqs c)) \<and>
    coverage_view cdc (c_db (coverage_run cdc reqs c)) =
      fold (\<lambda>req s. snd (spec_coverage req s)) reqs (coverage_view cdc (c_db c))"
  using assms(2,3)
proof (induction reqs arbitrary: c)
  case (Cons req reqs)
  obtain r c1 where s: "coverage_step cdc req c = (r, c1)" by fastforce
  from coverage_step_refines [OF assms(1) Cons.prems s]
  have "healthy c1" "coverage_view cdc (c_db c1) = snd (spec_coverage req (coverage_view cdc (c_db c)))"
    by (auto simp: prod_eq_iff)
  moreover have "coverage_inv cdc (c_db c1)" using coverage_stays_inv [OF Cons.prems(2) s] .
  ultimately show ?case using Cons.IH [of c1] s by (simp add: coverage_run_def)
qed (simp add: coverage_run_def)

text \<open>Claim C18.  After any sequence of requests on a fresh map, the map answers as its specification: the
  dark concepts are, in the order of their identifiers and without repetition, exactly the
  registered concepts without a living human link, whatever artifacts they are linked to; the
  inventory and the living humans of a concept are listed completely; and the creation time of a
  concept is the one it was first registered with.\<close>

theorem dark_concepts_exact:
  assumes "codec_ok cdc" "c = coverage_run cdc reqs empty_coverage"
    and "s = fold (\<lambda>req s. snd (spec_coverage req s)) reqs empty_spec"
  shows "\<exists>xs ds as. all_concepts cdc c = (Inr xs, c) \<and> dark_concepts cdc c = (Inr ds, c) \<and>
     living_actors_for k c = (Inr as, c) \<and>
     listed xs (\<lambda>x. sp_concepts s (co_id x) = Some x) \<and>
     listed ds (\<lambda>x. sp_concepts s (co_id x) = Some x \<and> (\<forall>a. (co_id x, a) \<notin> sp_living s)) \<and>
     List.sorted as \<and> distinct as \<and> set as = {a. (k, a) \<in> sp_living s} \<and>
     fst (coverage_step cdc req c) = fst (spec_coverage req s)"
proof -
  have e: "healthy empty_coverage" "coverage_inv cdc (c_db empty_coverage)"
    "coverage_view cdc (c_db empty_coverage) = empty_spec"
    by (simp_all add: empty_coverage_def coverage_inv_def coverage_view_def empty_spec_def linked_def)
  have c: "healthy c" "coverage_inv cdc (c_db c)" "coverage_view cdc (c_db c) = s"
    using coverage_run_refines [OF assms(1) e(1,2), of reqs] assms(2,3) e(3) by simp_all
  have "fst (coverage_step cdc req c) = fst (spec_coverage req s)"
    using coverage_step_refines [OF assms(1) c(1,2), of req] c(3) by (metis prod.collapse fst_conv)
  then show ?thesis
    using concept_queries [OF assms(1) c(1,2)] living_query [OF c(1,2), of k] c(3) by simp blast
qed

lemma dark_concepts_exact_witness:
  "\<exists>c ds. c = coverage_run demo_codec [AddConcept \<lparr>co_id = ''auth'', co_component = ''core'', co_label = ''l'', co_created_at = 1\<rparr>,
      LinkActor 2 ''auth'' ''ann'', Decay ''auth'' ''ann''] empty_coverage \<and>
    dark_concepts demo_codec c = (Inr ds, c) \<and> co_id ` set ds = {''auth''}"
proof -
  let ?reqs = "[AddConcept \<lparr>co_id = ''auth'', co_component = ''core'', co_label = ''l'', co_created_at = 1\<rparr>,
      LinkActor 2 ''auth'' ''ann'', Decay ''auth'' ''ann'']"
  let ?s = "fold (\<lambda>req s. snd (spec_coverage req s)) ?reqs empty_spec"
  have s: "?s = \<lparr>sp_concepts = [''auth'' \<mapsto> \<lparr>co_id = ''auth'', co_component = ''core'', co_label = ''l'', co_created_at = 1\<rparr>],
      sp_artifacts = {}, sp_living = {}\<rparr>" by (simp add: empty_spec_def)
  obtain ds where ds: "dark_concepts demo_codec (coverage_run demo_codec ?reqs empty_coverage) =
      (Inr ds, coverage_run demo_codec ?reqs empty_coverage)"
    "listed ds (\<lambda>x. sp_concepts ?s (co_id x) = Some x \<and> (\<forall>a. (co_id x, a) \<notin> sp_living ?s))"
    using dark_concepts_exact [OF demo_codec_ok refl refl, of ?reqs] by blast
  have "co_id ` set ds = {''auth''}"
  proof -
    have "set ds = {x. [''auth'' \<mapsto> \<lparr>co_id = ''auth'', co_component = ''core'', co_label = ''l'', co_created_at = 1\<rparr>] (co_id x) = Some x}"
      using ds(2) unfolding s listed_def by simp
    also have "\<dots> = {\<lparr>co_id = ''auth'', co_component = ''core'', co_label = ''l'', co_created_at = 1\<rparr>}"
      by (auto simp only: fun_upd_apply option.inject option.distinct concept.simps split: if_splits)
    finally show ?thesis by (simp only: image_insert image_empty concept.simps)
  qed
  with ds(1) show ?thesis
    by (intro exI [of _ "coverage_run demo_codec ?reqs empty_coverage"] exI [of _ ds] conjI) (rule refl, assumption+)
qed

end
