(* ===== verification/Calibration_Ledger.thy ===== *)
theory Calibration_Ledger
  imports Ledger_Base "HOL-Library.Multiset"
begin

text \<open>
  \<open>plugin-calibration-ledger/src/lib.rs\<close>: the probe events, the Bayesian mastery update, the aggregate
  redundancy view, export, erasure and retention.

  The table is the list of its rows in the order of the \<open>AUTOINCREMENT\<close> key.  Every \<open>f64\<close>
  operation is the real operation followed by a rounding, the argument \<open>rnd\<close>; the constants are
  the exact values of their literals.  The fixed-width text of a timestamp and its parser are the
  record \<open>event_codec\<close>.
\<close>

record probe_event =
  ev_actor :: string
  ev_concept :: string
  predicted_correct :: bool
  was_correct :: bool
  ev_at :: timestamp

record concept_redundancy =
  rd_concept :: string
  redundant_actors :: u64

datatype purpose = Developmental

record ledger_policy =
  lp_purpose :: purpose

definition default_policy :: ledger_policy where
  "default_policy = \<lparr>lp_purpose = Developmental\<rparr>"

datatype ledger_error = LedgerStorage string

record event_codec =
  ec_fixed :: "timestamp \<Rightarrow> string"
  ec_parse :: "string \<Rightarrow> timestamp option"

record event_row =
  er_actor :: string
  er_concept :: string
  er_predicted :: int
  er_correct :: int
  er_at :: string

type_synonym 'a ledger_run = "(event_row list, ledger_error, 'a) ledger_op"

subsection \<open>The mastery update\<close>

record bkt_params =
  p_l0 :: real
  p_t :: real
  p_s :: real
  p_g :: real

definition bkt_default :: bkt_params where
  "bkt_default = \<lparr>p_l0 = 5404319552844595 / 2 ^ 54, p_t = 3602879701896397 / 2 ^ 55,
     p_s = 3602879701896397 / 2 ^ 55, p_g = 3602879701896397 / 2 ^ 54\<rparr>"

definition bkt_update :: "(real \<Rightarrow> real) \<Rightarrow> bkt_params \<Rightarrow> real \<Rightarrow> bool \<Rightarrow> real" where
  "bkt_update rnd P p correct =
     (let (num, den) =
            (if correct then
               (let n = rnd (p * rnd (1 - p_s P)) in (n, rnd (n + rnd (rnd (1 - p) * p_g P))))
             else
               (let n = rnd (p * p_s P) in (n, rnd (n + rnd (rnd (1 - p) * rnd (1 - p_g P))))));
          posterior = (if den = 0 then p else rnd (num / den))
      in rnd (posterior + rnd (rnd (1 - posterior) * p_t P)))"

definition REDUNDANCY_THRESHOLD :: real where
  "REDUNDANCY_THRESHOLD = 4278419646001971 / 2 ^ 52"

subsection \<open>The table\<close>

definition ledger_open where
  "ledger_open = open_db (\<lambda>t. case t of None \<Rightarrow> [] | Some rs \<Rightarrow> (rs :: event_row list)) None"

definition bool_col :: "bool \<Rightarrow> int" where
  "bool_col b = (if b then 1 else 0)"

definition to_bool :: "int \<Rightarrow> ledger_error + bool" where
  "to_bool v = (if v = 0 then Inr False else if v = 1 then Inr True
     else Inl (LedgerStorage (''integrity error: malformed boolean '' @ quoted (int_str v))))"

definition event_row_of :: "event_codec \<Rightarrow> probe_event \<Rightarrow> event_row" where
  "event_row_of ec e = \<lparr>er_actor = ev_actor e, er_concept = ev_concept e,
     er_predicted = bool_col (predicted_correct e), er_correct = bool_col (was_correct e),
     er_at = ec_fixed ec (ev_at e)\<rparr>"

definition row_event :: "event_codec \<Rightarrow> event_row \<Rightarrow> ledger_error + probe_event" where
  "row_event ec r =
     (case ec_parse ec (er_at r) of
        None \<Rightarrow> Inl (LedgerStorage ''integrity error: malformed timestamp'')
      | Some t \<Rightarrow>
          (case to_bool (er_predicted r) of
             Inl e \<Rightarrow> Inl e
           | Inr p \<Rightarrow>
               (case to_bool (er_correct r) of
                  Inl e \<Rightarrow> Inl e
                | Inr w \<Rightarrow> Inr \<lparr>ev_actor = er_actor r, ev_concept = er_concept r, predicted_correct = p,
                    was_correct = w, ev_at = t\<rparr>)))"

definition record_event :: "event_codec \<Rightarrow> probe_event \<Rightarrow> unit ledger_run" where
  "record_event ec e =
     bindE lock_unwrap (\<lambda>_.
     execute (LedgerStorage ''insert failed'') (\<lambda>db. Inr ((), db @ [event_row_of ec e])))"

definition ledger_rows :: "(event_row list \<Rightarrow> 'r list) \<Rightarrow> ('r \<Rightarrow> ledger_error + 'a) \<Rightarrow> 'a list ledger_run" where
  "ledger_rows sel dec =
     bindE lock_unwrap (\<lambda>_.
     read_rows (LedgerStorage ''prepare failed'') (LedgerStorage ''query failed'') (LedgerStorage ''row read failed'') sel dec)"

definition outcomes :: "string \<Rightarrow> string \<Rightarrow> bool list ledger_run" where
  "outcomes a k =
     ledger_rows (\<lambda>db. map er_correct (filter (\<lambda>r. er_actor r = a \<and> er_concept r = k) db)) to_bool"

definition mastery :: "(real \<Rightarrow> real) \<Rightarrow> bkt_params \<Rightarrow> string \<Rightarrow> string \<Rightarrow> real ledger_run" where
  "mastery rnd P a k =
     bindE (outcomes a k) (\<lambda>os. retE (fold (\<lambda>correct p. bkt_update rnd P p correct) os (p_l0 P)))"

definition actor_concept_pairs :: "(string \<times> string) list ledger_run" where
  "actor_concept_pairs =
     ledger_rows (\<lambda>db. sort_key (\<lambda>(a, k). (k, a)) (remdups (map (\<lambda>r. (er_actor r, er_concept r)) db))) Inr"

text \<open>The loop that counts, over an ordered map.\<close>

fun count_redundant ::
  "(real \<Rightarrow> real) \<Rightarrow> bkt_params \<Rightarrow> (string \<times> string) list \<Rightarrow> (string \<rightharpoonup> u64) \<Rightarrow> (string \<rightharpoonup> u64) ledger_run" where
  "count_redundant rnd P [] counts = retE counts"
| "count_redundant rnd P ((a, k) # ps) counts =
     bindE (mastery rnd P a k) (\<lambda>m.
     count_redundant rnd P ps (counts(k \<mapsto> (case counts k of Some n \<Rightarrow> n | None \<Rightarrow> 0) +
       (if REDUNDANCY_THRESHOLD \<le> m then 1 else 0))))"

definition team_concept_redundancy :: "(real \<Rightarrow> real) \<Rightarrow> bkt_params \<Rightarrow> concept_redundancy list ledger_run" where
  "team_concept_redundancy rnd P =
     bindE actor_concept_pairs (\<lambda>ps.
     bindE (count_redundant rnd P ps Map.empty) (\<lambda>counts.
     retE (map (\<lambda>k. \<lparr>rd_concept = k, redundant_actors = the (counts k)\<rparr>) (sorted_list_of_set (dom counts)))))"

definition export_actor :: "event_codec \<Rightarrow> string \<Rightarrow> probe_event list ledger_run" where
  "export_actor ec a = ledger_rows (\<lambda>db. filter (\<lambda>r. er_actor r = a) db) (row_event ec)"

definition delete_rows :: "(event_row \<Rightarrow> bool) \<Rightarrow> event_row list \<Rightarrow> int + u64 \<times> event_row list" where
  "delete_rows P db = Inr (word_of_nat (length (filter P db)), filter (\<lambda>r. \<not> P r) db)"

definition delete_actor :: "string \<Rightarrow> u64 ledger_run" where
  "delete_actor a =
     bindE lock_unwrap (\<lambda>_. execute (LedgerStorage ''delete failed'') (delete_rows (\<lambda>r. er_actor r = a)))"

definition ns_per_day :: int where
  "ns_per_day = 86400 * 1000000000"

text \<open>\<open>Duration::try_days\<close> (whose range is that of a 64-bit count of milliseconds) and
  \<open>checked_sub_signed\<close> down to the least time \<open>min_utc\<close>.\<close>

definition cutoff_before :: "timestamp \<Rightarrow> int \<Rightarrow> timestamp \<Rightarrow> timestamp option" where
  "cutoff_before min_utc days now =
     (if 106751991167 < days then None
      else let t = now - days * ns_per_day in if t < min_utc then None else Some t)"

definition prune_older_than :: "event_codec \<Rightarrow> timestamp \<Rightarrow> int \<Rightarrow> timestamp \<Rightarrow> u64 ledger_run" where
  "prune_older_than ec min_utc days now =
     (if days < 0 then throwE (Err (LedgerStorage ''retention window must be non-negative''))
      else case cutoff_before min_utc days now of
        None \<Rightarrow> throwE (Err (LedgerStorage ''retention window out of range''))
      | Some cutoff \<Rightarrow>
          bindE lock_unwrap (\<lambda>_.
          execute (LedgerStorage ''prune failed'') (delete_rows (\<lambda>r. er_at r < ec_fixed ec cutoff))))"

subsection \<open>Mastery is a probability\<close>

text \<open>What is used of the rounding of \<open>f64\<close>: it is monotone, exact on what it returns and on 0 and 1,
  and at most doubles a positive value.\<close>

definition rounding :: "(real \<Rightarrow> real) \<Rightarrow> bool" where
  "rounding rnd \<longleftrightarrow> mono rnd \<and> (\<forall>x. rnd (rnd x) = rnd x) \<and> rnd 0 = 0 \<and> rnd 1 = 1 \<and> (\<forall>x \<ge> 0. rnd x \<le> 2 * x)"

definition proper :: "bkt_params \<Rightarrow> bool" where
  "proper P \<longleftrightarrow> 0 \<le> p_l0 P \<and> p_l0 P \<le> 1 \<and> 0 \<le> p_s P \<and> p_s P \<le> 1 \<and> 0 \<le> p_g P \<and> p_g P \<le> 1 \<and>
     0 \<le> p_t P \<and> p_t P \<le> 1 / 4"

lemma bkt_default_proper: "proper bkt_default"
  by (simp add: proper_def bkt_default_def)

lemma rounding_unit:
  assumes "rounding rnd" "0 \<le> x" "x \<le> 1"
  shows "0 \<le> rnd x \<and> rnd x \<le> 1"
  using assms monoD [of rnd 0 x] monoD [of rnd x 1] by (auto simp: rounding_def)

lemma rounding_nonneg: "rounding rnd \<Longrightarrow> 0 \<le> x \<Longrightarrow> 0 \<le> rnd x"
  using monoD [of rnd 0 x] by (auto simp: rounding_def)

lemma posterior_unit:
  assumes "rounding rnd" "0 \<le> p" "p \<le> 1" "0 \<le> a" "0 \<le> b"
  shows "0 \<le> (if rnd (rnd a + b) = 0 then p else rnd (rnd a / rnd (rnd a + b))) \<and>
    (if rnd (rnd a + b) = 0 then p else rnd (rnd a / rnd (rnd a + b))) \<le> 1"
proof -
  have a: "0 \<le> rnd a" using assms(1,4) by (rule rounding_nonneg)
  have "rnd (rnd a) \<le> rnd (rnd a + b)" using assms(1,5) by (intro monoD [of rnd]) (simp_all add: rounding_def)
  then have "rnd a \<le> rnd (rnd a + b)" using assms(1) by (simp add: rounding_def)
  then have "rnd (rnd a + b) \<noteq> 0 \<Longrightarrow> 0 \<le> rnd a / rnd (rnd a + b) \<and> rnd a / rnd (rnd a + b) \<le> 1"
    using a by (simp add: divide_le_eq)
  then show ?thesis using assms(2,3) rounding_unit [OF assms(1)] by auto
qed

lemma transit_unit:
  assumes "rounding rnd" "0 \<le> q" "q \<le> 1" "0 \<le> t" "t \<le> 1 / 4"
  shows "0 \<le> rnd (q + rnd (rnd (1 - q) * t)) \<and> rnd (q + rnd (rnd (1 - q) * t)) \<le> 1"
proof -
  let ?y = "rnd (1 - q)"
  have q: "0 \<le> 1 - q" using assms(3) by simp
  have "\<forall>x \<ge> 0. rnd x \<le> 2 * x" using assms(1) by (simp add: rounding_def)
  then have y: "0 \<le> ?y" "?y \<le> 2 * (1 - q)" using q rounding_nonneg [OF assms(1) q] by blast+
  then have yt: "0 \<le> ?y * t" using assms(4) by simp
  then have "rnd (?y * t) \<le> 2 * (?y * t)" using assms(1) by (auto simp: rounding_def)
  also have "\<dots> \<le> 2 * (2 * (1 - q) * (1 / 4))"
    using y assms by (intro mult_left_mono mult_mono) simp_all
  finally have "rnd (?y * t) \<le> 1 - q" by simp
  moreover have "0 \<le> rnd (?y * t)" using assms(1) yt by (rule rounding_nonneg)
  ultimately show ?thesis using assms(2) by (intro rounding_unit [OF assms(1)]) simp_all
qed

lemma bkt_update_unit:
  assumes "rounding rnd" "proper P" "0 \<le> p" "p \<le> 1"
  shows "0 \<le> bkt_update rnd P p correct \<and> bkt_update rnd P p correct \<le> 1"
proof -
  have nn: "0 \<le> rnd x" if "0 \<le> x" for x using assms(1) that by (rule rounding_nonneg)
  have ps: "0 \<le> p_s P" "p_s P \<le> 1" "0 \<le> p_g P" "p_g P \<le> 1" "0 \<le> p_t P" "p_t P \<le> 1 / 4"
    using assms(2) by (simp_all add: proper_def)
  have parts: "0 \<le> p * rnd (1 - p_s P)" "0 \<le> p * p_s P" "0 \<le> rnd (rnd (1 - p) * p_g P)"
    "0 \<le> rnd (rnd (1 - p) * rnd (1 - p_g P))"
    using ps assms(3,4) by (auto intro!: nn mult_nonneg_nonneg)
  show ?thesis
    using transit_unit [OF assms(1) _ _ ps(5,6)] posterior_unit [OF assms(1,3,4) parts(1,3)]
      posterior_unit [OF assms(1,3,4) parts(2,4)]
    by (cases correct) (simp_all add: bkt_update_def Let_def)
qed

definition bkt_replay :: "(real \<Rightarrow> real) \<Rightarrow> bkt_params \<Rightarrow> bool list \<Rightarrow> real" where
  "bkt_replay rnd P os = fold (\<lambda>correct p. bkt_update rnd P p correct) os (p_l0 P)"

lemma fold_update_unit:
  "rounding rnd \<Longrightarrow> proper P \<Longrightarrow> 0 \<le> p \<Longrightarrow> p \<le> 1 \<Longrightarrow>
     0 \<le> fold (\<lambda>correct p. bkt_update rnd P p correct) os p \<and> fold (\<lambda>correct p. bkt_update rnd P p correct) os p \<le> 1"
  by (induction os arbitrary: p) (simp_all add: bkt_update_unit)

text \<open>Claim C32.  Whatever the table holds and whatever statements fail, a mastery estimate that is returned
  is a probability: the rounded update never leaves the unit interval, for the default parameters
  and for every proper choice of them.\<close>

theorem mastery_is_probability:
  assumes "rounding rnd" "proper P" "mastery rnd P a k c = (Inr m, c')"
  shows "0 \<le> m \<and> m \<le> 1 \<and> c_db c' = c_db c \<and> proper bkt_default"
proof -
  obtain os where os: "outcomes a k c = (Inr os, c')" "m = fold (\<lambda>correct p. bkt_update rnd P p correct) os (p_l0 P)"
    using assms(3) by (auto simp: mastery_def monadE)
  have "keeps same_data (outcomes a k)" unfolding outcomes_def ledger_rows_def by (intro frame)
  then have "c_db c' = c_db c" using keepsD [of same_data "outcomes a k" c "Inr os" c'] os(1) by (simp add: same_data_def)
  moreover have "0 \<le> p_l0 P" "p_l0 P \<le> 1" using assms(2) by (simp_all add: proper_def)
  ultimately show ?thesis using fold_update_unit [OF assms(1,2)] os(2) bkt_default_proper by simp
qed

lemma mastery_is_probability_witness:
  "\<exists>m c'. mastery (\<lambda>x. x) bkt_default ''ann'' ''auth'' (conn_new []) = (Inr m, c') \<and> 0 \<le> m \<and> m \<le> 1"
proof -
  have r: "rounding (\<lambda>x. x)" by (simp add: rounding_def mono_def)
  have m: "mastery (\<lambda>x. x) bkt_default ''ann'' ''auth'' (conn_new []) = (Inr (p_l0 bkt_default), conn_new [])"
    by (simp add: mastery_def outcomes_def ledger_rows_def bindE_def healthyD [OF healthy_new(1)])
  from mastery_is_probability [OF r bkt_default_proper m] m show ?thesis by blast
qed

subsection \<open>The ledger as a list of events\<close>

text \<open>The years 0 to 9999: those RFC 3339 can name with four digits.\<close>

definition in_years :: "timestamp \<Rightarrow> bool" where
  "in_years t \<longleftrightarrow> - 62167219200 * 1000000000 \<le> t \<and> t < 253402300800 * 1000000000"

text \<open>What is used of the fixed-width text: it parses back and orders as the times do.\<close>

definition fixed_ok :: "event_codec \<Rightarrow> bool" where
  "fixed_ok ec \<longleftrightarrow> (\<forall>t. in_years t \<longrightarrow> ec_parse ec (ec_fixed ec t) = Some t) \<and>
     (\<forall>t u. in_years t \<and> in_years u \<longrightarrow> (ec_fixed ec t < ec_fixed ec u \<longleftrightarrow> t < u))"

lemma to_bool_col [simp]: "to_bool (bool_col b) = Inr b"
  by (simp add: to_bool_def bool_col_def)

interpretation event_rows: row_codec "event_row_of ec" "row_event ec" "\<lambda>e. fixed_ok ec \<and> in_years (ev_at e)"
  for ec :: event_codec
  by unfold_locales (simp add: event_row_of_def row_event_def fixed_ok_def)

interpretation outcome_rows: row_codec bool_col to_bool "\<lambda>_. True"
  by unfold_locales simp

datatype ledger_request =
    RecordEvent probe_event
  | DeleteActor string
  | Prune int timestamp

fun ledger_step :: "event_codec \<Rightarrow> timestamp \<Rightarrow> ledger_request \<Rightarrow> u64 ledger_run" where
  "ledger_step ec mn (RecordEvent e) = bindE (record_event ec e) (\<lambda>_. retE 0)"
| "ledger_step ec mn (DeleteActor a) = delete_actor a"
| "ledger_step ec mn (Prune days now) = prune_older_than ec mn days now"

fun spec_ledger :: "timestamp \<Rightarrow> ledger_request \<Rightarrow> probe_event list \<Rightarrow> probe_event list" where
  "spec_ledger mn (RecordEvent e) es = es @ [e]"
| "spec_ledger mn (DeleteActor a) es = filter (\<lambda>e. ev_actor e \<noteq> a) es"
| "spec_ledger mn (Prune days now) es =
     (if days < 0 then es
      else case cutoff_before mn days now of None \<Rightarrow> es | Some cutoff \<Rightarrow> filter (\<lambda>e. cutoff \<le> ev_at e) es)"

fun request_ok :: "timestamp \<Rightarrow> ledger_request \<Rightarrow> bool" where
  "request_ok mn (RecordEvent e) = in_years (ev_at e)"
| "request_ok mn (DeleteActor a) = True"
| "request_ok mn (Prune days now) = (case cutoff_before mn days now of None \<Rightarrow> True | Some c \<Rightarrow> in_years c)"

definition holds_events :: "event_codec \<Rightarrow> probe_event list \<Rightarrow> event_row list conn \<Rightarrow> bool" where
  "holds_events ec es c \<longleftrightarrow> healthy c \<and> c_db c = map (event_row_of ec) es \<and> list_all (\<lambda>e. in_years (ev_at e)) es"

lemma filter_map_rows: "filter P (map (event_row_of ec) es) = map (event_row_of ec) (filter (\<lambda>e. P (event_row_of ec e)) es)"
  by (simp add: filter_map comp_def)

lemma prune_rows:
  assumes "fixed_ok ec" "in_years cutoff" "list_all (\<lambda>e. in_years (ev_at e)) es"
  shows "filter (\<lambda>r. \<not> er_at r < ec_fixed ec cutoff) (map (event_row_of ec) es) =
    map (event_row_of ec) (filter (\<lambda>e. cutoff \<le> ev_at e) es)"
proof -
  have "er_at (event_row_of ec e) < ec_fixed ec cutoff \<longleftrightarrow> ev_at e < cutoff" if "e \<in> set es" for e
    using assms that by (simp add: fixed_ok_def event_row_of_def list_all_iff)
  then show ?thesis unfolding filter_map_rows by (simp add: not_less cong: filter_cong)
qed

lemma ledger_step_refines:
  assumes "fixed_ok ec" "holds_events ec es c" "request_ok mn req"
  shows "holds_events ec (spec_ledger mn req es) (snd (ledger_step ec mn req c))"
proof (cases req)
  case (RecordEvent e)
  then show ?thesis using assms by (simp add: holds_events_def record_event_def healthyD bindE_def)
next
  case (DeleteActor a)
  have "er_actor (event_row_of ec e) = ev_actor e" for e by (simp add: event_row_of_def)
  then show ?thesis using assms DeleteActor
    by (simp add: holds_events_def delete_actor_def delete_rows_def healthyD filter_map_rows) (auto simp: list_all_iff)
next
  case (Prune days now)
  show ?thesis
  proof (cases "days < 0 \<or> cutoff_before mn days now = None")
    case True
    then show ?thesis using assms Prune by (auto simp: prune_older_than_def)
  next
    case False
    then obtain cutoff where "cutoff_before mn days now = Some cutoff" by auto
    then show ?thesis using assms Prune False prune_rows [OF assms(1), of cutoff es]
      by (simp add: holds_events_def prune_older_than_def delete_rows_def healthyD) (auto simp: list_all_iff)
  qed
qed

definition ledger_requests :: "event_codec \<Rightarrow> timestamp \<Rightarrow> ledger_request list \<Rightarrow> event_row list conn \<Rightarrow> event_row list conn" where
  "ledger_requests ec mn reqs c = fold (\<lambda>req c. snd (ledger_step ec mn req c)) reqs c"

lemma ledger_requests_refine:
  assumes "fixed_ok ec" "list_all (request_ok mn) reqs" "holds_events ec es c"
  shows "holds_events ec (fold (spec_ledger mn) reqs es) (ledger_requests ec mn reqs c)"
  using assms(2,3)
proof (induction reqs arbitrary: es c)
  case (Cons req reqs)
  then show ?case using ledger_step_refines [OF assms(1) Cons.prems(2)] by (simp add: ledger_requests_def)
qed (simp add: ledger_requests_def)

definition own_outcomes :: "probe_event list \<Rightarrow> string \<Rightarrow> string \<Rightarrow> bool list" where
  "own_outcomes es a k = map was_correct (filter (\<lambda>e. ev_actor e = a \<and> ev_concept e = k) es)"

lemma outcomes_events: "holds_events ec es c \<Longrightarrow> outcomes a k c = (Inr (own_outcomes es a k), c)"
proof -
  assume h: "holds_events ec es c"
  have "map er_correct (filter (\<lambda>r. er_actor r = a \<and> er_concept r = k) (map (event_row_of ec) es)) =
      map bool_col (own_outcomes es a k)"
    by (simp add: filter_map_rows own_outcomes_def comp_def) (simp add: event_row_of_def)
  then show ?thesis using h outcome_rows.traverse_enc [of "own_outcomes es a k"]
    by (simp add: outcomes_def ledger_rows_def holds_events_def healthyD list_all_iff)
qed

lemma mastery_events: "holds_events ec es c \<Longrightarrow> mastery rnd P a k c = (Inr (bkt_replay rnd P (own_outcomes es a k)), c)"
  by (simp add: mastery_def bindE_step outcomes_events bkt_replay_def)

text \<open>Claim C23.  After any sequence of recordings, erasures and prunings on an empty ledger, the export of
  a person is the complete list of that person's surviving events, in order, and the mastery is the
  replay of that person's own outcomes for the concept: an erased person leaves nothing, nobody
  else's events have an influence, a pruning removes exactly the events before its cutoff, and a
  negative or unrepresentable window removes nothing.\<close>

theorem ledger_keeps_own_events:
  assumes "fixed_ok ec" "list_all (request_ok mn) reqs"
    and "c = ledger_requests ec mn reqs (conn_new [])" "es = fold (spec_ledger mn) reqs []"
  shows "export_actor ec a c = (Inr (filter (\<lambda>e. ev_actor e = a) es), c) \<and>
    mastery rnd P a k c = (Inr (bkt_replay rnd P (map was_correct (filter (\<lambda>e. ev_actor e = a \<and> ev_concept e = k) es))), c) \<and>
    fst (export_actor ec a (snd (delete_actor a c))) = Inr [] \<and>
    (b = a \<or> fst (export_actor ec b (snd (delete_actor a c))) = fst (export_actor ec b c))"
proof -
  have "holds_events ec [] (conn_new [])" by (simp add: holds_events_def)
  from ledger_requests_refine [OF assms(1,2) this] have h: "holds_events ec es c" using assms(3,4) by simp
  have export: "export_actor ec b d = (Inr (filter (\<lambda>e. ev_actor e = b) fs), d)" if "holds_events ec fs d" for b fs d
  proof -
    have "list_all (\<lambda>e. fixed_ok ec \<and> in_years (ev_at e)) fs"
      using that assms(1) by (simp add: holds_events_def list_all_iff)
    from event_rows.select_enc [OF this, of "\<lambda>r. er_actor r = b" "\<lambda>e. ev_actor e = b"]
    show ?thesis using that by (simp add: export_actor_def ledger_rows_def holds_events_def healthyD event_row_of_def)
  qed
  have "holds_events ec (filter (\<lambda>e. ev_actor e \<noteq> a) es) (snd (delete_actor a c))"
    using ledger_step_refines [OF assms(1) h, of mn "DeleteActor a"] by simp
  note deleted = export [OF this]
  have "filter (\<lambda>e. ev_actor e = b) (filter (\<lambda>e. ev_actor e \<noteq> a) es) =
      (if b = a then [] else filter (\<lambda>e. ev_actor e = b) es)" for b
    by (auto simp: filter_empty_conv intro: filter_cong)
  then show ?thesis
    using export [OF h] deleted mastery_events [OF h] by (simp add: own_outcomes_def)
qed

text \<open>A codec for the examples: unary, so that the order of texts is the order of times.\<close>

definition demo_events :: event_codec where
  "demo_events = \<lparr>ec_fixed = (\<lambda>t. replicate (nat (t + 62167219200 * 1000000000)) CHR ''x''),
     ec_parse = (\<lambda>s. Some (int (length s) - 62167219200 * 1000000000))\<rparr>"

lemma replicate_less: "replicate m c < replicate n (c :: char) \<longleftrightarrow> m < n"
proof (induction m arbitrary: n)
  case 0
  then show ?case by (cases n) simp_all
next
  case (Suc m)
  then show ?case by (cases n) simp_all
qed

lemma demo_events_ok: "fixed_ok demo_events"
  by (auto simp: fixed_ok_def demo_events_def in_years_def replicate_less)

lemma ledger_keeps_own_events_witness:
  "\<exists>c e. c = ledger_requests demo_events 0 [RecordEvent e, DeleteActor ''bob''] (conn_new []) \<and>
     export_actor demo_events ''ann'' c = (Inr [e], c)"
proof -
  let ?e = "\<lparr>ev_actor = ''ann'', ev_concept = ''auth'', predicted_correct = True, was_correct = False, ev_at = 5\<rparr>"
  have "list_all (request_ok 0) [RecordEvent ?e, DeleteActor ''bob'']" by (simp add: in_years_def)
  note claim = ledger_keeps_own_events [OF demo_events_ok this refl refl, of "''ann''"]
  have "export_actor demo_events ''ann'' (ledger_requests demo_events 0 [RecordEvent ?e, DeleteActor ''bob''] (conn_new [])) =
      (Inr [?e], ledger_requests demo_events 0 [RecordEvent ?e, DeleteActor ''bob''] (conn_new []))"
    by (rule trans [OF conjunct1 [OF claim]]) simp
  then show ?thesis by (intro exI conjI) (rule refl, assumption)
qed

subsection \<open>The team view\<close>

text \<open>Who has mastered a concept, by the replay of the own events; and the view promised by the crate.\<close>

definition redundant :: "(real \<Rightarrow> real) \<Rightarrow> bkt_params \<Rightarrow> probe_event list \<Rightarrow> string \<Rightarrow> string \<Rightarrow> bool" where
  "redundant rnd P es a k \<longleftrightarrow> REDUNDANCY_THRESHOLD \<le> bkt_replay rnd P (own_outcomes es a k)"

definition mastered_by :: "(real \<Rightarrow> real) \<Rightarrow> bkt_params \<Rightarrow> probe_event list \<Rightarrow> string \<Rightarrow> string set" where
  "mastered_by rnd P es k = {a \<in> ev_actor ` set (filter (\<lambda>e. ev_concept e = k) es). redundant rnd P es a k}"

definition spec_redundancy :: "(real \<Rightarrow> real) \<Rightarrow> bkt_params \<Rightarrow> probe_event list \<Rightarrow> concept_redundancy list" where
  "spec_redundancy rnd P es = map (\<lambda>k. \<lparr>rd_concept = k, redundant_actors = word_of_nat (card (mastered_by rnd P es k))\<rparr>)
     (sorted_list_of_set (ev_concept ` set es))"

lemma count_redundant_run:
  assumes "holds_events ec es c"
  shows "count_redundant rnd P ps counts c = (Inr (\<lambda>k. if k \<in> snd ` set ps \<or> counts k \<noteq> None
    then Some ((case counts k of None \<Rightarrow> 0 | Some n \<Rightarrow> n) +
      word_of_nat (length (filter (\<lambda>(a, k'). k' = k \<and> redundant rnd P es a k) ps))) else None), c)"
proof (induction ps arbitrary: counts)
  case Nil
  have "(\<lambda>k. if counts k \<noteq> None then Some (case counts k of None \<Rightarrow> 0 | Some n \<Rightarrow> n) else None) = counts"
    by (auto simp: fun_eq_iff split: option.splits)
  then show ?case by (simp cong: if_cong)
next
  case (Cons p ps)
  obtain a k where p: "p = (a, k)" by fastforce
  show ?case
    unfolding p count_redundant.simps bindE_step [where m = "mastery rnd P a k", OF mastery_events [OF assms]] Cons.IH
    by (auto simp: fun_eq_iff redundant_def split: option.splits)
qed

lemma pairs_events:
  assumes "holds_events ec es c"
  shows "\<exists>ps. actor_concept_pairs c = (Inr ps, c) \<and> distinct ps \<and> set ps = (\<lambda>e. (ev_actor e, ev_concept e)) ` set es"
proof -
  have "map (\<lambda>r. (er_actor r, er_concept r)) (c_db c) = map (\<lambda>e. (ev_actor e, ev_concept e)) es"
    using assms by (simp add: holds_events_def event_row_of_def)
  then show ?thesis using assms
    by (simp add: actor_concept_pairs_def ledger_rows_def holds_events_def healthyD traverse_total [where g = "\<lambda>x. x"])
qed

lemma team_redundancy_spec:
  assumes "holds_events ec es c"
  shows "team_concept_redundancy rnd P c = (Inr (spec_redundancy rnd P es), c)"
proof -
  obtain ps where ps: "actor_concept_pairs c = (Inr ps, c)" "distinct ps"
      "set ps = (\<lambda>e. (ev_actor e, ev_concept e)) ` set es" using pairs_events [OF assms] by blast
  let ?counts = "\<lambda>k. if k \<in> snd ` set ps then Some (word_of_nat (length (filter (\<lambda>(a, k'). k' = k \<and> redundant rnd P es a k) ps))) else None"
  have run: "count_redundant rnd P ps Map.empty c = (Inr ?counts, c)"
    unfolding count_redundant_run [OF assms] by (simp cong: if_cong)
  have concepts: "snd ` set ps = ev_concept ` set es" by (simp add: ps(3) image_image)
  have count: "length (filter (\<lambda>(a, k'). k' = k \<and> redundant rnd P es a k) ps) = card (mastered_by rnd P es k)" for k
  proof -
    have "set (filter (\<lambda>(a, k'). k' = k \<and> redundant rnd P es a k) ps) = (\<lambda>a. (a, k)) ` mastered_by rnd P es k"
      by (auto simp: ps(3) mastered_by_def)
    then have "card (set (filter (\<lambda>(a, k'). k' = k \<and> redundant rnd P es a k) ps)) = card (mastered_by rnd P es k)"
      by (simp add: card_image inj_on_def)
    then show ?thesis using ps(2) by (simp add: distinct_card del: set_filter)
  qed
  have dom: "dom ?counts = ev_concept ` set es" using concepts by (auto simp: dom_def)
  show ?thesis
    unfolding team_concept_redundancy_def bindE_step [where m = actor_concept_pairs, OF ps(1)]
      bindE_step [where m = "count_redundant rnd P ps Map.empty", OF run] retE_apply dom spec_redundancy_def
    by (simp add: concepts count)
qed

definition rename_actors :: "(string \<Rightarrow> string) \<Rightarrow> probe_event list \<Rightarrow> probe_event list" where
  "rename_actors f = map (\<lambda>e. e\<lparr>ev_actor := f (ev_actor e)\<rparr>)"

lemma own_outcomes_rename:
  "inj f \<Longrightarrow> own_outcomes (rename_actors f es) (f a) k = own_outcomes es a k"
  by (simp add: own_outcomes_def rename_actors_def filter_map comp_def inj_eq)

lemma spec_redundancy_rename:
  assumes "inj f"
  shows "spec_redundancy rnd P (rename_actors f es) = spec_redundancy rnd P es"
proof -
  have "mastered_by rnd P (rename_actors f es) k = f ` mastered_by rnd P es k" for k
  proof -
    have "filter (\<lambda>e. ev_concept e = k) (rename_actors f es) = rename_actors f (filter (\<lambda>e. ev_concept e = k) es)"
      by (simp add: rename_actors_def filter_map comp_def)
    moreover have "ev_actor ` set (rename_actors f fs) = f ` ev_actor ` set fs" for fs
      by (simp add: rename_actors_def image_image)
    ultimately show ?thesis using own_outcomes_rename [OF assms] by (auto simp: mastered_by_def redundant_def)
  qed
  then have "card (mastered_by rnd P (rename_actors f es) k) = card (mastered_by rnd P es k)" for k
    using assms by (simp add: card_image inj_on_subset)
  moreover have "ev_concept ` set (rename_actors f es) = ev_concept ` set es"
    by (simp add: rename_actors_def image_image)
  ultimately show ?thesis by (simp add: spec_redundancy_def)
qed

text \<open>Claim C33.  The only view across persons is aggregate: it lists the concepts in order, each with the
  number of persons whose own replay reaches the threshold, and it is the same for any consistent
  renaming of the persons, so nothing of who they are or how they rank can be read out of it.\<close>

theorem redundancy_is_aggregate:
  assumes "fixed_ok ec" "list_all (\<lambda>e. in_years (ev_at e)) es" "inj f"
    and "healthy c" "c_db c = map (event_row_of ec) es" "healthy d" "c_db d = map (event_row_of ec) (rename_actors f es)"
  shows "team_concept_redundancy rnd P c = (Inr (map (\<lambda>k. \<lparr>rd_concept = k, redundant_actors =
      word_of_nat (card {a \<in> ev_actor ` set (filter (\<lambda>e. ev_concept e = k) es).
        REDUNDANCY_THRESHOLD \<le> bkt_replay rnd P (map was_correct (filter (\<lambda>e. ev_actor e = a \<and> ev_concept e = k) es))})\<rparr>)
      (sorted_list_of_set (ev_concept ` set es))), c) \<and>
    fst (team_concept_redundancy rnd P d) = fst (team_concept_redundancy rnd P c)"
proof -
  have "holds_events ec es c" "holds_events ec (rename_actors f es) d"
    using assms by (simp_all add: holds_events_def rename_actors_def list_all_iff)
  then show ?thesis using team_redundancy_spec spec_redundancy_rename [OF assms(3)]
    by (simp add: spec_redundancy_def mastered_by_def redundant_def own_outcomes_def)
qed

lemma redundancy_is_aggregate_witness:
  "\<exists>n. fst (team_concept_redundancy (\<lambda>x. x) bkt_default
      (conn_new [event_row_of demo_events \<lparr>ev_actor = ''ann'', ev_concept = ''auth'', predicted_correct = True, was_correct = True, ev_at = 5\<rparr>]))
    = Inr [\<lparr>rd_concept = ''auth'', redundant_actors = n\<rparr>]"
proof -
  let ?e = "\<lparr>ev_actor = ''ann'', ev_concept = ''auth'', predicted_correct = True, was_correct = True, ev_at = 5\<rparr>"
  let ?c = "conn_new [event_row_of demo_events ?e]"
  have "list_all (\<lambda>e. in_years (ev_at e)) [?e]" "c_db ?c = map (event_row_of demo_events) [?e]"
    "c_db ?c = map (event_row_of demo_events) (rename_actors (\<lambda>x. x) [?e])"
    by (simp_all add: in_years_def rename_actors_def)
  note claim = redundancy_is_aggregate [OF demo_events_ok this(1) inj_on_id2 healthy_new(1) this(2) healthy_new(1) this(3)]
  show ?thesis unfolding claim [THEN conjunct1] by simp
qed

end
