(* ===== verification/Rationale_Ledger.thy ===== *)
theory Rationale_Ledger
  imports Ledger_Base
begin

text \<open>
  \<open>plugin-rationale-ledger/src/lib.rs\<close>: the append-only ledger of decision records and its supersede
  chains.  The table is the list of its rows in insertion order; the fresh UUID and the clock reading
  of an append are the arguments \<open>new_id\<close> and \<open>now\<close>.
\<close>

record new_rationale =
  nr_task :: uuid
  nr_author :: string
  nr_title :: string
  nr_context :: string
  nr_decision :: string
  nr_consequences :: string
  nr_supersedes :: "uuid option"

record rationale_record =
  ra_id :: uuid
  ra_task :: uuid
  ra_author :: string
  ra_title :: string
  ra_context :: string
  ra_decision :: string
  ra_consequences :: string
  ra_supersedes :: "uuid option"
  ra_recorded_at :: timestamp

datatype rationale_error = RatStorage string | RatNotFound uuid

text \<open>A row, which is also the tuple \<open>RawRow\<close> read back.\<close>

record rationale_row =
  rr_id :: string
  rr_task :: string
  rr_author :: string
  rr_title :: string
  rr_context :: string
  rr_decision :: string
  rr_consequences :: string
  rr_supersedes :: "string option"
  rr_recorded_at :: string

type_synonym 'a rationale_op = "(rationale_row list, rationale_error, 'a) ledger_op"

definition rationale_create :: "rationale_row list option \<Rightarrow> rationale_row list" where
  "rationale_create t = (case t of None \<Rightarrow> [] | Some rs \<Rightarrow> rs)"

definition rationale_open where
  "rationale_open = open_db rationale_create None"

definition stamped :: "uuid \<Rightarrow> timestamp \<Rightarrow> new_rationale \<Rightarrow> rationale_record" where
  "stamped new_id now n = \<lparr>ra_id = new_id, ra_task = nr_task n, ra_author = nr_author n, ra_title = nr_title n,
     ra_context = nr_context n, ra_decision = nr_decision n, ra_consequences = nr_consequences n,
     ra_supersedes = nr_supersedes n, ra_recorded_at = now\<rparr>"

definition rationale_row_of :: "'x codec_scheme \<Rightarrow> rationale_record \<Rightarrow> rationale_row" where
  "rationale_row_of cdc r = \<lparr>rr_id = uuid_str cdc (ra_id r), rr_task = uuid_str cdc (ra_task r),
     rr_author = ra_author r, rr_title = ra_title r, rr_context = ra_context r, rr_decision = ra_decision r,
     rr_consequences = ra_consequences r, rr_supersedes = map_option (uuid_str cdc) (ra_supersedes r),
     rr_recorded_at = ts_str cdc (ra_recorded_at r)\<rparr>"

text \<open>\<open>SELECT task_id \<dots> WHERE id = ?1\<close>, no row being \<open>None\<close>.\<close>

definition target_task :: "'x codec_scheme \<Rightarrow> uuid \<Rightarrow> rationale_row list \<Rightarrow> string option" where
  "target_task cdc target db = map_option rr_task (find (\<lambda>r. rr_id r = uuid_str cdc target) db)"

text \<open>1555 is \<open>SQLITE_CONSTRAINT_PRIMARYKEY\<close>.\<close>

definition insert_rationale :: "rationale_row \<Rightarrow> rationale_row list \<Rightarrow> int + unit \<times> rationale_row list" where
  "insert_rationale r db =
     (if list_ex (\<lambda>x. rr_id x = rr_id r) db then Inl 1555 else Inr ((), db @ [r]))"

definition different_task :: "'x codec_scheme \<Rightarrow> uuid \<Rightarrow> rationale_error abort" where
  "different_task cdc target =
     Err (RatStorage (''supersede target '' @ uuid_str cdc target @ '' belongs to a different task''))"

definition check_target :: "'x codec_scheme \<Rightarrow> rationale_record \<Rightarrow> unit rationale_op" where
  "check_target cdc r =
     (case ra_supersedes r of
        None \<Rightarrow> retE ()
      | Some target \<Rightarrow>
          bindE (map_err (\<lambda>_. Err (RatStorage ''supersede lookup failed'')) (sql_read (target_task cdc target))) (\<lambda>found.
          case found of
            None \<Rightarrow> throwE (Err (RatNotFound target))
          | Some t \<Rightarrow> if t \<noteq> uuid_str cdc (ra_task r) then throwE (different_task cdc target) else retE ()))"

definition append_record :: "'x codec_scheme \<Rightarrow> uuid \<Rightarrow> timestamp \<Rightarrow> new_rationale \<Rightarrow> rationale_record rationale_op" where
  "append_record cdc new_id now n =
     (let r = stamped new_id now n in
      bindE lock_unwrap (\<lambda>_.
      bindE (check_target cdc r) (\<lambda>_.
      bindE (execute (RatStorage ''insert failed'') (insert_rationale (rationale_row_of cdc r))) (\<lambda>_.
      retE r))))"

definition raw_to_record :: "'x codec_scheme \<Rightarrow> rationale_row \<Rightarrow> rationale_error + rationale_record" where
  "raw_to_record cdc r =
     (case parse_uuid cdc (rr_id r) of
        None \<Rightarrow> Inl (RatStorage ''integrity error: malformed id'')
      | Some i \<Rightarrow>
     (case parse_uuid cdc (rr_task r) of
        None \<Rightarrow> Inl (RatStorage ''integrity error: malformed task_id'')
      | Some t \<Rightarrow>
     (case (case rr_supersedes r of
              None \<Rightarrow> Inr None
            | Some s \<Rightarrow>
                (case parse_uuid cdc s of
                   None \<Rightarrow> Inl (RatStorage ''integrity error: malformed supersedes'')
                 | Some u \<Rightarrow> Inr (Some u))) of
        Inl e \<Rightarrow> Inl e
      | Inr older \<Rightarrow>
     (case parse_ts cdc (rr_recorded_at r) of
        None \<Rightarrow> Inl (RatStorage ''integrity error: malformed timestamp'')
      | Some at_ts \<Rightarrow>
          Inr \<lparr>ra_id = i, ra_task = t, ra_author = rr_author r, ra_title = rr_title r,
            ra_context = rr_context r, ra_decision = rr_decision r, ra_consequences = rr_consequences r,
            ra_supersedes = older, ra_recorded_at = at_ts\<rparr>))))"

definition get_record :: "'x codec_scheme \<Rightarrow> uuid \<Rightarrow> rationale_record rationale_op" where
  "get_record cdc i =
     bindE lock_unwrap (\<lambda>_.
     bindE (map_err (\<lambda>_. Err (RatStorage ''prepare failed'')) sql_fault) (\<lambda>_.
     bindE (map_err (\<lambda>_. Err (RatStorage ''query failed'')) sql_fault) (\<lambda>_.
     bindE (map_err (\<lambda>_. Err (RatStorage ''row read failed''))
              (sql_read (find (\<lambda>r. rr_id r = uuid_str cdc i)))) (\<lambda>row.
     case row of
       Some r \<Rightarrow> liftE (as_err (raw_to_record cdc r))
     | None \<Rightarrow> throwE (Err (RatNotFound i))))))"

text \<open>\<open>ORDER BY recorded_at, id\<close>, on the text of the columns.\<close>

definition by_time :: "rationale_row list \<Rightarrow> rationale_row list" where
  "by_time = sort_key (\<lambda>r. (rr_recorded_at r, rr_id r))"

definition query_records ::
  "'x codec_scheme \<Rightarrow> (rationale_row list \<Rightarrow> rationale_row list) \<Rightarrow> rationale_record list rationale_op" where
  "query_records cdc sel =
     bindE lock_unwrap (\<lambda>_.
     read_rows (RatStorage ''prepare failed'') (RatStorage ''query failed'') (RatStorage ''row read failed'')
       (\<lambda>db. by_time (sel db)) (raw_to_record cdc))"

definition for_task :: "'x codec_scheme \<Rightarrow> uuid \<Rightarrow> rationale_record list rationale_op" where
  "for_task cdc t = query_records cdc (filter (\<lambda>r. rr_task r = uuid_str cdc t))"

definition all_records :: "'x codec_scheme \<Rightarrow> rationale_record list rationale_op" where
  "all_records cdc = query_records cdc (\<lambda>db. db)"

definition superseded_in :: "rationale_row list \<Rightarrow> rationale_row \<Rightarrow> bool" where
  "superseded_in db r = list_ex (\<lambda>s. rr_supersedes s = Some (rr_id r) \<and> rr_task s = rr_task r) db"

definition current_for_task :: "'x codec_scheme \<Rightarrow> uuid \<Rightarrow> rationale_record list rationale_op" where
  "current_for_task cdc t =
     query_records cdc (\<lambda>db. filter (\<lambda>r. rr_task r = uuid_str cdc t \<and> \<not> superseded_in db r) db)"

subsection \<open>Chains\<close>

text \<open>
  What the ledger promises: identifiers are unique, and a record supersedes only a record of its own
  task that was appended before it.
\<close>

inductive chain :: "rationale_record list \<Rightarrow> bool" where
  chain_empty: "chain []"
| chain_append:
    "chain rs \<Longrightarrow> ra_id r \<notin> ra_id ` set rs \<Longrightarrow>
     (case ra_supersedes r of None \<Rightarrow> True | Some t \<Rightarrow> \<exists>x \<in> set rs. ra_id x = t \<and> ra_task x = ra_task r) \<Longrightarrow>
     chain (rs @ [r])"

inductive_simps chain_snoc: "chain (rs @ [r])"

definition holds_chain :: "'x codec_scheme \<Rightarrow> rationale_record list \<Rightarrow> rationale_row list \<Rightarrow> bool" where
  "holds_chain cdc rs db \<longleftrightarrow> chain rs \<and> db = map (rationale_row_of cdc) rs"

interpretation rationale_rows: row_codec "rationale_row_of cdc" "raw_to_record cdc" "\<lambda>_. codec_ok cdc"
  for cdc :: "'x codec_scheme"
  by unfold_locales (simp add: rationale_row_of_def raw_to_record_def split: option.splits)

lemma chain_distinct: "chain rs \<Longrightarrow> distinct (map ra_id rs)"
  by (induction rule: chain.induct) auto

lemma row_id_task [simp]:
  "rr_id (rationale_row_of cdc r) = uuid_str cdc (ra_id r)" "rr_task (rationale_row_of cdc r) = uuid_str cdc (ra_task r)"
  "rr_supersedes (rationale_row_of cdc r) = map_option (uuid_str cdc) (ra_supersedes r)"
  "rr_recorded_at (rationale_row_of cdc r) = ts_str cdc (ra_recorded_at r)"
  by (simp_all add: rationale_row_of_def)

lemma find_row:
  assumes "codec_ok cdc"
  shows "find (\<lambda>r. rr_id r = uuid_str cdc i) (map (rationale_row_of cdc) rs) =
    map_option (rationale_row_of cdc) (find (\<lambda>r. ra_id r = i) rs)"
  using assms by (induction rs) simp_all

lemma target_task_rows:
  "codec_ok cdc \<Longrightarrow> target_task cdc t (map (rationale_row_of cdc) rs) =
     map_option (\<lambda>x. uuid_str cdc (ra_task x)) (find (\<lambda>r. ra_id r = t) rs)"
  by (simp add: target_task_def find_row option.map_comp comp_def)

text \<open>The check of the target: the answer on any connection, and on one without pending faults.\<close>

lemma check_target_result:
  assumes "check_target cdc r c = (q, c')"
  shows "c_db c' = c_db c \<and> (q = Inr () \<longrightarrow> (case ra_supersedes r of None \<Rightarrow> True
    | Some t \<Rightarrow> target_task cdc t (c_db c) = Some (uuid_str cdc (ra_task r))))"
proof (cases "ra_supersedes r")
  case None
  then show ?thesis using assms by (simp add: check_target_def)
next
  case (Some t)
  obtain q1 c1 where f1: "sql_fault c = (q1, c1)" by fastforce
  then have "c_db c1 = c_db c" using same_data_fault [of c] by (simp add: same_data_def)
  then show ?thesis using assms Some f1
    by (auto simp: check_target_def sql_read_def map_err_def bindE_def split: sum.splits option.splits if_splits)
qed

lemma append_record_safe:
  assumes "codec_ok cdc" "holds_chain cdc rs (c_db c)" "append_record cdc i now n c = (q, c')"
  shows "case q of Inl _ \<Rightarrow> c_db c' = c_db c | Inr r \<Rightarrow> r = stamped i now n \<and> holds_chain cdc (rs @ [r]) (c_db c')"
proof -
  let ?r = "stamped i now n"
  have db: "c_db c = map (rationale_row_of cdc) rs" "chain rs" using assms(2) by (simp_all add: holds_chain_def)
  show ?thesis
  proof (cases "c_poisoned c")
    case True
    then show ?thesis using assms(3) by (auto simp: append_record_def Let_def bindE_def lock_unwrap_def lock_conn_def)
  next
    case False
    obtain q1 c1 where c1: "check_target cdc ?r c = (q1, c1)" by fastforce
    note safe = check_target_result [OF c1]
    show ?thesis
    proof (cases q1)
      case (Inl e)
      then show ?thesis using assms(3) c1 False safe by (auto simp: append_record_def Let_def bindE_def)
    next
      case (Inr u)
      obtain q2 c2 where c2: "execute (RatStorage ''insert failed'') (insert_rationale (rationale_row_of cdc ?r)) c1 = (q2, c2)"
        by fastforce
      have run: "(q, c') = (case q2 of Inl e \<Rightarrow> (Inl e, c2) | Inr _ \<Rightarrow> (Inr ?r, c2))"
        using assms(3) c1 c2 Inr False by (simp add: append_record_def Let_def bindE_def split: sum.splits)
      from execute_effect [OF c2] show ?thesis
      proof
        assume "q2 = Inl (Err (RatStorage ''insert failed'')) \<and> c_db c2 = c_db c1"
        then show ?thesis using run safe by simp
      next
        assume "\<exists>a. q2 = Inr a \<and> insert_rationale (rationale_row_of cdc ?r) (c_db c1) = Inr (a, c_db c2)"
        then have q2: "q2 = Inr ()" "c_db c2 = map (rationale_row_of cdc) (rs @ [?r])"
          and fresh: "ra_id ?r \<notin> ra_id ` set rs"
          using safe db assms(1) by (auto simp: insert_rationale_def list_ex_iff split: if_splits)
        have "case ra_supersedes ?r of None \<Rightarrow> True | Some t \<Rightarrow> \<exists>x \<in> set rs. ra_id x = t \<and> ra_task x = ra_task ?r"
        proof (cases "ra_supersedes ?r")
          case (Some t)
          then obtain x where "find (\<lambda>r. ra_id r = t) rs = Some x" "ra_task x = ra_task ?r"
            using safe Inr db assms(1) by (auto simp: target_task_rows)
          then show ?thesis using Some by (auto simp: find_Some_iff)
        qed simp
        then have "chain (rs @ [?r])" using db(2) fresh by (simp add: chain_append)
        then show ?thesis using run q2 by (simp add: holds_chain_def)
      qed
    qed
  qed
qed

fun append_seq ::
  "'x codec_scheme \<Rightarrow> (uuid \<times> timestamp \<times> new_rationale) list \<Rightarrow> rationale_row list conn \<Rightarrow>
     rationale_record list \<times> rationale_row list conn" where
  "append_seq cdc [] c = ([], c)"
| "append_seq cdc ((i, now, n) # reqs) c =
     (case append_record cdc i now n c of
        (Inl _, c1) \<Rightarrow> append_seq cdc reqs c1
      | (Inr r, c1) \<Rightarrow> (case append_seq cdc reqs c1 of (rs, c2) \<Rightarrow> (r # rs, c2)))"

lemma append_seq_chain:
  assumes "codec_ok cdc" "holds_chain cdc rs (c_db c)" "append_seq cdc reqs c = (new, c')"
  shows "holds_chain cdc (rs @ new) (c_db c')"
  using assms(2,3)
proof (induction reqs arbitrary: rs c new)
  case (Cons req reqs)
  obtain i now n q c1 where req: "req = (i, now, n)" and c1: "append_record cdc i now n c = (q, c1)"
    by (cases req) fastforce
  note step = append_record_safe [OF assms(1) Cons.prems(1) c1]
  show ?case
  proof (cases q)
    case (Inl e)
    then show ?thesis using Cons.IH [of rs c1 new] Cons.prems step req c1 by simp
  next
    case (Inr r)
    obtain more c2 where c2: "append_seq cdc reqs c1 = (more, c2)" by fastforce
    then have "new = r # more" "c' = c2" using Cons.prems(2) req c1 Inr by simp_all
    moreover have "holds_chain cdc (rs @ [r]) (c_db c1)" using step Inr by auto
    ultimately show ?thesis using Cons.IH [of "rs @ [r]" c1 more] c2 by simp
  qed
qed simp

text \<open>Property.  The ledger is append-only, whatever statements fail: after any sequence of appends the
  table is the table before, row for row, followed by exactly the records whose append returned
  them, and its supersede links still form chains -- identifiers unique, every superseded record
  earlier and of the same task.\<close>

theorem rationale_append_only:
  assumes "codec_ok cdc" "chain rs" "c_db c = map (rationale_row_of cdc) rs"
    and "append_seq cdc reqs c = (new, c')"
  shows "c_db c' = c_db c @ map (rationale_row_of cdc) new \<and> chain (rs @ new)"
  using append_seq_chain [OF assms(1) _ assms(4), of rs] assms(2,3) by (simp add: holds_chain_def)

definition demo_rationale :: "uuid option \<Rightarrow> new_rationale" where
  "demo_rationale old = \<lparr>nr_task = 7, nr_author = ''agent'', nr_title = ''t'', nr_context = ''c'',
     nr_decision = ''d'', nr_consequences = ''q'', nr_supersedes = old\<rparr>"

subsection \<open>Appending, against the specification\<close>

definition spec_append ::
  "'x codec_scheme \<Rightarrow> rationale_record list \<Rightarrow> rationale_record \<Rightarrow> (rationale_error abort) + rationale_record list" where
  "spec_append cdc rs r =
     (let fresh = (if list_ex (\<lambda>x. ra_id x = ra_id r) rs then Inl (Err (RatStorage ''insert failed'')) else Inr (rs @ [r]))
      in case ra_supersedes r of
           None \<Rightarrow> fresh
         | Some t \<Rightarrow>
             (case find (\<lambda>x. ra_id x = t) rs of
                None \<Rightarrow> Inl (Err (RatNotFound t))
              | Some x \<Rightarrow> if ra_task x = ra_task r then fresh else Inl (different_task cdc t)))"

lemma check_target_healthy:
  assumes "codec_ok cdc" "healthy c" "c_db c = map (rationale_row_of cdc) rs"
  shows "check_target cdc r c =
    ((case ra_supersedes r of
        None \<Rightarrow> Inr ()
      | Some t \<Rightarrow> (case find (\<lambda>x. ra_id x = t) rs of
            None \<Rightarrow> Inl (Err (RatNotFound t))
          | Some x \<Rightarrow> if ra_task x = ra_task r then Inr () else Inl (different_task cdc t))), c)"
proof (cases "ra_supersedes r")
  case (Some t)
  have "map_err (\<lambda>_. Err (RatStorage ''supersede lookup failed'')) (sql_read (target_task cdc t)) c =
      (Inr (map_option (\<lambda>x. uuid_str cdc (ra_task x)) (find (\<lambda>r. ra_id r = t) rs)), c)"
    using assms by (simp add: map_err_def healthyD target_task_rows)
  then show ?thesis using Some assms(1) by (simp add: check_target_def bindE_step split: option.splits)
qed (simp add: check_target_def)

lemma append_record_spec:
  assumes "codec_ok cdc" "healthy c" "c_db c = map (rationale_row_of cdc) rs" "r = stamped i now n"
  shows "append_record cdc i now n c =
    (case spec_append cdc rs r of
       Inl e \<Rightarrow> (Inl e, c)
     | Inr rs' \<Rightarrow> (Inr r, c\<lparr>c_db := map (rationale_row_of cdc) rs'\<rparr>))"
proof -
  let ?row = "rationale_row_of cdc r"
  have ex: "list_ex (\<lambda>x. rr_id x = rr_id ?row) (c_db c) = list_ex (\<lambda>x. ra_id x = ra_id r) rs"
    using assms(1,3) by (simp add: list_ex_iff)
  have exec: "execute (RatStorage ''insert failed'') (insert_rationale ?row) c =
      (if list_ex (\<lambda>x. ra_id x = ra_id r) rs then (Inl (Err (RatStorage ''insert failed'')), c)
       else (Inr (), c\<lparr>c_db := map (rationale_row_of cdc) (rs @ [r])\<rparr>))"
    using assms(2,3) ex by (simp add: healthyD insert_rationale_def)
  note check = check_target_healthy [OF assms(1-3), of r]
  have run: "append_record cdc i now n c = bindE (check_target cdc r)
      (\<lambda>_. bindE (execute (RatStorage ''insert failed'') (insert_rationale ?row)) (\<lambda>_. retE r)) c"
    using assms(2,4) by (simp add: append_record_def Let_def healthyD)
  show ?thesis
    unfolding run using exec check
    by (auto simp: bindE_def spec_append_def Let_def split: option.splits)
qed

text \<open>Property.  On a connection that answers, an append does what the specification of the chain says: it
  is refused with \<open>NotFound\<close> exactly when the superseded record does not exist, with an error naming
  the target when that record belongs to another task, and otherwise stores the stamped record,
  after which \<open>get\<close> returns it.\<close>

theorem append_refines_chain:
  assumes "codec_ok cdc" "healthy c" "c_db c = map (rationale_row_of cdc) rs" "r = stamped i now n"
  shows "append_record cdc i now n c =
      (case spec_append cdc rs r of
         Inl e \<Rightarrow> (Inl e, c)
       | Inr rs' \<Rightarrow> (Inr r, c\<lparr>c_db := map (rationale_row_of cdc) rs'\<rparr>)) \<and>
    (is_ok (spec_append cdc rs r) = False \<or>
      fst (get_record cdc i (snd (append_record cdc i now n c))) = Inr r)"
proof -
  note run = append_record_spec [OF assms]
  have "fst (get_record cdc i (snd (append_record cdc i now n c))) = Inr r" if ok: "spec_append cdc rs r = Inr rs'" for rs'
  proof -
    have rs': "rs' = rs @ [r]" "\<not> list_ex (\<lambda>x. ra_id x = ra_id r) rs"
      using ok by (auto simp: spec_append_def Let_def split: option.splits if_splits)
    let ?d = "c\<lparr>c_db := map (rationale_row_of cdc) (rs @ [r])\<rparr>"
    have d: "append_record cdc i now n c = (Inr r, ?d)" using run ok rs'(1) by simp
    have "ra_id r = i" using assms(4) by (simp add: stamped_def)
    moreover from this have "find (\<lambda>x. ra_id x = i) rs = None"
      using rs'(2) by (simp add: find_None_iff list_ex_iff)
    ultimately have "find (\<lambda>x. ra_id x = i) (rs @ [r]) = Some r" by (simp add: find_snoc)
    then have "find (\<lambda>x. rr_id x = uuid_str cdc i) (map (rationale_row_of cdc) (rs @ [r])) = Some (rationale_row_of cdc r)"
      unfolding find_row [OF assms(1)] by simp
    then have "get_record cdc i ?d = (Inr r, ?d)"
      using assms(1,2) rationale_rows.dec_enc [OF assms(1)]
      by (simp add: get_record_def healthyD bindE_def map_err_def)
    then show ?thesis using d by simp
  qed
  then show ?thesis using run by (auto simp: is_ok_def split: sum.splits)
qed

lemma append_refines_chain_witness:
  "\<exists>c. append_record demo_codec 2 5 (demo_rationale (Some 1)) (conn_new []) = (Inl (Err (RatNotFound 1)), c) \<and> c_db c = []"
  using append_refines_chain [OF demo_codec_ok, of "conn_new []" "[]" _ 2 5 "demo_rationale (Some 1)"]
  by (simp add: spec_append_def stamped_def demo_rationale_def)

lemma rationale_append_only_witness:
  "\<exists>c r s. append_seq demo_codec [(1, 5, demo_rationale None), (2, 6, demo_rationale (Some 1))] (conn_new []) = ([r, s], c) \<and>
     c_db c = map (rationale_row_of demo_codec) [r, s] \<and> ra_supersedes s = Some (ra_id r)"
proof -
  let ?r = "stamped 1 5 (demo_rationale None)" and ?s = "stamped 2 6 (demo_rationale (Some 1))"
  let ?c = "(conn_new [])\<lparr>c_db := map (rationale_row_of demo_codec) [?r]\<rparr>"
  let ?d = "?c\<lparr>c_db := map (rationale_row_of demo_codec) [?r, ?s]\<rparr>"
  have 1: "append_record demo_codec 1 5 (demo_rationale None) (conn_new []) = (Inr ?r, ?c)"
    using append_record_spec [OF demo_codec_ok, of "conn_new []" "[]" ?r 1 5 "demo_rationale None"]
    by (simp add: spec_append_def stamped_def demo_rationale_def)
  have 2: "append_record demo_codec 2 6 (demo_rationale (Some 1)) ?c = (Inr ?s, ?d)"
    using append_record_spec [OF demo_codec_ok, of ?c "[?r]" ?s 2 6 "demo_rationale (Some 1)"]
    by (simp add: spec_append_def stamped_def demo_rationale_def)
  have seq: "append_seq demo_codec [(1, 5, demo_rationale None), (2, 6, demo_rationale (Some 1))] (conn_new []) = ([?r, ?s], ?d)"
    by (simp only: append_seq.simps 1 2 prod.case sum.case)
  have "c_db ?d = [] @ map (rationale_row_of demo_codec) [?r, ?s]"
    using rationale_append_only [OF demo_codec_ok chain_empty _ seq] by simp
  moreover have "ra_supersedes ?s = Some (ra_id ?r)" by (simp add: stamped_def demo_rationale_def)
  ultimately show ?thesis using seq by auto
qed

subsection \<open>The current view\<close>

definition replaced :: "rationale_record list \<Rightarrow> rationale_record \<Rightarrow> bool" where
  "replaced rs r = list_ex (\<lambda>s. ra_supersedes s = Some (ra_id r)) rs"

definition supersession :: "rationale_record list \<Rightarrow> (rationale_record \<times> rationale_record) set" where
  "supersession rs = {(x, y). x \<in> set rs \<and> y \<in> set rs \<and> ra_supersedes y = Some (ra_id x)}"

lemma chain_target:
  "chain rs \<Longrightarrow> s \<in> set rs \<Longrightarrow> ra_supersedes s = Some t \<Longrightarrow> \<exists>x \<in> set rs. ra_id x = t \<and> ra_task x = ra_task s"
  by (induction rule: chain.induct) auto

lemma chain_same_task:
  assumes "chain rs" "s \<in> set rs" "x \<in> set rs" "ra_supersedes s = Some (ra_id x)"
  shows "ra_task x = ra_task s"
proof -
  obtain y where "y \<in> set rs" "ra_id y = ra_id x" "ra_task y = ra_task s"
    using chain_target [OF assms(1,2,4)] by auto
  moreover from this have "y = x" using chain_distinct [OF assms(1)] assms(3)
    by (auto simp: distinct_map dest: inj_onD)
  ultimately show ?thesis by simp
qed

lemma superseded_rows:
  assumes "codec_ok cdc" "chain rs" "r \<in> set rs"
  shows "superseded_in (map (rationale_row_of cdc) rs) (rationale_row_of cdc r) = replaced rs r"
proof -
  have "superseded_in (map (rationale_row_of cdc) rs) (rationale_row_of cdc r) =
      (\<exists>s \<in> set rs. ra_supersedes s = Some (ra_id r) \<and> ra_task s = ra_task r)"
    using assms(1) by (auto simp: superseded_in_def list_ex_iff)
  then show ?thesis using chain_same_task [OF assms(2) _ assms(3)] by (auto simp: replaced_def list_ex_iff)
qed

lemma newest_not_replaced:
  assumes "chain rs" "ra_id x \<notin> ra_id ` set rs"
    and "case ra_supersedes x of None \<Rightarrow> True | Some t \<Rightarrow> \<exists>y \<in> set rs. ra_id y = t \<and> ra_task y = ra_task x"
  shows "\<not> replaced (rs @ [x]) x"
proof
  assume "replaced (rs @ [x]) x"
  then obtain s where s: "s \<in> set (rs @ [x])" "ra_supersedes s = Some (ra_id x)" by (auto simp: replaced_def list_ex_iff)
  then have "\<exists>y \<in> set rs. ra_id y = ra_id x" using chain_target [OF assms(1), of s] assms(3) by auto
  then show False using assms(2) by (metis imageI)
qed

text \<open>Every record leads, by supersession, to one that is in force.\<close>

lemma chain_reaches_current:
  "chain rs \<Longrightarrow> r \<in> set rs \<Longrightarrow>
     \<exists>cur \<in> set rs. (r, cur) \<in> (supersession rs)\<^sup>* \<and> ra_task cur = ra_task r \<and> \<not> replaced rs cur"
proof (induction arbitrary: r rule: chain.induct)
  case (chain_append rs x)
  have whole: "chain (rs @ [x])" using chain_append.hyps by (rule chain.chain_append)
  note fresh = newest_not_replaced [OF chain_append.hyps]
  have more: "(a, b) \<in> (supersession rs)\<^sup>* \<Longrightarrow> (a, b) \<in> (supersession (rs @ [x]))\<^sup>*" for a b
    by (erule rtrancl_mono [THEN subsetD, rotated]) (auto simp: supersession_def)
  show ?case
  proof (cases "r \<in> set rs")
    case True
    then obtain cur where cur: "cur \<in> set rs" "(r, cur) \<in> (supersession rs)\<^sup>*" "ra_task cur = ra_task r" "\<not> replaced rs cur"
      using chain_append.IH by blast
    show ?thesis
    proof (cases "ra_supersedes x = Some (ra_id cur)")
      case True
      then have "(cur, x) \<in> supersession (rs @ [x])" "ra_task cur = ra_task x"
        using cur(1) chain_same_task [OF whole, of x cur] by (auto simp: supersession_def)
      then show ?thesis using cur(3) fresh more [OF cur(2)] by (intro bexI [of _ x]) auto
    next
      case False
      then show ?thesis using cur more [OF cur(2)] by (intro bexI [of _ cur]) (auto simp: replaced_def)
    qed
  next
    case False
    then show ?thesis using chain_append.prems fresh by auto
  qed
qed simp

text \<open>The supersede links never close a circle: an index decreases along them.\<close>

lemma chain_acyclic: "chain rs \<Longrightarrow> acyclic (supersession rs)"
proof (induction rule: chain.induct)
  case (chain_append rs x)
  have no_out: "(x, y) \<notin> supersession (rs @ [x])" for y
    using newest_not_replaced [OF chain_append.hyps] by (auto simp: supersession_def replaced_def list_ex_iff)
  have in_rs: "(a, b) \<in> (supersession (rs @ [x]))\<^sup>+ \<Longrightarrow> b \<noteq> x \<Longrightarrow> (a, b) \<in> (supersession rs)\<^sup>+" for a b
  proof (induction rule: trancl_induct)
    case (base y)
    then show ?case using no_out by (auto simp: supersession_def)
  next
    case (step y z)
    then have "y \<noteq> x" using no_out by auto
    moreover have "(y, z) \<in> supersession rs" using step.hyps(2) step.prems \<open>y \<noteq> x\<close> by (auto simp: supersession_def)
    ultimately show ?case using step.IH by (meson trancl.trancl_into_trancl)
  qed
  show ?case
  proof (rule acyclicI, intro allI notI)
    fix a assume a: "(a, a) \<in> (supersession (rs @ [x]))\<^sup>+"
    then obtain b where "(a, b) \<in> supersession (rs @ [x])" by (meson tranclD)
    then have "a \<noteq> x" using no_out by auto
    then show False using in_rs [OF a] chain_append.IH by (simp add: acyclic_def)
  qed
qed (simp add: supersession_def acyclic_def)

definition oldest_first :: "'x codec_scheme \<Rightarrow> rationale_record list \<Rightarrow> rationale_record list" where
  "oldest_first cdc = sort_key (\<lambda>r. (ts_str cdc (ra_recorded_at r), uuid_str cdc (ra_id r)))"

lemma query_rows:
  assumes "codec_ok cdc" "healthy c" "c_db c = map (rationale_row_of cdc) rs"
    and "\<And>r. r \<in> set rs \<Longrightarrow> P (rationale_row_of cdc r) = Q r"
  shows "query_records cdc (\<lambda>db. filter P db) c = (Inr (oldest_first cdc (filter Q rs)), c)"
proof -
  have "filter P (map (rationale_row_of cdc) rs) = map (rationale_row_of cdc) (filter Q rs)"
    using assms(4) by (simp add: filter_map comp_def cong: filter_cong)
  then have "by_time (filter P (map (rationale_row_of cdc) rs)) = map (rationale_row_of cdc) (oldest_first cdc (filter Q rs))"
    by (simp add: by_time_def oldest_first_def sort_key_map)
  then show ?thesis using assms(1-3) rationale_rows.traverse_enc [of cdc "oldest_first cdc (filter Q rs)"]
    by (simp add: query_records_def healthyD list_all_iff)
qed

text \<open>Claim C22.  The current view of a task is exactly its records that nothing supersedes, oldest first, a
  part of the task's full history; and no decision is lost: every record of the task leads along the
  supersede links to one in the view, which are free of circles.\<close>

theorem current_view_complete:
  assumes "codec_ok cdc" "healthy c" "chain rs" "c_db c = map (rationale_row_of cdc) rs"
    and "cur = oldest_first cdc (filter (\<lambda>r. ra_task r = t \<and> \<not> replaced rs r) rs)"
  shows "current_for_task cdc t c = (Inr cur, c) \<and>
    for_task cdc t c = (Inr (oldest_first cdc (filter (\<lambda>r. ra_task r = t) rs)), c) \<and>
    all_records cdc c = (Inr (oldest_first cdc rs), c) \<and> acyclic (supersession rs) \<and>
    (\<forall>r \<in> set rs. ra_task r = t \<longrightarrow> (\<exists>s \<in> set cur. (r, s) \<in> (supersession rs)\<^sup>*))"
proof -
  let ?sup = "superseded_in (c_db c)"
  have "current_for_task cdc t c =
      query_records cdc (\<lambda>db. filter (\<lambda>r. rr_task r = uuid_str cdc t \<and> \<not> ?sup r) db) c"
    using assms(2) by (simp add: current_for_task_def query_records_def healthyD)
  also have "\<dots> = (Inr cur, c)"
    unfolding assms(5) using assms(1) superseded_rows [OF assms(1,3)]
    by (intro query_rows [OF assms(1,2,4)]) (simp add: assms(4))
  finally have cur: "current_for_task cdc t c = (Inr cur, c)" .
  have history: "for_task cdc t c = (Inr (oldest_first cdc (filter (\<lambda>r. ra_task r = t) rs)), c)"
    unfolding for_task_def using assms(1) by (intro query_rows [OF assms(1,2,4)]) simp
  have all: "all_records cdc c = (Inr (oldest_first cdc rs), c)"
    using query_rows [OF assms(1,2,4), of "\<lambda>_. True" "\<lambda>_. True"] by (simp add: all_records_def)
  have "\<exists>s \<in> set cur. (r, s) \<in> (supersession rs)\<^sup>*" if r: "r \<in> set rs" "ra_task r = t" for r
    using chain_reaches_current [OF assms(3) r(1)] r(2) assms(5) by (auto simp: oldest_first_def)
  then show ?thesis using cur history all chain_acyclic [OF assms(3)] by blast
qed

lemma current_view_complete_witness:
  "\<exists>s. fst (current_for_task demo_codec 7 (conn_new (map (rationale_row_of demo_codec)
      [stamped 1 5 (demo_rationale None), stamped 2 6 (demo_rationale (Some 1))]))) = Inr [s] \<and> ra_id s = 2"
proof -
  let ?r = "stamped 1 5 (demo_rationale None)" and ?s = "stamped 2 6 (demo_rationale (Some 1))"
  have "chain ([] @ [?r])" by (rule chain_append [OF chain_empty]) (simp_all add: stamped_def demo_rationale_def)
  then have "chain ([?r] @ [?s])" by (intro chain_append) (simp_all add: stamped_def demo_rationale_def)
  then have c: "chain [?r, ?s]" by simp
  from current_view_complete [OF demo_codec_ok healthy_new(1) c healthy_new(2) refl, of 7]
  show ?thesis
    by (auto simp: replaced_def stamped_def demo_rationale_def oldest_first_def)
qed

end
