(* ===== verification/Insight_Artifact.thy ===== *)
theory Insight_Artifact
  imports Ledger_Base
begin

text \<open>
  \<open>plugin-insight-artifact/src/lib.rs\<close>: the store of the human-authored insights and their
  supersession.  The table is the list of its rows in insertion order.  The JSON forms of the origin,
  the concepts, the links and the status are \<^verbatim>\<open>serde_json\<close>'s: fields of \<open>insight_codec\<close>, an encoder
  returning \<open>None\<close> where \<open>to_string\<close> fails.
\<close>

datatype concept_id = ConceptId string

datatype born_of = Hunt uuid | Build uuid | Route uuid | Gate uuid | SoloFlight uuid

datatype link = Code string | Rationale string | Test string | Contract string

datatype status = Living | Superseded uuid

record insight =
  in_id :: uuid
  in_author :: string
  in_created_at :: timestamp
  in_abstraction :: string
  in_born_of :: born_of
  in_concepts :: "concept_id list"
  in_links :: "link list"
  in_status :: status

definition insight_new ::
  "uuid \<Rightarrow> timestamp \<Rightarrow> string \<Rightarrow> string \<Rightarrow> born_of \<Rightarrow> concept_id list \<Rightarrow> link list \<Rightarrow> insight" where
  "insight_new fresh_id now author abstraction born cs ls = \<lparr>in_id = fresh_id, in_author = author, in_created_at = now,
     in_abstraction = abstraction, in_born_of = born, in_concepts = cs, in_links = ls, in_status = Living\<rparr>"

datatype artifact_error = ArtStorage string | ArtNotFound uuid | SelfSupersede uuid

record insight_row =
  ir_id :: string
  ir_author :: string
  ir_created_at :: string
  ir_abstraction :: string
  ir_born_of :: string
  ir_concepts :: string
  ir_links :: string
  ir_status :: string

record insight_codec = codec +
  js_born :: "born_of \<Rightarrow> string option"
  pj_born :: "string \<Rightarrow> born_of option"
  js_concepts :: "concept_id list \<Rightarrow> string option"
  pj_concepts :: "string \<Rightarrow> concept_id list option"
  js_links :: "link list \<Rightarrow> string option"
  pj_links :: "string \<Rightarrow> link list option"
  js_status :: "status \<Rightarrow> string option"
  pj_status :: "string \<Rightarrow> status option"

type_synonym 'a insight_op = "(insight_row list, artifact_error, 'a) ledger_op"

definition insight_create :: "insight_row list option \<Rightarrow> insight_row list" where
  "insight_create t = (case t of None \<Rightarrow> [] | Some rs \<Rightarrow> rs)"

definition insight_open where
  "insight_open = open_db insight_create None"

definition serialize :: "string \<Rightarrow> string option \<Rightarrow> string insight_op" where
  "serialize what s = liftE (ok_or (Err (ArtStorage (''serialize '' @ what @ '' failed''))) s)"

definition insert_insight :: "insight_row \<Rightarrow> insight_row list \<Rightarrow> int + unit \<times> insight_row list" where
  "insert_insight r db = (if list_ex (\<lambda>x. ir_id x = ir_id r) db then Inl 1555 else Inr ((), db @ [r]))"

definition store_insight :: "'x insight_codec_scheme \<Rightarrow> insight \<Rightarrow> unit insight_op" where
  "store_insight cdc a =
     bindE (serialize ''born_of'' (js_born cdc (in_born_of a))) (\<lambda>born.
     bindE (serialize ''concepts'' (js_concepts cdc (in_concepts a))) (\<lambda>cs.
     bindE (serialize ''links'' (js_links cdc (in_links a))) (\<lambda>ls.
     bindE (serialize ''status'' (js_status cdc (in_status a))) (\<lambda>st.
     bindE lock_unwrap (\<lambda>_.
     execute (ArtStorage ''insert failed'')
       (insert_insight \<lparr>ir_id = uuid_str cdc (in_id a), ir_author = in_author a,
          ir_created_at = ts_str cdc (in_created_at a), ir_abstraction = in_abstraction a, ir_born_of = born,
          ir_concepts = cs, ir_links = ls, ir_status = st\<rparr>))))))"

definition row_to_artifact :: "'x insight_codec_scheme \<Rightarrow> insight_row \<Rightarrow> string + insight" where
  "row_to_artifact cdc r =
     (case parse_uuid cdc (ir_id r) of
        None \<Rightarrow> Inl ''integrity error: malformed id''
      | Some i \<Rightarrow>
     (case parse_ts cdc (ir_created_at r) of
        None \<Rightarrow> Inl ''integrity error: malformed created_at''
      | Some t \<Rightarrow>
     (case pj_born cdc (ir_born_of r) of
        None \<Rightarrow> Inl ''integrity error: malformed born_of''
      | Some born \<Rightarrow>
     (case pj_concepts cdc (ir_concepts r) of
        None \<Rightarrow> Inl ''integrity error: malformed concepts''
      | Some cs \<Rightarrow>
     (case pj_links cdc (ir_links r) of
        None \<Rightarrow> Inl ''integrity error: malformed links''
      | Some ls \<Rightarrow>
     (case pj_status cdc (ir_status r) of
        None \<Rightarrow> Inl ''integrity error: malformed status''
      | Some st \<Rightarrow> Inr \<lparr>in_id = i, in_author = ir_author r, in_created_at = t, in_abstraction = ir_abstraction r,
          in_born_of = born, in_concepts = cs, in_links = ls, in_status = st\<rparr>))))))"

definition map_row_err :: "string + 'a \<Rightarrow> artifact_error + 'a" where
  "map_row_err r = (case r of Inl _ \<Rightarrow> Inl (ArtStorage ''row read failed'') | Inr a \<Rightarrow> Inr a)"

definition get_insight :: "'x insight_codec_scheme \<Rightarrow> uuid \<Rightarrow> insight option insight_op" where
  "get_insight cdc i =
     bindE lock_unwrap (\<lambda>_.
     bindE (map_err (\<lambda>_. Err (ArtStorage ''prepare failed'')) sql_fault) (\<lambda>_.
     bindE (map_err (\<lambda>_. Err (ArtStorage ''query failed'')) sql_fault) (\<lambda>_.
     bindE (map_err (\<lambda>_. Err (ArtStorage ''row read failed''))
              (sql_read (find (\<lambda>r. ir_id r = uuid_str cdc i)))) (\<lambda>row.
     case row of
       Some r \<Rightarrow> bindE (liftE (as_err (map_row_err (row_to_artifact cdc r)))) (\<lambda>a. retE (Some a))
     | None \<Rightarrow> retE None))))"

definition all_insights :: "'x insight_codec_scheme \<Rightarrow> insight list insight_op" where
  "all_insights cdc =
     bindE lock_unwrap (\<lambda>_.
     read_rows (ArtStorage ''prepare failed'') (ArtStorage ''query failed'') (ArtStorage ''row read failed'')
       (sort_key (\<lambda>r. (ir_created_at r, ir_id r))) (\<lambda>r. map_row_err (row_to_artifact cdc r)))"

text \<open>\<open>UPDATE \<dots> SET status WHERE id\<close>: the number of rows affected.\<close>

definition set_status :: "string \<Rightarrow> string \<Rightarrow> insight_row list \<Rightarrow> int + nat \<times> insight_row list" where
  "set_status i st db =
     Inr (length (filter (\<lambda>r. ir_id r = i) db), update_where (\<lambda>r. ir_id r = i) (\<lambda>r. r\<lparr>ir_status := st\<rparr>) db)"

definition mark_superseded :: "'x insight_codec_scheme \<Rightarrow> uuid \<Rightarrow> uuid \<Rightarrow> unit insight_op" where
  "mark_superseded cdc old by_id =
     bindE (serialize ''status'' (js_status cdc (Superseded by_id))) (\<lambda>st.
     bindE lock_unwrap (\<lambda>_.
     bindE (execute (ArtStorage ''update failed'') (set_status (uuid_str cdc old) st)) (\<lambda>affected.
     if affected = 0 then throwE (Err (ArtNotFound old)) else retE ())))"

definition supersede :: "'x insight_codec_scheme \<Rightarrow> uuid \<Rightarrow> insight \<Rightarrow> unit insight_op" where
  "supersede cdc old new =
     (if old = in_id new then throwE (Err (SelfSupersede old))
      else
        bindE (get_insight cdc (in_id new)) (\<lambda>found.
        bindE (if found = None then store_insight cdc new else retE ()) (\<lambda>_.
        mark_superseded cdc old (in_id new))))"

subsection \<open>The store as a list of insights\<close>

text \<open>What the code relies on of \<^verbatim>\<open>serde_json\<close>: the encoders succeed on these types and parse back.\<close>

definition encodes :: "('a \<Rightarrow> string option) \<Rightarrow> (string \<Rightarrow> 'a option) \<Rightarrow> bool" where
  "encodes enc dec \<longleftrightarrow> (\<forall>a. \<exists>s. enc a = Some s \<and> dec s = Some a)"

definition insight_ok :: "'x insight_codec_scheme \<Rightarrow> bool" where
  "insight_ok cdc \<longleftrightarrow> codec_ok cdc \<and> encodes (js_born cdc) (pj_born cdc) \<and> encodes (js_concepts cdc) (pj_concepts cdc) \<and>
     encodes (js_links cdc) (pj_links cdc) \<and> encodes (js_status cdc) (pj_status cdc)"

lemma encodes_the [simp]: "encodes enc dec \<Longrightarrow> dec (the (enc a)) = Some a"
  by (metis encodes_def option.sel)

lemma encodes_Some: "encodes enc dec \<Longrightarrow> enc a = Some (the (enc a))"
  by (metis encodes_def option.sel)

definition insight_row_of :: "'x insight_codec_scheme \<Rightarrow> insight \<Rightarrow> insight_row" where
  "insight_row_of cdc a = \<lparr>ir_id = uuid_str cdc (in_id a), ir_author = in_author a,
     ir_created_at = ts_str cdc (in_created_at a), ir_abstraction = in_abstraction a,
     ir_born_of = the (js_born cdc (in_born_of a)), ir_concepts = the (js_concepts cdc (in_concepts a)),
     ir_links = the (js_links cdc (in_links a)), ir_status = the (js_status cdc (in_status a))\<rparr>"

lemma insight_row_sel [simp]:
  "ir_id (insight_row_of cdc a) = uuid_str cdc (in_id a)" "ir_created_at (insight_row_of cdc a) = ts_str cdc (in_created_at a)"
  by (simp_all add: insight_row_of_def)

interpretation insight_rows: row_codec "insight_row_of cdc" "\<lambda>r. map_row_err (row_to_artifact cdc r)" "\<lambda>_. insight_ok cdc"
  for cdc :: "'x insight_codec_scheme"
  by unfold_locales (simp add: insight_row_of_def row_to_artifact_def map_row_err_def insight_ok_def)

definition holds_insights :: "'x insight_codec_scheme \<Rightarrow> insight list \<Rightarrow> insight_row list \<Rightarrow> bool" where
  "holds_insights cdc xs db \<longleftrightarrow> db = map (insight_row_of cdc) xs \<and> distinct (map in_id xs)"

definition known :: "insight list \<Rightarrow> uuid \<Rightarrow> bool" where
  "known xs i = list_ex (\<lambda>x. in_id x = i) xs"

definition mark :: "uuid \<Rightarrow> uuid \<Rightarrow> insight list \<Rightarrow> insight list" where
  "mark old by_id = update_where (\<lambda>x. in_id x = old) (\<lambda>x. x\<lparr>in_status := Superseded by_id\<rparr>)"

lemma known_iff: "known xs i \<longleftrightarrow> i \<in> in_id ` set xs"
  by (auto simp: known_def list_ex_iff)

lemma mark_ids [simp]: "map in_id (mark old by_id xs) = map in_id xs"
  by (simp add: mark_def map_update_where)

lemma mark_unknown: "\<not> known xs old \<Longrightarrow> mark old by_id xs = xs"
  by (simp add: mark_def known_def update_where_def list_ex_iff map_idI)

lemma mark_rows:
  assumes "insight_ok cdc"
  shows "update_where (\<lambda>r. ir_id r = uuid_str cdc old) (\<lambda>r. r\<lparr>ir_status := the (js_status cdc (Superseded b))\<rparr>)
      (map (insight_row_of cdc) xs) = map (insight_row_of cdc) (mark old b xs)"
proof -
  have "codec_ok cdc" using assms by (simp add: insight_ok_def)
  then show ?thesis by (auto simp: mark_def update_where_def insight_row_of_def)
qed

subsection \<open>The operations under faults\<close>

lemma serialize_ok: "encodes enc dec \<Longrightarrow> serialize what (enc a) c = (Inr (the (enc a)), c)"
  using encodes_Some [of enc dec a] by (metis serialize_def liftE_apply ok_or_simps(1))

lemma bind_serialize: "encodes enc dec \<Longrightarrow> bindE (serialize what (enc a)) f c = f (the (enc a)) c"
  by (rule bindE_step) (rule serialize_ok)

lemma insight_okD:
  assumes "insight_ok cdc"
  shows "encodes (js_born cdc) (pj_born cdc)" "encodes (js_concepts cdc) (pj_concepts cdc)"
    "encodes (js_links cdc) (pj_links cdc)" "encodes (js_status cdc) (pj_status cdc)" "codec_ok cdc"
  using assms by (simp_all add: insight_ok_def)

lemmas bind_serialized = bind_serialize [OF insight_okD(1)] bind_serialize [OF insight_okD(2)]
  bind_serialize [OF insight_okD(3)] bind_serialize [OF insight_okD(4)]

lemma store_run:
  assumes "insight_ok cdc"
  shows "store_insight cdc a = bindE lock_unwrap (\<lambda>_. execute (ArtStorage ''insert failed'') (insert_insight (insight_row_of cdc a)))"
proof
  fix c
  show "store_insight cdc a c = bindE lock_unwrap (\<lambda>_. execute (ArtStorage ''insert failed'') (insert_insight (insight_row_of cdc a))) c"
    using assms by (simp add: store_insight_def bind_serialized insight_row_of_def)
qed

lemma mark_run:
  assumes "insight_ok cdc"
  shows "mark_superseded cdc old b = bindE lock_unwrap (\<lambda>_.
     bindE (execute (ArtStorage ''update failed'') (set_status (uuid_str cdc old) (the (js_status cdc (Superseded b))))) (\<lambda>n.
     if n = 0 then throwE (Err (ArtNotFound old)) else retE ()))"
proof
  fix c
  show "mark_superseded cdc old b c = bindE lock_unwrap (\<lambda>_.
     bindE (execute (ArtStorage ''update failed'') (set_status (uuid_str cdc old) (the (js_status cdc (Superseded b))))) (\<lambda>n.
     if n = 0 then throwE (Err (ArtNotFound old)) else retE ())) c"
    using assms by (simp add: mark_superseded_def bind_serialized)
qed

lemma guarded:
  assumes "bindE lock_unwrap (\<lambda>_. execute e f) c = (r, c')"
  shows "(\<exists>x. r = Inl x) \<and> c_db c' = c_db c \<or> (\<exists>a. r = Inr a \<and> f (c_db c) = Inr (a, c_db c'))"
proof (cases "c_poisoned c")
  case True
  then show ?thesis using assms by (auto simp: bindE_def lock_unwrap_def lock_conn_def)
next
  case False
  then show ?thesis using assms execute_effect [of e f c r c'] by auto
qed

lemma insert_rows:
  assumes "insight_ok cdc" "insert_insight (insight_row_of cdc a) (map (insight_row_of cdc) xs) = Inr (u, db)"
  shows "\<not> known xs (in_id a) \<and> db = map (insight_row_of cdc) (xs @ [a])"
proof -
  have "codec_ok cdc" using assms(1) by (simp add: insight_ok_def)
  then show ?thesis using assms(2) by (auto simp: insert_insight_def known_def list_ex_iff split: if_splits)
qed

lemma store_effect:
  assumes "insight_ok cdc" "c_db c = map (insight_row_of cdc) xs" "store_insight cdc a c = (q, c')"
  shows "(\<exists>e. q = Inl e) \<and> c_db c' = c_db c \<or>
    q = Inr () \<and> \<not> known xs (in_id a) \<and> c_db c' = map (insight_row_of cdc) (xs @ [a])"
  using guarded [of _ _ c q c'] insert_rows [OF assms(1), of a xs] assms(2,3) by (fastforce simp: store_run [OF assms(1)])

lemma marked_rows_count:
  "insight_ok cdc \<Longrightarrow> length (filter (\<lambda>r. ir_id r = uuid_str cdc old) (map (insight_row_of cdc) xs)) = 0 \<longleftrightarrow> \<not> known xs old"
  by (auto simp: insight_ok_def known_def list_ex_iff filter_empty_conv)

lemma mark_effect:
  assumes "insight_ok cdc" "c_db c = map (insight_row_of cdc) xs" "mark_superseded cdc old b c = (q, c')"
  shows "(\<exists>e. q = Inl e) \<and> c_db c' = c_db c \<or>
    q = Inr () \<and> known xs old \<and> c_db c' = map (insight_row_of cdc) (mark old b xs)"
proof (cases "c_poisoned c")
  case True
  then show ?thesis using assms(1,3) by (auto simp: mark_run bindE_def lock_unwrap_def lock_conn_def)
next
  case False
  let ?st = "the (js_status cdc (Superseded b))"
  obtain q1 c1 where c1: "execute (ArtStorage ''update failed'') (set_status (uuid_str cdc old) ?st) c = (q1, c1)" by fastforce
  have run: "(q, c') = (case q1 of Inl e \<Rightarrow> (Inl e, c1) | Inr n \<Rightarrow> if n = 0 then (Inl (Err (ArtNotFound old)), c1) else (Inr (), c1))"
    using assms(1,3) False c1 by (cases q1) (auto simp: mark_run bindE_def split: if_splits)
  from execute_effect [OF c1] show ?thesis
  proof
    assume "\<exists>a. q1 = Inr a \<and> set_status (uuid_str cdc old) ?st (c_db c) = Inr (a, c_db c1)"
    then obtain n where n: "q1 = Inr n" "n = length (filter (\<lambda>r. ir_id r = uuid_str cdc old) (c_db c))"
        "c_db c1 = map (insight_row_of cdc) (mark old b xs)"
      using assms(2) mark_rows [OF assms(1)] by (auto simp: set_status_def)
    then have "n = 0 \<longleftrightarrow> \<not> known xs old" using marked_rows_count [OF assms(1), of old xs] assms(2) by simp
    then show ?thesis using run n assms(2) by (auto simp: mark_unknown)
  qed (use run in simp)
qed

lemma get_insight_keeps: "get_insight cdc i c = (q, c') \<Longrightarrow> c_db c' = c_db c"
proof -
  have "keeps same_data (case row of Some r \<Rightarrow> bindE (liftE (as_err (map_row_err (row_to_artifact cdc r)))) (\<lambda>a. retE (Some a)) | None \<Rightarrow> retE None)"
    for row by (cases row) (auto intro!: frame)
  then have "keeps same_data (get_insight cdc i)" unfolding get_insight_def by (intro frame) auto
  then show "get_insight cdc i c = (q, c') \<Longrightarrow> c_db c' = c_db c"
    using keepsD [of same_data "get_insight cdc i" c q c'] by (simp add: same_data_def)
qed

lemma sql_fault_db: "sql_fault c = (r, c1) \<Longrightarrow> c_db c1 = c_db c"
  using same_data_fault [of c] by (simp add: same_data_def)

lemma get_insight_found:
  assumes "get_insight cdc i c = (Inr (Some a), c')"
  shows "\<exists>r \<in> set (c_db c). ir_id r = uuid_str cdc i"
proof -
  obtain c0 c1 c2 c3 r where steps: "lock_unwrap c = (Inr () :: artifact_error abort + unit, c0)" "sql_fault c0 = (Inr (), c1)" "sql_fault c1 = (Inr (), c2)"
      "sql_read (find (\<lambda>r. ir_id r = uuid_str cdc i)) c2 = (Inr (Some r), c3)"
    using assms unfolding get_insight_def monadE by (fastforce simp: monadE split: option.splits)
  have "c0 = c" using steps(1) by (auto simp: lock_unwrap_def lock_conn_def split: if_splits)
  then have "c_db c2 = c_db c" using steps(2,3) by (auto dest!: sql_fault_db)
  moreover have "find (\<lambda>r. ir_id r = uuid_str cdc i) (c_db c2) = Some r"
    using steps(4) by (auto simp: sql_read_def monadE dest!: sql_fault_db)
  ultimately show ?thesis by (auto simp: find_Some_iff)
qed

subsection \<open>Nothing is ever deleted\<close>

datatype insight_request = Store insight | Supersede uuid insight

fun insight_step :: "'x insight_codec_scheme \<Rightarrow> insight_request \<Rightarrow> unit insight_op" where
  "insight_step cdc (Store a) = store_insight cdc a"
| "insight_step cdc (Supersede old new) = supersede cdc old new"

lemma supersede_effect:
  assumes "insight_ok cdc" "c_db c = map (insight_row_of cdc) xs" "supersede cdc old new c = (q, c')"
  shows "\<exists>ys. (ys = xs \<or> \<not> known xs (in_id new) \<and> ys = xs @ [new]) \<and>
    ((\<exists>e. q = Inl e) \<and> c_db c' = map (insight_row_of cdc) ys \<or>
     q = Inr () \<and> old \<noteq> in_id new \<and> known ys old \<and> known ys (in_id new) \<and>
       c_db c' = map (insight_row_of cdc) (mark old (in_id new) ys))"
proof (cases "old = in_id new")
  case True
  then show ?thesis using assms by (auto simp: supersede_def)
next
  case False
  obtain q1 c1 where c1: "get_insight cdc (in_id new) c = (q1, c1)" by fastforce
  then have db1: "c_db c1 = map (insight_row_of cdc) xs" using get_insight_keeps assms(2) by fastforce
  show ?thesis
  proof (cases q1)
    case (Inl e)
    then show ?thesis using assms(3) False c1 db1 by (auto simp: supersede_def bindE_def)
  next
    case (Inr found)
    obtain q2 c2 where c2: "(if found = None then store_insight cdc new else retE ()) c1 = (q2, c2)" by fastforce
    have "known xs (in_id new)" if "found = Some a" for a
      using get_insight_found [of cdc "in_id new" c a c1] c1 Inr that assms(1,2)
      by (auto simp: insight_okD(5) known_def list_ex_iff)
    then have stored: "(\<exists>e. q2 = Inl e) \<and> c_db c2 = map (insight_row_of cdc) xs \<or>
        q2 = Inr () \<and> (known xs (in_id new) \<and> c_db c2 = map (insight_row_of cdc) xs \<or>
          \<not> known xs (in_id new) \<and> c_db c2 = map (insight_row_of cdc) (xs @ [new]))"
      using c2 db1 store_effect [OF assms(1) db1, of new q2 c2] by (auto split: if_splits)
    have last: "known (xs @ [new]) (in_id new)" by (simp add: known_def)
    have run: "(q, c') = (case q2 of Inl e \<Rightarrow> (Inl e, c2) | Inr _ \<Rightarrow> mark_superseded cdc old (in_id new) c2)"
      using assms(3) False c1 c2 Inr unfolding supersede_def bindE_def by (cases q2) auto
    have marked: "?thesis" if "q2 = Inr ()" "c_db c2 = map (insight_row_of cdc) ys"
        "ys = xs \<or> \<not> known xs (in_id new) \<and> ys = xs @ [new]" "known ys (in_id new)" for ys
      using mark_effect [OF assms(1) that(2), of old "in_id new" q c'] run that False by auto
    show ?thesis using stored run marked [of xs] marked [of "xs @ [new]"] last by auto
  qed
qed

text \<open>The same explanation, whatever its status.\<close>

definition same_insight :: "insight \<Rightarrow> insight \<Rightarrow> bool" where
  "same_insight x y \<longleftrightarrow> x\<lparr>in_status := Living\<rparr> = y\<lparr>in_status := Living\<rparr>"

definition links_valid :: "insight list \<Rightarrow> bool" where
  "links_valid xs \<longleftrightarrow> list_all (\<lambda>x. case in_status x of Living \<Rightarrow> True | Superseded b \<Rightarrow> known xs b \<and> b \<noteq> in_id x) xs"

fun stores_living :: "insight_request \<Rightarrow> bool" where
  "stores_living (Store a) = (in_status a = Living)"
| "stores_living (Supersede old new) = (in_status new = Living)"

lemma same_insight_refl [simp]: "same_insight x x"
  by (simp add: same_insight_def)

lemma same_insight_mark: "list_all2 same_insight xs (mark old b xs)"
  by (simp add: mark_def update_where_def list_all2_conv_all_nth same_insight_def)

lemma known_mark [simp]: "known (mark old b xs) i = known xs i"
  by (simp only: known_iff mark_ids flip: set_map)

lemma links_valid_snoc:
  "links_valid xs \<Longrightarrow> in_status a = Living \<Longrightarrow> links_valid (xs @ [a])"
  by (auto simp: links_valid_def list_all_iff known_def split: status.splits)

lemma links_valid_mark:
  assumes "links_valid xs" "known xs b" "b \<noteq> old"
  shows "links_valid (mark old b xs)"
proof -
  have "set (mark old b xs) = (\<lambda>x. if in_id x = old then x\<lparr>in_status := Superseded b\<rparr> else x) ` set xs"
    by (simp add: mark_def update_where_def)
  moreover have "known (mark old b xs) = known xs" by (simp add: fun_eq_iff)
  ultimately show ?thesis using assms unfolding links_valid_def list_all_iff by (auto split: status.splits)
qed

definition extends :: "insight list \<Rightarrow> insight list \<Rightarrow> bool" where
  "extends xs zs \<longleftrightarrow> list_all2 same_insight xs (take (length xs) zs)"

lemma extends_intros [intro]: "extends xs xs" "extends xs (xs @ ys)" "extends xs ys \<Longrightarrow> extends xs (mark old b ys)"
proof -
  show "extends xs xs" "extends xs (xs @ ys)" by (simp_all add: extends_def list.rel_refl)
  show "extends xs (mark old b ys)" if "extends xs ys"
    using that same_insight_mark [of ys old b] by (auto simp: extends_def list_all2_conv_all_nth same_insight_def)
qed

lemma insight_step_effect:
  assumes "insight_ok cdc" "holds_insights cdc xs (c_db c)" "insight_step cdc req c = (q, c')"
  shows "\<exists>zs. holds_insights cdc zs (c_db c') \<and> extends xs zs \<and> (links_valid xs \<and> stores_living req \<longrightarrow> links_valid zs)"
proof -
  have db: "c_db c = map (insight_row_of cdc) xs" "distinct (map in_id xs)"
    using assms(2) by (simp_all add: holds_insights_def)
  show ?thesis
  proof (cases req)
    case (Store a)
    then have "(\<exists>e. q = Inl e) \<and> c_db c' = c_db c \<or>
        q = Inr () \<and> \<not> known xs (in_id a) \<and> c_db c' = map (insight_row_of cdc) (xs @ [a])"
      using store_effect [OF assms(1) db(1), of a q c'] assms(3) by simp
    then show ?thesis
    proof
      assume "(\<exists>e. q = Inl e) \<and> c_db c' = c_db c"
      then show ?thesis using assms(2) by (intro exI [of _ xs]) auto
    next
      assume "q = Inr () \<and> \<not> known xs (in_id a) \<and> c_db c' = map (insight_row_of cdc) (xs @ [a])"
      then show ?thesis using Store db(2) links_valid_snoc [of xs a]
        by (intro exI [of _ "xs @ [a]"]) (auto simp: holds_insights_def known_iff)
    qed
  next
    case (Supersede old new)
    then obtain ys where ys: "ys = xs \<or> \<not> known xs (in_id new) \<and> ys = xs @ [new]"
      and c': "(\<exists>e. q = Inl e) \<and> c_db c' = map (insight_row_of cdc) ys \<or>
       q = Inr () \<and> old \<noteq> in_id new \<and> known ys old \<and> known ys (in_id new) \<and>
         c_db c' = map (insight_row_of cdc) (mark old (in_id new) ys)"
      using supersede_effect [OF assms(1) db(1), of old new q c'] assms(3) by auto
    have grown: "distinct (map in_id ys)" "extends xs ys"
      using ys db(2) by (auto simp: known_iff)
    have valid: "links_valid ys" if "links_valid xs" "stores_living req"
      using ys that links_valid_snoc [of xs new] Supersede by auto
    from c' show ?thesis
    proof
      assume "(\<exists>e. q = Inl e) \<and> c_db c' = map (insight_row_of cdc) ys"
      then show ?thesis using grown valid by (intro exI [of _ ys]) (auto simp: holds_insights_def)
    next
      assume "q = Inr () \<and> old \<noteq> in_id new \<and> known ys old \<and> known ys (in_id new) \<and>
         c_db c' = map (insight_row_of cdc) (mark old (in_id new) ys)"
      then show ?thesis using grown valid links_valid_mark [of ys "in_id new" old]
        by (intro exI [of _ "mark old (in_id new) ys"]) (auto simp: holds_insights_def)
    qed
  qed
qed

text \<open>Property.  No insight is ever deleted or rewritten, whatever statements fail: every write leaves the
  stored insights in place with only a status possibly changed, keeps their identifiers unique and
  keeps every supersede mark pointing at another stored insight, provided the stored insights were
  living when they came in.\<close>

theorem insights_never_deleted:
  assumes "insight_ok cdc" "c_db c = map (insight_row_of cdc) xs" "distinct (map in_id xs)"
    and "insight_step cdc req c = (q, c')" "links_valid xs" "stores_living req"
  shows "\<exists>zs. c_db c' = map (insight_row_of cdc) zs \<and> distinct (map in_id zs) \<and> links_valid zs \<and>
    list_all2 (\<lambda>x y. x\<lparr>in_status := Living\<rparr> = y\<lparr>in_status := Living\<rparr>) xs (take (length xs) zs)"
proof -
  have "holds_insights cdc xs (c_db c)" using assms(2,3) by (simp add: holds_insights_def)
  from insight_step_effect [OF assms(1) this assms(4)] obtain zs where
    "holds_insights cdc zs (c_db c')" "extends xs zs" "links_valid zs" using assms(5,6) by blast
  then show ?thesis by (intro exI [of _ zs]) (simp add: holds_insights_def extends_def same_insight_def [abs_def])
qed

subsection \<open>Supersession, against the specification\<close>

fun spec_insight :: "insight_request \<Rightarrow> insight list \<Rightarrow> (artifact_error abort + unit) \<times> insight list" where
  "spec_insight (Store a) xs =
     (if known xs (in_id a) then (Inl (Err (ArtStorage ''insert failed'')), xs) else (Inr (), xs @ [a]))"
| "spec_insight (Supersede old new) xs =
     (if old = in_id new then (Inl (Err (SelfSupersede old)), xs)
      else let ys = (if known xs (in_id new) then xs else xs @ [new])
           in if known xs old then (Inr (), mark old (in_id new) ys) else (Inl (Err (ArtNotFound old)), ys))"

lemma find_insight_row:
  assumes "codec_ok cdc"
  shows "find (\<lambda>r. ir_id r = uuid_str cdc i) (map (insight_row_of cdc) xs) =
    map_option (insight_row_of cdc) (find (\<lambda>x. in_id x = i) xs)"
  using assms by (induction xs) simp_all

lemma get_insight_healthy:
  assumes "insight_ok cdc" "healthy c" "c_db c = map (insight_row_of cdc) xs"
  shows "get_insight cdc i c = (Inr (find (\<lambda>x. in_id x = i) xs), c)"
proof -
  have "find (\<lambda>r. ir_id r = uuid_str cdc i) (c_db c) = map_option (insight_row_of cdc) (find (\<lambda>x. in_id x = i) xs)"
    using assms(3) find_insight_row [OF insight_okD(5) [OF assms(1)]] by simp
  then show ?thesis using assms(1,2)
    by (cases "find (\<lambda>x. in_id x = i) xs")
      (simp_all add: get_insight_def healthyD bindE_def map_err_def insight_rows.dec_enc)
qed

lemma store_healthy:
  assumes "insight_ok cdc" "healthy c" "c_db c = map (insight_row_of cdc) xs"
  shows "store_insight cdc a c =
    (if known xs (in_id a) then (Inl (Err (ArtStorage ''insert failed'')), c)
     else (Inr (), c\<lparr>c_db := map (insight_row_of cdc) (xs @ [a])\<rparr>))"
proof -
  have "list_ex (\<lambda>x. ir_id x = uuid_str cdc (in_id a)) (c_db c) = known xs (in_id a)"
    using assms(3) insight_okD(5) [OF assms(1)] by (auto simp: known_def list_ex_iff)
  then show ?thesis using assms by (simp add: store_run [OF assms(1)] healthyD insert_insight_def)
qed

lemma mark_healthy:
  assumes "insight_ok cdc" "healthy c" "c_db c = map (insight_row_of cdc) xs"
  shows "mark_superseded cdc old b c =
    ((if known xs old then Inr () else Inl (Err (ArtNotFound old))), c\<lparr>c_db := map (insight_row_of cdc) (mark old b xs)\<rparr>)"
proof -
  have "execute (ArtStorage ''update failed'') (set_status (uuid_str cdc old) (the (js_status cdc (Superseded b)))) c =
      (Inr (length (filter (\<lambda>r. ir_id r = uuid_str cdc old) (c_db c))), c\<lparr>c_db := map (insight_row_of cdc) (mark old b xs)\<rparr>)"
    using assms(2,3) mark_rows [OF assms(1)] by (simp add: healthyD set_status_def)
  then show ?thesis using assms(2) marked_rows_count [OF assms(1), of old xs] assms(3)
    by (simp add: mark_run [OF assms(1)] healthyD bindE_step)
qed

lemma insight_step_spec:
  assumes "insight_ok cdc" "healthy c" "c_db c = map (insight_row_of cdc) xs" "spec_insight req xs = (q, ys)"
  shows "insight_step cdc req c = (q, c\<lparr>c_db := map (insight_row_of cdc) ys\<rparr>)"
proof (cases req)
  case (Store a)
  then show ?thesis using assms store_healthy [OF assms(1-3), of a] by (auto split: if_splits)
next
  case (Supersede old new)
  let ?ys = "if known xs (in_id new) then xs else xs @ [new]"
  let ?d = "c\<lparr>c_db := map (insight_row_of cdc) ?ys\<rparr>"
  have found: "(find (\<lambda>x. in_id x = in_id new) xs = None) = (\<not> known xs (in_id new))"
    by (auto simp: find_None_iff known_def list_ex_iff)
  have "c = c\<lparr>c_db := map (insight_row_of cdc) xs\<rparr>" using assms(3) by simp
  then have stored: "(if find (\<lambda>x. in_id x = in_id new) xs = None then store_insight cdc new else retE ()) c = (Inr (), ?d)"
    using store_healthy [OF assms(1-3), of new] by (auto simp: found)
  have known: "known ?ys old = known xs old" if "old \<noteq> in_id new" using that by (simp add: known_def)
  show ?thesis
  proof (cases "old = in_id new")
    case True
    then show ?thesis using assms(3,4) Supersede by (simp add: supersede_def)
  next
    case False
    have "supersede cdc old new c = mark_superseded cdc old (in_id new) ?d"
      using False stored get_insight_healthy [OF assms(1-3)] by (simp add: supersede_def bindE_step)
    also have "\<dots> = ((if known xs old then Inr () else Inl (Err (ArtNotFound old))),
        ?d\<lparr>c_db := map (insight_row_of cdc) (mark old (in_id new) ?ys)\<rparr>)"
      using mark_healthy [OF assms(1), of ?d ?ys old "in_id new"] assms(2) known [OF False] by simp
    finally show ?thesis using assms(4) Supersede False mark_unknown [of ?ys old] known [OF False]
      by (auto simp: Let_def split: if_splits)
  qed
qed

subsection \<open>A concrete codec\<close>

definition strs_nats :: "string list \<Rightarrow> nat list" where
  "strs_nats ss = concat (map (\<lambda>s. map Suc (str_nats s) @ [0]) ss)"

fun nats_strs :: "string \<Rightarrow> nat list \<Rightarrow> string list" where
  "nats_strs acc [] = []"
| "nats_strs acc (0 # ns) = acc # nats_strs [] ns"
| "nats_strs acc (Suc n # ns) = nats_strs (acc @ [char_of n]) ns"

lemma nats_strs_one: "nats_strs acc (map Suc (str_nats s) @ 0 # ns) = (acc @ s) # nats_strs [] ns"
  by (induction s arbitrary: acc) (simp_all add: str_nats_def)

lemma nats_strs_nats [simp]: "nats_strs [] (strs_nats ss) = ss"
  by (induction ss) (simp_all add: strs_nats_def nats_strs_one)

fun link_str :: "link \<Rightarrow> string" where
  "link_str (Code s) = CHR ''c'' # s"
| "link_str (Rationale s) = CHR ''r'' # s"
| "link_str (Test s) = CHR ''t'' # s"
| "link_str (Contract s) = CHR ''k'' # s"

definition str_link :: "string \<Rightarrow> link" where
  "str_link s = (let t = hd s in if t = CHR ''c'' then Code (tl s) else if t = CHR ''r'' then Rationale (tl s)
     else if t = CHR ''t'' then Test (tl s) else Contract (tl s))"

fun born_nats :: "born_of \<Rightarrow> nat list" where
  "born_nats (Hunt u) = [0, unat u]"
| "born_nats (Build u) = [1, unat u]"
| "born_nats (Route u) = [2, unat u]"
| "born_nats (Gate u) = [3, unat u]"
| "born_nats (SoloFlight u) = [4, unat u]"

definition nats_born :: "nat list \<Rightarrow> born_of" where
  "nats_born ns = (let u = word_of_nat (ns ! 1); t = hd ns
     in if t = 0 then Hunt u else if t = 1 then Build u else if t = 2 then Route u else if t = 3 then Gate u else SoloFlight u)"

fun status_nats :: "status \<Rightarrow> nat list" where
  "status_nats Living = []"
| "status_nats (Superseded u) = [unat u]"

definition nats_status :: "nat list \<Rightarrow> status" where
  "nats_status ns = (case ns of [] \<Rightarrow> Living | n # _ \<Rightarrow> Superseded (word_of_nat n))"

definition demo_insight_codec :: insight_codec where
  "demo_insight_codec = \<lparr>uuid_str = demo_uuid_str, parse_uuid = demo_parse_uuid,
     ts_str = ts_str demo_codec, parse_ts = parse_ts demo_codec,
     js_born = (\<lambda>b. Some (encode_nats (born_nats b))), pj_born = (\<lambda>s. Some (nats_born (decode_nats 0 s))),
     js_concepts = (\<lambda>cs. Some (encode_nats (strs_nats (map (case_concept_id (\<lambda>s. s)) cs)))),
     pj_concepts = (\<lambda>s. Some (map ConceptId (nats_strs [] (decode_nats 0 s)))),
     js_links = (\<lambda>ls. Some (encode_nats (strs_nats (map link_str ls)))),
     pj_links = (\<lambda>s. Some (map str_link (nats_strs [] (decode_nats 0 s)))),
     js_status = (\<lambda>st. Some (encode_nats (status_nats st))), pj_status = (\<lambda>s. Some (nats_status (decode_nats 0 s)))\<rparr>"

lemma demo_insight_ok: "insight_ok demo_insight_codec"
proof -
  have "str_link (link_str l) = l" for l by (cases l) (simp_all add: str_link_def)
  moreover have "nats_born (born_nats b) = b" for b by (cases b) (simp_all add: nats_born_def)
  moreover have "nats_status (status_nats st) = st" for st by (cases st) (simp_all add: nats_status_def)
  moreover have "ConceptId (case_concept_id (\<lambda>s. s) k) = k" for k by (cases k) simp
  ultimately have "encodes (js_born demo_insight_codec) (pj_born demo_insight_codec)"
    "encodes (js_concepts demo_insight_codec) (pj_concepts demo_insight_codec)"
    "encodes (js_links demo_insight_codec) (pj_links demo_insight_codec)"
    "encodes (js_status demo_insight_codec) (pj_status demo_insight_codec)"
    by (simp_all add: encodes_def demo_insight_codec_def comp_def)
  moreover have "codec_ok demo_insight_codec"
    using demo_codec_ok by (simp add: codec_ok_def demo_insight_codec_def demo_codec_def)
  ultimately show ?thesis by (simp add: insight_ok_def)
qed

definition demo_insight :: "uuid \<Rightarrow> insight" where
  "demo_insight i = insight_new i 5 ''ann'' ''why'' (Hunt 7) [ConceptId ''auth''] [Code ''a.rs:1'']"

lemma demo_insight_sel [simp]: "in_id (demo_insight i) = i" "in_status (demo_insight i) = Living"
  by (simp_all add: demo_insight_def insight_new_def)

lemma insights_never_deleted_witness:
  "\<exists>q c zs. insight_step demo_insight_codec (Supersede 1 (demo_insight 2))
      ((conn_new [insight_row_of demo_insight_codec (demo_insight 1)])\<lparr>c_faults := [None, None, None, None, Some 13]\<rparr>) = (q, c) \<and>
    c_db c = map (insight_row_of demo_insight_codec) zs \<and> length zs \<noteq> 0 \<and> links_valid zs"
proof -
  let ?c = "(conn_new [insight_row_of demo_insight_codec (demo_insight 1)])\<lparr>c_faults := [None, None, None, None, Some 13]\<rparr>"
  obtain q c where run: "insight_step demo_insight_codec (Supersede 1 (demo_insight 2)) ?c = (q, c)" by fastforce
  have db: "c_db ?c = map (insight_row_of demo_insight_codec) [demo_insight 1]" by (simp add: conn_new_def)
  have "distinct (map in_id [demo_insight 1])" "links_valid [demo_insight 1]" "stores_living (Supersede 1 (demo_insight 2))"
    by (simp_all add: links_valid_def)
  from insights_never_deleted [OF demo_insight_ok db this(1) run this(2,3)] obtain zs where
    "c_db c = map (insight_row_of demo_insight_codec) zs" "links_valid zs"
    "list_all2 (\<lambda>x y. x\<lparr>in_status := Living\<rparr> = y\<lparr>in_status := Living\<rparr>) [demo_insight 1] (take 1 zs)" by auto
  moreover from this have "length zs \<noteq> 0" by auto
  ultimately show ?thesis using run by blast
qed

subsection \<open>What a supersession does\<close>

definition insight_steps :: "'x insight_codec_scheme \<Rightarrow> insight_request list \<Rightarrow> insight_row list conn \<Rightarrow> insight_row list conn" where
  "insight_steps cdc reqs c = fold (\<lambda>req c. snd (insight_step cdc req c)) reqs c"

lemma insight_steps_spec:
  assumes "insight_ok cdc" "healthy c" "c_db c = map (insight_row_of cdc) xs"
  shows "insight_steps cdc reqs c = c\<lparr>c_db := map (insight_row_of cdc) (fold (\<lambda>req xs. snd (spec_insight req xs)) reqs xs)\<rparr>"
  using assms(2,3)
proof (induction reqs arbitrary: c xs)
  case (Cons req reqs)
  have "snd (insight_step cdc req c) = c\<lparr>c_db := map (insight_row_of cdc) (snd (spec_insight req xs))\<rparr>"
    using insight_step_spec [OF assms(1) Cons.prems, of req "fst (spec_insight req xs)" "snd (spec_insight req xs)"] by simp
  then show ?case
    using Cons.IH [of "c\<lparr>c_db := map (insight_row_of cdc) (snd (spec_insight req xs))\<rparr>" "snd (spec_insight req xs)"] Cons.prems(1)
    by (simp add: insight_steps_def)
qed (simp add: insight_steps_def)

text \<open>Rows sorted by a text that orders their times are sorted by the times.\<close>

lemma sorted_by_text:
  fixes time :: "'a \<Rightarrow> timestamp" and str :: "timestamp \<Rightarrow> string" and i :: "'a \<Rightarrow> string"
  assumes "\<forall>x \<in> set xs. \<forall>y \<in> set xs. time x < time y \<longrightarrow> str (time x) < str (time y)"
  shows "sorted (map time (sort_key (\<lambda>x. (str (time x), i x)) xs))"
proof -
  let ?key = "\<lambda>x. (str (time x), i x)"
  have "sorted_wrt (\<lambda>x y. ?key x \<le> ?key y) (sort_key ?key xs)"
    using sorted_sort_key [of ?key xs] by (simp add: sorted_map)
  then have "sorted_wrt (\<lambda>x y. time x \<le> time y) (sort_key ?key xs)"
    by (rule sorted_wrt_mono_rel [rotated]) (use assms in \<open>force simp: less_eq_prod_def not_le [symmetric]\<close>)
  then show ?thesis by (simp add: sorted_map)
qed

text \<open>Claim C20.  The store implements its specification: after any sequence of stores and supersessions on a
  connection that answers, \<open>get\<close> returns exactly the insight the specification holds under that
  identifier, \<open>all\<close> the insights ordered by the text of their creation time, which is the order of the times when the
  text form orders them (as RFC 3339 does for the years 0 to 9999), and the next request gives the answer of
  the specification -- an insight under a used identifier, an unknown predecessor and a
  self-supersession are refused with their errors.\<close>

theorem insight_store_refines:
  assumes "insight_ok cdc" "c = insight_steps cdc reqs (conn_new [])"
    and "xs = fold (\<lambda>req xs. snd (spec_insight req xs)) reqs []"
  shows "get_insight cdc i c = (Inr (find (\<lambda>x. in_id x = i) xs), c) \<and>
    all_insights cdc c = (Inr (sort_key (\<lambda>x. (ts_str cdc (in_created_at x), uuid_str cdc (in_id x))) xs), c) \<and>
    ((\<forall>x \<in> set xs. \<forall>y \<in> set xs. in_created_at x < in_created_at y \<longrightarrow> ts_str cdc (in_created_at x) < ts_str cdc (in_created_at y)) \<longrightarrow>
      sorted (map in_created_at (sort_key (\<lambda>x. (ts_str cdc (in_created_at x), uuid_str cdc (in_id x))) xs))) \<and>
    fst (insight_step cdc req c) = fst (spec_insight req xs)"
proof -
  have c: "healthy c" "c_db c = map (insight_row_of cdc) xs"
    using insight_steps_spec [OF assms(1) healthy_new(1), of "[]" "[]" reqs] assms(2,3) by simp_all
  have "list_all (\<lambda>_. insight_ok cdc) xs" using assms(1) by (simp add: list_all_iff)
  from insight_rows.query_enc [OF this, of "\<lambda>_. True" "\<lambda>_. True" "\<lambda>r. (ir_created_at r, ir_id r)"]
  have "all_insights cdc c = (Inr (sort_key (\<lambda>x. (ts_str cdc (in_created_at x), uuid_str cdc (in_id x))) xs), c)"
    using c by (simp add: all_insights_def healthyD)
  moreover have "fst (insight_step cdc req c) = fst (spec_insight req xs)"
    using insight_step_spec [OF assms(1) c, of req "fst (spec_insight req xs)" "snd (spec_insight req xs)"] by simp
  ultimately show ?thesis using get_insight_healthy [OF assms(1) c] sorted_by_text [of xs in_created_at "ts_str cdc"] by simp
qed

lemma insight_store_refines_witness:
  "\<exists>c. c = insight_steps demo_insight_codec [Store (demo_insight 1), Supersede 1 (demo_insight 2)] (conn_new []) \<and>
     get_insight demo_insight_codec 1 c = (Inr (Some (demo_insight 1\<lparr>in_status := Superseded 2\<rparr>)), c)"
  using insight_store_refines [OF demo_insight_ok refl refl,
      of 1 "[Store (demo_insight 1), Supersede 1 (demo_insight 2)]"]
  by (simp add: known_def mark_def update_where_def)

text \<open>Property.  The chain of supersessions can close: superseding A by B and then B by A, both stored and
  living, is accepted twice and leaves no current explanation, and a refused supersession is not
  undone -- after \<open>NotFound\<close> for the predecessor the successor has been stored.\<close>

theorem supersession_can_close_a_circle:
  assumes "insight_ok cdc" "healthy c" "in_id a \<noteq> in_id b"
    and "c_db c = map (insight_row_of cdc) [a, b]" "in_id x \<noteq> in_id a" "in_id x \<noteq> in_id b" "old \<noteq> in_id a" "old \<noteq> in_id b" "old \<noteq> in_id x"
  shows "c_db (insight_steps cdc [Supersede (in_id a) b, Supersede (in_id b) a] c) =
      map (insight_row_of cdc) [a\<lparr>in_status := Superseded (in_id b)\<rparr>, b\<lparr>in_status := Superseded (in_id a)\<rparr>] \<and>
    insight_step cdc (Supersede old x) c = (Inl (Err (ArtNotFound old)), c\<lparr>c_db := map (insight_row_of cdc) [a, b, x]\<rparr>)"
proof -
  have "c_db (insight_steps cdc [Supersede (in_id a) b, Supersede (in_id b) a] c) =
      map (insight_row_of cdc) [a\<lparr>in_status := Superseded (in_id b)\<rparr>, b\<lparr>in_status := Superseded (in_id a)\<rparr>]"
    using insight_steps_spec [OF assms(1,2,4), of "[Supersede (in_id a) b, Supersede (in_id b) a]"] assms(3)
    by (simp add: known_def mark_def update_where_def)
  moreover have "spec_insight (Supersede old x) [a, b] = (Inl (Err (ArtNotFound old)), [a, b, x])"
    using assms(5-9) by (auto simp: known_def)
  ultimately show ?thesis using insight_step_spec [OF assms(1,2,4)] by blast
qed

lemma supersession_can_close_a_circle_witness:
  "\<exists>c. insight_step demo_insight_codec (Supersede 4 (demo_insight 3))
      (conn_new (map (insight_row_of demo_insight_codec) [demo_insight 1, demo_insight 2])) = (Inl (Err (ArtNotFound 4)), c) \<and>
    c_db c = map (insight_row_of demo_insight_codec) [demo_insight 1, demo_insight 2, demo_insight 3]"
proof -
  have "insight_step demo_insight_codec (Supersede 4 (demo_insight 3))
      (conn_new (map (insight_row_of demo_insight_codec) [demo_insight 1, demo_insight 2])) =
    (Inl (Err (ArtNotFound 4)), (conn_new (map (insight_row_of demo_insight_codec) [demo_insight 1, demo_insight 2]))
      \<lparr>c_db := map (insight_row_of demo_insight_codec) [demo_insight 1, demo_insight 2, demo_insight 3]\<rparr>)"
    by (rule supersession_can_close_a_circle [THEN conjunct2]) (simp_all add: demo_insight_ok)
  then show ?thesis by simp
qed

end
