(* ===== verification/Kanban_Connections.thy ===== *)
theory Kanban_Connections
  imports Kanban_Faults
begin

text \<open>
  The board of \<open>plugin-kanban-sqlite/src/lib.rs\<close> in a database file that several connections have open:
  other processes, or other boards of this one.  Within one board the mutex makes each method a single
  step; between connections only SQLite's own locking is left.  \<open>conn_step\<close> interleaves the statements of
  any number of calls, each on a connection of its own:

  \<^item> \<open>sh_main\<close> holds the committed tables.  A connection that has run \<open>BEGIN IMMEDIATE\<close> is the
    \<open>sh_owner\<close> of the write lock and works on a version of its own until it commits or rolls back; what
    it does there is invisible to the others, so the body of its transaction is one step.
  \<^item> While a connection owns the lock, a write of any other fails with an error code (\<^verbatim>\<open>SQLITE_BUSY\<close>, after
    the timeout); every statement may also fail for reasons of its own.  Reads see the committed tables.
  \<^item> Commits succeed; \<open>Kanban_Faults\<close> says what a failing one does.

  \<open>sh_done\<close> is a trace for the statements: the writes that took effect, in their order.
\<close>

datatype request = Write kanban_op | Read uuid

datatype call_pc =
    Unstarted
  | Begun "kanban_db conn"
  | Ran "kanban_error + unit" "kanban_db conn"
  | Answered "kanban_error + unit"
  | RowRead "task_row option"
  | Got "kanban_error + task"

record shared_db =
  sh_main :: kanban_db
  sh_owner :: "nat option"
  sh_pc :: "nat \<Rightarrow> call_pc"
  sh_done :: "(nat \<times> kanban_op) list"

subsection \<open>The statements of a call\<close>

text \<open>What runs between \<open>BEGIN IMMEDIATE\<close> and its end.\<close>

fun tx_body :: "'x kanban_codec_scheme \<Rightarrow> kanban_op \<Rightarrow> unit kanban_io option" where
  "tx_body cdc (KTransition now tid to actor reason) = Some (transition_inner cdc now tid to actor reason)"
| "tx_body cdc (KBlock now tid actor br) = Some (block_inner cdc now tid actor br)"
| "tx_body cdc _ = None"

text \<open>The writes that are a single statement.\<close>

fun one_statement :: "'x kanban_codec_scheme \<Rightarrow> kanban_op \<Rightarrow> unit kanban_io option" where
  "one_statement cdc (KCreate tid now nt) = Some (bindE (kanban_create cdc tid now nt) (\<lambda>_. retE ()))"
| "one_statement cdc (KClaim tid worker) = Some (kanban_claim cdc tid worker)"
| "one_statement cdc _ = None"

text \<open>The two queries of \<open>get_inner\<close>.\<close>

definition read_row :: "'x kanban_codec_scheme \<Rightarrow> uuid \<Rightarrow> task_row option kanban_io" where
  "read_row cdc tid = sqlio ''query failed'' (sql_read (\<lambda>db. find (\<lambda>r. tr_id r = uuid_str cdc tid) (k_tasks db)))"

definition read_rest :: "'x kanban_codec_scheme \<Rightarrow> uuid \<Rightarrow> task_row option \<Rightarrow> task kanban_io" where
  "read_rest cdc tid row =
     (case row of
       None \<Rightarrow> throwE (NotFound tid)
     | Some r \<Rightarrow>
         bindE (liftE (ok_or (Storage (''integrity error: unknown state '' @ quoted (tr_state r)))
           (state_from_str (tr_state r)))) (\<lambda>state.
         bindE (liftE (ok_or (Storage ''integrity error: malformed depends_on'')
           (parse_deps cdc (tr_depends_on r)))) (\<lambda>deps.
         bindE (liftE (parse_block cdc (tr_block_reason r))) (\<lambda>block.
         bindE (sqlio ''prepare failed'' sql_fault) (\<lambda>_.
         bindE (sqlio ''history query'' (sql_read (\<lambda>db.
           filter (\<lambda>h. hr_task_id h = uuid_str cdc tid) (k_history db)))) (\<lambda>rows.
         bindE (mapE (history_change cdc) rows) (\<lambda>history.
         bindE (liftE (ok_or (Storage (''integrity error: malformed created_at '' @ quoted (tr_created_at r)))
           (parse_ts cdc (tr_created_at r)))) (\<lambda>created_at.
         retE \<lparr>t_id = tid, t_title = tr_title r, t_state = state, t_actor = tr_actor r,
               t_depends_on = deps, t_block_reason = block, t_history = history,
               t_created_at = created_at\<rparr>))))))))"

lemma get_inner_queries: "get_inner cdc tid = bindE (read_row cdc tid) (read_rest cdc tid)"
  unfolding get_inner_def read_row_def read_rest_def ..

inductive conn_step :: "'x kanban_codec_scheme \<Rightarrow> (nat \<Rightarrow> request) \<Rightarrow> shared_db \<Rightarrow> shared_db \<Rightarrow> bool" for cdc calls where
  tx_begin: "sh_pc s i = Unstarted \<Longrightarrow> calls i = Write c \<Longrightarrow> tx_body cdc c = Some m \<Longrightarrow> sh_owner s = None \<Longrightarrow>
    sqlio ''begin tx'' begin_immediate (conn_with (sh_main s) faults) = (Inr (), k) \<Longrightarrow>
    conn_step cdc calls s (s\<lparr>sh_owner := Some i, sh_pc := (sh_pc s)(i := Begun k)\<rparr>)"
| tx_refused: "sh_pc s i = Unstarted \<Longrightarrow> calls i = Write c \<Longrightarrow> tx_body cdc c = Some m \<Longrightarrow>
    sqlio ''begin tx'' begin_immediate (conn_with (sh_main s) (Some code # faults)) = (r, k) \<Longrightarrow>
    conn_step cdc calls s (s\<lparr>sh_pc := (sh_pc s)(i := Answered r)\<rparr>)"
| tx_run: "sh_pc s i = Begun k \<Longrightarrow> calls i = Write c \<Longrightarrow> tx_body cdc c = Some m \<Longrightarrow> m k = (r, k') \<Longrightarrow>
    conn_step cdc calls s (s\<lparr>sh_pc := (sh_pc s)(i := Ran r k')\<rparr>)"
| tx_commit: "sh_pc s i = Ran (Inr u) k \<Longrightarrow> calls i = Write c \<Longrightarrow>
    conn_step cdc calls s (s\<lparr>sh_main := c_db (snd (sql_commit k)), sh_owner := None,
      sh_done := sh_done s @ [(i, c)], sh_pc := (sh_pc s)(i := Answered (Inr u))\<rparr>)"
| tx_rollback: "sh_pc s i = Ran (Inl e) k \<Longrightarrow>
    conn_step cdc calls s (s\<lparr>sh_main := c_db (snd (sql_rollback k)), sh_owner := None,
      sh_pc := (sh_pc s)(i := Answered (Inl e))\<rparr>)"
| single: "sh_pc s i = Unstarted \<Longrightarrow> calls i = Write c \<Longrightarrow> one_statement cdc c = Some m \<Longrightarrow>
    sh_owner s = None \<or> (\<exists>code rest. faults = Some code # rest) \<Longrightarrow> m (conn_with (sh_main s) faults) = (r, k) \<Longrightarrow>
    conn_step cdc calls s (s\<lparr>sh_main := c_db k, sh_done := sh_done s @ (if is_ok r then [(i, c)] else []),
      sh_pc := (sh_pc s)(i := Answered r)\<rparr>)"
| query_row: "sh_pc s i = Unstarted \<Longrightarrow> calls i = Read tid \<Longrightarrow> read_row cdc tid (conn_with (sh_main s) faults) = (r, k) \<Longrightarrow>
    conn_step cdc calls s (s\<lparr>sh_pc := (sh_pc s)(i := (case r of Inl e \<Rightarrow> Got (Inl e) | Inr row \<Rightarrow> RowRead row))\<rparr>)"
| query_history: "sh_pc s i = RowRead row \<Longrightarrow> calls i = Read tid \<Longrightarrow>
    read_rest cdc tid row (conn_with (sh_main s) faults) = (r, k) \<Longrightarrow>
    conn_step cdc calls s (s\<lparr>sh_pc := (sh_pc s)(i := Got r)\<rparr>)"

inductive_cases conn_step_elim: "conn_step cdc calls s s'"

lemmas conn_stepE = conn_step_elim [consumes 1,
  case_names tx_begin tx_refused tx_run tx_commit tx_rollback single query_row query_history]

subsection \<open>The effect of the statements\<close>

text \<open>The specification accepts a call, and a sequence of calls.\<close>

fun takes_effect :: "kanban_op \<Rightarrow> board \<Rightarrow> bool" where
  "takes_effect (KCreate tid now nt) b = (tid \<notin> dom b)"
| "takes_effect (KTransition now tid to a r) b = (fst (spec_transition now tid to a r b) = Inr ())"
| "takes_effect (KClaim tid w) b = (fst (spec_claim tid w b) = Inr ())"
| "takes_effect (KBlock now tid a br) b = (fst (spec_block now tid a br b) = Inr ())"

fun all_take_effect :: "kanban_op list \<Rightarrow> board \<Rightarrow> bool" where
  "all_take_effect [] b = True"
| "all_take_effect (c # cs) b = (takes_effect c b \<and> all_take_effect cs (spec_step c b))"

lemma all_take_effect_append [simp]:
  "all_take_effect (cs @ ds) b \<longleftrightarrow> all_take_effect cs b \<and> all_take_effect ds (fold spec_step cs b)"
  by (induction cs arbitrary: b) auto

lemma tx_body_effect:
  assumes "kan_ok cdc" "tx_body cdc c = Some m" "wf_db cdc (c_db k)" "m k = (Inr u, k')"
  shows "takes_effect c (board_of cdc (c_db k)) \<and> board_of cdc (c_db k') = spec_step c (board_of cdc (c_db k)) \<and> wf_db cdc (c_db k')"
proof (cases c)
  case (KTransition now tid to a r)
  then have "transition_inner cdc now tid to a r k = (Inr u, k')" using assms(2,4) by simp
  from robust_effect [OF robust_transition_inner assms(3) this transition_inner_none [OF assms(1)]]
  show ?thesis using KTransition by simp
next
  case (KBlock now tid a br)
  then have "block_inner cdc now tid a br k = (Inr u, k')" using assms(2,4) by simp
  from robust_effect [OF robust_block_inner assms(3) this block_inner_none [OF assms(1)]]
  show ?thesis using KBlock by simp
qed (use assms(2) in auto)

lemma tx_body_keeps: "tx_body cdc c = Some m \<Longrightarrow> m k = (r, k') \<Longrightarrow> same_tx k k'"
  by (cases c) (auto dest: keepsD [OF keeps_transition_inner] keepsD [OF keeps_block_inner])

lemma kanban_inv_conn: "kanban_inv cdc (conn_new db) \<longleftrightarrow> kan_ok cdc \<and> wf_db cdc db"
  by (simp add: kanban_inv_def)

lemma lock_conn_with [simp]: "kanban_lock (conn_with db fs) = (Inr (), conn_with db fs)"
  by (simp add: kanban_lock_def)

lemma robust_lock [robustE]: "robust kanban_lock"
  by (auto simp: robust_def kanban_lock_def lock_conn_def split: if_splits)

lemma robust_one_statement: "one_statement cdc c = Some m \<Longrightarrow> robust m"
  by (cases c) (auto simp: kanban_create_def kanban_claim_def sqlio_def intro!: robustE)

lemma sql_exec_Inl: "sql_exec f c = (Inl e, c') \<Longrightarrow> c_db c' = c_db c"
  using same_data_fault [of c]
  by (auto simp: sql_exec_def bindE_Inl bindE_def same_data_def split: sum.splits prod.splits)

lemma sqlio_exec_Inl: "sqlio what (sql_exec f) c = (Inl e, c') \<Longrightarrow> c_db c' = c_db c"
  by (auto simp: sqlio_def map_err_Inl dest: sql_exec_Inl)

lemma sql_exec_Inr: "sql_exec f c = (Inr a, c') \<Longrightarrow> f (c_db c) = Inr (a, c_db c')"
  using same_data_fault [of c]
  by (auto simp: sql_exec_def bindE_def same_data_def split: sum.splits prod.splits)

lemma one_statement_refused:
  assumes "one_statement cdc c = Some m" "m (conn_with db fs) = (Inl e, k)"
  shows "c_db k = db"
proof (cases c)
  case (KCreate tid now nt)
  then show ?thesis using assms
    by (auto simp: kanban_create_def bindE_Inl bindE_Inr ok_or_def split: option.splits) (auto dest!: sqlio_exec_Inl)
next
  case (KClaim tid w)
  let ?P = "\<lambda>r. tr_id r = uuid_str cdc tid \<and> tr_actor r = None \<and> tr_state r = ''Ready''"
  let ?u = "sqlio ''claim failed'' (sql_exec (update_tasks ?P (\<lambda>r. r\<lparr>tr_actor := Some w\<rparr>)))"
  obtain q k1 where u: "?u (conn_with db fs) = (q, k1)" by fastforce
  show ?thesis
  proof (cases q)
    case (Inl e')
    then show ?thesis using sqlio_exec_Inl [of "''claim failed''" _ "conn_with db fs" e' k1] u assms KClaim
      by (auto simp: kanban_claim_def bindE_def)
  next
    case (Inr rows)
    then have "update_tasks ?P (\<lambda>r. r\<lparr>tr_actor := Some w\<rparr>) db = Inr (rows, c_db k1)"
      using u sql_exec_Inr [of "update_tasks ?P (\<lambda>r. r\<lparr>tr_actor := Some w\<rparr>)" "conn_with db fs" rows k1]
      by (auto simp: sqlio_def map_err_Inr)
    moreover have "rows = 0" "k = k1" using assms KClaim u Inr by (auto simp: kanban_claim_def bindE_def split: if_splits)
    ultimately have "filter ?P (k_tasks db) = []" "c_db k = db\<lparr>k_tasks := update_where ?P (\<lambda>r. r\<lparr>tr_actor := Some w\<rparr>) (k_tasks db)\<rparr>"
      by (auto simp: update_tasks_def)
    moreover from this(1) have "update_where ?P (\<lambda>r. r\<lparr>tr_actor := Some w\<rparr>) (k_tasks db) = k_tasks db"
      by (auto simp: update_where_def filter_empty_conv map_idI)
    ultimately show ?thesis by simp
  qed
qed (use assms(1) in auto)

lemma create_new_only:
  assumes "wf_db cdc db" "kanban_create cdc tid now nt (conn_new db) = (Inr u, k)"
  shows "tid \<notin> dom (board_of cdc db)"
proof -
  have "uuid_str cdc tid \<notin> tr_id ` set (k_tasks db)"
    using assms(2) by (auto simp: kanban_create_def bindE_def sqlio_def map_err_def insert_task_def conn_new_def
        kanban_lock_def lock_conn_def sql_exec_def sql_fault_def ok_or_def split: if_splits option.splits)
  then show ?thesis by (auto simp: board_of_def row_of_None [symmetric] dom_def)
qed

lemma one_statement_effect:
  assumes "kan_ok cdc" "one_statement cdc c = Some m" "wf_db cdc db" "m (conn_with db fs) = (Inr u, k)"
  shows "takes_effect c (board_of cdc db) \<and> board_of cdc (c_db k) = spec_step c (board_of cdc db) \<and> wf_db cdc (c_db k)"
proof -
  have run: "m (conn_new db) = (Inr u, k\<lparr>c_faults := []\<rparr>)"
    using robustD [OF robust_one_statement [OF assms(2)] assms(4)] by simp
  have inv: "kanban_inv cdc (conn_new db)" using assms(1,3) by (simp add: kanban_inv_conn)
  show ?thesis
  proof (cases c)
    case (KCreate tid now nt)
    then obtain v where v: "kanban_create cdc tid now nt (conn_new db) = (Inr v, k\<lparr>c_faults := []\<rparr>)"
      using run assms(2) by (auto simp: bindE_Inr)
    note new = create_new_only [OF assms(3) v]
    show ?thesis using kanban_create_refines [OF inv _ v] new KCreate
      by (auto simp: kanban_view_def kanban_inv_def spec_create_def)
  next
    case (KClaim tid w)
    then have "kanban_claim cdc tid w (conn_new db) = (Inr (), k\<lparr>c_faults := []\<rparr>)" using run assms(2) by simp
    from kanban_claim_refines [OF inv this] show ?thesis using KClaim
      by (auto simp: kanban_view_def kanban_inv_def prod_eq_iff)
  qed (use assms(2) in auto)
qed

subsection \<open>The invariant\<close>

definition in_tx :: "call_pc \<Rightarrow> bool" where
  "in_tx p \<longleftrightarrow> (\<exists>k. p = Begun k \<or> (\<exists>r. p = Ran r k))"

text \<open>A transaction's own version: the committed tables at first, then those with the call's effect.\<close>

definition tx_ok :: "'x kanban_codec_scheme \<Rightarrow> kanban_db \<Rightarrow> request \<Rightarrow> call_pc \<Rightarrow> bool" where
  "tx_ok cdc db q p \<longleftrightarrow>
     (case p of
        Begun k \<Rightarrow> c_db k = db \<and> c_saved k = Some db \<and> c_commits k = []
      | Ran r k \<Rightarrow> c_saved k = Some db \<and> c_commits k = [] \<and>
          (r = Inr () \<longrightarrow> (\<exists>c. q = Write c \<and> takes_effect c (board_of cdc db) \<and>
             board_of cdc (c_db k) = spec_step c (board_of cdc db) \<and> wf_db cdc (c_db k)))
      | _ \<Rightarrow> True)"

definition conns_inv :: "'x kanban_codec_scheme \<Rightarrow> (nat \<Rightarrow> request) \<Rightarrow> board \<Rightarrow> shared_db \<Rightarrow> bool" where
  "conns_inv cdc calls b s \<longleftrightarrow>
     wf_db cdc (sh_main s) \<and> board_of cdc (sh_main s) = fold spec_step (map snd (sh_done s)) b \<and>
     all_take_effect (map snd (sh_done s)) b \<and>
     (\<forall>i. in_tx (sh_pc s i) \<longleftrightarrow> sh_owner s = Some i) \<and> (\<forall>i. tx_ok cdc (sh_main s) (calls i) (sh_pc s i)) \<and>
     distinct (map fst (sh_done s)) \<and> (\<forall>(i, c) \<in> set (sh_done s). calls i = Write c) \<and>
     (\<forall>i. i \<in> fst ` set (sh_done s) \<longleftrightarrow> sh_pc s i = Answered (Inr ()))"

lemma pc_tx_simps [simp]:
  "\<not> in_tx Unstarted" "in_tx (Begun k)" "in_tx (Ran r k)" "\<not> in_tx (Answered r)" "\<not> in_tx (RowRead row)" "\<not> in_tx (Got g)"
  "tx_ok cdc db q Unstarted" "tx_ok cdc db q (Answered r)" "tx_ok cdc db q (RowRead row)" "tx_ok cdc db q (Got g)"
  by (simp_all add: in_tx_def tx_ok_def)

lemma tx_ok_outside: "\<not> in_tx p \<Longrightarrow> tx_ok cdc db q p"
  by (cases p) simp_all

lemma begin_result:
  assumes "sqlio what begin_immediate (conn_with db fs) = (r, k)"
  shows "(r = Inr () \<and> c_db k = db \<and> c_saved k = Some db \<and> c_commits k = []) \<or> (\<exists>e. r = Inl e)"
  using assms same_data_fault [of "conn_with db fs"]
  by (cases r) (auto simp: sqlio_def map_err_def begin_immediate_def bindE_def same_data_def split: sum.splits prod.splits option.splits)

lemma begin_refused: "sqlio what begin_immediate (conn_with db (Some code # fs)) = (r, k) \<Longrightarrow> r = Inl (coded what code)"
  by (auto simp: sqlio_def map_err_def begin_immediate_def bindE_def sql_fault_def)

lemma one_statement_faulted:
  "one_statement cdc c = Some m \<Longrightarrow> \<exists>e. fst (m (conn_with db (Some code # fs))) = Inl e"
  by (cases c) (auto simp: kanban_create_def kanban_claim_def bindE_def sqlio_def map_err_def sql_exec_def sql_fault_def
      split: sum.splits prod.splits)

text \<open>A step that leaves the tables and the trace alone, outside every transaction.\<close>

lemma inv_pc:
  assumes "conns_inv cdc calls b s" "\<not> in_tx (sh_pc s i)" "\<not> in_tx p"
    and "sh_pc s i \<noteq> Answered (Inr ())" "p \<noteq> Answered (Inr ())"
  shows "conns_inv cdc calls b (s\<lparr>sh_pc := (sh_pc s)(i := p)\<rparr>)"
  using assms by (auto simp: conns_inv_def tx_ok_outside)

lemma inv_committed:
  assumes inv: "conns_inv cdc calls b s" "calls i = Write c" "sh_pc s i \<noteq> Answered (Inr ())"
    and own: "\<And>j. in_tx (sh_pc s j) \<Longrightarrow> j = i"
    and eff: "takes_effect c (board_of cdc (sh_main s))" "board_of cdc db = spec_step c (board_of cdc (sh_main s))" "wf_db cdc db"
  shows "conns_inv cdc calls b (s\<lparr>sh_main := db, sh_owner := None, sh_done := sh_done s @ [(i, c)],
    sh_pc := (sh_pc s)(i := Answered (Inr ()))\<rparr>)"
proof -
  have new: "i \<notin> fst ` set (sh_done s)" using inv by (simp add: conns_inv_def)
  have pcs: "\<not> in_tx (((sh_pc s)(i := Answered (Inr ()))) j)" for j using own by auto
  have answered: "((sh_pc s)(i := Answered (Inr ()))) j = Answered (Inr ()) \<longleftrightarrow> j = i \<or> sh_pc s j = Answered (Inr ())" for j
    by simp
  show ?thesis using inv new eff
    by (auto simp: conns_inv_def answered pcs tx_ok_outside [OF pcs] simp del: fun_upd_apply)
qed

lemma conn_inv_step:
  assumes "conn_step cdc calls s s'" "kan_ok cdc" "conns_inv cdc calls b s"
  shows "conns_inv cdc calls b s'"
proof -
  have wf: "wf_db cdc (sh_main s)" and own: "in_tx (sh_pc s i) \<longleftrightarrow> sh_owner s = Some i"
    and tx: "tx_ok cdc (sh_main s) (calls i) (sh_pc s i)" for i
    using assms(3) by (auto simp: conns_inv_def)
  show ?thesis
    using assms(1)
  proof (cases rule: conn_stepE)
    case (tx_begin i c m faults k)
    then show ?thesis using begin_result [OF tx_begin(6)] assms(3) own by (auto simp: conns_inv_def tx_ok_def)
  next
    case (tx_refused i c m code faults r k)
    then show ?thesis using begin_refused [OF tx_refused(5)] inv_pc [OF assms(3), of i] by auto
  next
    case (tx_run i k c m r k')
    have k: "c_db k = sh_main s" "c_saved k = Some (sh_main s)" "c_commits k = []" and i: "sh_owner s = Some i"
      using tx [of i] own [of i] tx_run(2) by (simp_all add: tx_ok_def)
    have k': "c_saved k' = Some (sh_main s)" "c_commits k' = []"
      using tx_body_keeps [OF tx_run(4,5)] k by (simp_all add: same_tx_def)
    have "tx_ok cdc (sh_main s) (calls i) (Ran r k')"
      using tx_body_effect [OF assms(2) tx_run(4), of k _ k'] tx_run(3,5) k k' wf by (auto simp: tx_ok_def)
    then show ?thesis using assms(3) tx_run(1,2) i by (auto simp: conns_inv_def)
  next
    case (tx_commit i k c)
    have k: "c_commits k = []" "takes_effect c (board_of cdc (sh_main s))"
      "board_of cdc (c_db k) = spec_step c (board_of cdc (sh_main s))" "wf_db cdc (c_db k)"
      using tx [of i] tx_commit(2,3) by (auto simp: tx_ok_def)
    have "c_db (snd (sql_commit k)) = c_db k" using k(1) by (simp add: sql_commit_def)
    moreover have "j = i" if "in_tx (sh_pc s j)" for j using own [of i] own [of j] that tx_commit(2) by simp
    ultimately show ?thesis using inv_committed [OF assms(3) tx_commit(3), of "c_db k"] tx_commit k by simp
  next
    case (tx_rollback i e k)
    have "c_saved k = Some (sh_main s)" and i: "sh_owner s = Some i"
      using tx [of i] own [of i] tx_rollback(2) by (simp_all add: tx_ok_def)
    then have "c_db (snd (sql_rollback k)) = sh_main s" by (simp add: sql_rollback_def)
    then show ?thesis using assms(3) tx_rollback i by (auto simp: conns_inv_def)
  next
    case (single i c m faults r k)
    show ?thesis
    proof (cases r)
      case (Inl e)
      then have "c_db k = sh_main s" using one_statement_refused [OF single(4)] single(6) by blast
      then show ?thesis using Inl single inv_pc [OF assms(3), of i] by simp
    next
      case (Inr u)
      have free: "sh_owner s = None"
        using single(5,6) one_statement_faulted [OF single(4)] Inr by (metis Inl_Inr_False fst_conv)
      note eff = one_statement_effect [OF assms(2) single(4) wf single(6) [unfolded Inr]]
      have "conns_inv cdc calls b (s\<lparr>sh_main := c_db k, sh_owner := None, sh_done := sh_done s @ [(i, c)],
          sh_pc := (sh_pc s)(i := Answered (Inr ()))\<rparr>)"
        using inv_committed [OF assms(3) single(3), of "c_db k"] eff own free single(2) by simp
      then show ?thesis using single(1) Inr free by (cases s) simp
    qed
  next
    case (query_row i tid faults r k)
    then show ?thesis using inv_pc [OF assms(3), of i] by (auto split: sum.splits)
  next
    case (query_history i row tid faults r k)
    then show ?thesis using inv_pc [OF assms(3), of i] by auto
  qed
qed

lemma conn_inv_run:
  assumes "(conn_step cdc calls)\<^sup>*\<^sup>* s s'" "kan_ok cdc" "conns_inv cdc calls b s"
  shows "conns_inv cdc calls b s'"
  using assms by (induction rule: rtranclp_induct) (auto intro: conn_inv_step)

lemma done_grows: "conn_step cdc calls s s' \<Longrightarrow> \<exists>more. sh_done s' = sh_done s @ more"
  by (erule conn_stepE) auto

lemma done_grows_run: "(conn_step cdc calls)\<^sup>*\<^sup>* s s' \<Longrightarrow> \<exists>more. sh_done s' = sh_done s @ more"
proof (induction rule: rtranclp_induct)
  case (step t u)
  then show ?case using done_grows [of cdc calls t u] by fastforce
qed simp

definition shared_start :: "kanban_db \<Rightarrow> shared_db" where
  "shared_start db = \<lparr>sh_main = db, sh_owner = None, sh_pc = (\<lambda>_. Unstarted), sh_done = []\<rparr>"

lemma shared_start_simps [simp]:
  "sh_main (shared_start db) = db" "sh_owner (shared_start db) = None" "sh_pc (shared_start db) i = Unstarted"
  "sh_done (shared_start db) = []"
  by (simp_all add: shared_start_def)

lemma conns_inv_start: "wf_db cdc db \<Longrightarrow> conns_inv cdc calls (board_of cdc db) (shared_start db)"
  by (simp add: conns_inv_def)

subsection \<open>A call without contention\<close>

lemma tx_body_runs:
  assumes "kan_ok cdc" "tx_body cdc c = Some m" "wf_db cdc (c_db k)" "c_faults k = []" "takes_effect c (board_of cdc (c_db k))"
  shows "\<exists>db'. m k = (Inr (), k\<lparr>c_db := db'\<rparr>)"
proof (cases c)
  case (KTransition now tid to a r)
  then show ?thesis using transition_inner_none [OF assms(1,3,4), of now tid to a r] assms(2,5) by auto
next
  case (KBlock now tid a br)
  then show ?thesis using block_inner_none [OF assms(1,3,4), of now tid a br] assms(2,5) by auto
qed (use assms(2) in auto)

text \<open>A call that finds the lock free and meets no fault runs to its end and takes effect.\<close>

lemma tx_call:
  assumes "kan_ok cdc" "conns_inv cdc calls b s" "sh_pc s i = Unstarted" "calls i = Write c" "tx_body cdc c = Some m"
    and "sh_owner s = None" "takes_effect c (board_of cdc (sh_main s))"
  shows "\<exists>s'. (conn_step cdc calls)\<^sup>*\<^sup>* s s' \<and> sh_pc s' = (sh_pc s)(i := Answered (Inr ())) \<and> sh_owner s' = None \<and>
    sh_done s' = sh_done s @ [(i, c)] \<and> board_of cdc (sh_main s') = spec_step c (board_of cdc (sh_main s)) \<and>
    conns_inv cdc calls b s'"
proof -
  let ?k = "(conn_with (sh_main s) [])\<lparr>c_saved := Some (sh_main s)\<rparr>"
  have wf: "wf_db cdc (sh_main s)" using assms(2) by (simp add: conns_inv_def)
  let ?s1 = "s\<lparr>sh_owner := Some i, sh_pc := (sh_pc s)(i := Begun ?k)\<rparr>"
  have "sqlio ''begin tx'' begin_immediate (conn_with (sh_main s) []) = (Inr (), ?k)" by (simp add: sqlio_def map_err_def)
  then have s1: "conn_step cdc calls s ?s1" by (rule conn_step.tx_begin [where calls = calls, OF assms(3-6)])
  obtain db' where body: "m ?k = (Inr (), ?k\<lparr>c_db := db'\<rparr>)"
    using tx_body_runs [OF assms(1,5), of ?k] wf assms(7) by auto
  let ?s2 = "?s1\<lparr>sh_pc := (sh_pc ?s1)(i := Ran (Inr ()) (?k\<lparr>c_db := db'\<rparr>))\<rparr>"
  have s2: "conn_step cdc calls ?s1 ?s2" by (rule conn_step.tx_run [where calls = calls, OF _ assms(4,5) body]) simp
  let ?s3 = "?s2\<lparr>sh_main := c_db (snd (sql_commit (?k\<lparr>c_db := db'\<rparr>))), sh_owner := None, sh_done := sh_done ?s2 @ [(i, c)],
      sh_pc := (sh_pc ?s2)(i := Answered (Inr ()))\<rparr>"
  have s3: "conn_step cdc calls ?s2 ?s3" by (rule conn_step.tx_commit [where calls = calls, OF _ assms(4)]) simp
  have run: "(conn_step cdc calls)\<^sup>*\<^sup>* s ?s3" using s1 s2 s3 by (meson converse_rtranclp_into_rtranclp rtranclp.rtrancl_refl)
  have "board_of cdc (sh_main ?s3) = spec_step c (board_of cdc (sh_main s))"
    using tx_body_effect [OF assms(1,5) _ body] wf by (simp add: sql_commit_def)
  moreover have "sh_pc ?s3 = (sh_pc s)(i := Answered (Inr ()))" "sh_owner ?s3 = None" "sh_done ?s3 = sh_done s @ [(i, c)]" by simp_all
  ultimately show ?thesis using run conn_inv_run [OF run assms(1,2)] by blast
qed

lemma read_row_none: "read_row cdc tid (conn_with db []) = (Inr (row_of cdc tid db), conn_with db [])"
  by (simp add: read_row_def sqlio_def map_err_def row_of_def)

lemma read_rest_none:
  assumes "wf_db cdc db" "wf_row cdc r"
  shows "fst (read_rest cdc tid (Some r) (conn_with db [])) = Inr (decode_row cdc (task_rows cdc tid db) tid r)"
proof -
  have h: "\<forall>h \<in> set (task_rows cdc tid db). wf_hist cdc h" using assms(1) by (auto simp: wf_db_def task_rows_def)
  have "c_faults (conn_with db []) = []" by simp
  from history_changes_none [OF this h] show ?thesis using assms(2)
    by (auto simp: read_rest_def bindE_def sqlio_def map_err_def wf_row_def decode_row_def is_ok_iff task_rows_def)
qed

lemma backlog_tables:
  "wf_db demo_kanban_codec (c_db backlog_board)"
  "board_of demo_kanban_codec (c_db backlog_board) = [7 \<mapsto> created 7 3 \<lparr>nt_title = ''t'', nt_actor = ''a'', nt_depends_on = []\<rparr>]"
  using backlog_board by (simp_all add: kanban_inv_def kanban_view_def)

lemma claim_runs:
  assumes "kan_ok cdc" "wf_db cdc db" "fst (spec_claim tid w (board_of cdc db)) = Inr ()"
  shows "\<exists>k. kanban_claim cdc tid w (conn_with db []) = (Inr (), k)"
proof -
  have new: "conn_with db [] = conn_new db" by (simp add: conn_with_def conn_new_def)
  have inv: "kanban_inv cdc (conn_new db)" using assms(1,2) by (simp add: kanban_inv_conn)
  obtain q k where run: "kanban_claim cdc tid w (conn_new db) = (q, k)" by fastforce
  have "q = Inr ()" using kanban_claim_refines [OF inv run] assms(3) by (auto simp: kanban_view_def prod_eq_iff)
  then show ?thesis using run new by auto
qed

definition ready_board :: "kanban_db conn" where
  "ready_board = fold (board_step (sqlite_kanban demo_kanban_codec))
     [KTransition 4 7 Todo ''a'' None, KTransition 5 7 Ready ''a'' None] backlog_board"

lemma ready_tables:
  "wf_db demo_kanban_codec (c_db ready_board)"
  "\<exists>t. board_of demo_kanban_codec (c_db ready_board) 7 = Some t \<and> t_state t = Ready \<and> t_actor t = None"
proof -
  have "kanban_inv demo_kanban_codec ready_board \<and> kanban_view demo_kanban_codec ready_board =
      fold spec_step [KTransition 4 7 Todo ''a'' None, KTransition 5 7 Ready ''a'' None] (kanban_view demo_kanban_codec backlog_board)"
    unfolding ready_board_def by (rule sqlite_board.run_view [OF backlog_board(1)]) simp
  then show "wf_db demo_kanban_codec (c_db ready_board)"
    "\<exists>t. board_of demo_kanban_codec (c_db ready_board) 7 = Some t \<and> t_state t = Ready \<and> t_actor t = None"
    by (simp_all add: kanban_inv_def kanban_view_def [of demo_kanban_codec ready_board] backlog_board(2) spec_transition_def)
      (simp add: created_def moved_def)
qed

subsection \<open>Properties\<close>

lemma takes_effect_board_ok: "board_ok b \<Longrightarrow> takes_effect c b \<Longrightarrow> board_ok (spec_step c b)"
  using board_ok_step [of b c "[]" "dom b"] by (cases c) auto

lemma all_take_effect_board_ok: "all_take_effect cs b \<Longrightarrow> board_ok b \<Longrightarrow> board_ok (fold spec_step cs b)"
  by (induction cs arbitrary: b) (auto simp: takes_effect_board_ok)

lemma two_in_list:
  assumes "x \<in> set l" "y \<in> set l" "x \<noteq> y"
  shows "\<exists>xs ys zs. l = xs @ x # ys @ y # zs \<or> l = xs @ y # ys @ x # zs"
proof -
  obtain xs zs where l: "l = xs @ x # zs" using split_list [OF assms(1)] by blast
  then consider "y \<in> set xs" | "y \<in> set zs" using assms(2,3) by auto
  then show ?thesis
  proof cases
    case 1
    then obtain as bs where "xs = as @ y # bs" using split_list by fastforce
    then have "l = as @ y # bs @ x # zs" using l by simp
    then show ?thesis by blast
  next
    case 2
    then obtain as bs where "zs = as @ y # bs" using split_list by fastforce
    then have "l = xs @ x # as @ y # bs" using l by simp
    then show ?thesis by blast
  qed
qed

lemma no_second_claim:
  assumes "all_take_effect (xs @ KClaim tid v # ys @ KClaim tid w # zs) b" "list_all (\<lambda>c. \<not> moves tid c) ys"
  shows False
proof -
  let ?b = "fold spec_step xs b"
  have first: "fst (spec_claim tid v ?b) = Inr ()" using assms(1) by simp
  have "held (snd (spec_claim tid v ?b)) tid v" by (rule claim_takes [OF first])
  from claimed_refuses [OF claimed_run [OF this assms(2)], of w] assms(1) show False by simp
qed

text \<open>Claim C2.  The board is linearisable across connections.  Whatever calls run on whatever number of
  connections to one database file, however their statements interleave and whichever of them fail (a commit is taken to
  succeed; what follows from a failing one, whose result the code drops, is \<open>failed_commit_is_reported_ok\<close>):
  the committed tables are always those the specification reaches by the calls that have answered
  \<open>Ok\<close>, each exactly once and each accepted at its place in the order of the commits, an order that never
  changes afterwards and keeps a call that answered before another began before it; the calls that
  answered an error have left no trace; and every task keeps a history of legal moves.\<close>

theorem connections_linearise:
  assumes "kan_ok cdc" "wf_db cdc db"
    and "(conn_step cdc calls)\<^sup>*\<^sup>* (shared_start db) s" "(conn_step cdc calls)\<^sup>*\<^sup>* s s'"
  shows "board_of cdc (sh_main s') = fold spec_step (map snd (sh_done s')) (board_of cdc db) \<and>
    all_take_effect (map snd (sh_done s')) (board_of cdc db) \<and>
    distinct (map fst (sh_done s')) \<and> (\<forall>(i, c) \<in> set (sh_done s'). calls i = Write c) \<and>
    (\<forall>i. i \<in> fst ` set (sh_done s') \<longleftrightarrow> sh_pc s' i = Answered (Inr ())) \<and>
    (\<exists>later. sh_done s' = sh_done s @ later \<and> (\<forall>i \<in> fst ` set later. sh_pc s i \<noteq> Answered (Inr ()))) \<and>
    (board_ok (board_of cdc db) \<longrightarrow> board_ok (board_of cdc (sh_main s')))"
proof -
  have s: "conns_inv cdc calls (board_of cdc db) s" using conn_inv_run [OF assms(3,1) conns_inv_start [OF assms(2)]] .
  have s': "conns_inv cdc calls (board_of cdc db) s'" using conn_inv_run [OF assms(4,1) s] .
  obtain later where later: "sh_done s' = sh_done s @ later" using done_grows_run [OF assms(4)] by blast
  have "distinct (map fst (sh_done s @ later))" "\<forall>i. i \<in> fst ` set (sh_done s) \<longleftrightarrow> sh_pc s i = Answered (Inr ())"
    using s s' later by (simp_all add: conns_inv_def)
  then have new: "\<forall>i \<in> fst ` set later. sh_pc s i \<noteq> Answered (Inr ())" by auto
  have "all_take_effect (map snd (sh_done s')) (board_of cdc db)"
    and "board_of cdc (sh_main s') = fold spec_step (map snd (sh_done s')) (board_of cdc db)"
    using s' by (simp_all add: conns_inv_def)
  then have "board_ok (board_of cdc db) \<longrightarrow> board_ok (board_of cdc (sh_main s'))"
    using all_take_effect_board_ok by simp
  moreover have "\<exists>later. sh_done s' = sh_done s @ later \<and> (\<forall>i \<in> fst ` set later. sh_pc s i \<noteq> Answered (Inr ()))"
    using later new by blast
  ultimately show ?thesis using s' by (simp add: conns_inv_def)
qed

lemma connections_linearise_witness:
  "\<exists>s. (conn_step demo_kanban_codec (\<lambda>_. Write (KTransition 5 7 Todo ''a'' None)))\<^sup>*\<^sup>* (shared_start (c_db backlog_board)) s \<and>
     sh_pc s 1 = Answered (Inr ()) \<and> map_option t_state (board_of demo_kanban_codec (sh_main s) 7) = Some Todo"
proof -
  let ?c = "KTransition 5 7 Todo ''a'' None" and ?calls = "\<lambda>_ :: nat. Write (KTransition 5 7 Todo ''a'' None)"
  let ?s = "shared_start (c_db backlog_board)"
  have body: "tx_body demo_kanban_codec ?c = Some (transition_inner demo_kanban_codec 5 7 Todo ''a'' None)" by simp
  have effect: "takes_effect ?c (board_of demo_kanban_codec (sh_main ?s))"
    by (simp add: backlog_tables(2) spec_transition_def) (simp add: created_def)
  from tx_call [OF demo_kan_ok conns_inv_start [OF backlog_tables(1)], of 1 ?calls ?c, OF _ refl body _ effect]
  obtain s where s: "(conn_step demo_kanban_codec ?calls)\<^sup>*\<^sup>* ?s s" "sh_pc s 1 = Answered (Inr ())" "sh_done s = [(1, ?c)]"
    by auto
  from connections_linearise [OF demo_kan_ok backlog_tables(1) rtranclp.rtrancl_refl s(1)]
  have "board_of demo_kanban_codec (sh_main s) = spec_step ?c (board_of demo_kanban_codec (c_db backlog_board))"
    using s(3) by simp
  then have "map_option t_state (board_of demo_kanban_codec (sh_main s) 7) = Some Todo"
    by (simp add: backlog_tables(2) spec_transition_def) (simp add: created_def moved_def)
  then show ?thesis using s(1,2) by blast
qed

text \<open>Property.  Of any number of connections that try to claim the same task, while nothing moves it, at most
  one is told \<open>Ok\<close>.\<close>

theorem connections_claim_once:
  assumes "kan_ok cdc" "wf_db cdc db" "(conn_step cdc calls)\<^sup>*\<^sup>* (shared_start db) s"
    and "calls i = Write (KClaim tid v)" "calls j = Write (KClaim tid w)" "i \<noteq> j"
    and "\<And>k c. calls k = Write c \<Longrightarrow> \<not> moves tid c" "sh_pc s i = Answered (Inr ())"
  shows "sh_pc s j \<noteq> Answered (Inr ())"
proof
  assume j: "sh_pc s j = Answered (Inr ())"
  have inv: "conns_inv cdc calls (board_of cdc db) s" using conn_inv_run [OF assms(3,1) conns_inv_start [OF assms(2)]] .
  have calls: "calls k = Write c" if "(k, c) \<in> set (sh_done s)" for k c using inv that by (auto simp: conns_inv_def)
  have mem: "(k, c) \<in> set (sh_done s)" if "sh_pc s k = Answered (Inr ())" "calls k = Write c" for k c
  proof -
    have "k \<in> fst ` set (sh_done s)" using inv that(1) by (simp add: conns_inv_def)
    then show ?thesis using calls that(2) by fastforce
  qed
  let ?x = "(i, KClaim tid v)" and ?y = "(j, KClaim tid w)"
  obtain xs ys zs where split: "sh_done s = xs @ ?x # ys @ ?y # zs \<or> sh_done s = xs @ ?y # ys @ ?x # zs"
    using two_in_list [OF mem [OF assms(8,4)] mem [OF j assms(5)]] assms(6) by blast
  then have sub: "set ys \<subseteq> set (sh_done s)" by auto
  have "\<not> moves tid c" if "(k, c) \<in> set ys" for k c using calls [of k c] sub that assms(7) by blast
  then have quiet: "list_all (\<lambda>c. \<not> moves tid c) (map snd ys)" by (auto simp: list_all_iff)
  have "all_take_effect (map snd (sh_done s)) (board_of cdc db)" using inv by (simp add: conns_inv_def)
  then show False using split no_second_claim [OF _ quiet] by (auto simp only: map_append list.map snd_conv)
qed

lemma connections_claim_once_witness:
  "\<exists>s. (conn_step demo_kanban_codec (\<lambda>i. Write (KClaim 7 (if i = 0 then ''a'' else ''b''))))\<^sup>*\<^sup>* (shared_start (c_db ready_board)) s \<and>
     sh_pc s 0 = Answered (Inr ()) \<and> sh_pc s 1 \<noteq> Answered (Inr ())"
proof -
  let ?calls = "\<lambda>i :: nat. Write (KClaim 7 (if i = 0 then ''a'' else ''b''))" and ?s = "shared_start (c_db ready_board)"
  obtain k where k: "kanban_claim demo_kanban_codec 7 ''a'' (conn_with (c_db ready_board) []) = (Inr (), k)"
    using claim_runs [OF demo_kan_ok ready_tables(1), of 7 "''a''"] ready_tables(2) by (auto simp: spec_claim_def)
  let ?s1 = "?s\<lparr>sh_main := c_db k, sh_done := sh_done ?s @ [(0, KClaim 7 ''a'')], sh_pc := (sh_pc ?s)(0 := Answered (Inr ()))\<rparr>"
  have step: "conn_step demo_kanban_codec ?calls ?s ?s1"
    using conn_step.single [of ?s 0 ?calls "KClaim 7 ''a''" demo_kanban_codec "kanban_claim demo_kanban_codec 7 ''a''" "[]" "Inr ()" k] k
    by simp
  then have run: "(conn_step demo_kanban_codec ?calls)\<^sup>*\<^sup>* ?s ?s1" by blast
  have "sh_pc ?s1 1 \<noteq> Answered (Inr ())"
    by (rule connections_claim_once [OF demo_kan_ok ready_tables(1) run, of 0 7 "''a''" 1 "''b''"]) (simp_all split: if_splits)
  then show ?thesis using run by (intro exI [of _ ?s1]) simp
qed

text \<open>Property.  Reading is not atomic across connections: \<open>get\<close> asks for the row and for the history in two
  statements without a transaction, so when another connection commits a move in between it returns
  \<open>Ok\<close> with a task that never was on the board, in its old state and with the new move in its history.\<close>

theorem torn_read:
  assumes "kan_ok cdc" "wf_db cdc db" "board_of cdc db tid = Some t" "is_legal_transition (t_state t) to" "to \<noteq> Ready"
    and "calls 0 = Read tid" "calls 1 = Write (KTransition now tid to a r)"
  shows "\<exists>s u. (conn_step cdc calls)\<^sup>*\<^sup>* (shared_start db) s \<and> sh_pc s 0 = Got (Inr u) \<and>
    t_state u = t_state t \<and> length (t_history u) = Suc (length (t_history t)) \<and> sc_to (last (t_history u)) = to \<and>
    map_option t_state (board_of cdc (sh_main s) tid) = Some to"
proof -
  let ?c = "KTransition now tid to a r" and ?s = "shared_start db"
  obtain row where row: "row_of cdc tid db = Some row" "t = decode_row cdc (task_rows cdc tid db) tid row"
    using assms(3) by (auto simp: board_of_def)
  have spec: "spec_transition now tid to a r (board_of cdc db) = (Inr (), (board_of cdc db)(tid \<mapsto> moved now to a r t))"
    using assms(3-5) by (simp add: spec_transition_def)
  let ?s1 = "?s\<lparr>sh_pc := (sh_pc ?s)(0 := RowRead (Some row))\<rparr>"
  have s1: "conn_step cdc calls ?s ?s1"
    using conn_step.query_row [of ?s 0 calls tid cdc "[]" "Inr (Some row)"] assms(6) row(1) read_row_none [of cdc tid db] by simp
  have inv1: "conns_inv cdc calls (board_of cdc db) ?s1" by (rule conn_inv_step [OF s1 assms(1) conns_inv_start [OF assms(2)]])
  have "sh_pc ?s1 1 = Unstarted" "tx_body cdc ?c = Some (transition_inner cdc now tid to a r)" "sh_owner ?s1 = None"
    "takes_effect ?c (board_of cdc (sh_main ?s1))"
    by (simp_all add: spec)
  from tx_call [OF assms(1) inv1 this(1) assms(7) this(2-4)] obtain s2 where
    s2: "(conn_step cdc calls)\<^sup>*\<^sup>* ?s1 s2" "sh_pc s2 = (sh_pc ?s1)(1 := Answered (Inr ()))"
      "board_of cdc (sh_main s2) = spec_step ?c (board_of cdc (sh_main ?s1))" "conns_inv cdc calls (board_of cdc db) s2"
    by blast
  then have board: "board_of cdc (sh_main s2) = (board_of cdc db)(tid \<mapsto> moved now to a r t)" using spec by simp
  let ?u = "decode_row cdc (task_rows cdc tid (sh_main s2)) tid row"
  have wf: "wf_db cdc (sh_main s2)" "wf_row cdc row" using s2(4) row_of_wf [OF assms(2) row(1)] by (simp_all add: conns_inv_def)
  obtain k where k: "read_rest cdc tid (Some row) (conn_with (sh_main s2) []) = (Inr ?u, k)"
    using read_rest_none [OF wf, of tid] by (metis prod.collapse)
  let ?s3 = "s2\<lparr>sh_pc := (sh_pc s2)(0 := Got (Inr ?u))\<rparr>"
  have s3: "conn_step cdc calls s2 ?s3"
    by (rule conn_step.query_history [where calls = calls, OF _ assms(6) k]) (simp add: s2(2))
  have "board_of cdc (sh_main s2) tid = Some (moved now to a r t)" using board by simp
  then obtain z where "decode_row cdc (task_rows cdc tid (sh_main s2)) tid z = moved now to a r t" by (auto simp: board_of_def)
  moreover have "t_history ?u = t_history (decode_row cdc (task_rows cdc tid (sh_main s2)) tid z)" by (simp add: decode_row_def)
  ultimately have "t_history ?u = t_history (moved now to a r t)" by simp
  moreover have "t_state ?u = t_state t" by (simp add: row(2) decode_row_def)
  moreover have "(conn_step cdc calls)\<^sup>*\<^sup>* ?s ?s3" using s1 s2(1) s3 by (meson converse_rtranclp_into_rtranclp rtranclp.rtrancl_into_rtrancl)
  ultimately show ?thesis using board by (intro exI [of _ ?s3] exI [of _ ?u]) (simp add: moved_def)
qed

lemma torn_read_witness:
  "\<exists>s u. (conn_step demo_kanban_codec (\<lambda>i. if i = 0 then Read 7 else Write (KTransition 5 7 Todo ''a'' None)))\<^sup>*\<^sup>*
       (shared_start (c_db backlog_board)) s \<and>
     sh_pc s 0 = Got (Inr u) \<and> t_state u = Backlog \<and> sc_to (last (t_history u)) = Todo"
proof -
  let ?calls = "\<lambda>i :: nat. if i = 0 then Read 7 else Write (KTransition 5 7 Todo ''a'' None)"
  let ?t = "created 7 3 \<lparr>nt_title = ''t'', nt_actor = ''a'', nt_depends_on = []\<rparr>"
  have t: "board_of demo_kanban_codec (c_db backlog_board) 7 = Some ?t" "t_state ?t = Backlog"
    by (simp_all add: backlog_tables(2) created_def)
  have calls: "?calls 0 = Read 7" "?calls 1 = Write (KTransition 5 7 Todo ''a'' None)" by simp_all
  have legal: "is_legal_transition (t_state ?t) Todo" "Todo \<noteq> Ready" by (simp_all add: t(2))
  from torn_read [OF demo_kan_ok backlog_tables(1) t(1) legal calls] t(2) show ?thesis by auto
qed

end
