(* ===== verification/Kanban_Reads.thy ===== *)
theory Kanban_Reads
  imports Kanban_Connections
begin

text \<open>
  What \<open>get\<close> (\<open>plugin-kanban-sqlite/src/lib.rs\<close>) returns on a connection while others write: its two
  statements read the committed tables at two moments.
\<close>

subsection \<open>The two statements under faults\<close>

lemma robust_read_row: "robust (read_row cdc tid)"
  unfolding read_row_def sqlio_def by (intro robustE)

lemma robust_read_rest: "robust (read_rest cdc tid row)"
  unfolding read_rest_def sqlio_def
  by (auto simp: history_change_def sqlio_def split: option.splits intro!: robustE)

lemma read_row_Inr:
  assumes "read_row cdc tid (conn_with db faults) = (Inr row, k)"
  shows "row = row_of cdc tid db"
  using robustD [OF robust_read_row assms] read_row_none [of cdc tid db] by (simp add: conn_with_def conn_new_def)

lemma read_rest_Inr:
  assumes "wf_db cdc db" "wf_row cdc r" "read_rest cdc tid (Some r) (conn_with db faults) = (Inr u, k)"
  shows "u = decode_row cdc (task_rows cdc tid db) tid r"
  using robustD [OF robust_read_rest assms(3)] read_rest_none [OF assms(1,2), of tid] by (simp add: conn_with_def conn_new_def)

lemma read_rest_None: "read_rest cdc tid None c \<noteq> (Inr u, k)"
  by (simp add: read_rest_def)

subsection \<open>Histories grow\<close>

lemma history_grows_step:
  assumes "takes_effect c b" "b tid = Some t"
  shows "\<exists>t'. spec_step c b tid = Some t' \<and> prefix (t_history t) (t_history t')"
  using assms
  by (cases c) (auto simp: spec_create_def spec_transition_def spec_claim_def spec_block_def moved_def blocked_def
      split: option.splits if_splits sum.splits)

lemma history_grows:
  "all_take_effect cs b \<Longrightarrow> b tid = Some t \<Longrightarrow>
   \<exists>t'. fold spec_step cs b tid = Some t' \<and> prefix (t_history t) (t_history t')"
proof (induction cs arbitrary: b t)
  case (Cons c cs)
  then have e: "takes_effect c b" "all_take_effect cs (spec_step c b)" by simp_all
  from history_grows_step [OF e(1) Cons.prems(2)] obtain t1 where
    t1: "spec_step c b tid = Some t1" "prefix (t_history t) (t_history t1)" by blast
  from Cons.IH [OF e(2) t1(1)] show ?case using t1(2) by (auto intro: prefix_order.trans)
qed simp

subsection \<open>The moments of a read\<close>

text \<open>The tables held the row at a moment up to \<open>s\<close>; a task was read by \<open>s\<close> from two such moments.\<close>

definition row_seen :: "'x kanban_codec_scheme \<Rightarrow> (nat \<Rightarrow> request) \<Rightarrow> kanban_db \<Rightarrow> uuid \<Rightarrow> task_row \<Rightarrow> shared_db \<Rightarrow> bool" where
  "row_seen cdc calls db tid row s \<longleftrightarrow>
     (\<exists>s1. (conn_step cdc calls)\<^sup>*\<^sup>* (shared_start db) s1 \<and> (conn_step cdc calls)\<^sup>*\<^sup>* s1 s \<and>
        row_of cdc tid (sh_main s1) = Some row)"

definition task_seen :: "'x kanban_codec_scheme \<Rightarrow> (nat \<Rightarrow> request) \<Rightarrow> kanban_db \<Rightarrow> uuid \<Rightarrow> task \<Rightarrow> shared_db \<Rightarrow> bool" where
  "task_seen cdc calls db tid u s \<longleftrightarrow>
     (\<exists>s2 row. row_seen cdc calls db tid row s2 \<and> (conn_step cdc calls)\<^sup>*\<^sup>* s2 s \<and>
        u = decode_row cdc (task_rows cdc tid (sh_main s2)) tid row)"

definition reads_inv :: "'x kanban_codec_scheme \<Rightarrow> (nat \<Rightarrow> request) \<Rightarrow> kanban_db \<Rightarrow> shared_db \<Rightarrow> bool" where
  "reads_inv cdc calls db s \<longleftrightarrow> (\<forall>i tid. calls i = Read tid \<longrightarrow>
     (\<forall>row. sh_pc s i = RowRead (Some row) \<longrightarrow> row_seen cdc calls db tid row s) \<and>
     (\<forall>u. sh_pc s i = Got (Inr u) \<longrightarrow> task_seen cdc calls db tid u s))"

lemma seen_later:
  assumes "conn_step cdc calls s s'"
  shows "row_seen cdc calls db tid row s \<Longrightarrow> row_seen cdc calls db tid row s'"
    "task_seen cdc calls db tid u s \<Longrightarrow> task_seen cdc calls db tid u s'"
proof -
  have more: "(conn_step cdc calls)\<^sup>*\<^sup>* z s \<Longrightarrow> (conn_step cdc calls)\<^sup>*\<^sup>* z s'" for z
    using assms by (meson rtranclp.rtrancl_into_rtrancl)
  show "row_seen cdc calls db tid row s \<Longrightarrow> row_seen cdc calls db tid row s'"
    unfolding row_seen_def using more by blast
  show "task_seen cdc calls db tid u s \<Longrightarrow> task_seen cdc calls db tid u s'"
    unfolding task_seen_def using more by blast
qed

lemma row_seen_run: "row_seen cdc calls db tid row s \<Longrightarrow> (conn_step cdc calls)\<^sup>*\<^sup>* (shared_start db) s"
  unfolding row_seen_def by (meson rtranclp_trans)

lemma wf_run:
  assumes "kan_ok cdc" "wf_db cdc db" "(conn_step cdc calls)\<^sup>*\<^sup>* (shared_start db) s"
  shows "wf_db cdc (sh_main s)"
  using conn_inv_run [OF assms(3,1) conns_inv_start [OF assms(2)]] by (simp add: conns_inv_def)

text \<open>A step of another kind of call, or of another call, leaves what a read has seen.\<close>

lemma reads_inv_step:
  assumes "conn_step cdc calls s s'" "kan_ok cdc" "wf_db cdc db" "(conn_step cdc calls)\<^sup>*\<^sup>* (shared_start db) s"
    and "reads_inv cdc calls db s"
  shows "reads_inv cdc calls db s'"
proof -
  have keep: "(\<forall>row. sh_pc s j = RowRead (Some row) \<longrightarrow> row_seen cdc calls db tid row s') \<and>
      (\<forall>u. sh_pc s j = Got (Inr u) \<longrightarrow> task_seen cdc calls db tid u s')" if "calls j = Read tid" for j tid
    using assms(5) that seen_later [OF assms(1)] unfolding reads_inv_def by blast
  show ?thesis
    using assms(1)
  proof (cases rule: conn_stepE)
    case (query_row i tid faults r k)
    have "row_seen cdc calls db tid row s'" if "r = Inr (Some row)" for row
    proof -
      have "row_of cdc tid (sh_main s) = Some row" using read_row_Inr query_row(4) that by metis
      then have "row_seen cdc calls db tid row s" using assms(4) unfolding row_seen_def by blast
      then show ?thesis by (rule seen_later [OF assms(1)])
    qed
    then show ?thesis unfolding reads_inv_def using keep query_row(1,3) by (auto split: sum.splits)
  next
    case (query_history i row tid faults r k)
    have "task_seen cdc calls db tid u s'" if r: "r = Inr u" for u
    proof (cases row)
      case None
      then show ?thesis using query_history(4) r read_rest_None by metis
    next
      case (Some w)
      have seen: "row_seen cdc calls db tid w s" using assms(5) query_history(2,3) Some unfolding reads_inv_def by blast
      then obtain s1 where s1: "(conn_step cdc calls)\<^sup>*\<^sup>* (shared_start db) s1" "row_of cdc tid (sh_main s1) = Some w"
        unfolding row_seen_def by blast
      have "wf_row cdc w" using row_of_wf [OF wf_run [OF assms(2,3) s1(1)] s1(2)] by simp
      then have "u = decode_row cdc (task_rows cdc tid (sh_main s)) tid w"
        using read_rest_Inr [OF wf_run [OF assms(2,3,4)]] query_history(4) Some r by metis
      then have "task_seen cdc calls db tid u s" using seen unfolding task_seen_def by blast
      then show ?thesis by (rule seen_later [OF assms(1)])
    qed
    then show ?thesis unfolding reads_inv_def using keep query_history(1,3) by auto
  qed (use keep in \<open>auto simp: reads_inv_def\<close>)
qed

lemma reads_inv_run:
  assumes "kan_ok cdc" "wf_db cdc db" "(conn_step cdc calls)\<^sup>*\<^sup>* (shared_start db) s"
  shows "reads_inv cdc calls db s"
  using assms(3)
proof (induction rule: rtranclp_induct)
  case base
  then show ?case by (simp add: reads_inv_def)
next
  case (step t u)
  then show ?case using reads_inv_step [OF step(2) assms(1,2)] by blast
qed

subsection \<open>Properties\<close>

text \<open>Claim C24.  What a read across connections can return, exactly: the task as it stood on the board at one
  moment of the run, but with the history it had at that or a later one.  As histories only grow, the
  answer is the task of a single moment whenever its history is no longer than at the first, that is
  whenever nobody moved the task between the two statements; claims in between do no harm.\<close>

theorem read_spans_two_moments:
  assumes "kan_ok cdc" "wf_db cdc db" "(conn_step cdc calls)\<^sup>*\<^sup>* (shared_start db) s"
    and "calls i = Read tid" "sh_pc s i = Got (Inr u)"
  shows "\<exists>s1 s2 t1 t2. (conn_step cdc calls)\<^sup>*\<^sup>* (shared_start db) s1 \<and> (conn_step cdc calls)\<^sup>*\<^sup>* s1 s2 \<and>
    (conn_step cdc calls)\<^sup>*\<^sup>* s2 s \<and> board_of cdc (sh_main s1) tid = Some t1 \<and> board_of cdc (sh_main s2) tid = Some t2 \<and>
    u = t1\<lparr>t_history := t_history t2\<rparr> \<and> prefix (t_history t1) (t_history t2) \<and>
    (length (t_history u) = length (t_history t1) \<longrightarrow> u = t1)"
proof -
  have "task_seen cdc calls db tid u s" using reads_inv_run [OF assms(1-3)] assms(4,5) unfolding reads_inv_def by blast
  then obtain s1 s2 row where run: "(conn_step cdc calls)\<^sup>*\<^sup>* (shared_start db) s1" "(conn_step cdc calls)\<^sup>*\<^sup>* s1 s2"
    "(conn_step cdc calls)\<^sup>*\<^sup>* s2 s" and row: "row_of cdc tid (sh_main s1) = Some row"
    and u: "u = decode_row cdc (task_rows cdc tid (sh_main s2)) tid row"
    unfolding task_seen_def row_seen_def by blast
  let ?t1 = "decode_row cdc (task_rows cdc tid (sh_main s1)) tid row"
  have t1: "board_of cdc (sh_main s1) tid = Some ?t1" using row by (simp add: board_of_def)
  have inv1: "conns_inv cdc calls (board_of cdc db) s1" by (rule conn_inv_run [OF run(1) assms(1) conns_inv_start [OF assms(2)]])
  have inv2: "conns_inv cdc calls (board_of cdc db) s2" by (rule conn_inv_run [OF run(2) assms(1) inv1])
  obtain later where "sh_done s2 = sh_done s1 @ later" using done_grows_run [OF run(2)] by blast
  then have "all_take_effect (map snd later) (board_of cdc (sh_main s1))"
    "board_of cdc (sh_main s2) = fold spec_step (map snd later) (board_of cdc (sh_main s1))"
    using inv1 inv2 by (simp_all add: conns_inv_def)
  with history_grows t1 obtain t2 where t2: "board_of cdc (sh_main s2) tid = Some t2" "prefix (t_history ?t1) (t_history t2)"
    by metis
  have "t_history t2 = map (decode_change cdc) (task_rows cdc tid (sh_main s2))"
    using t2(1) by (auto simp: board_of_def decode_row_def)
  then have u': "u = ?t1\<lparr>t_history := t_history t2\<rparr>" by (simp add: u decode_row_def)
  moreover have "u = ?t1" if "length (t_history u) = length (t_history ?t1)"
  proof -
    have "t_history u = t_history t2" using u' by simp
    then have "t_history t2 = t_history ?t1" using that t2(2) by (auto simp: prefix_def)
    then show ?thesis using u' by simp
  qed
  ultimately show ?thesis using run t1 t2 by blast
qed

lemma read_spans_two_moments_witness:
  "\<exists>s u. (conn_step demo_kanban_codec (\<lambda>_. Read 7))\<^sup>*\<^sup>* (shared_start (c_db backlog_board)) s \<and>
     sh_pc s 0 = Got (Inr u) \<and> t_title u = ''t''"
proof -
  let ?s = "shared_start (c_db backlog_board)" and ?cdc = demo_kanban_codec and ?calls = "\<lambda>_ :: nat. Read 7"
  obtain row where row: "row_of ?cdc 7 (c_db backlog_board) = Some row"
    using fun_cong [OF backlog_tables(2), of 7] by (auto simp: board_of_def)
  let ?s1 = "?s\<lparr>sh_pc := (sh_pc ?s)(0 := RowRead (Some row))\<rparr>"
  have s1: "conn_step ?cdc ?calls ?s ?s1"
    using conn_step.query_row [of ?s 0 ?calls 7 ?cdc "[]" "Inr (Some row)"] row read_row_none [of ?cdc 7 "c_db backlog_board"] by simp
  have "wf_row ?cdc row" using row_of_wf [OF backlog_tables(1) row] by simp
  then obtain u k where k: "read_rest ?cdc 7 (Some row) (conn_with (c_db backlog_board) []) = (Inr u, k)"
    using read_rest_none [OF backlog_tables(1), of row 7] by (metis prod.collapse)
  let ?s2 = "?s1\<lparr>sh_pc := (sh_pc ?s1)(0 := Got (Inr u))\<rparr>"
  have "conn_step ?cdc ?calls ?s1 ?s2"
    using conn_step.query_history [of ?s1 0 "Some row" ?calls 7 ?cdc "[]" "Inr u" k] k by simp
  then have run: "(conn_step ?cdc ?calls)\<^sup>*\<^sup>* ?s ?s2" using s1 by (meson converse_rtranclp_into_rtranclp rtranclp.rtrancl_refl)
  have got: "sh_pc ?s2 0 = Got (Inr u)" by simp
  from read_spans_two_moments [OF demo_kan_ok backlog_tables(1) run refl got] obtain z t where
    z: "(conn_step ?cdc ?calls)\<^sup>*\<^sup>* ?s z" "board_of ?cdc (sh_main z) 7 = Some t" "t_title u = t_title t" by auto
  have "sh_done z = []"
    using conn_inv_run [OF z(1) demo_kan_ok conns_inv_start [OF backlog_tables(1)]] by (cases "sh_done z") (auto simp: conns_inv_def)
  then have "board_of ?cdc (sh_main z) = board_of ?cdc (c_db backlog_board)"
    using conn_inv_run [OF z(1) demo_kan_ok conns_inv_start [OF backlog_tables(1)]] by (simp add: conns_inv_def)
  then have "t_title t = ''t''" using z(2) by (auto simp: backlog_tables(2) created_def)
  then show ?thesis using run got z(3) by metis
qed

end
