(* ===== verification/Rationale_Connections.thy ===== *)
theory Rationale_Connections
  imports Rationale_Ledger
begin

text \<open>
  Appends to the rationale ledger (\<open>plugin-rationale-ledger/src/lib.rs\<close>) from several connections on one
  database.  \<open>append\<close> looks its target up in one statement and inserts in another, without a transaction,
  so appends of other connections may come in between.  As nothing is ever deleted or rewritten, what the
  first statement found still holds at the second.
\<close>

type_synonym append_request = "uuid \<times> timestamp \<times> new_rationale"

definition requested :: "append_request \<Rightarrow> rationale_record" where
  "requested q = (case q of (i, now, n) \<Rightarrow> stamped i now n)"

datatype append_pc =
    NotStarted
  | TargetChecked
  | AppendDone "rationale_error abort + rationale_record"

record append_sys =
  ap_rows :: "rationale_row list"
  ap_pc :: "nat \<Rightarrow> append_pc"

text \<open>
  The two statements of \<open>append_record\<close>, each on a connection outside a transaction with any failures in
  store (a lock held by another connection is one of them).
\<close>

definition insert_record :: "'x codec_scheme \<Rightarrow> rationale_record \<Rightarrow> rationale_record rationale_op" where
  "insert_record cdc r =
     bindE (execute (RatStorage ''insert failed'') (insert_rationale (rationale_row_of cdc r))) (\<lambda>_. retE r)"

lemma append_record_statements:
  "append_record cdc i now n =
     bindE lock_unwrap (\<lambda>_. bindE (check_target cdc (stamped i now n)) (\<lambda>_. insert_record cdc (stamped i now n)))"
  by (simp add: append_record_def insert_record_def Let_def)

inductive append_step :: "'x codec_scheme \<Rightarrow> (nat \<Rightarrow> append_request) \<Rightarrow> append_sys \<Rightarrow> append_sys \<Rightarrow> bool" for cdc calls where
  lookup: "ap_pc s j = NotStarted \<Longrightarrow> check_target cdc (requested (calls j)) (conn_with (ap_rows s) faults) = (q, k) \<Longrightarrow>
    append_step cdc calls s (s\<lparr>ap_pc := (ap_pc s)(j := (case q of Inl e \<Rightarrow> AppendDone (Inl e) | Inr _ \<Rightarrow> TargetChecked))\<rparr>)"
| insert_row: "ap_pc s j = TargetChecked \<Longrightarrow> insert_record cdc (requested (calls j)) (conn_with (ap_rows s) faults) = (q, k) \<Longrightarrow>
    append_step cdc calls s (s\<lparr>ap_rows := c_db k, ap_pc := (ap_pc s)(j := AppendDone q)\<rparr>)"

inductive_cases append_step_elim: "append_step cdc calls s s'"

lemmas append_stepE = append_step_elim [consumes 1, case_names lookup insert_row]

definition append_start :: "rationale_row list \<Rightarrow> append_sys" where
  "append_start rows = \<lparr>ap_rows = rows, ap_pc = (\<lambda>_. NotStarted)\<rparr>"

subsection \<open>The invariant\<close>

definition target_present :: "rationale_record list \<Rightarrow> rationale_record \<Rightarrow> bool" where
  "target_present rs r \<longleftrightarrow> (case ra_supersedes r of None \<Rightarrow> True | Some t \<Rightarrow> \<exists>x \<in> set rs. ra_id x = t \<and> ra_task x = ra_task r)"

text \<open>\<open>order\<close> lists the calls whose record was inserted, in the order of the table.\<close>

definition appends_inv ::
  "'x codec_scheme \<Rightarrow> (nat \<Rightarrow> append_request) \<Rightarrow> rationale_record list \<Rightarrow> nat list \<Rightarrow> append_sys \<Rightarrow> bool" where
  "appends_inv cdc calls rs order s \<longleftrightarrow>
     holds_chain cdc (rs @ map (\<lambda>j. requested (calls j)) order) (ap_rows s) \<and> distinct order \<and>
     (\<forall>j. (\<exists>r. ap_pc s j = AppendDone (Inr r)) \<longleftrightarrow> j \<in> set order) \<and>
     (\<forall>j r. ap_pc s j = AppendDone (Inr r) \<longrightarrow> r = requested (calls j)) \<and>
     (\<forall>j. ap_pc s j = TargetChecked \<longrightarrow> target_present (rs @ map (\<lambda>j. requested (calls j)) order) (requested (calls j)))"

lemma target_present_append: "target_present rs r \<Longrightarrow> target_present (rs @ later) r"
  by (auto simp: target_present_def split: option.splits)

lemma lookup_present:
  assumes "codec_ok cdc" "check_target cdc r (conn_with (map (rationale_row_of cdc) rs) faults) = (Inr u, k)"
  shows "target_present rs r"
proof (cases "ra_supersedes r")
  case (Some t)
  then have "target_task cdc t (map (rationale_row_of cdc) rs) = Some (uuid_str cdc (ra_task r))"
    using check_target_result [OF assms(2)] by simp
  then obtain x where "find (\<lambda>y. ra_id y = t) rs = Some x" "ra_task x = ra_task r"
    using assms(1) by (auto simp: target_task_rows)
  then show ?thesis using Some by (auto simp: target_present_def find_Some_iff)
qed (simp add: target_present_def)

lemma insert_record_effect:
  assumes "codec_ok cdc" "chain rs" "target_present rs r"
    and "insert_record cdc r (conn_with (map (rationale_row_of cdc) rs) faults) = (q, k)"
  shows "(\<exists>e. q = Inl e) \<and> c_db k = map (rationale_row_of cdc) rs \<or> q = Inr r \<and> holds_chain cdc (rs @ [r]) (c_db k)"
proof -
  obtain q2 k2 where ex: "execute (RatStorage ''insert failed'') (insert_rationale (rationale_row_of cdc r))
      (conn_with (map (rationale_row_of cdc) rs) faults) = (q2, k2)" by fastforce
  then have run: "(q, k) = (case q2 of Inl e \<Rightarrow> (Inl e, k2) | Inr _ \<Rightarrow> (Inr r, k2))"
    using assms(4) by (simp add: insert_record_def bindE_def split: sum.splits)
  from execute_effect [OF ex] show ?thesis
  proof
    assume "\<exists>a. q2 = Inr a \<and> insert_rationale (rationale_row_of cdc r) (c_db (conn_with (map (rationale_row_of cdc) rs) faults)) = Inr (a, c_db k2)"
    then have "q2 = Inr ()" "c_db k2 = map (rationale_row_of cdc) (rs @ [r])" "ra_id r \<notin> ra_id ` set rs"
      using assms(1) by (auto simp: insert_rationale_def list_ex_iff split: if_splits)
    then show ?thesis using run assms(2,3) by (simp add: holds_chain_def target_present_def chain_append)
  qed (use run in simp)
qed

lemma unfinished: "appends_inv cdc calls rs ord s \<Longrightarrow> (\<And>r. ap_pc s j \<noteq> AppendDone r) \<Longrightarrow> j \<notin> set ord"
  unfolding appends_inv_def by metis

lemma appends_inv_step:
  assumes "append_step cdc calls s s'" "codec_ok cdc" "appends_inv cdc calls rs ord s"
  shows "\<exists>ord'. appends_inv cdc calls rs (ord @ ord') s'"
proof -
  let ?R = "rs @ map (\<lambda>j. requested (calls j)) ord"
  have rows: "ap_rows s = map (rationale_row_of cdc) ?R" "chain ?R"
    using assms(3) by (simp_all add: appends_inv_def holds_chain_def)
  from assms(1) show ?thesis
  proof (cases rule: append_stepE)
    case (lookup j faults q k)
    have "q = Inr () \<Longrightarrow> target_present ?R (requested (calls j))"
      using lookup_present [OF assms(2)] lookup(3) rows(1) by metis
    moreover have "j \<notin> set ord" using unfinished [OF assms(3)] lookup(2) by simp
    ultimately have "appends_inv cdc calls rs ord s'" using assms(3) lookup(1,2)
      by (auto simp: appends_inv_def split: sum.splits)
    then show ?thesis by (intro exI [of _ "[]"]) simp
  next
    case (insert_row j faults q k)
    have "target_present ?R (requested (calls j))" using assms(3) insert_row(2) by (simp add: appends_inv_def)
    have j: "j \<notin> set ord" using unfinished [OF assms(3)] insert_row(2) by simp
    from \<open>target_present _ _\<close> insert_record_effect [OF assms(2) rows(2)] insert_row(3) rows(1)
    have "(\<exists>e. q = Inl e) \<and> c_db k = ap_rows s \<or>
        q = Inr (requested (calls j)) \<and> holds_chain cdc (?R @ [requested (calls j)]) (c_db k)" by metis
    then show ?thesis
    proof
      assume "(\<exists>e. q = Inl e) \<and> c_db k = ap_rows s"
      then have "appends_inv cdc calls rs ord s'" using assms(3) insert_row(1,2) j
        by (auto simp: appends_inv_def)
      then show ?thesis by (intro exI [of _ "[]"]) simp
    next
      assume q: "q = Inr (requested (calls j)) \<and> holds_chain cdc (?R @ [requested (calls j)]) (c_db k)"
      then have "appends_inv cdc calls rs (ord @ [j]) s'" using assms(3) insert_row(1,2)
          j target_present_append [of ?R _ "[requested (calls j)]"]
        by (auto simp: appends_inv_def)
      then show ?thesis by blast
    qed
  qed
qed

lemma appends_inv_run:
  "(append_step cdc calls)\<^sup>*\<^sup>* s s' \<Longrightarrow> codec_ok cdc \<Longrightarrow> appends_inv cdc calls rs ord s \<Longrightarrow>
   \<exists>ord'. appends_inv cdc calls rs (ord @ ord') s'"
proof (induction rule: rtranclp_induct)
  case base
  then show ?case by (intro exI [of _ "[]"]) simp
next
  case (step t u)
  then obtain o1 where "appends_inv cdc calls rs (ord @ o1) t" by blast
  from appends_inv_step [OF step(2) step.prems(1) this] show ?case by (metis append_assoc)
qed

subsection \<open>Properties\<close>

text \<open>Claim C35.  The supersede chains survive any number of connections.  However the statements of
  concurrent appends are interleaved and whichever of them fail, the table is the table before, followed
  by exactly the records whose append succeeded, each once; its links form chains; and rows once there
  stay where they are.\<close>

theorem concurrent_appends_chain:
  assumes "codec_ok cdc" "chain rs"
    and "(append_step cdc calls)\<^sup>*\<^sup>* (append_start (map (rationale_row_of cdc) rs)) s" "(append_step cdc calls)\<^sup>*\<^sup>* s s'"
  shows "\<exists>ord ord'. ap_rows s = map (rationale_row_of cdc) (rs @ map (\<lambda>j. requested (calls j)) ord) \<and>
    ap_rows s' = ap_rows s @ map (\<lambda>j. rationale_row_of cdc (requested (calls j))) ord' \<and>
    chain (rs @ map (\<lambda>j. requested (calls j)) (ord @ ord')) \<and> distinct (ord @ ord') \<and>
    (\<forall>j r. ap_pc s' j = AppendDone (Inr r) \<longleftrightarrow> j \<in> set (ord @ ord') \<and> r = requested (calls j))"
proof -
  have "appends_inv cdc calls rs [] (append_start (map (rationale_row_of cdc) rs))"
    using assms(2) by (simp add: appends_inv_def append_start_def holds_chain_def)
  from appends_inv_run [OF assms(3,1) this] obtain ord where ord: "appends_inv cdc calls rs ord s" by auto
  from appends_inv_run [OF assms(4,1) this] obtain ord' where ord': "appends_inv cdc calls rs (ord @ ord') s'" ..
  have "ap_pc s' j = AppendDone (Inr r) \<longleftrightarrow> j \<in> set (ord @ ord') \<and> r = requested (calls j)" for j r
    using ord' unfolding appends_inv_def by metis
  then show ?thesis using ord ord'
    by (intro exI [of _ ord] exI [of _ ord']) (simp add: appends_inv_def holds_chain_def comp_def)
qed

text \<open>Two corrections of one record, from two connections: both find it before either is stored, and both
  are.\<close>

lemma insert_record_new:
  assumes "codec_ok cdc" "ra_id r \<notin> ra_id ` set rs"
  shows "insert_record cdc r (conn_with (map (rationale_row_of cdc) rs) []) =
    (Inr r, (conn_with (map (rationale_row_of cdc) rs) [])\<lparr>c_db := map (rationale_row_of cdc) (rs @ [r])\<rparr>)"
proof -
  let ?c = "conn_with (map (rationale_row_of cdc) rs) []"
  have "healthy ?c" by (simp add: healthy_def)
  moreover have "\<not> list_ex (\<lambda>x. rr_id x = rr_id (rationale_row_of cdc r)) (c_db ?c)"
    using assms by (auto simp: list_ex_iff image_iff dest: sym)
  ultimately have "execute (RatStorage ''insert failed'') (insert_rationale (rationale_row_of cdc r)) ?c =
      (Inr (), ?c\<lparr>c_db := map (rationale_row_of cdc) (rs @ [r])\<rparr>)"
    by (simp add: healthyD insert_rationale_def)
  then show ?thesis by (simp add: insert_record_def bindE_def)
qed

lemma concurrent_appends_chain_witness:
  "\<exists>s. (append_step demo_codec (\<lambda>j. (if j = 0 then 2 else 3, 6, demo_rationale (Some 1))))\<^sup>*\<^sup>*
       (append_start (map (rationale_row_of demo_codec) [stamped 1 5 (demo_rationale None)])) s \<and>
     ap_rows s = map (rationale_row_of demo_codec)
       [stamped 1 5 (demo_rationale None), stamped 3 6 (demo_rationale (Some 1)), stamped 2 6 (demo_rationale (Some 1))] \<and>
     chain [stamped 1 5 (demo_rationale None), stamped 3 6 (demo_rationale (Some 1)), stamped 2 6 (demo_rationale (Some 1))]"
proof -
  let ?r = "stamped 1 5 (demo_rationale None)" and ?a = "stamped 2 6 (demo_rationale (Some 1))"
  let ?b = "stamped 3 6 (demo_rationale (Some 1))"
  let ?calls = "\<lambda>j :: nat. (if j = 0 then 2 else 3, 6, demo_rationale (Some 1)) :: append_request"
  let ?step = "append_step demo_codec ?calls" and ?rows = "\<lambda>rs. map (rationale_row_of demo_codec) rs"
  have found: "check_target demo_codec r (conn_with (?rows [?r]) []) = (Inr (), conn_with (?rows [?r]) [])" if "r \<in> {?a, ?b}" for r
    using that check_target_healthy [OF demo_codec_ok, of "conn_with (?rows [?r]) []" "[?r]" r]
    by (auto simp: healthy_def stamped_def demo_rationale_def)
  let ?s0 = "append_start (?rows [?r])"
  let ?s1 = "?s0\<lparr>ap_pc := (ap_pc ?s0)(0 := TargetChecked)\<rparr>"
  let ?s2 = "?s1\<lparr>ap_pc := (ap_pc ?s1)(1 := TargetChecked)\<rparr>"
  let ?s3 = "?s2\<lparr>ap_rows := ?rows [?r, ?b], ap_pc := (ap_pc ?s2)(1 := AppendDone (Inr ?b))\<rparr>"
  let ?s4 = "?s3\<lparr>ap_rows := ?rows [?r, ?b, ?a], ap_pc := (ap_pc ?s3)(0 := AppendDone (Inr ?a))\<rparr>"
  have "?step ?s0 ?s1" using append_step.lookup [of ?s0 0 demo_codec ?calls "[]"] found [of ?a]
    by (simp add: append_start_def requested_def)
  moreover have "?step ?s1 ?s2" using append_step.lookup [of ?s1 1 demo_codec ?calls "[]"] found [of ?b]
    by (simp add: append_start_def requested_def)
  moreover have "?step ?s2 ?s3"
    using append_step.insert_row [of ?s2 1 demo_codec ?calls "[]"] insert_record_new [OF demo_codec_ok, of ?b "[?r]"]
    by (simp add: append_start_def requested_def) (simp add: stamped_def)
  moreover have "?step ?s3 ?s4"
    using append_step.insert_row [of ?s3 0 demo_codec ?calls "[]"] insert_record_new [OF demo_codec_ok, of ?a "[?r, ?b]"]
    by (simp add: append_start_def requested_def) (simp add: stamped_def)
  ultimately have run: "?step\<^sup>*\<^sup>* ?s0 ?s4" by (meson converse_rtranclp_into_rtranclp rtranclp.rtrancl_refl)
  have "chain [?r]" using chain_append [OF chain_empty, of ?r] by (simp add: stamped_def demo_rationale_def)
  from concurrent_appends_chain [OF demo_codec_ok this run rtranclp.rtrancl_refl] obtain ord where
    ord: "?rows [?r, ?b, ?a] = ?rows ([?r] @ map (\<lambda>j. requested (?calls j)) ord)" "chain ([?r] @ map (\<lambda>j. requested (?calls j)) ord)"
    by force
  have "inj (rationale_row_of demo_codec)"
    using rationale_rows.dec_enc [OF demo_codec_ok] by (metis injI sum.inject(2))
  then have "[?r, ?b, ?a] = [?r] @ map (\<lambda>j. requested (?calls j)) ord" using ord(1) by (simp only: inj_map_eq_map)
  then have "chain [?r, ?b, ?a]" using ord(2) by simp
  then show ?thesis using run by (intro exI [of _ ?s4]) simp
qed

end
