(* ===== verification/Security_Threads.thy ===== *)
theory Security_Threads
  imports Security "HOL-Library.Multiset"
begin

text \<open>
  The audit log of \<open>core/src/security.rs\<close> under concurrent calls.  \<open>audit\<close> takes \<^verbatim>\<open>&self\<close>, so several
  threads run it at once: an entry is chained under the lock of \<open>last_hash\<close>, written under the lock of the
  file and pushed under the lock of the log.  The order of the log may then differ from the order of
  the chain, so that \<open>verify_chain\<close> fails; but nothing is lost, and there is exactly one way to put the
  entries back in order.
\<close>

subsection \<open>Concurrent audits\<close>

text \<open>
  Each of the three critical sections of \<open>audit\<close> is one step; between them another thread may run.
\<close>

datatype audit_pc =
    Idle
  | Made security_decision
  | Written security_decision

record audit_sys =
  shared :: security_module
  pcs :: "nat \<Rightarrow> audit_pc"

inductive audit_step :: "sec_env \<Rightarrow> audit_sys \<Rightarrow> audit_sys \<Rightarrow> bool" for E where
  make_entry: "pcs s t = Idle \<Longrightarrow> e = audit_entry now k d (shared s) \<Longrightarrow>
    audit_step E s (s\<lparr>shared := audit_advance E e (shared s), pcs := (pcs s)(t := Made e)\<rparr>)"
| persist_line: "pcs s t = Made e \<Longrightarrow>
    audit_step E s (s\<lparr>shared := audit_persist E e (shared s), pcs := (pcs s)(t := Written e)\<rparr>)"
| push_entry: "pcs s t = Written e \<Longrightarrow>
    audit_step E s (s\<lparr>shared := audit_push e (shared s), pcs := (pcs s)(t := Idle)\<rparr>)"

definition audit_start :: "security_module \<Rightarrow> audit_sys" where
  "audit_start m = \<lparr>shared = m, pcs = (\<lambda>_. Idle)\<rparr>"

text \<open>A thread that runs its three sections without interruption performs \<open>audit\<close>.\<close>

lemma audit_step_sequential:
  assumes "pcs s t = Idle"
  shows "(audit_step E)\<^sup>*\<^sup>* s (s\<lparr>shared := audit E now k d (shared s)\<rparr>)"
proof -
  let ?e = "audit_entry now k d (shared s)"
  let ?s1 = "s\<lparr>shared := audit_advance E ?e (shared s), pcs := (pcs s)(t := Made ?e)\<rparr>"
  let ?s2 = "?s1\<lparr>shared := audit_persist E ?e (shared ?s1), pcs := (pcs ?s1)(t := Written ?e)\<rparr>"
  let ?s3 = "?s2\<lparr>shared := audit_push ?e (shared ?s2), pcs := (pcs ?s2)(t := Idle)\<rparr>"
  have "audit_step E s ?s1" using assms by (intro audit_step.make_entry) simp_all
  moreover have "audit_step E ?s1 ?s2" by (rule audit_step.persist_line) simp
  moreover have "audit_step E ?s2 ?s3" by (rule audit_step.push_entry) simp
  moreover have "?s3 = s\<lparr>shared := audit E now k d (shared s)\<rparr>"
    using assms by (cases s) (auto simp: audit_def Let_def fun_eq_iff)
  ultimately show ?thesis by (metis (no_types, lifting) converse_rtranclp_into_rtranclp rtranclp.rtrancl_refl)
qed

inductive_cases audit_step_elim: "audit_step E s s'"

lemmas audit_stepE = audit_step_elim [consumes 1, case_names make_entry persist_line push_entry]

subsection \<open>A chain is determined by its entries\<close>

lemma links_later: "links_ok L p es \<Longrightarrow> e \<in> set es \<Longrightarrow> sd_prev_hash e = p \<or> sd_prev_hash e \<in> L ` set es"
  by (induction es arbitrary: p) fastforce+

lemma chain_unique:
  assumes "links_ok L p es" "links_ok L p fs" "mset es = mset fs" "p \<notin> L ` set es" "inj_on L (set es)"
  shows "es = fs"
  using assms
proof (induction es arbitrary: p fs)
  case (Cons e es)
  then obtain f gs where fs: "fs = f # gs" by (cases fs) auto
  have "f \<in> set (e # es)" using Cons.prems(3) fs by (metis list.set_intros(1) mset_eq_setD)
  moreover have "sd_prev_hash f = p" using Cons.prems(2) fs by simp
  moreover have "sd_prev_hash x \<noteq> p" if "x \<in> set es" for x
  proof -
    have "sd_prev_hash x = L e \<or> sd_prev_hash x \<in> L ` set es" using links_later [of L "L e" es x] Cons.prems(1) that by simp
    then show ?thesis using Cons.prems(4) by auto
  qed
  ultimately have f: "f = e" by auto
  have "e \<notin> set es"
  proof
    assume "e \<in> set es"
    then have "sd_prev_hash e = L e \<or> sd_prev_hash e \<in> L ` set es" using links_later [of L "L e" es e] Cons.prems(1) by simp
    then show False using Cons.prems(1,4) by auto
  qed
  then have "L e \<notin> L ` set es" using Cons.prems(5) by (auto dest: inj_onD)
  then have "es = gs" using Cons.IH [of "L e" gs] Cons.prems fs f by simp
  then show ?case using f fs by simp
qed simp

subsection \<open>Entries on their way\<close>

definition entry_in :: "audit_pc \<Rightarrow> security_decision multiset" where
  "entry_in p = (case p of Idle \<Rightarrow> {#} | Made e \<Rightarrow> {#e#} | Written e \<Rightarrow> {#e#})"

definition busy :: "audit_sys \<Rightarrow> nat set" where
  "busy s = {t. pcs s t \<noteq> Idle}"

definition pending :: "audit_sys \<Rightarrow> security_decision multiset" where
  "pending s = (\<Sum>t \<in> busy s. entry_in (pcs s t))"

definition audits_inv :: "sec_env \<Rightarrow> security_module \<Rightarrow> audit_sys \<Rightarrow> bool" where
  "audits_inv E m s \<longleftrightarrow> finite (busy s) \<and> k_audit (shared s) = k_audit m \<and>
     (\<exists>es. links_ok (link_of E m) [] es \<and> last_hash (shared s) = chain_end (link_of E m) [] es \<and>
        mset es = mset (audit_log (shared s)) + pending s)"

lemma pending_upd:
  assumes "finite (busy s)" "pcs s' = (pcs s)(t := p)"
  shows "finite (busy s') \<and> pending s' + entry_in (pcs s t) = pending s + entry_in p"
proof -
  let ?B = "insert t (busy s)"
  have sub: "busy s' \<subseteq> ?B" using assms(2) by (auto simp: busy_def)
  have "pending s' = (\<Sum>u \<in> ?B. entry_in (pcs s' u))" unfolding pending_def
    by (rule sum.mono_neutral_left) (use assms sub in \<open>auto simp: busy_def entry_in_def\<close>)
  moreover have "pending s = (\<Sum>u \<in> ?B. entry_in (pcs s u))" unfolding pending_def
    by (rule sum.mono_neutral_left) (use assms in \<open>auto simp: busy_def entry_in_def\<close>)
  moreover have "(\<Sum>u \<in> ?B - {t}. entry_in (pcs s' u)) = (\<Sum>u \<in> ?B - {t}. entry_in (pcs s u))"
    by (rule sum.cong) (auto simp: assms(2))
  moreover have "finite ?B" using assms(1) by simp
  ultimately show ?thesis
    using sub finite_subset [OF sub] by (simp add: sum.remove [of ?B t] assms(2))
qed

lemma section_fields [simp]:
  "audit_log (audit_advance E e m) = audit_log m" "last_hash (audit_advance E e m) = link_of E m e"
  "k_audit (audit_advance E e m) = k_audit m" "audit_log (audit_persist E e m) = audit_log m"
  "last_hash (audit_persist E e m) = last_hash m" "k_audit (audit_persist E e m) = k_audit m"
  "audit_log (audit_push e m) = audit_log m @ [e]" "last_hash (audit_push e m) = last_hash m" "k_audit (audit_push e m) = k_audit m"
  by (simp_all add: audit_advance_def audit_persist_def audit_push_def chain_link_entry split: option.splits list.splits bool.splits)

lemma audits_inv_step:
  assumes "audit_step E s s'" "audits_inv E m s"
  shows "audits_inv E m s'"
proof -
  let ?L = "link_of E m"
  obtain es where es: "links_ok ?L [] es" "last_hash (shared s) = chain_end ?L [] es"
    "mset es = mset (audit_log (shared s)) + pending s"
    and fin: "finite (busy s)" and k: "k_audit (shared s) = k_audit m"
    using assms(2) by (auto simp: audits_inv_def)
  show ?thesis
    using assms(1)
  proof (cases rule: audit_stepE)
    case (make_entry t now kd d)
    let ?e = "audit_entry now kd d (shared s)"
    have "finite (busy s') \<and> pending s' = pending s + {#?e#}"
      using pending_upd [OF fin, of s' t "Made ?e"] make_entry by (simp add: entry_in_def)
    moreover have "links_ok ?L [] (es @ [?e])" using es by (simp add: audit_entry_def)
    ultimately show ?thesis unfolding audits_inv_def
      using es k make_entry by (intro conjI exI [of _ "es @ [?e]"]) simp_all
  next
    case (persist_line t e)
    have "finite (busy s') \<and> pending s' = pending s"
      using pending_upd [OF fin, of s' t "Written e"] persist_line by (simp add: entry_in_def)
    then show ?thesis unfolding audits_inv_def
      using es k persist_line by (intro conjI exI [of _ es]) simp_all
  next
    case (push_entry t e)
    have "finite (busy s') \<and> pending s' + {#e#} = pending s"
      using pending_upd [OF fin, of s' t Idle] push_entry by (simp add: entry_in_def)
    then show ?thesis unfolding audits_inv_def
      using es k push_entry by (intro conjI exI [of _ es]) (auto simp: ac_simps)
  qed
qed

lemma audits_inv_run: "(audit_step E)\<^sup>*\<^sup>* s s' \<Longrightarrow> audits_inv E m s \<Longrightarrow> audits_inv E m s'"
  by (induction rule: rtranclp_induct) (auto intro: audits_inv_step)

lemma audits_inv_start: "chain_inv E m \<Longrightarrow> audits_inv E m (audit_start m)"
  by (auto simp: audits_inv_def audit_start_def chain_inv_def busy_def pending_def)

subsection \<open>Properties\<close>

text \<open>Claim C25.  Concurrent audits lose nothing.  When the calls of any number of threads have ended, in
  whatever interleaving, the entries of the log can be put into exactly one order that is a chain, from
  the empty hash to the hash the module holds, unless two of them collide under the HMAC.\<close>

theorem concurrent_audits_recoverable:
  assumes "mac32 E" "chain_inv E m" "(audit_step E)\<^sup>*\<^sup>* (audit_start m) s" "\<forall>t. pcs s t = Idle"
    and "inj_on (link_of E m) (set (audit_log (shared s)))"
  shows "\<exists>es. mset es = mset (audit_log (shared s)) \<and> links_ok (link_of E m) [] es \<and>
    last_hash (shared s) = chain_end (link_of E m) [] es \<and>
    (\<forall>fs. mset fs = mset (audit_log (shared s)) \<and> links_ok (link_of E m) [] fs \<longrightarrow> fs = es)"
proof -
  let ?L = "link_of E m"
  have "pending s = {#}" using assms(4) by (simp add: pending_def busy_def)
  then obtain es where es: "links_ok ?L [] es" "last_hash (shared s) = chain_end ?L [] es" "mset es = mset (audit_log (shared s))"
    using audits_inv_run [OF assms(3) audits_inv_start [OF assms(2)]] by (auto simp: audits_inv_def)
  have "[] \<notin> ?L ` set es" using entry_link_nonempty [OF assms(1)] by (metis imageE)
  moreover have "inj_on ?L (set es)" using assms(5) es(3) by (metis mset_eq_setD)
  ultimately have "fs = es" if "mset fs = mset (audit_log (shared s))" "links_ok ?L [] fs" for fs
    using chain_unique [OF es(1) that(2)] es(3) that(1) by simp
  then show ?thesis using es by blast
qed


lemma concurrent_audits_recoverable_witness:
  "\<exists>s es. (audit_step demo_env)\<^sup>*\<^sup>* (audit_start (with_key demo_env [1] policy_permissive)) s \<and>
     length (audit_log (shared s)) = 1 \<and> mset es = mset (audit_log (shared s)) \<and>
     (\<exists>m. links_ok (link_of demo_env m) [] es \<and> last_hash (shared s) = chain_end (link_of demo_env m) [] es)"
proof -
  let ?m = "with_key demo_env [1] policy_permissive"
  let ?s = "(audit_start ?m)\<lparr>shared := audit demo_env 1 Grant ''a'' (shared (audit_start ?m))\<rparr>"
  have run: "(audit_step demo_env)\<^sup>*\<^sup>* (audit_start ?m) ?s"
    by (rule audit_step_sequential [of _ 0]) (simp add: audit_start_def)
  have log: "audit_log (shared ?s) = [audit_entry 1 Grant ''a'' ?m]" by (simp add: audit_start_def)
  have "\<forall>t. pcs ?s t = Idle" by (simp add: audit_start_def)
  moreover have "inj_on (link_of demo_env ?m) (set (audit_log (shared ?s)))" unfolding log by simp
  ultimately obtain es where es: "mset es = mset (audit_log (shared ?s))" "links_ok (link_of demo_env ?m) [] es"
      "last_hash (shared ?s) = chain_end (link_of demo_env ?m) [] es"
    using concurrent_audits_recoverable [OF demo_mac32 chain_inv_with_key run] by blast
  have "length (audit_log (shared ?s)) = 1" unfolding log by simp
  then show ?thesis using run es by blast
qed

text \<open>Property.  Two threads recording decisions on the same module can leave a log that no longer
  verifies, although nobody tampered with it: the entry is chained under one lock and pushed under
  another, so the second thread can push first.\<close>

theorem concurrent_audits_break_chain:
  assumes "mac32 E"
  shows "\<exists>s. (audit_step E)\<^sup>*\<^sup>* (audit_start (with_key E key pol)) s \<and> (\<forall>t. pcs s t = Idle) \<and>
     \<not> is_ok (verify_chain E (shared s))"
proof -
  let ?m = "with_key E key pol"
  let ?e1 = "audit_entry 1 Grant ''a'' ?m"
  let ?m1 = "audit_advance E ?e1 ?m"
  let ?e2 = "audit_entry 2 Grant ''b'' ?m1"
  let ?m2 = "audit_advance E ?e2 ?m1"
  let ?s0 = "audit_start ?m"
  let ?s1 = "\<lparr>shared = ?m1, pcs = (\<lambda>_. Idle)(1 := Made ?e1)\<rparr>"
  let ?s2 = "\<lparr>shared = ?m2, pcs = (\<lambda>_. Idle)(1 := Made ?e1, 2 := Made ?e2)\<rparr>"
  let ?m3 = "audit_persist E ?e2 ?m2"
  let ?s3 = "\<lparr>shared = ?m3, pcs = (\<lambda>_. Idle)(1 := Made ?e1, 2 := Written ?e2)\<rparr>"
  let ?m4 = "audit_push ?e2 ?m3"
  let ?s4 = "\<lparr>shared = ?m4, pcs = (\<lambda>_. Idle)(1 := Made ?e1)\<rparr>"
  let ?m5 = "audit_persist E ?e1 ?m4"
  let ?s5 = "\<lparr>shared = ?m5, pcs = (\<lambda>_. Idle)(1 := Written ?e1)\<rparr>"
  let ?s6 = "\<lparr>shared = audit_push ?e1 ?m5, pcs = (\<lambda>_. Idle)\<rparr>"
  have upd: "f(2 := Made e, 2 := x) = f(2 := x)" "f(1 := Made e, 1 := y) = f(1 := y)"
    "f(1 := Made e, 2 := x, 2 := y) = f(1 := Made e, 2 := y)" for f :: "nat \<Rightarrow> audit_pc" and e x y
    by simp_all
  have "audit_step E ?s0 ?s1"
    using audit_step.make_entry [of ?s0 1 ?e1 1 Grant "''a''" E] by (simp add: audit_start_def)
  moreover have "audit_step E ?s1 ?s2"
    using audit_step.make_entry [of ?s1 2 ?e2 2 Grant "''b''" E] by simp
  moreover have "audit_step E ?s2 ?s3"
    using audit_step.persist_line [of ?s2 2 ?e2 E] by simp
  moreover have "audit_step E ?s3 ?s4"
    using audit_step.push_entry [of ?s3 2 ?e2 E] by (simp add: fun_upd_idem)
  moreover have "audit_step E ?s4 ?s5"
    using audit_step.persist_line [of ?s4 1 ?e1 E] by simp
  moreover have "audit_step E ?s5 ?s6"
    using audit_step.push_entry [of ?s5 1 ?e1 E] by (simp add: fun_upd_idem)
  ultimately have "(audit_step E)\<^sup>*\<^sup>* ?s0 ?s6"
    by (meson converse_rtranclp_into_rtranclp rtranclp.rtrancl_refl)
  moreover have "audit_log (shared ?s6) = [?e2, ?e1]"
    by (simp add: audit_push_def audit_persist_def audit_advance_def with_key_def
        split: option.splits list.splits bool.splits)
  moreover have "sd_prev_hash ?e2 \<noteq> []"
    using entry_link_nonempty [OF assms] by (simp add: audit_entry_def audit_advance_def chain_link_entry)
  ultimately show ?thesis
    by (intro exI [of _ ?s6]) (simp add: verify_chain_def)
qed

lemma concurrent_audits_break_chain_witness:
  "\<exists>s. (audit_step demo_env)\<^sup>*\<^sup>* (audit_start (with_key demo_env [1] policy_permissive)) s \<and>
     (\<forall>t. pcs s t = Idle) \<and> \<not> is_ok (verify_chain demo_env (shared s))"
  by (rule concurrent_audits_break_chain [OF demo_mac32])

end
