(* ===== verification/Audit_File.thy ===== *)
theory Audit_File
  imports Security
begin

text \<open>
  The audit file of \<open>core/src/security.rs\<close> when the process ends between the two writes of \<open>writeln!\<close>: the
  entry is in the file, its newline is not; and when two processes have it open.
\<close>

text \<open>What is used of the JSON parser beyond \<open>serde_ok\<close>: one line holds one document.\<close>

definition one_document :: "sec_env \<Rightarrow> bool" where
  "one_document E \<longleftrightarrow> (\<forall>e e'. \<exists>msg. parse_decision E (serialise E e @ serialise E e') = Inl msg)"

lemma sec_step_appends:
  assumes "audit_file m = Some f" "lost_writes m = []"
  shows "\<exists>e. audit_log (sec_step E m x) = audit_log m @ [e] \<and>
    audit_file (sec_step E m x) = Some (f @ serialise E e @ [CHR 0x0A]) \<and> lost_writes (sec_step E m x) = []"
proof -
  obtain now c where x: "x = (now, c)" by fastforce
  show ?thesis using sec_step_audits [of E m now c] assms
    by (auto simp: x audit_def Let_def audit_push_def audit_persist_def audit_advance_def)
qed

lemma sec_run_appends:
  assumes "audit_file m = Some f" "lost_writes m = []"
  shows "\<exists>new. audit_log (sec_run E m ops) = audit_log m @ new \<and> length new = length ops \<and>
    audit_file (sec_run E m ops) = Some (f @ file_of E new)"
  using assms unfolding sec_run_def
proof (induction ops arbitrary: m f)
  case Nil
  then show ?case by (simp add: file_of_def)
next
  case (Cons x ops)
  obtain e where e: "audit_log (sec_step E m x) = audit_log m @ [e]"
    "audit_file (sec_step E m x) = Some (f @ serialise E e @ [CHR 0x0A])" "lost_writes (sec_step E m x) = []"
    using sec_step_appends [OF Cons.prems] by blast
  from Cons.IH [OF e(2,3)] obtain new where "audit_log (foldl (sec_step E) m (x # ops)) = audit_log m @ e # new"
    "length new = length ops" "audit_file (foldl (sec_step E) m (x # ops)) = Some (f @ file_of E (e # new))"
    using e(1) by (auto simp: file_of_def)
  then show ?case by (intro exI [of _ "e # new"]) simp
qed

lemma file_of_append: "file_of E (es @ fs) = file_of E es @ file_of E fs"
  by (simp add: file_of_def)

lemma file_of_snoc_inject: "file_of E (es @ [e]) = f @ [CHR 0x0A] \<longleftrightarrow> f = file_of E es @ serialise E e"
  by (auto simp: file_of_def)

text \<open>A file whose last line has no newline, and what a further entry makes of it.\<close>

lemma split_prefix: "serde_ok E \<Longrightarrow> split_on CHR 0x0A (file_of E es @ s) = map (serialise E) es @ split_on CHR 0x0A s"
proof (induction es)
  case (Cons e es)
  have "CHR 0x0A \<notin> set (serialise E e)" using serialise_json(1) [OF Cons.prems] by (simp add: json_line_def)
  then have "split_on CHR 0x0A (serialise E e @ CHR 0x0A # file_of E es @ s) =
      serialise E e # split_on CHR 0x0A (file_of E es @ s)" by (rule split_on_prefix)
  with Cons show ?case by (simp add: file_of_def)
qed (simp add: file_of_def)

lemma blank_append: "json_line s \<Longrightarrow> \<not> blank (s @ t)"
proof -
  assume s: "json_line s"
  then obtain cs where cs: "list_all scalar cs" "s = of_chars cs"
    by (auto simp: json_line_def unicode_str_def list_all_iff)
  then show ?thesis using s chars_append [OF cs(1), of t] chars_of_chars [OF cs(1)] by (simp add: json_line_def blank_iff)
qed

lemma strip_cr_serialise: "serde_ok E \<Longrightarrow> strip_cr (serialise E e) = serialise E e"
  using serialise_json(1) [of E e] by (simp add: strip_cr_def json_line_def)

lemma str_lines_cut:
  assumes "serde_ok E"
  shows "str_lines (file_of E es @ serialise E e) = map (serialise E) (es @ [e])"
proof -
  have "CHR 0x0A \<notin> set (serialise E e)" "serialise E e \<noteq> []"
    using serialise_json(1) [OF assms, of e] by (simp_all add: json_line_def)
  then show ?thesis
    by (simp add: str_lines_def split_prefix [OF assms] split_on_whole comp_def strip_cr_serialise [OF assms] butlast_append)
qed

lemma str_lines_glued:
  assumes "serde_ok E"
  shows "str_lines (file_of E es @ serialise E e @ file_of E (e1 # rest)) =
    map (serialise E) es @ (serialise E e @ serialise E e1) # map (serialise E) rest"
proof -
  have j: "json_line (serialise E e)" "json_line (serialise E e1)" using serialise_json(1) [OF assms] by auto
  have "split_on CHR 0x0A ((serialise E e @ serialise E e1) @ CHR 0x0A # file_of E rest) =
      (serialise E e @ serialise E e1) # map (serialise E) rest @ [[]]"
    using j by (subst split_on_prefix) (auto simp: json_line_def split_file [OF assms])
  then have "split_on CHR 0x0A (file_of E es @ serialise E e @ file_of E (e1 # rest)) =
      map (serialise E) es @ ((serialise E e @ serialise E e1) # map (serialise E) rest) @ [[]]"
    by (simp add: split_prefix [OF assms]) (simp add: file_of_def)
  moreover have "strip_cr (serialise E e @ serialise E e1) = serialise E e @ serialise E e1"
    using j(2) by (simp add: strip_cr_def json_line_def)
  ultimately show ?thesis
    by (simp only: str_lines_def Let_def) (simp add: butlast_append comp_def strip_cr_serialise [OF assms])
qed

lemma load_lines_glued:
  assumes "serde_ok E" "one_document E"
  shows "\<exists>msg m'. load_lines E (map (serialise E) es @ (serialise E e @ serialise E e1) # ls) m = (Inl (IntegrityFailure msg), m')"
proof (induction es arbitrary: m)
  case Nil
  obtain msg where "parse_decision E (serialise E e @ serialise E e1) = Inl msg"
    using assms(2) unfolding one_document_def by blast
  then show ?case using blank_append [OF serialise_json(1) [OF assms(1)]] by simp
next
  case (Cons f es)
  then show ?case using serialise_json [OF assms(1), of f] by (simp add: json_line_def)
qed

lemma load_lines_lost: "load_lines E ls m = (r, m') \<Longrightarrow> lost_writes m' = lost_writes m"
  by (induction ls arbitrary: m) (auto simp: audit_push_def audit_advance_def split: if_splits sum.splits)

lemma unicode_parts: "serde_ok E \<Longrightarrow> unicode_str (file_of E es)" "serde_ok E \<Longrightarrow> unicode_str (serialise E e)"
proof -
  assume ok: "serde_ok E"
  then have line: "unicode_str (serialise E e)" for e using serialise_json by (auto simp: json_line_def)
  then show "unicode_str (serialise E e)" .
  have nl: "unicode_str [CHR 0x0A]" "unicode_str []" by (rule unicode_str_ascii, simp add: ascii_def)+
  show "unicode_str (file_of E es)"
  proof (induction es)
    case (Cons e es)
    have "unicode_str ((serialise E e @ [CHR 0x0A]) @ file_of E es)" by (intro unicode_str_append line nl Cons)
    then show ?case by (simp add: file_of_def)
  qed (simp add: file_of_def nl)
qed

subsection \<open>The module after opening\<close>

lemma opened_state:
  assumes "serde_ok E" "with_audit_file E (Inr (file_of E es)) (with_key E key pol) = Inr m"
  shows "audit_log m = es" "k_audit m = k_audit (with_key E key pol)" "links_ok (link_of E m) [] es"
    "last_hash m = chain_end (link_of E m) [] es"
proof -
  obtain m1 where m1: "load_lines E (map (serialise E) es) (with_key E key pol) = (Inr (), m1)"
    "audit_log m1 = es" "k_audit m1 = k_audit (with_key E key pol)" "last_hash m1 = chain_end (link_of E m1) [] es"
    using load_lines_file [OF assms(1), of es "with_key E key pol"] by auto
  then have "m = m1\<lparr>audit_file := Some (file_of E es)\<rparr> \<and> verify_chain E m1 = Inr ()"
    using assms(2) str_lines_file [OF assms(1)] by (auto simp: with_audit_file_def split: if_splits sum.splits)
  with m1 show "audit_log m = es" "k_audit m = k_audit (with_key E key pol)" "links_ok (link_of E m) [] es"
    "last_hash m = chain_end (link_of E m) [] es"
    by (auto simp: verify_chain_iff)
qed

lemma sec_step_entry: "\<exists>e. audit_log (sec_step E m x) = audit_log m @ [e] \<and> sd_prev_hash e = last_hash m"
proof -
  obtain now c where x: "x = (now, c)" by fastforce
  obtain k d where "sec_step E m x = audit E now k d m \<or>
     (\<exists>st. sec_step E m x = (audit E now k d m)\<lparr>invalidated := insert st (invalidated m)\<rparr>)"
    using sec_step_audits [of E m now c] x by auto
  then show ?thesis by (auto simp: audit_entry_def)
qed

subsection \<open>Properties\<close>

text \<open>Claim C26.  A lost newline costs the log.  A process that ends between the two writes of its last
  audit leaves the file without the final newline.  The file is accepted when it is opened again, the
  log is complete and verifies; but the next entry is appended to the same line, and from then on
  the file is rejected, whatever is recorded later, although nobody tampered with it.\<close>

theorem lost_newline_rejects_log:
  assumes "serde_ok E" "one_document E" "run = sec_run E ((with_key E key pol)\<lparr>audit_file := Some []\<rparr>) ops"
    and "audit_file run = Some (f @ [CHR 0x0A])" "length f \<le> MAX_AUDIT_FILE_BYTES" "later \<noteq> []"
  shows "\<exists>m' f' msg. with_audit_file E (Inr f) (with_key E key pol') = Inr m' \<and> audit_log m' = audit_log run \<and>
    verify_chain E m' = Inr () \<and> audit_file (sec_run E m' later) = Some f' \<and>
    with_audit_file E (Inr f') (with_key E key' pol'') = Inl (IntegrityFailure msg)"
proof -
  let ?start = "(with_key E key pol)\<lparr>audit_file := Some []\<rparr>"
  let ?m = "with_key E key pol'"
  have run: "audit_file run = Some (file_of E (audit_log run))"
    using sec_run_file [of ?start E ops] by (simp add: assms(3)) (simp add: file_of_def)
  moreover from this have "audit_log run \<noteq> []" using assms(4) by (auto simp: file_of_def)
  then obtain es e where log: "audit_log run = es @ [e]" by (metis rev_exhaust)
  ultimately have f: "f = file_of E es @ serialise E e" using assms(4) by (metis file_of_snoc_inject option.inject)
  have inv: "chain_inv E run" using sec_run_keeps(4) [of E ?start ops] by (simp add: assms(3) chain_inv_def)
  have k: "k_audit run = k_audit ?m" by (simp add: assms(3) sec_run_keeps(1))
  obtain m1 where m1: "load_lines E (map (serialise E) (es @ [e])) ?m = (Inr (), m1)"
    "audit_log m1 = audit_log ?m @ es @ [e]" "k_audit m1 = k_audit ?m"
    using load_lines_file [OF assms(1), of "es @ [e]" ?m] by blast
  then have "verify_chain E m1 = Inr ()" using inv k log by (simp add: verify_chain_iff chain_inv_def)
  moreover have "utf8_ok f" unfolding f
    by (intro unicode_utf8_ok unicode_str_append unicode_parts assms(1))
  ultimately have opened: "with_audit_file E (Inr f) ?m = Inr (m1\<lparr>audit_file := Some f\<rparr>)"
    using assms(5) m1(1) str_lines_cut [OF assms(1), of es e] by (simp add: with_audit_file_def f)
  let ?m' = "m1\<lparr>audit_file := Some f\<rparr>"
  have chain: "verify_chain E ?m' = Inr ()" using inv k log m1 by (simp add: verify_chain_iff chain_inv_def)
  have "lost_writes ?m' = []" using load_lines_lost [OF m1(1)] by (simp add: with_key_def)
  from sec_run_appends [of ?m' f E later] this obtain new where new: "length new = length later"
    "audit_file (sec_run E ?m' later) = Some (f @ file_of E new)" by auto
  then obtain e1 rest where e1: "new = e1 # rest" using assms(6) by (cases new) auto
  let ?f' = "f @ file_of E new"
  have "utf8_ok ?f'" unfolding f
    by (intro unicode_utf8_ok unicode_str_append unicode_parts assms(1))
  moreover obtain msg m2 where "load_lines E (str_lines ?f') (with_key E key' pol'') = (Inl (IntegrityFailure msg), m2)"
    using load_lines_glued [OF assms(1,2)] str_lines_glued [OF assms(1)] unfolding f e1 by (metis append.assoc)
  ultimately have "\<exists>msg. with_audit_file E (Inr ?f') (with_key E key' pol'') = Inl (IntegrityFailure msg)"
    by (simp add: with_audit_file_def)
  then show ?thesis using opened chain new(2) m1(2) log by auto
qed

text \<open>An encoding that ends every entry with a semicolon and holds none before.\<close>

definition tail_env :: sec_env where
  "tail_env = demo_env\<lparr>ser_decision := \<lambda>e. Some (demo_ser e @ '';''),
     parse_decision := \<lambda>s. if s \<noteq> [] \<and> last s = CHR '';'' \<and> CHR '';'' \<notin> set (butlast s) then demo_parse (butlast s)
       else Inl ''trailing characters''\<rparr>"

lemma demo_ser_chars: "set (demo_ser e) \<subseteq> {CHR ''1'', CHR '',''}"
  unfolding demo_ser_def by (rule set_encode_nats)

lemma tail_serde: "serde_ok tail_env"
  unfolding serde_ok_def
proof
  fix e :: security_decision
  have chars: "CHR '';'' \<notin> set (demo_ser e)" "CHR 0x0A \<notin> set (demo_ser e)" using demo_ser_chars [of e] by auto
  have "ser_decision demo_env e = Some (demo_ser e)" by (simp add: demo_env_def)
  then have j: "json_line (demo_ser e)" using demo_serde unfolding serde_ok_def by (metis option.inject)
  then have "unicode_str (demo_ser e @ '';'')"
    by (intro unicode_str_append) (auto simp: json_line_def ascii_def intro: unicode_str_ascii)
  then have "json_line (demo_ser e @ '';'')" using chars blank_append [OF j] by (simp add: json_line_def)
  then show "\<exists>s. ser_decision tail_env e = Some s \<and> parse_decision tail_env s = Inr e \<and> json_line s"
    using chars by (simp add: tail_env_def demo_parse_ser)
qed

lemma tail_one_document: "one_document tail_env"
  by (simp add: one_document_def tail_env_def serialise_def butlast_append)

lemma lost_newline_rejects_log_witness:
  "\<exists>f m' f' msg. with_audit_file tail_env (Inr f) (with_key tail_env [1] policy_deny_all) = Inr m' \<and>
     length (audit_log m') = 1 \<and> audit_file (sec_run tail_env m' [(5, OpRecord False [])]) = Some f' \<and>
     with_audit_file tail_env (Inr f') (with_key tail_env [1] policy_deny_all) = Inl (IntegrityFailure msg)"
proof -
  let ?start = "(with_key tail_env [1] policy_deny_all)\<lparr>audit_file := Some []\<rparr>"
  let ?run = "sec_run tail_env ?start [(4, OpRecord True [])]"
  let ?e = "\<lparr>sd_kind = Grant, sd_detail = [], sd_at = 4, sd_prev_hash = []\<rparr>"
  have log: "audit_log ?run = [?e]"
    by (simp add: sec_run_def record_decision_def audit_entry_def)
  moreover have "audit_file ?run = Some (file_of tail_env (audit_log ?run))"
    using sec_run_file [of ?start tail_env] by (simp add: file_of_def)
  ultimately have written: "audit_file ?run = Some (serialise tail_env ?e @ [CHR 0x0A])"
    by (simp add: file_of_def)
  have "length (serialise tail_env ?e) \<le> MAX_AUDIT_FILE_BYTES"
    by (simp add: serialise_def tail_env_def demo_ser_def int_nats_def kind_nat_def str_nats_def encode_nats_def
        MAX_AUDIT_FILE_BYTES_def)
  from lost_newline_rejects_log [OF tail_serde tail_one_document refl written this, of "[(5, OpRecord False [])]"
      policy_deny_all "[1]" policy_deny_all] obtain m' f' msg
    where "with_audit_file tail_env (Inr (serialise tail_env ?e)) (with_key tail_env [1] policy_deny_all) = Inr m'"
      "audit_log m' = audit_log ?run" "audit_file (sec_run tail_env m' [(5, OpRecord False [])]) = Some f'"
      "with_audit_file tail_env (Inr f') (with_key tail_env [1] policy_deny_all) = Inl (IntegrityFailure msg)" by auto
  then show ?thesis using log by (intro exI [of _ "serialise tail_env ?e"] exI [of _ m'] exI [of _ f'] exI [of _ msg]) simp
qed

text \<open>Property.  The file has one writer.  Two modules with one key, as two processes have that opened the
  same audit file, both continue the chain from the head they read.  Each appends its next entry, both
  entries name the same predecessor, and the file is accepted again only if the keyed digest of the
  first entry collides with the old head; a log that was fresh is always rejected.\<close>

theorem two_writers_reject_log:
  assumes "serde_ok E" "mac32 E"
    and "with_audit_file E (Inr (file_of E es)) (with_key E key pol1) = Inr m1"
    and "with_audit_file E (Inr (file_of E es)) (with_key E key pol2) = Inr m2"
    and "audit_log (sec_step E m1 x1) = es @ [e1]" "audit_log (sec_step E m2 x2) = es @ [e2]"
  shows "sd_prev_hash e1 = sd_prev_hash e2 \<and>
    (is_ok (with_audit_file E (Inr (file_of E (es @ [e1, e2]))) (with_key E key pol)) \<longrightarrow>
      link_of E m1 e1 = last_hash m1 \<and> es \<noteq> [])"
proof -
  note m1 = opened_state [OF assms(1,3)] and m2 = opened_state [OF assms(1,4)]
  have e1: "sd_prev_hash e1 = last_hash m1" using sec_step_entry [of E m1 x1] assms(5) m1(1) by auto
  have e2: "sd_prev_hash e2 = last_hash m2" using sec_step_entry [of E m2 x2] assms(6) m2(1) by auto
  have "last_hash m1 = last_hash m2" using m1(2,4) m2(2,4) by simp
  moreover have "link_of E m1 e1 = last_hash m1 \<and> es \<noteq> []"
    if opened: "with_audit_file E (Inr (file_of E (es @ [e1, e2]))) (with_key E key pol) = Inr m" for m
  proof -
    have "links_ok (link_of E m) [] ((es @ [e1]) @ [e2])" "k_audit m = k_audit m1"
      using opened_state [OF assms(1) opened] m1(2) by simp_all
    then have "sd_prev_hash e2 = link_of E m1 e1" by (simp only: links_ok_append) simp
    then have "link_of E m1 e1 = last_hash m1" using e2 \<open>last_hash m1 = last_hash m2\<close> by simp
    moreover have "es \<noteq> []" using calculation m1(4) entry_link_nonempty [OF assms(2)] by (metis chain_end.simps(1))
    ultimately show ?thesis ..
  qed
  ultimately show ?thesis using e1 e2 by (auto simp: is_ok_iff)
qed

lemma two_writers_reject_log_witness:
  "\<exists>m1 m2. with_audit_file demo_env (Inr []) (with_key demo_env [1] policy_deny_all) = Inr m1 \<and>
     with_audit_file demo_env (Inr []) (with_key demo_env [1] policy_deny_all) = Inr m2 \<and>
     \<not> is_ok (with_audit_file demo_env (Inr (file_of demo_env
        (audit_log (sec_step demo_env m1 (4, OpRecord True [])) @ audit_log (sec_step demo_env m2 (5, OpRecord False [])))))
        (with_key demo_env [1] policy_deny_all))"
proof -
  let ?m = "(with_key demo_env [1] policy_deny_all)\<lparr>audit_file := Some []\<rparr>"
  let ?e = "\<lambda>k t. \<lparr>sd_kind = k, sd_detail = [], sd_at = t, sd_prev_hash = []\<rparr>"
  have empty: "file_of demo_env [] = []" by (simp add: file_of_def)
  have "str_lines [] = []" by (simp add: str_lines_def)
  moreover have "utf8_ok []" by (simp add: utf8_ok_def chars_def of_chars_def)
  ultimately have opened: "with_audit_file demo_env (Inr (file_of demo_env [])) (with_key demo_env [1] policy_deny_all) = Inr ?m"
    by (simp add: with_audit_file_def empty verify_chain_def)
  have logs: "audit_log (sec_step demo_env ?m (4, OpRecord True [])) = [] @ [?e Grant 4]"
    "audit_log (sec_step demo_env ?m (5, OpRecord False [])) = [] @ [?e Denial 5]"
    by (simp_all add: record_decision_def audit_entry_def)
  from two_writers_reject_log [OF demo_serde demo_mac32 opened opened logs, of policy_deny_all]
  show ?thesis using opened logs by (intro exI [of _ ?m]) (simp add: empty)
qed

end
