(* ===== verification/Money.thy ===== *)
theory Money
  imports F64 Agent
begin

text \<open>
  The money of \<open>core/src/types.rs\<close>: microdollars in an \<open>i64\<close>, made from and shown as \<open>f64\<close> dollars.

  \<open>rnd\<close> rounds an exact result to \<open>f64\<close>; what is used of it is \<open>ieee_rounding\<close>.
\<close>

definition MICRO :: real where
  "MICRO = 1000000"

fun f64_times :: "(real \<Rightarrow> f64) \<Rightarrow> f64 \<Rightarrow> real \<Rightarrow> f64" where
  "f64_times rnd (Fin x) y = rnd (x * y)"
| "f64_times rnd (Infinite s) y = (if y = 0 then NaN else Infinite (s = (0 < y)))"
| "f64_times rnd NaN y = NaN"

text \<open>\<open>f64::round\<close>: to the nearest integer, halves away from zero.\<close>

definition round_away :: "real \<Rightarrow> int" where
  "round_away x = (if 0 \<le> x then \<lfloor>x + 1/2\<rfloor> else \<lceil>x - 1/2\<rceil>)"

fun f64_round :: "f64 \<Rightarrow> f64" where
  "f64_round (Fin x) = Fin (of_int (round_away x))"
| "f64_round x = x"

text \<open>\<open>as i64\<close>: towards zero, saturating; not-a-number becomes zero.\<close>

definition I64_MAX :: int where
  "I64_MAX = 2 ^ 63 - 1"

definition I64_MIN :: int where
  "I64_MIN = - (2 ^ 63)"

fun f64_as_i64 :: "f64 \<Rightarrow> i64" where
  "f64_as_i64 NaN = 0"
| "f64_as_i64 (Infinite s) = word_of_int (if s then I64_MAX else I64_MIN)"
| "f64_as_i64 (Fin x) = word_of_int (max I64_MIN (min I64_MAX (if 0 \<le> x then \<lfloor>x\<rfloor> else \<lceil>x\<rceil>)))"

definition money_usd :: "(real \<Rightarrow> f64) \<Rightarrow> f64 \<Rightarrow> money" where
  "money_usd rnd dollars =
     \<lparr>amount_microdollars = f64_as_i64 (f64_round (f64_times rnd dollars MICRO)), currency = ''USD''\<rparr>"

definition as_dollars :: "(real \<Rightarrow> f64) \<Rightarrow> money \<Rightarrow> f64" where
  "as_dollars rnd m = (case rnd (of_int (sint (amount_microdollars m))) of Fin x \<Rightarrow> rnd (x / MICRO) | x \<Rightarrow> x)"

definition money_zero :: money where
  "money_zero = \<lparr>amount_microdollars = 0, currency = ''USD''\<rparr>"

subsection \<open>Rounding\<close>

text \<open>What is used of IEEE arithmetic with 53 bits: the integers it holds are exact, and every other
  result in its range is off by at most half a unit in the last place.\<close>

definition ieee_rounding :: "(real \<Rightarrow> f64) \<Rightarrow> bool" where
  "ieee_rounding rnd \<longleftrightarrow>
     (\<forall>n :: int. \<bar>n\<bar> \<le> 2 ^ 53 \<longrightarrow> rnd (of_int n) = Fin (of_int n)) \<and>
     (\<forall>x. \<bar>x\<bar> \<le> 2 ^ 1023 \<longrightarrow> (\<exists>y. rnd x = Fin y \<and> \<bar>y - x\<bar> \<le> \<bar>x\<bar> / 2 ^ 53 + 1 / 2 ^ 1075))"

lemma round_away_near: "\<bar>of_int (round_away x) - x\<bar> \<le> 1/2"
  using floor_correct [of "x + 1/2"] ceiling_correct [of "x - 1/2"]
  by (cases "0 \<le> x") (simp_all only: round_away_def if_True if_False, linarith+)

lemma round_away_unique: "\<bar>x - of_int n\<bar> < 1/2 \<Longrightarrow> round_away x = n"
  unfolding round_away_def by (cases "0 \<le> x") (simp_all only: if_True if_False floor_eq_iff ceiling_eq_iff, linarith+)

text \<open>Bounds cross between integers and reals.\<close>

lemma abs_of_int_le_power: "\<bar>of_int n :: real\<bar> \<le> 2 ^ k \<longleftrightarrow> \<bar>n\<bar> \<le> 2 ^ k"
  by (metis of_int_abs of_int_le_iff of_int_numeral of_int_power)

lemma as_i64_int: "I64_MIN \<le> n \<Longrightarrow> n \<le> I64_MAX \<Longrightarrow> f64_as_i64 (Fin (of_int n)) = word_of_int n"
  by simp

lemma sint_i64: "I64_MIN \<le> n \<Longrightarrow> n \<le> I64_MAX \<Longrightarrow> sint (word_of_int n :: i64) = n"
  by (simp add: I64_MIN_def I64_MAX_def sint_sbintrunc' signed_take_bit_int_eq_self)

lemma i64_range: "I64_MIN \<le> sint w \<and> sint w \<le> I64_MAX" for w :: i64
  using sint_ge [of w] sint_lt [of w] by (simp add: I64_MIN_def I64_MAX_def)

text \<open>A finite amount of less than 2 to the 60 dollars.\<close>

lemma MICRO_abs: "\<bar>MICRO\<bar> = MICRO"
  by (simp add: MICRO_def)

lemma rounded:
  assumes "ieee_rounding rnd" "\<bar>x\<bar> \<le> 2 ^ 1023"
  obtains y where "rnd x = Fin y" "\<bar>y - x\<bar> \<le> \<bar>x\<bar> / 2 ^ 53 + 1 / 2 ^ 1075"
  using assms unfolding ieee_rounding_def by blast

lemma usd_near:
  assumes "ieee_rounding rnd" "\<bar>d * MICRO\<bar> \<le> 2 ^ 62"
  shows "\<bar>of_int (sint (amount_microdollars (money_usd rnd (Fin d)))) - d * MICRO\<bar> \<le> 1/2 + \<bar>d * MICRO\<bar> / 2 ^ 53 + 1 / 2 ^ 1075"
    and "\<exists>y. rnd (d * MICRO) = Fin y \<and> sint (amount_microdollars (money_usd rnd (Fin d))) = round_away y"
proof -
  have "\<bar>d * MICRO\<bar> \<le> 2 ^ 1023" by (rule order_trans [OF assms(2)]) simp
  then obtain y where y: "rnd (d * MICRO) = Fin y" "\<bar>y - d * MICRO\<bar> \<le> \<bar>d * MICRO\<bar> / 2 ^ 53 + 1 / 2 ^ 1075"
    using rounded [OF assms(1)] by blast
  have "(1 :: real) / 2 ^ 1075 \<le> 1" by simp
  moreover have "\<bar>d * MICRO\<bar> / 2 ^ 53 \<le> 2 ^ 62 / 2 ^ 53" using assms(2) by (simp add: divide_right_mono)
  ultimately have "\<bar>y\<bar> \<le> 2 ^ 62 + 2 ^ 9 + 1" using y(2) assms(2) by simp
  then have "\<bar>of_int (round_away y)\<bar> \<le> (2 :: real) ^ 62 + 2 ^ 9 + 2" using round_away_near [of y] by linarith
  then have "real_of_int \<bar>round_away y\<bar> \<le> real_of_int (2 ^ 62 + 2 ^ 9 + 2)" by simp
  then have "\<bar>round_away y\<bar> \<le> 2 ^ 62 + 2 ^ 9 + 2" by (simp only: of_int_le_iff)
  then have range: "I64_MIN \<le> round_away y" "round_away y \<le> I64_MAX" by (simp_all add: I64_MIN_def I64_MAX_def)
  have amount: "sint (amount_microdollars (money_usd rnd (Fin d))) = round_away y"
    using range by (simp add: money_usd_def y(1) sint_i64)
  then show "\<exists>y. rnd (d * MICRO) = Fin y \<and> sint (amount_microdollars (money_usd rnd (Fin d))) = round_away y"
    using y(1) by blast
  show "\<bar>of_int (sint (amount_microdollars (money_usd rnd (Fin d)))) - d * MICRO\<bar> \<le> 1/2 + \<bar>d * MICRO\<bar> / 2 ^ 53 + 1 / 2 ^ 1075"
    unfolding amount using round_away_near [of y] y(2) by linarith
qed

subsection \<open>Properties\<close>

text \<open>Claim C38.  Money survives the detour over dollars: up to a billion dollars either way an amount shown in
  dollars converts back to the same number of microdollars, whatever the two roundings on the way.
  An amount made from dollars is the nearest number of microdollars but for the rounding of the
  product; not-a-number is no money, and what is too large saturates.\<close>

theorem money_roundtrip:
  assumes "ieee_rounding rnd" "\<bar>sint (amount_microdollars m)\<bar> \<le> 2 ^ 50" "\<bar>d * MICRO\<bar> \<le> 2 ^ 62"
  shows "amount_microdollars (money_usd rnd (as_dollars rnd m)) = amount_microdollars m \<and>
    \<bar>of_int (sint (amount_microdollars (money_usd rnd (Fin d)))) - d * MICRO\<bar> \<le> 1/2 + \<bar>d * MICRO\<bar> / 2 ^ 53 + 1 / 2 ^ 1075 \<and>
    amount_microdollars (money_usd rnd NaN) = 0 \<and>
    sint (amount_microdollars (money_usd rnd (Infinite s))) = (if s then I64_MAX else I64_MIN)"
proof -
  let ?n = "sint (amount_microdollars m)"
  let ?r = "of_int ?n :: real"
  have n: "\<bar>?r\<bar> \<le> 2 ^ 50" using assms(2) by (simp only: abs_of_int_le_power)
  have "\<bar>?n\<bar> \<le> 2 ^ 53" using assms(2) by simp
  then have exact: "rnd ?r = Fin ?r" using assms(1) unfolding ieee_rounding_def by blast
  have "\<bar>?r / MICRO\<bar> \<le> 2 ^ 1023"
    by (rule order_trans [of _ "2 ^ 50"]) (use n in \<open>simp_all add: MICRO_def\<close>)
  then obtain x where x: "rnd (?r / MICRO) = Fin x" "\<bar>x - ?r / MICRO\<bar> \<le> \<bar>?r / MICRO\<bar> / 2 ^ 53 + 1 / 2 ^ 1075"
    using rounded [OF assms(1)] by blast
  have tiny: "(1 :: real) / 2 ^ 1075 * MICRO \<le> 1 / 16" "(1 :: real) / 2 ^ 1075 \<le> 1 / 16" by (simp_all add: MICRO_def)
  have "x * MICRO - ?r = (x - ?r / MICRO) * MICRO" by (simp add: MICRO_def field_simps)
  then have "\<bar>x * MICRO - ?r\<bar> = \<bar>x - ?r / MICRO\<bar> * MICRO" by (simp only: abs_mult MICRO_abs)
  also have "\<dots> \<le> (\<bar>?r / MICRO\<bar> / 2 ^ 53 + 1 / 2 ^ 1075) * MICRO"
    by (rule mult_right_mono [OF x(2)]) (simp add: MICRO_def)
  also have "\<dots> = \<bar>?r\<bar> / 2 ^ 53 + 1 / 2 ^ 1075 * MICRO" by (simp add: MICRO_def field_simps)
  also have "\<dots> \<le> 2 ^ 50 / 2 ^ 53 + 1 / 16" using n tiny(1) by (intro add_mono divide_right_mono) simp_all
  finally have e1: "\<bar>x * MICRO - ?r\<bar> \<le> 3 / 16" by simp
  then have x62: "\<bar>x * MICRO\<bar> \<le> 2 ^ 50 + 1" using n by linarith
  then have "\<bar>x * MICRO\<bar> \<le> 2 ^ 1023" by (rule order_trans) simp
  then obtain y where y: "rnd (x * MICRO) = Fin y" "\<bar>y - x * MICRO\<bar> \<le> \<bar>x * MICRO\<bar> / 2 ^ 53 + 1 / 2 ^ 1075"
    using rounded [OF assms(1)] by blast
  have "\<bar>x * MICRO\<bar> / 2 ^ 53 \<le> (2 ^ 50 + 1) / 2 ^ 53" using x62 by (rule divide_right_mono) simp
  moreover have "(2 ^ 50 + 1) / 2 ^ 53 \<le> (9 / 64 :: real)" by simp
  ultimately have "\<bar>y - ?r\<bar> < 1/2" using y(2) e1 tiny(2) by linarith
  then have near: "round_away y = ?n" by (rule round_away_unique)
  have "as_dollars rnd m = Fin x" by (simp only: as_dollars_def exact f64.case x(1))
  moreover have "\<bar>x * MICRO\<bar> \<le> 2 ^ 62" using x62 by simp
  then have "sint (amount_microdollars (money_usd rnd (Fin x))) = ?n"
    using usd_near(2) [OF assms(1)] y(1) near by fastforce
  ultimately have "amount_microdollars (money_usd rnd (as_dollars rnd m)) = amount_microdollars m"
    by (metis signed_word_eqI)
  moreover have "sint (amount_microdollars (money_usd rnd (Infinite s))) = (if s then I64_MAX else I64_MIN)"
    by (simp add: money_usd_def MICRO_def sint_i64 I64_MAX_def I64_MIN_def)
  ultimately show ?thesis using usd_near(1) [OF assms(1,3)] by (simp add: money_usd_def)
qed

lemma money_roundtrip_witness:
  "amount_microdollars (money_usd Fin (as_dollars Fin \<lparr>amount_microdollars = 1500000, currency = ''USD''\<rparr>)) = 1500000"
proof -
  have "ieee_rounding Fin" by (simp add: ieee_rounding_def)
  from money_roundtrip [OF this, of "\<lparr>amount_microdollars = 1500000, currency = ''USD''\<rparr>" 0] show ?thesis by simp
qed

end
