(* ===== verification/Redaction.thy ===== *)
theory Redaction
  imports Security
begin

text \<open>
  The hand-written \<open>Debug\<close> texts of the values that carry a secret: the bootstrap key of an enrolment and
  the signature of a request (\<open>core/src/client_auth.rs\<close>), the password of a new user
  (\<open>core/src/users.rs\<close>), a stored document (\<open>core/src/persistence.rs\<close>) and a stamp
  (\<open>core/src/security.rs\<close>), with the formatting of strings, lists and structs by the standard library
  that they use.

  \<open>plain\<close> stands for the Unicode tables: which characters outside ASCII are shown as they are.
  The texts are those of \<open>{:?}\<close>; the multi-line form is not modelled.
\<close>

subsection \<open>Formatting with \<open>{:?}\<close>\<close>

fun hex_nat :: "nat \<Rightarrow> string" where
  "hex_nat n = (if n < 16 then [hex_digit n] else hex_nat (n div 16) @ [hex_digit (n mod 16)])"

declare hex_nat.simps [simp del]

definition shown_plain :: "(codepoint \<Rightarrow> bool) \<Rightarrow> codepoint \<Rightarrow> bool" where
  "shown_plain plain c = (if c < 0x80 then 0x20 \<le> c \<and> c \<le> 0x7E else plain c)"

definition debug_char :: "(codepoint \<Rightarrow> bool) \<Rightarrow> codepoint \<Rightarrow> string" where
  "debug_char plain c =
     (if c = 0 then [CHR 0x5C, CHR ''0'']
      else if c = 0x09 then [CHR 0x5C, CHR ''t'']
      else if c = 0x0D then [CHR 0x5C, CHR ''r'']
      else if c = 0x0A then [CHR 0x5C, CHR ''n'']
      else if c = 0x22 then [CHR 0x5C, CHR 0x22]
      else if c = 0x5C then [CHR 0x5C, CHR 0x5C]
      else if shown_plain plain c then of_chars [c]
      else CHR 0x5C # ''u{'' @ hex_nat c @ ''}'')"

definition debug_str :: "(codepoint \<Rightarrow> bool) \<Rightarrow> string \<Rightarrow> string" where
  "debug_str plain s = CHR 0x22 # concat (map (debug_char plain) (chars s)) @ [CHR 0x22]"

definition debug_list :: "('a \<Rightarrow> string) \<Rightarrow> 'a list \<Rightarrow> string" where
  "debug_list f xs = CHR ''['' # join '', '' (map f xs) @ '']''"

definition debug_struct :: "string \<Rightarrow> (string \<times> string) list \<Rightarrow> string" where
  "debug_struct name fs =
     (if fs = [] then name
      else name @ '' { '' @ join '', '' (map (\<lambda>(n, v). n @ '': '' @ v) fs) @ '' }'')"

subsection \<open>The values and their texts\<close>

record enrollment_request =
  enr_api_key :: string
  enr_client_name :: string
  enr_public_key :: bytes

record presented_client_auth =
  pca_client_id :: string
  pca_canonical_request :: bytes
  pca_signature :: bytes
  pca_timestamp :: u64
  pca_nonce :: string

record new_user =
  nu_username :: string
  nu_password :: string
  nu_roles :: "user_role list"

record 'v store_record =
  rec_id :: string
  rec_doc :: 'v

definition debug_bytes :: "bytes \<Rightarrow> string" where
  "debug_bytes = debug_list (\<lambda>b. nat_str (unat b))"

fun debug_role :: "user_role \<Rightarrow> string" where
  "debug_role Viewer = ''Viewer''"
| "debug_role Operator = ''Operator''"
| "debug_role Admin = ''Admin''"

definition REDACTED :: string where
  "REDACTED = ''<redacted>''"

definition debug_enrollment :: "(codepoint \<Rightarrow> bool) \<Rightarrow> enrollment_request \<Rightarrow> string" where
  "debug_enrollment plain r = debug_struct ''EnrollmentRequest''
     [(''api_key'', debug_str plain REDACTED),
      (''client_name'', debug_str plain (enr_client_name r)),
      (''public_key'', debug_bytes (enr_public_key r))]"

definition debug_presented :: "(codepoint \<Rightarrow> bool) \<Rightarrow> presented_client_auth \<Rightarrow> string" where
  "debug_presented plain r = debug_struct ''PresentedClientAuth''
     [(''client_id'', debug_str plain (pca_client_id r)),
      (''canonical_request'', debug_bytes (pca_canonical_request r)),
      (''signature'', debug_str plain REDACTED),
      (''timestamp'', int_str (sint (pca_timestamp r))),
      (''nonce'', debug_str plain (pca_nonce r))]"

definition debug_new_user :: "(codepoint \<Rightarrow> bool) \<Rightarrow> new_user \<Rightarrow> string" where
  "debug_new_user plain r = debug_struct ''NewUser''
     [(''username'', debug_str plain (nu_username r)),
      (''password'', debug_str plain REDACTED),
      (''roles'', debug_list debug_role (nu_roles r))]"

definition debug_record :: "(codepoint \<Rightarrow> bool) \<Rightarrow> 'v store_record \<Rightarrow> string" where
  "debug_record plain r = debug_struct ''Record''
     [(''id'', debug_str plain (rec_id r)), (''doc'', debug_str plain REDACTED)]"

definition debug_stamp :: "sec_env \<Rightarrow> stamp \<Rightarrow> string" where
  "debug_stamp E s = ''Stamp(<redacted ref='' @ stamp_ref E s @ ''>)''"

subsection \<open>Texts that can be read back\<close>

text \<open>A text is readable when its value, and where it ends, can be told from any text it begins.\<close>

definition readable :: "('a \<Rightarrow> bool) \<Rightarrow> ('a \<Rightarrow> string) \<Rightarrow> bool" where
  "readable A f \<longleftrightarrow> (\<forall>x y u v. A x \<and> A y \<and> f x @ u = f y @ v \<longrightarrow> x = y \<and> u = v)"

lemma readableD: "readable A f \<Longrightarrow> A x \<Longrightarrow> A y \<Longrightarrow> f x @ u = f y @ v \<longleftrightarrow> x = y \<and> u = v"
  unfolding readable_def by blast

lemma readable_utf8: "readable scalar (\<lambda>c. of_chars [c])"
  unfolding readable_def by (metis append_same_eq chars_prefix list.inject same_append_eq)

lemma chars_ascii_Cons: "(of_char a :: nat) < 0x80 \<Longrightarrow> chars (a # u) = of_char a # chars u"
  by (simp add: chars_def utf8_decode.simps(2))

lemma of_char_hex_digit: "n < 16 \<Longrightarrow> (of_char (hex_digit n) :: nat) = (if n < 10 then 48 + n else 87 + n)"
  by (simp add: hex_digit_def)

lemma hex_digit_inject: "m < 16 \<Longrightarrow> n < 16 \<Longrightarrow> hex_digit m = hex_digit n \<longleftrightarrow> m = n"
proof
  assume d: "m < 16" "n < 16" "hex_digit m = hex_digit n"
  then have "(of_char (hex_digit m) :: nat) = of_char (hex_digit n)" by simp
  then have "(if m < 10 then 48 + m else 87 + m) = (if n < 10 then 48 + n else 87 + n)"
    by (simp only: of_char_hex_digit [OF d(1)] of_char_hex_digit [OF d(2)])
  with d(1,2) show "m = n" by (simp split: if_splits)
qed simp

lemma hex_nat_not_brace: "CHR ''}'' \<notin> set (hex_nat n)"
proof -
  have digit: "m < 16 \<Longrightarrow> hex_digit m \<noteq> CHR ''}''" for m
    using of_char_hex_digit [of m] by (auto split: if_splits)
  show ?thesis
  proof (induction n rule: hex_nat.induct)
    case (1 n)
    then show ?case using digit [of n, symmetric] digit [of "n mod 16", symmetric] by (auto simp: hex_nat.simps [of n])
  qed
qed

lemma hex_nat_Nil: "hex_nat n \<noteq> []"
  by (subst hex_nat.simps) simp

lemma hex_nat_inject: "hex_nat m = hex_nat n \<longleftrightarrow> m = n"
proof (induction m arbitrary: n rule: hex_nat.induct)
  case (1 m)
  show ?case
  proof (cases "m < 16 \<or> n < 16")
    case True
    then show ?thesis using hex_nat_Nil hex_nat_Nil [symmetric] hex_digit_inject [of m n] by (auto simp: hex_nat.simps [of m] hex_nat.simps [of n])
  next
    case False
    then have "hex_nat m = hex_nat n \<longleftrightarrow> m div 16 = n div 16 \<and> m mod 16 = n mod 16"
      using 1 hex_digit_inject [of "m mod 16" "n mod 16"] by (simp add: hex_nat.simps [of m] hex_nat.simps [of n])
    then show ?thesis by (metis div_mult_mod_eq)
  qed
qed

lemma nat_str_inject: "nat_str m = nat_str n \<longleftrightarrow> m = n"
proof -
  have Nil: "nat_str k \<noteq> []" for k by (subst nat_str.simps) simp
  have digit: "j < 10 \<Longrightarrow> k < 10 \<Longrightarrow> char_of (48 + j) = (char_of (48 + k) :: char) \<longleftrightarrow> j = k" for j k :: nat
    using hex_digit_inject [of j k] by (simp add: hex_digit_def)
  show ?thesis
  proof (induction m arbitrary: n rule: nat_str.induct)
    case (1 m)
    show ?case
    proof (cases "m < 10 \<or> n < 10")
      case True
      then show ?thesis using Nil Nil [symmetric] digit [of m n] by (auto simp: nat_str.simps [of m] nat_str.simps [of n])
    next
      case False
      then have "nat_str m = nat_str n \<longleftrightarrow> m div 10 = n div 10 \<and> m mod 10 = n mod 10"
        using 1 digit [of "m mod 10" "n mod 10"] by (simp add: nat_str.simps [of m] nat_str.simps [of n])
      then show ?thesis by (metis div_mult_mod_eq)
    qed
  qed
qed

text \<open>The code points a character is shown as.\<close>

definition shown :: "(codepoint \<Rightarrow> bool) \<Rightarrow> codepoint \<Rightarrow> codepoint list" where
  "shown plain c =
     (if c = 0 then [0x5C, 48] else if c = 0x09 then [0x5C, 116] else if c = 0x0D then [0x5C, 114]
      else if c = 0x0A then [0x5C, 110] else if c = 0x22 then [0x5C, 0x22] else if c = 0x5C then [0x5C, 0x5C]
      else if shown_plain plain c then [c]
      else 0x5C # 117 # 123 # map of_char (hex_nat c) @ [125])"

lemma chars_ascii_append: "ascii s \<Longrightarrow> chars (s @ u) = map of_char s @ chars u"
  by (induction s) (simp_all add: ascii_def chars_ascii_Cons)

lemma ascii_hex_nat: "ascii (hex_nat n)"
proof (induction n rule: hex_nat.induct)
  case (1 n)
  have "m < 16 \<Longrightarrow> (of_char (hex_digit m) :: nat) < 128" for m
    using of_char_hex_digit [of m] by (simp split: if_splits)
  then show ?case using 1 by (auto simp: hex_nat.simps [of n] ascii_def)
qed

lemma chars_debug_char:
  assumes "scalar c"
  shows "chars (debug_char plain c @ u) = shown plain c @ chars u"
proof -
  have "ascii (CHR 0x5C # ''u{'' @ hex_nat c @ ''}'')" using ascii_hex_nat [of c] by (auto simp: ascii_def)
  from chars_ascii_append [OF this, of u] show ?thesis using chars_prefix [OF assms, of u]
    by (simp add: debug_char_def shown_def chars_ascii_Cons)
qed

lemma hex_end: "map of_char (hex_nat c) @ (125 :: nat) # u = map of_char (hex_nat d) @ 125 # v \<Longrightarrow> c = d"
proof -
  have "(125 :: nat) \<notin> set (map of_char (hex_nat n))" for n
  proof
    assume "125 \<in> set (map of_char (hex_nat n) :: nat list)"
    then obtain a where "a \<in> set (hex_nat n)" "of_char a = (125 :: nat)" by auto
    moreover from this(2) have "a = char_of (125 :: nat)" by (metis char_of_char)
    then have "a = CHR ''}''" by (simp add: char_of_def bit_iff_odd)
    ultimately show False using hex_nat_not_brace by simp
  qed
  moreover assume "map of_char (hex_nat c) @ 125 # u = map of_char (hex_nat d) @ 125 # v"
  ultimately have "map of_char (hex_nat c) = (map of_char (hex_nat d) :: nat list)"
    by (simp add: split_first_unique)
  then show ?thesis by (simp add: inj_map_eq_map inj_of_char hex_nat_inject)
qed

lemma shown_readable: "shown plain c @ u = shown plain d @ v \<Longrightarrow> c = d"
  by (auto simp: shown_def split: if_splits dest: hex_end)

lemma shown_no_quote: "shown plain c @ u \<noteq> 0x22 # v"
  by (simp add: shown_def)

lemma readable_debug_char: "readable scalar (debug_char plain)"
  unfolding readable_def
proof (intro allI impI)
  fix c d u v
  assume h: "scalar c \<and> scalar d \<and> debug_char plain c @ u = debug_char plain d @ v"
  then have "shown plain c @ chars u = shown plain d @ chars v" using chars_debug_char by metis
  then have "c = d" by (rule shown_readable)
  with h show "c = d \<and> u = v" by simp
qed

lemma debug_char_no_quote: "scalar c \<Longrightarrow> debug_char plain c @ u \<noteq> CHR 0x22 # v"
  using chars_debug_char [of c plain u] chars_ascii_Cons [of "CHR 0x22" v] shown_no_quote [of plain c "chars u" "chars v"] by auto

text \<open>A list of readable texts up to a character none of them begins with.\<close>

lemma readable_terminated:
  assumes "readable A f" "\<And>x u v. A x \<Longrightarrow> f x @ u \<noteq> t # v"
  shows "list_all A xs \<Longrightarrow> list_all A ys \<Longrightarrow> concat (map f xs) @ t # u = concat (map f ys) @ t # v \<longleftrightarrow> xs = ys \<and> u = v"
proof (induction xs arbitrary: ys)
  case Nil
  then show ?case using assms(2) [of _ _ v] assms(2) [of _ _ u] by (cases ys) (auto dest: sym)
next
  case (Cons x xs)
  then show ?case
  proof (cases ys)
    case Nil
    then show ?thesis using Cons.prems assms(2) by simp
  next
    case (Cons y zs)
    then show ?thesis using Cons.prems Cons.IH [of zs] readableD [OF assms(1), of x y] by simp
  qed
qed

lemma readable_debug_str: "readable rust_str (debug_str plain)"
  unfolding readable_def
proof (intro allI impI)
  fix s t u v
  assume h: "rust_str s \<and> rust_str t \<and> debug_str plain s @ u = debug_str plain t @ v"
  then have "concat (map (debug_char plain) (chars s)) @ CHR 0x22 # u = concat (map (debug_char plain) (chars t)) @ CHR 0x22 # v"
    by (simp add: debug_str_def)
  moreover have "list_all scalar (chars s)" "list_all scalar (chars t)" using h rust_str_chars by blast+
  ultimately have "chars s = chars t \<and> u = v"
    using readable_terminated [OF readable_debug_char [of plain] debug_char_no_quote [of _ plain]] by metis
  with h show "s = t \<and> u = v" by (metis rust_str_chars)
qed

text \<open>Texts up to a delimiter, and the lists made of them.\<close>

lemma cut_unique:
  "(\<And>c. c \<in> set h \<Longrightarrow> c \<notin> D) \<Longrightarrow> (\<And>c. c \<in> set k \<Longrightarrow> c \<notin> D) \<Longrightarrow> p \<in> D \<Longrightarrow> q \<in> D \<Longrightarrow>
   h @ p # r = k @ q # r' \<Longrightarrow> h = k \<and> p = q \<and> r = r'"
proof (induction h arbitrary: k)
  case Nil
  then show ?case by (cases k) auto
next
  case (Cons a h)
  then show ?case by (cases k) auto
qed

lemma join_Cons: "join sep (s # ts) = s @ concat (map (\<lambda>t. sep @ t) ts)"
  by (induction ts arbitrary: s) simp_all

text \<open>An item of a list: its text is not empty, determines it, and holds neither comma nor bracket.\<close>

definition item_text :: "('a \<Rightarrow> string) \<Rightarrow> bool" where
  "item_text f \<longleftrightarrow> inj f \<and> (\<forall>x. f x \<noteq> [] \<and> (\<forall>c \<in> set (f x). c \<notin> {CHR '','', CHR '']''}))"

lemma items_readable:
  assumes "item_text f"
  shows "f x @ concat (map (\<lambda>t. '', '' @ f t) xs) @ CHR '']'' # u = f y @ concat (map (\<lambda>t. '', '' @ f t) ys) @ CHR '']'' # v \<Longrightarrow>
    x = y \<and> xs = ys \<and> u = v"
proof (induction xs arbitrary: x y ys)
  have cut: "f a @ p # r = f b @ q # r' \<Longrightarrow> p \<in> {CHR '','', CHR '']''} \<Longrightarrow> q \<in> {CHR '','', CHR '']''} \<Longrightarrow> a = b \<and> p = q \<and> r = r'" for a b p q r r'
    using cut_unique [of "f a" "{CHR '','', CHR '']''}" "f b" p q r r'] assms unfolding item_text_def by (metis injD)
  {
    case Nil
    show ?case
    proof (cases ys)
      case Nil
      with \<open>_ = f y @ _\<close> show ?thesis using cut [of x "CHR '']''" u y "CHR '']''" v] by simp
    next
      case (Cons w ws)
      with \<open>_ = f y @ _\<close> show ?thesis
        using cut [of x "CHR '']''" u y "CHR '',''"] by simp
    qed
  next
    case (Cons z zs)
    show ?case
    proof (cases ys)
      case Nil
      with Cons.prems show ?thesis using cut [of x "CHR '',''" _ y "CHR '']''" v] by simp
    next
      case (Cons w ws)
      let ?l = "f z @ concat (map (\<lambda>t. '', '' @ f t) zs) @ CHR '']'' # u"
      let ?r = "f w @ concat (map (\<lambda>t. '', '' @ f t) ws) @ CHR '']'' # v"
      have "f x @ CHR '','' # CHR '' '' # ?l = f y @ CHR '','' # CHR '' '' # ?r" using Cons.prems Cons by simp
      from cut [OF this] have "x = y" and *: "?l = ?r" by simp_all
      with Cons.IH [OF *] Cons show ?thesis by simp
    qed
  }
qed

lemma readable_debug_list: "item_text f \<Longrightarrow> readable (\<lambda>_. True) (debug_list f)"
  unfolding readable_def
proof (intro allI impI)
  fix xs ys u v
  assume f: "item_text f" and h: "True \<and> True \<and> debug_list f xs @ u = debug_list f ys @ v"
  have ne: "f x @ r \<noteq> CHR '']'' # w" for x r w
  proof -
    obtain a b where ab: "f x = a # b" using f unfolding item_text_def by (cases "f x") blast+
    moreover have "a \<in> set (f x)" unfolding ab by simp
    then have "a \<noteq> CHR '']''" using f unfolding item_text_def by blast
    ultimately show ?thesis by simp
  qed
  note ne' = ne [symmetric]
  show "xs = ys \<and> u = v"
  proof (cases xs)
    case Nil
    then show ?thesis using h ne' by (cases ys) (simp_all add: debug_list_def join_Cons)
  next
    case (Cons x xt)
    then show ?thesis using h ne items_readable [OF f, of x xt u _ _ v]
      by (cases ys) (simp_all add: debug_list_def join_Cons comp_def)
  qed
qed

lemma item_text_byte: "item_text (\<lambda>b :: 8 word. nat_str (unat b))"
proof -
  have "nat_str n \<noteq> []" for n by (subst nat_str.simps) simp
  then show ?thesis unfolding item_text_def
    by (auto simp: inj_def nat_str_inject word_unat_eq_iff dest: nat_str_digit)
qed

lemma item_text_role: "item_text debug_role"
proof -
  have "debug_role x = debug_role y \<longleftrightarrow> x = y" for x y by (cases x; cases y) simp_all
  moreover have "debug_role x \<noteq> [] \<and> (\<forall>c \<in> set (debug_role x). c \<notin> {CHR '','', CHR '']''})" for x by (cases x) simp_all
  ultimately show ?thesis unfolding item_text_def inj_def by blast
qed

lemma int_str_inject: "int_str i = int_str j \<longleftrightarrow> i = j"
proof -
  have "nat_str n \<noteq> CHR ''-'' # w" for n w using nat_str_digit [of "CHR ''-''" n] by auto
  then show ?thesis by (auto simp: int_str_def nat_str_inject dest: sym)
qed

lemma int_str_no_comma: "CHR '','' \<notin> set (int_str i)"
  using nat_str_digit [of "CHR '',''"] by (auto simp: int_str_def)

lemma int_str_readable: "int_str i @ CHR '','' # u = int_str j @ CHR '','' # v \<longleftrightarrow> i = j \<and> u = v"
  by (simp add: split_first_unique int_str_no_comma int_str_inject)

lemma readable_inject: "readable A f \<Longrightarrow> A x \<Longrightarrow> A y \<Longrightarrow> f x = f y \<longleftrightarrow> x = y"
  using readableD [of A f x y "[]" "[]"] by simp

lemmas readable_parts = readable_debug_str readable_debug_list [OF item_text_byte] readable_debug_list [OF item_text_role]

lemmas debug_readable = readable_parts [THEN readableD] readable_parts [THEN readable_inject] int_str_readable

lemma same_but_signature: "p\<lparr>pca_signature := []\<rparr> = p'\<lparr>pca_signature := []\<rparr> \<longleftrightarrow>
    pca_client_id p = pca_client_id p' \<and> pca_canonical_request p = pca_canonical_request p' \<and>
    sint (pca_timestamp p) = sint (pca_timestamp p') \<and> pca_nonce p = pca_nonce p'" for p p' :: presented_client_auth
  by (cases p; cases p') (auto simp: signed_word_eqI)

subsection \<open>Texts of one clean line\<close>

text \<open>A string without control characters; in particular without a line break.\<close>

definition clean :: "string \<Rightarrow> bool" where
  "clean s \<longleftrightarrow> (\<exists>cs. list_all (\<lambda>c. scalar c \<and> \<not> is_control c) cs \<and> s = of_chars cs)"

lemma clean_chars: "clean s \<Longrightarrow> c \<in> set (chars s) \<Longrightarrow> \<not> is_control c"
  unfolding clean_def by (metis (mono_tags, lifting) chars_of_chars list_all_iff)

lemma clean_Nil [simp]: "clean []"
  by (auto simp: clean_def of_chars_def intro!: exI [of _ "[]"])

lemma clean_append [simp]: "clean s \<Longrightarrow> clean t \<Longrightarrow> clean (s @ t)"
  unfolding clean_def by (metis (no_types, lifting) concat_append list_all_append map_append of_chars_def)

lemma clean_Cons [simp]:
  assumes "0x20 \<le> (of_char c :: nat)" "(of_char c :: nat) < 0x7F" "clean s"
  shows "clean (c # s)"
proof -
  have "of_chars [of_char c] = [c]" using assms(2) of_chars_ascii [of "[c]"] by (simp add: ascii_def)
  then have "clean [c]" unfolding clean_def using assms(1,2)
    by (intro exI [of _ "[of_char c]"]) (simp add: scalar_def is_control_def)
  from clean_append [OF this assms(3)] show ?thesis by simp
qed

lemma clean_concat [simp]: "(\<And>x. x \<in> set xs \<Longrightarrow> clean (f x)) \<Longrightarrow> clean (concat (map f xs))"
  by (induction xs) simp_all

lemma clean_ascii: "\<forall>c \<in> set s. 0x20 \<le> (of_char c :: nat) \<and> (of_char c :: nat) < 0x7F \<Longrightarrow> clean s"
  by (induction s) simp_all

lemma clean_join: "clean sep \<Longrightarrow> \<forall>t \<in> set ts. clean t \<Longrightarrow> clean (join sep ts)"
  by (cases ts) (simp_all add: join_Cons)

lemma clean_hex_nat [simp]: "clean (hex_nat n)"
proof (induction n rule: hex_nat.induct)
  case (1 n)
  have "clean [hex_digit m]" if "m < 16" for m
    using of_char_hex_digit [OF that] that by (intro clean_Cons) (simp_all split: if_splits)
  then show ?case using 1 by (simp add: hex_nat.simps [of n])
qed

definition unicode_tables :: "(codepoint \<Rightarrow> bool) \<Rightarrow> bool" where
  "unicode_tables plain \<longleftrightarrow> (\<forall>c. plain c \<longrightarrow> \<not> is_control c)"

lemma clean_debug_char:
  assumes "unicode_tables plain" "scalar c"
  shows "clean (debug_char plain c)"
proof (cases "shown_plain plain c \<and> c \<noteq> 0x22 \<and> c \<noteq> 0x5C")
  case True
  then have "\<not> is_control c" using assms(1) by (auto simp: shown_plain_def unicode_tables_def is_control_def split: if_splits)
  then have "clean (of_chars [c])" unfolding clean_def using assms(2) by (intro exI [of _ "[c]"]) simp
  then show ?thesis by (simp add: debug_char_def)
qed (auto simp: debug_char_def)

lemma clean_debug_str: "unicode_tables plain \<Longrightarrow> rust_str s \<Longrightarrow> clean (debug_str plain s)"
  using clean_debug_char rust_str_chars by (simp add: debug_str_def list_all_iff)

lemma clean_debug_list: "(\<And>x. clean (f x)) \<Longrightarrow> clean (debug_list f xs)"
  by (simp add: debug_list_def clean_join)

lemma clean_debug_struct:
  assumes "clean name" "\<forall>f \<in> set fs. clean (fst f) \<and> clean (snd f)"
  shows "clean (debug_struct name fs)"
proof -
  have "\<forall>t \<in> set (map (\<lambda>(n, v). n @ '': '' @ v) fs). clean t" using assms(2) by auto
  then show ?thesis using assms(1) clean_join [of "'', ''"] by (simp add: debug_struct_def)
qed

lemma clean_nat_str: "clean (nat_str n)"
  by (rule clean_ascii) (auto dest: nat_str_digit)

lemma clean_int_str: "clean (int_str i)"
  by (simp add: int_str_def clean_nat_str)

lemma clean_debug_role: "clean (debug_role r)"
  by (cases r) simp_all

lemmas clean_intros = clean_debug_str clean_debug_list clean_nat_str clean_int_str clean_debug_role

subsection \<open>Properties\<close>

text \<open>Claim C37.  The \<open>Debug\<close> texts keep the secrets out and everything else apart.  Two enrolment
  requests have the same text exactly if they agree on the client name and the public key, whatever
  their keys; so for the signature of a request, the password of a user and the document of a record,
  and a stamp is shown by its reference alone.  The text of the other fields is unambiguous
  (no value can imitate the end of its field) and holds no control character, so a hostile name cannot
  forge a line of the log.\<close>

theorem debug_redacts:
  assumes "unicode_tables plain"
    and "\<forall>s \<in> {enr_client_name a, enr_client_name a', pca_client_id p, pca_client_id p', pca_nonce p, pca_nonce p',
      nu_username n, nu_username n', rec_id r, rec_id r'}. rust_str s"
  shows "(debug_enrollment plain a = debug_enrollment plain a' \<longleftrightarrow>
      enr_client_name a = enr_client_name a' \<and> enr_public_key a = enr_public_key a') \<and>
    (debug_presented plain p = debug_presented plain p' \<longleftrightarrow> p\<lparr>pca_signature := []\<rparr> = p'\<lparr>pca_signature := []\<rparr>) \<and>
    (debug_new_user plain n = debug_new_user plain n' \<longleftrightarrow> nu_username n = nu_username n' \<and> nu_roles n = nu_roles n') \<and>
    (debug_record plain r = debug_record plain r' \<longleftrightarrow> rec_id r = rec_id r') \<and>
    (debug_stamp E s = debug_stamp E s' \<longleftrightarrow> stamp_ref E s = stamp_ref E s') \<and>
    (\<forall>t \<in> {debug_enrollment plain a, debug_presented plain p, debug_new_user plain n, debug_record plain r}.
      \<forall>c \<in> set (chars t). \<not> is_control c)"
proof (intro conjI)
  have str: "\<And>t. t \<in> {enr_client_name a, pca_client_id p, pca_nonce p, nu_username n, rec_id r, REDACTED} \<Longrightarrow> clean (debug_str plain t)"
    using assms clean_debug_str rust_str_ascii [of REDACTED] by (auto simp: REDACTED_def ascii_def)
  then have "clean (debug_enrollment plain a)" "clean (debug_presented plain p)" "clean (debug_new_user plain n)"
    "clean (debug_record plain r)"
    unfolding debug_enrollment_def debug_presented_def debug_new_user_def debug_record_def debug_bytes_def
    by (intro clean_debug_struct; simp add: clean_intros)+
  then show "\<forall>t \<in> {debug_enrollment plain a, debug_presented plain p, debug_new_user plain n, debug_record plain r}.
      \<forall>c \<in> set (chars t). \<not> is_control c" using clean_chars by blast
qed (use assms(2) in \<open>auto simp: debug_enrollment_def debug_presented_def debug_new_user_def debug_record_def debug_stamp_def
  debug_bytes_def debug_struct_def debug_readable same_but_signature\<close>)

lemma debug_redacts_witness:
  "debug_new_user (\<lambda>_. False) \<lparr>nu_username = ''bob'', nu_password = ''x'', nu_roles = [Admin]\<rparr> =
   debug_new_user (\<lambda>_. False) \<lparr>nu_username = ''bob'', nu_password = ''y'', nu_roles = [Admin]\<rparr> \<and>
   debug_enrollment (\<lambda>_. False) \<lparr>enr_api_key = ''k'', enr_client_name = ''web'', enr_public_key = [1, 2]\<rparr> \<noteq>
   debug_enrollment (\<lambda>_. False) \<lparr>enr_api_key = ''k'', enr_client_name = ''web'', enr_public_key = [12]\<rparr>"
proof -
  let ?a = "\<lambda>k. \<lparr>enr_api_key = ''k'', enr_client_name = ''web'', enr_public_key = k\<rparr>"
  let ?n = "\<lambda>w. \<lparr>nu_username = ''bob'', nu_password = w, nu_roles = [Admin]\<rparr>"
  let ?p = "\<lparr>pca_client_id = [], pca_canonical_request = [], pca_signature = [], pca_timestamp = 0, pca_nonce = []\<rparr>"
  let ?r = "\<lparr>rec_id = [], rec_doc = ()\<rparr>"
  have "rust_str ''web''" "rust_str ''bob''" "rust_str []" by (simp_all add: rust_str_ascii ascii_def)
  then show ?thesis
    using debug_redacts [of "\<lambda>_. False" "?a [1, 2]" "?a [12]" ?p ?p "?n ''x''" "?n ''y''" ?r ?r undefined "[]" "[]"]
    by (simp add: unicode_tables_def)
qed

text \<open>A name with a quote, a line break and a delete character: each is escaped.\<close>

lemma debug_example:
  "debug_new_user (\<lambda>_. False)
     \<lparr>nu_username = [CHR ''b'', CHR 0x22, CHR 0x0A, CHR 0x7F], nu_password = ''x'', nu_roles = [Operator, Admin]\<rparr> =
   ''NewUser { username: '' @ [CHR 0x22, CHR ''b'', CHR 0x5C, CHR 0x22, CHR 0x5C, CHR ''n'', CHR 0x5C] @ ''u{7f}'' @ [CHR 0x22] @
     '', password: '' @ [CHR 0x22] @ ''<redacted>'' @ [CHR 0x22] @ '', roles: [Operator, Admin] }''"
  by code_simp

end
