(* ===== verification/Pipeline_Faults.thy ===== *)
theory Pipeline_Faults
  imports Pipeline_Threads Kanban_Connections
begin

text \<open>
  The pipeline of \<open>src/pipeline.rs\<close> on stores whose statements fail, while others use the board.  Each board
  call takes effect as a whole or returns an error and changes nothing, \<open>own_task_board\<close>; this holds of the
  SQLite board whatever statements fail, and of the same board shared with others that leave the task alone.
  The run drops some of the errors (\<^verbatim>\<open>.ok()\<close>), so its report can be ahead of the board, and the results here
  say by how much.
\<close>

subsection \<open>The contract\<close>

locale own_task_board =
  fixes K :: "'b kanban_board"
    and binv :: "'b \<Rightarrow> bool"
    and own :: "'b \<Rightarrow> task option"
    and tid :: uuid
  assumes create_fault: "binv b \<Longrightarrow> kb_create K tid now nt b = (i, b') \<Longrightarrow>
      binv b' \<and> ((\<exists>e. i = Inl e) \<and> own b' = own b \<or> i = Inr tid \<and> own b' = Some (created tid now nt))"
    and transition_fault: "binv b \<Longrightarrow> kb_transition K now tid to a why b = (q, b') \<Longrightarrow>
      binv b' \<and> ((\<exists>e. q = Inl e) \<and> own b' = own b \<or>
        (\<exists>t. q = Inr () \<and> own b = Some t \<and> is_legal_transition (t_state t) to \<and> own b' = Some (moved now to a why t)))"
    and claim_fault: "binv b \<Longrightarrow> kb_claim K tid w b = (q, b') \<Longrightarrow>
      binv b' \<and> ((\<exists>e. q = Inl e) \<and> own b' = own b \<or>
        (\<exists>t. q = Inr () \<and> own b = Some t \<and> t_state t = Ready \<and> own b' = Some (t\<lparr>t_actor := Some w\<rparr>)))"
    and block_fault: "binv b \<Longrightarrow> kb_block K now tid a br b = (q, b') \<Longrightarrow>
      binv b' \<and> ((\<exists>e. q = Inl e) \<and> own b' = own b \<or>
        (\<exists>t. q = Inr () \<and> own b = Some t \<and> is_legal_transition (t_state t) Blocked \<and> own b' = Some (blocked now a br t)))"

subsection \<open>The SQLite board keeps it, whatever fails\<close>

text \<open>No transaction is open and commits succeed; statements may fail, and the mutex may be poisoned.\<close>

definition faulty_inv :: "'x kanban_codec_scheme \<Rightarrow> kanban_db conn \<Rightarrow> bool" where
  "faulty_inv cdc c \<longleftrightarrow> kan_ok cdc \<and> wf_db cdc (c_db c) \<and> c_saved c = None \<and> c_commits c = []"

fun sqlite_op :: "'x kanban_codec_scheme \<Rightarrow> kanban_op \<Rightarrow> unit kanban_io" where
  "sqlite_op cdc (KCreate tid now nt) = bindE (kanban_create cdc tid now nt) (\<lambda>_. retE ())"
| "sqlite_op cdc (KTransition now tid to a r) = kanban_transition cdc now tid to a r"
| "sqlite_op cdc (KClaim tid w) = kanban_claim cdc tid w"
| "sqlite_op cdc (KBlock now tid a br) = kanban_block cdc now tid a br"

lemma poisoned_call: "c_poisoned c \<Longrightarrow> \<exists>e. sqlite_op cdc op c = (Inl e, c)"
  by (cases op) (auto simp: kanban_create_def kanban_transition_def kanban_claim_def kanban_block_def in_transaction_def
      bindE_def kanban_lock_def lock_conn_def)

lemma in_transaction_effect:
  assumes "faulty_inv cdc c" "tx_body cdc op = Some m" "in_transaction m c = (q, c')"
  shows "faulty_inv cdc c' \<and> ((\<exists>e. q = Inl e) \<and> c_db c' = c_db c \<or>
    q = Inr () \<and> takes_effect op (board_of cdc (c_db c)) \<and> board_of cdc (c_db c') = spec_step op (board_of cdc (c_db c)))"
proof -
  have c: "kan_ok cdc" "wf_db cdc (c_db c)" "c_saved c = None" "c_commits c = []" using assms(1) by (simp_all add: faulty_inv_def)
  have "keeps same_tx m" using tx_body_keeps [OF assms(2)] by (simp add: keeps_def) (metis prod.collapse)
  from in_transaction_cases [OF this c(3) assms(3)] show ?thesis
  proof
    assume "\<exists>a c0 c1. q = Inr a \<and> c_db c0 = c_db c \<and> c_saved c1 = Some (c_db c) \<and> c_commits c1 = c_commits c \<and>
       m c0 = (Inr a, c1) \<and> c' = snd (sql_commit c1)"
    then obtain c0 c1 where run: "q = Inr ()" "c_db c0 = c_db c" "c_commits c1 = []" "m c0 = (Inr (), c1)" "c' = snd (sql_commit c1)"
      using c(4) by auto
    have "takes_effect op (board_of cdc (c_db c)) \<and> board_of cdc (c_db c1) = spec_step op (board_of cdc (c_db c)) \<and> wf_db cdc (c_db c1)"
      using tx_body_effect [OF c(1) assms(2) _ run(4)] c(2) run(2) by simp
    moreover have "c_db c' = c_db c1" "c_saved c' = None" "c_commits c' = []" using run(3,5) by (simp_all add: sql_commit_def)
    ultimately show ?thesis using run(1) c(1) by (auto simp: faulty_inv_def)
  qed (use c in \<open>auto simp: faulty_inv_def\<close>)
qed

lemma single_statement_keeps: "one_statement cdc op = Some m \<Longrightarrow> keeps same_tx m"
proof (cases op)
  case (KCreate tid now nt)
  moreover have "keeps same_tx (bindE (kanban_create cdc tid now nt) (\<lambda>_. retE ()))"
    unfolding kanban_create_def kanban_lock_def sqlio_def lock_conn_def
    by (intro frame keeps_tx) (auto simp: keeps_def)
  ultimately show "one_statement cdc op = Some m \<Longrightarrow> keeps same_tx m" by simp
next
  case (KClaim tid w)
  moreover have "keeps same_tx (kanban_claim cdc tid w)"
    unfolding kanban_claim_def kanban_lock_def sqlio_def lock_conn_def
    by (intro frame keeps_tx) (auto simp: keeps_def)
  ultimately show "one_statement cdc op = Some m \<Longrightarrow> keeps same_tx m" by simp
qed simp_all

lemma single_statement_effect:
  assumes "faulty_inv cdc c" "\<not> c_poisoned c" "one_statement cdc op = Some m" "m c = (q, c')"
  shows "faulty_inv cdc c' \<and> ((\<exists>e. q = Inl e) \<and> c_db c' = c_db c \<or>
    q = Inr () \<and> takes_effect op (board_of cdc (c_db c)) \<and> board_of cdc (c_db c') = spec_step op (board_of cdc (c_db c)))"
proof -
  have c: "kan_ok cdc" "wf_db cdc (c_db c)" "c_saved c = None" "c_commits c = []" using assms(1) by (simp_all add: faulty_inv_def)
  have "c = conn_with (c_db c) (c_faults c)" using assms(2) c(3,4) by (cases c) (simp add: conn_with_def conn_new_def)
  then have run: "m (conn_with (c_db c) (c_faults c)) = (q, c')" using assms(4) by simp
  have "same_tx c c'" using keepsD [OF single_statement_keeps [OF assms(3)] assms(4)] .
  then have tx: "c_saved c' = None" "c_commits c' = []" using c(3,4) by (simp_all add: same_tx_def)
  show ?thesis
  proof (cases q)
    case (Inl e)
    then show ?thesis using one_statement_refused [OF assms(3)] run tx c by (auto simp: faulty_inv_def)
  next
    case (Inr u)
    then show ?thesis using one_statement_effect [OF c(1) assms(3) c(2)] run tx c(1) by (auto simp: faulty_inv_def)
  qed
qed

text \<open>All or nothing, for each of the four writes.\<close>

lemma sqlite_op_effect:
  assumes "faulty_inv cdc c" "sqlite_op cdc op c = (q, c')"
  shows "faulty_inv cdc c' \<and> ((\<exists>e. q = Inl e) \<and> c_db c' = c_db c \<or>
    q = Inr () \<and> takes_effect op (board_of cdc (c_db c)) \<and> board_of cdc (c_db c') = spec_step op (board_of cdc (c_db c)))"
proof (cases "c_poisoned c")
  case True
  then show ?thesis using poisoned_call [OF True, of cdc op] assms by auto
next
  case False
  show ?thesis
  proof (cases op)
    case (KCreate tid now nt)
    then show ?thesis using single_statement_effect [OF assms(1) False, of op _ q c'] assms(2) by simp
  next
    case (KTransition now tid to a r)
    then show ?thesis using in_transaction_effect [OF assms(1), of op _ q c'] assms(2) by (simp add: kanban_transition_def)
  next
    case (KClaim tid w)
    then show ?thesis using single_statement_effect [OF assms(1) False, of op _ q c'] assms(2) by simp
  next
    case (KBlock now tid a br)
    then show ?thesis using in_transaction_effect [OF assms(1), of op _ q c'] assms(2) by (simp add: kanban_block_def)
  qed
qed

lemma create_result:
  assumes "kanban_create cdc tid now nt c = (i, c')"
  shows "sqlite_op cdc (KCreate tid now nt) c = ((case i of Inl e \<Rightarrow> Inl e | Inr _ \<Rightarrow> Inr ()), c') \<and> (\<forall>v. i = Inr v \<longrightarrow> v = tid)"
  using assms by (auto simp: bindE_def kanban_create_def split: sum.splits prod.splits)

interpretation faulty_sqlite: own_task_board "sqlite_kanban cdc" "faulty_inv cdc" "\<lambda>c. board_of cdc (c_db c) tid" tid
  for cdc :: "'x kanban_codec_scheme" and tid :: uuid
proof unfold_locales
  fix b b' :: "kanban_db conn" and now nt i
  assume b: "faulty_inv cdc b" and run: "kb_create (sqlite_kanban cdc) tid now nt b = (i, b')"
  note r = create_result [OF run [unfolded sqlite_kanban_def, simplified]]
  from sqlite_op_effect [OF b conjunct1 [OF r]] conjunct2 [OF r]
  show "faulty_inv cdc b' \<and> ((\<exists>e. i = Inl e) \<and> board_of cdc (c_db b') tid = board_of cdc (c_db b) tid \<or>
      i = Inr tid \<and> board_of cdc (c_db b') tid = Some (created tid now nt))"
    by (cases i) (auto simp: spec_create_def)
next
  fix b b' :: "kanban_db conn" and now to a why q
  assume b: "faulty_inv cdc b" and run: "kb_transition (sqlite_kanban cdc) now tid to a why b = (q, b')"
  from sqlite_op_effect [OF b, of "KTransition now tid to a why" q b'] run
  show "faulty_inv cdc b' \<and> ((\<exists>e. q = Inl e) \<and> board_of cdc (c_db b') tid = board_of cdc (c_db b) tid \<or>
      (\<exists>t. q = Inr () \<and> board_of cdc (c_db b) tid = Some t \<and> is_legal_transition (t_state t) to \<and>
        board_of cdc (c_db b') tid = Some (moved now to a why t)))"
    by (auto simp: sqlite_kanban_def spec_transition_def split: option.splits if_splits sum.splits)
next
  fix b b' :: "kanban_db conn" and w q
  assume b: "faulty_inv cdc b" and run: "kb_claim (sqlite_kanban cdc) tid w b = (q, b')"
  from sqlite_op_effect [OF b, of "KClaim tid w" q b'] run
  show "faulty_inv cdc b' \<and> ((\<exists>e. q = Inl e) \<and> board_of cdc (c_db b') tid = board_of cdc (c_db b) tid \<or>
      (\<exists>t. q = Inr () \<and> board_of cdc (c_db b) tid = Some t \<and> t_state t = Ready \<and>
        board_of cdc (c_db b') tid = Some (t\<lparr>t_actor := Some w\<rparr>)))"
    by (auto simp: sqlite_kanban_def spec_claim_def split: option.splits if_splits)
next
  fix b b' :: "kanban_db conn" and now a br q
  assume b: "faulty_inv cdc b" and run: "kb_block (sqlite_kanban cdc) now tid a br b = (q, b')"
  from sqlite_op_effect [OF b, of "KBlock now tid a br" q b'] run
  show "faulty_inv cdc b' \<and> ((\<exists>e. q = Inl e) \<and> board_of cdc (c_db b') tid = board_of cdc (c_db b) tid \<or>
      (\<exists>t. q = Inr () \<and> board_of cdc (c_db b) tid = Some t \<and> is_legal_transition (t_state t) Blocked \<and>
        board_of cdc (c_db b') tid = Some (blocked now a br t)))"
    by (auto simp: sqlite_kanban_def spec_block_def split: option.splits if_splits)
qed

text \<open>Operations of others on other tasks, each with failures of its own, leave the task alone.\<close>

lemma others_leave:
  assumes "faulty_inv cdc c" "list_all (\<lambda>op. op_task op \<noteq> tid) ops"
  shows "faulty_inv cdc (fold (board_step (sqlite_kanban cdc)) ops c) \<and>
    board_of cdc (c_db (fold (board_step (sqlite_kanban cdc)) ops c)) tid = board_of cdc (c_db c) tid"
  using assms
proof (induction ops arbitrary: c)
  case (Cons op ops)
  let ?c = "board_step (sqlite_kanban cdc) op c"
  obtain q where q: "sqlite_op cdc op c = (q, ?c)"
  proof (cases op)
    case (KCreate i now nt)
    obtain r d where "kanban_create cdc i now nt c = (r, d)" by fastforce
    then show ?thesis using that create_result KCreate by (metis board_step.simps(1) kanban_board.select_convs(1) snd_conv sqlite_kanban_def)
  qed (use that in \<open>auto simp: sqlite_kanban_def prod_eq_iff\<close>)
  have "faulty_inv cdc ?c" "board_of cdc (c_db ?c) tid = board_of cdc (c_db c) tid"
    using sqlite_op_effect [OF Cons.prems(1) q] spec_step_frame [of op tid "board_of cdc (c_db c)"] Cons.prems(2) by auto
  then show ?case using Cons.IH [of ?c] Cons.prems(2) by simp
qed simp

definition left_alone :: "uuid \<Rightarrow> kanban_op list list \<Rightarrow> bool" where
  "left_alone tid others \<longleftrightarrow> list_all (\<lambda>op. op_task op \<noteq> tid) (concat others)"

lemma others_run_leave:
  assumes "faulty_inv cdc (fst x)" "left_alone tid (snd x)"
  shows "faulty_inv cdc (fst (others_run (sqlite_kanban cdc) x)) \<and> left_alone tid (snd (others_run (sqlite_kanban cdc) x)) \<and>
    board_of cdc (c_db (fst (others_run (sqlite_kanban cdc) x))) tid = board_of cdc (c_db (fst x)) tid"
proof (cases x)
  case (Pair b batches)
  then show ?thesis using assms others_leave [of cdc b tid]
    by (cases batches) (auto simp: left_alone_def)
qed

text \<open>A call that is all or nothing on the board alone is so on the shared one.\<close>

lemma after_others_keeps:
  assumes "faulty_inv cdc (fst x)" "left_alone tid (snd x)" "after_others (sqlite_kanban cdc) m x = (q, x')"
    and "\<And>b b'. faulty_inv cdc b \<Longrightarrow> m b = (q, b') \<Longrightarrow> faulty_inv cdc b' \<and> R (board_of cdc (c_db b) tid) (board_of cdc (c_db b') tid)"
  shows "(faulty_inv cdc (fst x') \<and> left_alone tid (snd x')) \<and> R (board_of cdc (c_db (fst x)) tid) (board_of cdc (c_db (fst x')) tid)"
proof -
  obtain b1 later where o: "others_run (sqlite_kanban cdc) x = (b1, later)" by fastforce
  obtain r b2 where m: "m b1 = (r, b2)" by fastforce
  have "q = r" "x' = (b2, later)" using assms(3) o m by (simp_all add: after_others_def)
  moreover have "faulty_inv cdc b1" "left_alone tid later" "board_of cdc (c_db b1) tid = board_of cdc (c_db (fst x)) tid"
    using others_run_leave [OF assms(1,2)] o by simp_all
  ultimately show ?thesis using assms(4) [of b1 b2] m by simp
qed

interpretation faulty_shared: own_task_board "shared_kanban (sqlite_kanban cdc)"
    "\<lambda>x. faulty_inv cdc (fst x) \<and> left_alone tid (snd x)" "\<lambda>x. board_of cdc (c_db (fst x)) tid" tid
  for cdc :: "'x kanban_codec_scheme" and tid :: uuid
proof unfold_locales
  fix b b' :: "kanban_db conn \<times> kanban_op list list" and now nt i
  assume b: "faulty_inv cdc (fst b) \<and> left_alone tid (snd b)" and run: "kb_create (shared_kanban (sqlite_kanban cdc)) tid now nt b = (i, b')"
  have "after_others (sqlite_kanban cdc) (kb_create (sqlite_kanban cdc) tid now nt) b = (i, b')"
    using run by (simp add: shared_kanban_def)
  from after_others_keeps [OF conjunct1 [OF b] conjunct2 [OF b] this,
      of "\<lambda>o1 o2. (\<exists>e. i = Inl e) \<and> o2 = o1 \<or> i = Inr tid \<and> o2 = Some (created tid now nt)"] faulty_sqlite.create_fault
  show "(faulty_inv cdc (fst b') \<and> left_alone tid (snd b')) \<and>
      ((\<exists>e. i = Inl e) \<and> board_of cdc (c_db (fst b')) tid = board_of cdc (c_db (fst b)) tid \<or>
       i = Inr tid \<and> board_of cdc (c_db (fst b')) tid = Some (created tid now nt))" by blast
next
  fix b b' :: "kanban_db conn \<times> kanban_op list list" and now to a why q
  assume b: "faulty_inv cdc (fst b) \<and> left_alone tid (snd b)" and run: "kb_transition (shared_kanban (sqlite_kanban cdc)) now tid to a why b = (q, b')"
  have "after_others (sqlite_kanban cdc) (kb_transition (sqlite_kanban cdc) now tid to a why) b = (q, b')"
    using run by (simp add: shared_kanban_def)
  from after_others_keeps [OF conjunct1 [OF b] conjunct2 [OF b] this,
      of "\<lambda>o1 o2. (\<exists>e. q = Inl e) \<and> o2 = o1 \<or> (\<exists>t. q = Inr () \<and> o1 = Some t \<and> is_legal_transition (t_state t) to \<and> o2 = Some (moved now to a why t))"]
      faulty_sqlite.transition_fault
  show "(faulty_inv cdc (fst b') \<and> left_alone tid (snd b')) \<and>
      ((\<exists>e. q = Inl e) \<and> board_of cdc (c_db (fst b')) tid = board_of cdc (c_db (fst b)) tid \<or>
       (\<exists>t. q = Inr () \<and> board_of cdc (c_db (fst b)) tid = Some t \<and> is_legal_transition (t_state t) to \<and>
         board_of cdc (c_db (fst b')) tid = Some (moved now to a why t)))" by blast
next
  fix b b' :: "kanban_db conn \<times> kanban_op list list" and w q
  assume b: "faulty_inv cdc (fst b) \<and> left_alone tid (snd b)" and run: "kb_claim (shared_kanban (sqlite_kanban cdc)) tid w b = (q, b')"
  have "after_others (sqlite_kanban cdc) (kb_claim (sqlite_kanban cdc) tid w) b = (q, b')"
    using run by (simp add: shared_kanban_def)
  from after_others_keeps [OF conjunct1 [OF b] conjunct2 [OF b] this,
      of "\<lambda>o1 o2. (\<exists>e. q = Inl e) \<and> o2 = o1 \<or> (\<exists>t. q = Inr () \<and> o1 = Some t \<and> t_state t = Ready \<and> o2 = Some (t\<lparr>t_actor := Some w\<rparr>))"]
      faulty_sqlite.claim_fault
  show "(faulty_inv cdc (fst b') \<and> left_alone tid (snd b')) \<and>
      ((\<exists>e. q = Inl e) \<and> board_of cdc (c_db (fst b')) tid = board_of cdc (c_db (fst b)) tid \<or>
       (\<exists>t. q = Inr () \<and> board_of cdc (c_db (fst b)) tid = Some t \<and> t_state t = Ready \<and>
         board_of cdc (c_db (fst b')) tid = Some (t\<lparr>t_actor := Some w\<rparr>)))" by blast
next
  fix b b' :: "kanban_db conn \<times> kanban_op list list" and now a br q
  assume b: "faulty_inv cdc (fst b) \<and> left_alone tid (snd b)" and run: "kb_block (shared_kanban (sqlite_kanban cdc)) now tid a br b = (q, b')"
  have "after_others (sqlite_kanban cdc) (kb_block (sqlite_kanban cdc) now tid a br) b = (q, b')"
    using run by (simp add: shared_kanban_def)
  from after_others_keeps [OF conjunct1 [OF b] conjunct2 [OF b] this,
      of "\<lambda>o1 o2. (\<exists>e. q = Inl e) \<and> o2 = o1 \<or> (\<exists>t. q = Inr () \<and> o1 = Some t \<and> is_legal_transition (t_state t) Blocked \<and> o2 = Some (blocked now a br t))"]
      faulty_sqlite.block_fault
  show "(faulty_inv cdc (fst b') \<and> left_alone tid (snd b')) \<and>
      ((\<exists>e. q = Inl e) \<and> board_of cdc (c_db (fst b')) tid = board_of cdc (c_db (fst b)) tid \<or>
       (\<exists>t. q = Inr () \<and> board_of cdc (c_db (fst b)) tid = Some t \<and> is_legal_transition (t_state t) Blocked \<and>
         board_of cdc (c_db (fst b')) tid = Some (blocked now a br t)))" by blast
qed

subsection \<open>Runs\<close>

text \<open>The task of a run where it stands: in a state, never blocked so far.\<close>

definition stands :: "string \<Rightarrow> task_state \<Rightarrow> task option \<Rightarrow> bool" where
  "stands title st own \<longleftrightarrow>
     (\<exists>t. own = Some t \<and> t_title t = title \<and> t_state t = st \<and> t_block_reason t = None)"

definition blocked_for :: "string \<Rightarrow> string \<Rightarrow> task option \<Rightarrow> bool" where
  "blocked_for title why own \<longleftrightarrow>
     (\<exists>t. own = Some t \<and> t_title t = title \<and> t_state t = Blocked \<and> map_option br_reason (t_block_reason t) = Some why)"

text \<open>How far a report can be ahead of the task.\<close>

definition report_holds :: "uuid \<Rightarrow> string \<Rightarrow> pipeline_outcome \<Rightarrow> task option \<Rightarrow> bool" where
  "report_holds tid title out own \<longleftrightarrow>
     (case out of
        PDone i result \<Rightarrow> i = tid \<and> (stands title Done own \<or> stands title Running own)
      | PStopped i \<Rightarrow> i = tid \<and> (blocked_for title ''stopped by human'' own \<or> stands title Running own)
      | PBlocked i why \<Rightarrow>
          i = 0 \<and> own = None \<or>
          i = tid \<and> (blocked_for title why own \<or> (\<exists>st. st \<in> {Backlog, Todo, Ready, Running} \<and> stands title st own)))"

lemma stands_created: "stands (nt_title nt) Backlog (Some (created tid now nt))"
  by (simp add: stands_def created_def)

lemma stands_claimed: "stands title st (Some t) \<Longrightarrow> stands title st (Some (t\<lparr>t_actor := Some w\<rparr>))"
  by (simp add: stands_def)

lemma stands_moved: "stands title st (Some t) \<Longrightarrow> stands title to (Some (moved now to a why t))"
  by (simp add: stands_def moved_def)

lemma stands_blocked: "stands title st (Some t) \<Longrightarrow> blocked_for title (br_reason br) (Some (blocked now a br t))"
  by (simp add: stands_def blocked_for_def blocked_def)

lemma stands_unique: "stands title st (Some t) \<Longrightarrow> t_state t = st"
  by (simp add: stands_def)

lemma legal_to_blocked: "is_legal_transition st Blocked \<longleftrightarrow> st = Running"
  by (cases st) simp_all

locale faulty_pipeline = own_task_board K binv own tid
  for K :: "'b kanban_board" and binv :: "'b \<Rightarrow> bool" and own :: "'b \<Rightarrow> task option" and tid :: uuid +
  fixes L :: "'l call_logger"
    and entries :: "'l \<Rightarrow> 'r list"
    and entry :: "call_log \<Rightarrow> 'r"
    and P :: "('b, 'l, 'p, 'h) pipeline"
  assumes record_fault: "lg_record L e l = (q, l') \<Longrightarrow> entries l' = entries l \<or> entries l' = entries l @ [entry e]"
    and uses_faulty: "pl_kanban P = K" "pl_logger P = L"
begin

lemma moves_fault:
  assumes "binv (ps_board s)" "stands title st (own (ps_board s))" "agent_moves P now tid to why s = (q, s')"
  shows "binv (ps_board s') \<and> ps_log s' = ps_log s \<and>
    ((\<exists>e. q = Inl e) \<and> stands title st (own (ps_board s')) \<or> q = Inr () \<and> stands title to (own (ps_board s')))"
proof -
  obtain b where b: "kb_transition K now tid to (pl_agent_id P) why (ps_board s) = (q, b)" "s' = s\<lparr>ps_board := b\<rparr>"
    using assms(3) by (auto simp: agent_moves_def uses_faulty split: prod.splits)
  show ?thesis using transition_fault [OF assms(1) b(1)] b(2) assms(2) by (auto intro: stands_moved)
qed

lemma block_task_fault:
  assumes "binv (ps_board s)" "stands title st (own (ps_board s))"
  shows "binv (ps_board (block_task P now tid why s))" "ps_log (block_task P now tid why s) = ps_log s"
    "stands title st (own (ps_board (block_task P now tid why s))) \<or>
     st = Running \<and> blocked_for title why (own (ps_board (block_task P now tid why s)))"
proof -
  let ?br = "\<lparr>br_reason = why, br_blocked_by = ByHuman ''human:cli''\<rparr>"
  obtain q b where b: "kb_block K now tid (pl_agent_id P) ?br (ps_board s) = (q, b)" by fastforce
  have s': "block_task P now tid why s = s\<lparr>ps_board := b\<rparr>" using b by (simp add: block_task_def uses_faulty)
  from block_fault [OF assms(1) b] show "binv (ps_board (block_task P now tid why s))"
    "ps_log (block_task P now tid why s) = ps_log s"
    "stands title st (own (ps_board (block_task P now tid why s))) \<or>
     st = Running \<and> blocked_for title why (own (ps_board (block_task P now tid why s)))"
    using assms(2) stands_blocked [of title st _ ?br] by (auto simp: s' legal_to_blocked dest: stands_unique)
qed

text \<open>A run that gives up before \<open>Running\<close> asks for a block the board always refuses.\<close>

lemma early_block_fault:
  assumes "binv (ps_board s)" "stands title st (own (ps_board s))" "st \<noteq> Running"
    and "record_blocked P now tid why s = (out, s')"
  shows "binv (ps_board s') \<and> ps_log s' = ps_log s \<and> out = PBlocked tid why \<and> stands title st (own (ps_board s'))"
  using block_task_fault [OF assms(1,2), of now why] assms(3,4) by (auto simp: record_blocked_def)

definition start_holds :: "string \<Rightarrow> pipeline_outcome + uuid \<Rightarrow> task option \<Rightarrow> bool" where
  "start_holds title r o1 \<longleftrightarrow>
     (case r of
        Inl (PBlocked i why) \<Rightarrow>
          i = 0 \<and> o1 = None \<or> i = tid \<and> (\<exists>st. st \<in> {Backlog, Todo, Ready} \<and> stands title st o1)
      | Inl _ \<Rightarrow> False
      | Inr i \<Rightarrow> i = tid \<and> stands title Running o1)"

lemma gives_up:
  assumes "binv (ps_board s)" "stands title st (own (ps_board s))" "st \<in> {Backlog, Todo, Ready}"
    and "(r, s') = apfst Inl (record_blocked P now tid why s)"
  shows "binv (ps_board s') \<and> ps_log s' = ps_log s \<and> start_holds title r (own (ps_board s'))"
proof -
  have "st \<noteq> Running" using assms(3) by auto
  moreover obtain out s1 where "record_blocked P now tid why s = (out, s1)" by fastforce
  ultimately show ?thesis using early_block_fault [OF assms(1,2)] assms(3,4)
    by (fastforce simp: start_holds_def)
qed

text \<open>The last two steps of the start, from \<open>Ready\<close>.\<close>

lemma claim_and_run_fault:
  assumes "binv (ps_board s2)" "stands title Ready (own (ps_board s2))"
    and "(r, s') = (case kb_claim K tid (pl_agent_id P) (ps_board s2) of
            (Inl e, b3) \<Rightarrow>
              apfst Inl (record_blocked P (clock 3) tid (why e) (s2\<lparr>ps_board := b3\<rparr>))
          | (Inr _, b3) \<Rightarrow>
         (case agent_moves P (clock 3) tid Running None (s2\<lparr>ps_board := b3\<rparr>) of
            (Inl e, s4) \<Rightarrow> apfst Inl (record_blocked P (clock 4) tid ''running transition failed'' s4)
          | (Inr _, s4) \<Rightarrow> (Inr tid, s4)))"
  shows "binv (ps_board s') \<and> ps_log s' = ps_log s2 \<and> start_holds title r (own (ps_board s'))"
proof -
  obtain r3 b3 where c3: "kb_claim K tid (pl_agent_id P) (ps_board s2) = (r3, b3)" by fastforce
  let ?s3 = "s2\<lparr>ps_board := b3\<rparr>"
  have 3: "binv (ps_board ?s3)" "stands title Ready (own (ps_board ?s3))"
    using claim_fault [OF assms(1) c3] assms(2) by (auto intro: stands_claimed)
  show ?thesis
  proof (cases r3)
    case (Inl e)
    then show ?thesis using gives_up [OF 3, of r s' "clock 3" "why e"] assms(3) c3 by simp
  next
    case r3: (Inr u)
    obtain r4 s4 where c4: "agent_moves P (clock 3) tid Running None ?s3 = (r4, s4)" by fastforce
    note 4 = moves_fault [OF 3 c4]
    show ?thesis
    proof (cases r4)
      case (Inl e)
      then show ?thesis using gives_up [of s4 title Ready r s' "clock 4" "''running transition failed''"] assms(3) c3 r3 c4 4 by simp
    next
      case (Inr v)
      then show ?thesis using assms(3) c3 r3 c4 4 by (auto simp: start_holds_def)
    qed
  qed
qed

lemma start_fault:
  assumes "binv (ps_board s)" "own (ps_board s) = None" "start_task us P clock tid title s = (r, s')"
  shows "binv (ps_board s') \<and> ps_log s' = ps_log s \<and> start_holds title r (own (ps_board s'))"
proof -
  let ?nt = "\<lparr>nt_title = title, nt_actor = pl_agent_id P, nt_depends_on = []\<rparr>"
  obtain r0 b0 where c0: "kb_create K tid (clock 0) ?nt (ps_board s) = (r0, b0)" by fastforce
  note run = assms(3) [unfolded start_task_def uses_faulty c0]
  have 0: "binv b0" "(\<exists>e. r0 = Inl e) \<and> own b0 = None \<or> r0 = Inr tid \<and> own b0 = Some (created tid (clock 0) ?nt)"
    using create_fault [OF assms(1) c0] assms(2) by auto
  show ?thesis
  proof (cases r0)
    case (Inl e)
    then show ?thesis using run 0 by (auto simp: start_holds_def)
  next
    case (Inr i0)
    let ?s0 = "s\<lparr>ps_board := b0\<rparr>"
    have i0: "r0 = Inr tid" "stands title Backlog (own (ps_board ?s0))" "binv (ps_board ?s0)"
      using Inr 0 stands_created [of ?nt] by auto
    obtain r1 s1 where c1: "agent_moves P (clock 1) tid Todo None ?s0 = (r1, s1)" by fastforce
    note 1 = moves_fault [OF i0(3,2) c1]
    show ?thesis
    proof (cases r1)
      case (Inl e)
      then show ?thesis using gives_up [of s1 title Backlog r s' "clock 2" "''transition to todo failed''"] run i0(1) c1 1 by simp
    next
      case r1: (Inr u)
      obtain r2 s2 where c2: "agent_moves P (clock 2) tid Ready None s1 = (r2, s2)" by fastforce
      have s1: "binv (ps_board s1)" "stands title Todo (own (ps_board s1))" "ps_log s1 = ps_log s" using 1 r1 by auto
      note 2 = moves_fault [OF s1(1,2) c2]
      show ?thesis
      proof (cases r2)
        case (Inl e)
        then show ?thesis using gives_up [of s2 title Todo r s' "clock 3" "''transition to ready failed''"] run i0(1) c1 r1 c2 2 s1(3) by simp
      next
        case r2: (Inr u)
        then have s2: "binv (ps_board s2)" "stands title Ready (own (ps_board s2))" "ps_log s2 = ps_log s" using 2 s1(3) by auto
        show ?thesis
          using claim_and_run_fault [OF s2(1,2), of r s' clock "\<lambda>e. ''claim failed: '' @ kanban_error_str us e"] run i0(1) c1 r1 c2 r2 s2(3)
          by (simp add: uses_faulty)
      qed
    qed
  qed
qed

lemma execute_fault:
  assumes "execute_llm J P now tid prompt s = (x, s')"
  shows "ps_board s' = ps_board s \<and>
    (entries (ps_log s') = entries (ps_log s) \<or> (\<exists>e. cl_task e = tid \<and> entries (ps_log s') = entries (ps_log s) @ [entry e]))"
proof -
  have log: "entries (snd (lg_record L e l)) = entries l \<or> entries (snd (lg_record L e l)) = entries l @ [entry e]" for e l
    using record_fault [of e l] by (cases "lg_record L e l") auto
  let ?req = "\<lparr>req_messages = [msg_system (system_prompt (pl_profile P)), msg_user prompt],
      max_output_tokens = tp_max_output_tokens (pl_profile P), req_model = tp_model (pl_profile P)\<rparr>"
  obtain answer p where a: "pl_provider P ?req (ps_provider s) = (answer, p)" by fastforce
  let ?e = "case answer of Inr resp \<Rightarrow> make_call_log P now tid (resp_usage resp) Completed
      | Inl er \<Rightarrow> make_call_log P now tid zero_usage (Failed (provider_error_str er))"
  have "s' = s\<lparr>ps_provider := p, ps_log := snd (lg_record L ?e (ps_log s))\<rparr>"
    using assms a by (auto simp: execute_llm_def Let_def uses_faulty split: sum.splits)
  moreover have "cl_task ?e = tid" by (simp add: make_call_log_def split: sum.split)
  ultimately show ?thesis using log [of ?e "ps_log s"] by auto
qed

lemma handle_fault:
  assumes "binv (ps_board s)" "stands title Running (own (ps_board s))" "handle_blocked P now tid title' why s = (out, s')"
  shows "binv (ps_board s') \<and> ps_log s' = ps_log s \<and> report_holds tid title out (own (ps_board s'))"
proof -
  obtain answer h where a: "pl_escalation P (blocked_escalation tid title' why) (ps_human s) = (answer, h)" by fastforce
  let ?s = "s\<lparr>ps_human := h\<rparr>"
  have s: "binv (ps_board ?s)" "stands title Running (own (ps_board ?s))" using assms(1,2) by simp_all
  consider why' where "out = PBlocked tid why'" "s' = block_task P now tid why' ?s"
    | "out = PStopped tid" "s' = block_task P now tid ''stopped by human'' ?s"
    | said where "out = PDone tid said" "s' = snd (agent_moves P now tid Done (Some ''skipped'') ?s)"
    using assms(3) a by (auto simp: handle_blocked_def record_blocked_def Let_def split: sum.splits human_response.splits if_splits)
  then show ?thesis
  proof cases
    case 1
    then show ?thesis using block_task_fault [OF s, of now why'] by (auto simp: report_holds_def)
  next
    case 2
    then show ?thesis using block_task_fault [OF s, of now "''stopped by human''"] by (auto simp: report_holds_def)
  next
    case 3
    obtain q where "agent_moves P now tid Done (Some ''skipped'') ?s = (q, s')" using 3(2) by (metis prod.collapse)
    from moves_fault [OF s this] show ?thesis using 3(1) by (auto simp: report_holds_def)
  qed
qed

lemma run_fault:
  assumes "binv (ps_board s)" "own (ps_board s) = None" "pipeline_run J us P clock tid title prompt s = (out, s')"
  shows "binv (ps_board s') \<and> report_holds tid title out (own (ps_board s')) \<and>
    (entries (ps_log s') = entries (ps_log s) \<or> (\<exists>e. cl_task e = tid \<and> entries (ps_log s') = entries (ps_log s) @ [entry e]))"
proof -
  obtain r s1 where st: "start_task us P clock tid title s = (r, s1)" by fastforce
  note 1 = start_fault [OF assms(1,2) st]
  show ?thesis
  proof (cases r)
    case (Inl out1)
    then have "out = out1" "s' = s1" using assms(3) st by (simp_all add: pipeline_run_def)
    then show ?thesis using 1 Inl by (auto simp: start_holds_def report_holds_def split: pipeline_outcome.splits)
  next
    case (Inr i)
    then have s1: "i = tid" "binv (ps_board s1)" "stands title Running (own (ps_board s1))" "ps_log s1 = ps_log s"
      using 1 by (simp_all add: start_holds_def)
    obtain bl msg s2 where ex: "execute_llm J P (clock 4) tid prompt s1 = ((bl, msg), s2)" by (metis prod.exhaust)
    note 2 = execute_fault [OF ex]
    have s2: "binv (ps_board s2)" "stands title Running (own (ps_board s2))" using 2 s1 by simp_all
    have "binv (ps_board s') \<and> ps_log s' = ps_log s2 \<and> report_holds tid title out (own (ps_board s'))"
    proof (cases bl)
      case True
      then show ?thesis using handle_fault [OF s2, of "clock 5" title msg out s'] assms(3) st Inr s1(1) ex
        by (simp add: pipeline_run_def)
    next
      case False
      then have r: "out = PDone tid msg" "s' = snd (agent_moves P (clock 5) tid Done (Some ''completed'') s2)"
        using assms(3) st Inr s1(1) ex by (auto simp: pipeline_run_def)
      obtain q where "agent_moves P (clock 5) tid Done (Some ''completed'') s2 = (q, s')" using r(2) by (metis prod.collapse)
      from moves_fault [OF s2 this] show ?thesis using r(1) by (auto simp: report_holds_def)
    qed
    then show ?thesis using 2 s1(4) by simp
  qed
qed

end

subsection \<open>The pipeline of \<open>main.rs\<close>, alone and shared\<close>

lemma record_call_fault:
  assumes "record_call cdc e l = (q, l')"
  shows "c_db l' = c_db l \<or> c_db l' = c_db l @ [log_row_of cdc e]"
  using assms same_data_fault [of l]
  by (auto simp: record_call_def logger_lock_def lock_conn_def map_err_def sql_exec_def bindE_def throwE_def same_data_def
      split: if_splits sum.splits prod.splits)

interpretation faulty_main: faulty_pipeline "sqlite_kanban cdc" "faulty_inv cdc" "\<lambda>c. board_of cdc (c_db c) tid" tid
    "sqlite_logger cdc'" c_db "log_row_of cdc'" "main_pipeline cdc cdc' provider escalate"
  for cdc :: "'x kanban_codec_scheme" and cdc' :: "'y codec_scheme" and tid :: uuid and provider escalate
  by unfold_locales (auto simp: sqlite_logger_def main_pipeline_def dest: record_call_fault)


subsection \<open>Properties\<close>


lemma fresh_failing_board:
  "wf_db demo_kanban_codec (c_db (empty_board\<lparr>c_faults := fs\<rparr>))" "c_saved (empty_board\<lparr>c_faults := fs\<rparr>) = None"
  "c_commits (empty_board\<lparr>c_faults := fs\<rparr>) = []" "board_of demo_kanban_codec (c_db (empty_board\<lparr>c_faults := fs\<rparr>)) = Map.empty"
  using empty_board_inv(1) [OF demo_kan_ok] empty_board_inv(2) [of demo_kanban_codec] by (simp_all add: kanban_inv_def healthy_def kanban_view_def empty_board_def conn_new_def)

lemmas failing_run_simps = main_pipeline_def sqlite_kanban_def kanban_create_def bindE_def kanban_lock_def empty_board_def
  conn_new_def lock_conn_def demo_kanban_codec_def demo_ser_deps_def sqlio_def map_err_def insert_task_def demo_start_def
  sql_exec_def sql_fault_def agent_moves_def kanban_transition_def in_transaction_def begin_immediate_def record_blocked_def


text \<open>Property.  The block that an early failure asks for never happens: \<open>Blocked\<close> is reached from \<open>Running\<close> only,
  so a run that fails before that reports \<open>Blocked\<close> with a reason while its task, if it was created, stays in
  \<open>Backlog\<close>, \<open>Todo\<close> or \<open>Ready\<close> with no reason recorded.\<close>

theorem early_failure_never_blocks:
  assumes "kan_ok cdc" "wf_db cdc (c_db (ps_board s))" "c_saved (ps_board s) = None" "c_commits (ps_board s) = []"
    and "board_of cdc (c_db (ps_board s)) tid = None"
    and "start_task us (main_pipeline cdc cdc' provider escalate) clock tid title s = (Inl out, s')"
  shows "\<exists>i why. out = PBlocked i why \<and>
    (case board_of cdc (c_db (ps_board s')) tid of
       None \<Rightarrow> i = 0
     | Some t \<Rightarrow> i = tid \<and> t_title t = title \<and> t_block_reason t = None \<and> t_state t \<in> {Backlog, Todo, Ready})"
  using faulty_main.start_fault [OF _ _ assms(6)] assms(1-5)
  by (auto simp: faulty_inv_def faulty_main.start_holds_def stands_def split: pipeline_outcome.splits)

lemma early_failure_never_blocks_witness:
  "\<exists>P s s'. P = main_pipeline demo_kanban_codec demo_codec (fixed_provider ''{done}'') (scripted_escalate Stop) \<and>
     s = demo_start\<lparr>ps_board := empty_board\<lparr>c_faults := [None, Some 10]\<rparr>\<rparr> \<and>
     start_task demo_uuid_str P int 7 ''t'' s = (Inl (PBlocked 7 ''transition to todo failed''), s') \<and>
     (\<exists>t. board_of demo_kanban_codec (c_db (ps_board s')) 7 = Some t \<and> t_block_reason t = None)"
proof -
  let ?P = "main_pipeline demo_kanban_codec demo_codec (fixed_provider ''{done}'') (scripted_escalate Stop)"
  let ?s = "demo_start\<lparr>ps_board := empty_board\<lparr>c_faults := [None, Some 10]\<rparr>\<rparr>"
  have "fst (start_task demo_uuid_str ?P int 7 ''t'' ?s) = Inl (PBlocked 7 ''transition to todo failed'')"
    by (simp add: start_task_def failing_run_simps)
  then obtain s' where r: "start_task demo_uuid_str ?P int 7 ''t'' ?s = (Inl (PBlocked 7 ''transition to todo failed''), s')"
    by (metis prod.collapse)
  have "(case board_of demo_kanban_codec (c_db (ps_board s')) 7 of
       None \<Rightarrow> (7 :: uuid) = 0
     | Some t \<Rightarrow> t_title t = ''t'' \<and> t_block_reason t = None \<and> t_state t \<in> {Backlog, Todo, Ready})"
    using early_failure_never_blocks [OF demo_kan_ok _ _ _ _ r] fresh_failing_board by (simp split: option.splits)
  then obtain t where "board_of demo_kanban_codec (c_db (ps_board s')) 7 = Some t" "t_block_reason t = None"
    by (auto split: option.splits)
  then have "\<exists>t. board_of demo_kanban_codec (c_db (ps_board s')) 7 = Some t \<and> t_block_reason t = None" by blast
  then show ?thesis using r by (intro exI [of _ ?P] exI [of _ ?s] exI [of _ s'] conjI refl)
qed

end
