(* ===== verification/Coverage_Threads.thy ===== *)
theory Coverage_Threads
  imports Coverage_Map
begin

text \<open>
  The coverage map of \<open>plugin-coverage-map/src/lib.rs\<close> used by several callers at once: threads that share
  one map, or several connections on one database.  A link request takes the lock twice: once to look
  its concept up, once to insert the link, and requests of others may come in between.  As a concept once
  registered stays, what the lookup found still holds at the insertion, and the map behaves as if each
  request were one step.
\<close>

subsection \<open>The two statements of a request\<close>

text \<open>The concept a request looks up first, and the statement that writes.\<close>

fun looked_up :: "coverage_request \<Rightarrow> string option" where
  "looked_up (LinkArtifact now k ref) = Some k"
| "looked_up (LinkActor now k a) = Some k"
| "looked_up _ = None"

fun write_statement :: "'x codec_scheme \<Rightarrow> coverage_request \<Rightarrow> unit coverage_op" where
  "write_statement cdc (AddConcept c) = add_concept cdc c"
| "write_statement cdc (LinkArtifact now k ref) =
     bindE lock_unwrap (\<lambda>_. execute (CovStorage ''link artifact failed'')
       (insert_artifact \<lparr>ar_concept = k, ar_ref = ref, ar_linked_at = ts_str cdc now\<rparr>))"
| "write_statement cdc (LinkActor now k a) =
     bindE lock_unwrap (\<lambda>_. execute (CovStorage ''link actor failed'')
       (upsert_actor \<lparr>ac_concept = k, ac_actor = a, ac_living = True, ac_linked_at = ts_str cdc now\<rparr>))"
| "write_statement cdc (Decay k a) = decay_actor_link k a"

lemma coverage_step_statements:
  "coverage_step cdc req =
     (case looked_up req of
        None \<Rightarrow> write_statement cdc req
      | Some k \<Rightarrow> bindE (ensure_concept_exists k) (\<lambda>_. write_statement cdc req))"
  by (cases req) (simp_all add: link_artifact_def link_actor_def)

datatype coverage_pc =
    CovStart
  | ConceptSeen
  | CovDone "coverage_error abort + unit"

record coverage_sys =
  cs_db :: coverage_db
  cs_pc :: "nat \<Rightarrow> coverage_pc"

text \<open>\<open>failing j\<close>: the statements of call \<open>j\<close> may fail; those of the other calls do not.\<close>

inductive coverage_move ::
  "'x codec_scheme \<Rightarrow> (nat \<Rightarrow> coverage_request) \<Rightarrow> (nat \<Rightarrow> bool) \<Rightarrow> coverage_sys \<Rightarrow> coverage_sys \<Rightarrow> bool"
  for cdc calls failing where
  look_up: "cs_pc s j = CovStart \<Longrightarrow> looked_up (calls j) = Some k \<Longrightarrow> failing j \<or> faults = [] \<Longrightarrow>
    ensure_concept_exists k (conn_with (cs_db s) faults) = (q, c) \<Longrightarrow>
    coverage_move cdc calls failing s
      (s\<lparr>cs_pc := (cs_pc s)(j := (case q of Inl e \<Rightarrow> CovDone (Inl e) | Inr _ \<Rightarrow> ConceptSeen))\<rparr>)"
| store: "cs_pc s j = (if looked_up (calls j) = None then CovStart else ConceptSeen) \<Longrightarrow> failing j \<or> faults = [] \<Longrightarrow>
    write_statement cdc (calls j) (conn_with (cs_db s) faults) = (q, c) \<Longrightarrow>
    coverage_move cdc calls failing s (s\<lparr>cs_db := c_db c, cs_pc := (cs_pc s)(j := CovDone q)\<rparr>)"

inductive_cases coverage_move_elim: "coverage_move cdc calls failing s s'"

lemmas coverage_moveE = coverage_move_elim [consumes 1, case_names look_up store]

definition coverage_start :: "coverage_db \<Rightarrow> coverage_sys" where
  "coverage_start db = \<lparr>cs_db = db, cs_pc = (\<lambda>_. CovStart)\<rparr>"

subsection \<open>What one statement does\<close>

definition statement_failed :: "coverage_error abort + unit \<Rightarrow> bool" where
  "statement_failed q \<longleftrightarrow> (\<exists>w \<in> {''insert concept failed'', ''concept lookup failed'', ''link artifact failed'',
     ''link actor failed'', ''decay actor link failed''}. q = Inl (Err (CovStorage w)))"

lemma lookup_answer:
  assumes "ensure_concept_exists k (conn_with db faults) = (q, c)"
  shows "q = (if has_concept db k then Inr () else Inl (unknown_concept k)) \<or> faults \<noteq> [] \<and> statement_failed q"
proof (cases "sql_fault (conn_with db faults)")
  case (Pair r c1)
  then have "c_db c1 = db" using same_data_fault [of "conn_with db faults"] by (simp add: same_data_def)
  moreover have "faults \<noteq> []" if "r = Inl code" for code using Pair that by (auto simp: sql_fault_def)
  ultimately show ?thesis using assms Pair
    by (cases r) (auto simp: ensure_concept_exists_def bindE_def map_err_def sql_read_def unknown_concept_def
        statement_failed_def split: if_splits)
qed

lemma execute_on:
  assumes "execute e f (conn_with db faults) = (q, c)" "f db = Inr (a, db')"
  shows "(q, c_db c) = (Inr a, db') \<or> faults \<noteq> [] \<and> (q, c_db c) = (Inl (Err e), db)"
  using assms execute_effect [of e f "conn_with db faults" q c]
  by (cases "faults = []") auto

text \<open>A write whose effect the specification accepts.\<close>

lemma accepted_write:
  assumes "execute (CovStorage w) f (conn_with db faults) = (q, c)" "f db = Inr ((), db')"
    and "coverage_inv cdc db'" "coverage_inv cdc db" "statement_failed (Inl (Err (CovStorage w)))"
    and "(Inr (), coverage_view cdc db') = spec_coverage req (coverage_view cdc db)"
  shows "coverage_inv cdc (c_db c) \<and>
    ((q, coverage_view cdc (c_db c)) = spec_coverage req (coverage_view cdc db) \<or>
     faults \<noteq> [] \<and> statement_failed q \<and> c_db c = db)"
  using execute_on [OF assms(1,2)] assms(3-6) by (elim disjE conjE) simp_all

lemma spec_accepts:
  "(\<And>k. looked_up req = Some k \<Longrightarrow> has_concept db k) \<Longrightarrow> v = snd (spec_coverage req (coverage_view cdc db)) \<Longrightarrow>
   (Inr (), v) = spec_coverage req (coverage_view cdc db)"
  by (cases req) (auto simp: view_None_iff)

lemma failed_statements [simp]:
  "statement_failed (Inl (Err (CovStorage ''insert concept failed'')))" "statement_failed (Inl (Err (CovStorage ''concept lookup failed'')))"
  "statement_failed (Inl (Err (CovStorage ''link artifact failed'')))" "statement_failed (Inl (Err (CovStorage ''link actor failed'')))"
  "statement_failed (Inl (Err (CovStorage ''decay actor link failed'')))"
  by (simp_all add: statement_failed_def)

lemma write_answer:
  assumes "codec_ok cdc" "coverage_inv cdc db" "\<And>k. looked_up req = Some k \<Longrightarrow> has_concept db k"
    and "write_statement cdc req (conn_with db faults) = (q, c)"
  shows "coverage_inv cdc (c_db c) \<and>
    ((q, coverage_view cdc (c_db c)) = spec_coverage req (coverage_view cdc db) \<or>
     faults \<noteq> [] \<and> statement_failed q \<and> c_db c = db)"
proof (cases req)
  case (AddConcept x)
  have run: "execute (CovStorage ''insert concept failed'') (\<lambda>db. Inr ((), upsert_concept (concept_row_of cdc x) db)) (conn_with db faults) = (q, c)"
    using assms(4) AddConcept by (simp add: add_concept_def)
  have "coverage_view cdc (upsert_concept (concept_row_of cdc x) db) = snd (spec_coverage req (coverage_view cdc db))"
    using view_upsert_concept [OF assms(1,2), of x] AddConcept by blast
  from accepted_write [OF run refl upsert_concept_inv [OF assms(2)] assms(2) _ spec_accepts [OF assms(3) this]]
  show ?thesis by simp
next
  case (LinkArtifact now k ref)
  then obtain db' where db': "insert_artifact \<lparr>ar_concept = k, ar_ref = ref, ar_linked_at = ts_str cdc now\<rparr> db = Inr ((), db')"
    "coverage_view cdc db' = snd (spec_coverage req (coverage_view cdc db))"
    using view_insert_artifact [of db k] assms(3) by (metis looked_up.simps(1))
  have "execute (CovStorage ''link artifact failed'') (insert_artifact \<lparr>ar_concept = k, ar_ref = ref, ar_linked_at = ts_str cdc now\<rparr>)
      (conn_with db faults) = (q, c)" using assms(4) LinkArtifact by simp
  from accepted_write [OF this db'(1) insert_artifact_inv [OF assms(2) db'(1)] assms(2) _ spec_accepts [OF assms(3) db'(2)]]
  show ?thesis by simp
next
  case (LinkActor now k a)
  then obtain db' where db': "upsert_actor \<lparr>ac_concept = k, ac_actor = a, ac_living = True, ac_linked_at = ts_str cdc now\<rparr> db = Inr ((), db')"
    "coverage_view cdc db' = snd (spec_coverage req (coverage_view cdc db))"
    using view_upsert_actor [of db k] assms(3) by (metis looked_up.simps(2))
  have "execute (CovStorage ''link actor failed'') (upsert_actor \<lparr>ac_concept = k, ac_actor = a, ac_living = True, ac_linked_at = ts_str cdc now\<rparr>)
      (conn_with db faults) = (q, c)" using assms(4) LinkActor by simp
  from accepted_write [OF this db'(1) upsert_actor_inv [OF assms(2) db'(1)] assms(2) _ spec_accepts [OF assms(3) db'(2)]]
  show ?thesis by simp
next
  case (Decay k a)
  let ?f = "\<lambda>db. db\<lparr>cv_actors := update_where (\<lambda>x. ac_concept x = k \<and> ac_actor x = a) (\<lambda>x. x\<lparr>ac_living := False\<rparr>) (cv_actors db)\<rparr>"
  have inv: "coverage_inv cdc (?f db)" using assms(2)
    by (auto simp: coverage_inv_def has_concept_def map_update_where list_all_iff set_update_where)
  have run: "execute (CovStorage ''decay actor link failed'') (\<lambda>db. Inr ((), ?f db)) (conn_with db faults) = (q, c)"
    using assms(4) Decay by (simp add: decay_actor_link_def)
  have "coverage_view cdc (?f db) = snd (spec_coverage req (coverage_view cdc db))"
    using view_decay [where cdc = cdc and db = db and k = k and a = a] Decay by simp
  from accepted_write [OF run refl inv assms(2) _ spec_accepts [OF assms(3) this]]
  show ?thesis by simp
qed

subsection \<open>The order of the requests\<close>

definition run_requests :: "(nat \<Rightarrow> coverage_request) \<Rightarrow> nat list \<Rightarrow> coverage_spec \<Rightarrow> coverage_spec" where
  "run_requests calls js v = fold (\<lambda>j v. snd (spec_coverage (calls j) v)) js v"

text \<open>What the specification answers to the calls \<open>js\<close>, one after another.\<close>

fun answers ::
  "(nat \<Rightarrow> coverage_request) \<Rightarrow> nat list \<Rightarrow> coverage_spec \<Rightarrow> (nat \<times> (coverage_error abort + unit)) list" where
  "answers calls [] v = []"
| "answers calls (j # js) v = (j, fst (spec_coverage (calls j) v)) # answers calls js (snd (spec_coverage (calls j) v))"

lemma run_requests_append [simp]:
  "run_requests calls [] v = v"
  "run_requests calls (js @ [j]) v = snd (spec_coverage (calls j) (run_requests calls js v))"
  by (simp_all add: run_requests_def)

lemma answers_append [simp]:
  "answers calls (js @ [j]) v = answers calls js v @ [(j, fst (spec_coverage (calls j) (run_requests calls js v)))]"
  by (induction js arbitrary: v) (simp_all add: run_requests_def)

lemma answers_calls: "fst ` set (answers calls js v) = set js"
  by (induction js arbitrary: v) simp_all

definition linearised ::
  "'x codec_scheme \<Rightarrow> (nat \<Rightarrow> coverage_request) \<Rightarrow> (nat \<Rightarrow> bool) \<Rightarrow> coverage_spec \<Rightarrow> nat list \<Rightarrow> coverage_sys \<Rightarrow> bool" where
  "linearised cdc calls failing v js s \<longleftrightarrow>
     coverage_inv cdc (cs_db s) \<and> coverage_view cdc (cs_db s) = run_requests calls js v \<and> distinct js \<and>
     (\<forall>j \<in> set js. \<exists>q. cs_pc s j = CovDone q) \<and>
     (\<forall>j q. cs_pc s j = CovDone q \<longrightarrow> (j, q) \<in> set (answers calls js v) \<or> j \<notin> set js \<and> failing j \<and> statement_failed q) \<and>
     (\<forall>j k. cs_pc s j = ConceptSeen \<longrightarrow> looked_up (calls j) = Some k \<longrightarrow> has_concept (cs_db s) k)"

lemma linearisedD:
  assumes "linearised cdc calls failing v js s"
  shows "coverage_inv cdc (cs_db s)" "coverage_view cdc (cs_db s) = run_requests calls js v" "distinct js"
    "\<And>j. j \<in> set js \<Longrightarrow> \<exists>q. cs_pc s j = CovDone q"
    "\<And>j q. cs_pc s j = CovDone q \<Longrightarrow> (j, q) \<in> set (answers calls js v) \<or> j \<notin> set js \<and> failing j \<and> statement_failed q"
    "\<And>j k. cs_pc s j = ConceptSeen \<Longrightarrow> looked_up (calls j) = Some k \<Longrightarrow> has_concept (cs_db s) k"
  using assms unfolding linearised_def by blast+

text \<open>A call that is answered next goes to the end of the order, unless a statement of it failed.\<close>

lemma linearised_answer:
  assumes "linearised cdc calls failing v js s" "\<forall>q. cs_pc s j \<noteq> CovDone q"
    and "coverage_inv cdc db" "(q, coverage_view cdc db) = spec_coverage (calls j) (coverage_view cdc (cs_db s))"
  shows "linearised cdc calls failing v (js @ [j]) (s\<lparr>cs_db := db, cs_pc := (cs_pc s)(j := CovDone q)\<rparr>)"
proof -
  note inv = linearisedD [OF assms(1)]
  have j: "j \<notin> set js" using assms(2) inv(4) by blast
  have spec: "q = fst (spec_coverage (calls j) (run_requests calls js v))"
    "coverage_view cdc db = snd (spec_coverage (calls j) (run_requests calls js v))"
    using assms(4) inv(2) by (metis fst_conv snd_conv)+
  have "sp_concepts (snd (spec_coverage (calls j) w)) k \<noteq> None" if "sp_concepts w k \<noteq> None" for w k
    using that by (cases "calls j") auto
  then have "has_concept db k" if "has_concept (cs_db s) k" for k
    using that spec(2) inv(2) view_None_iff [of cdc db k] view_None_iff [of cdc "cs_db s" k] by metis
  then show ?thesis unfolding linearised_def using inv j assms(3) spec by auto
qed

lemma linearised_failed:
  assumes "linearised cdc calls failing v js s" "\<forall>q. cs_pc s j \<noteq> CovDone q" "failing j" "statement_failed q"
  shows "linearised cdc calls failing v js (s\<lparr>cs_pc := (cs_pc s)(j := CovDone q)\<rparr>)"
proof -
  have "j \<notin> set js" using linearisedD(4) [OF assms(1)] assms(2) by blast
  then show ?thesis using linearisedD [OF assms(1)] assms(2-4) unfolding linearised_def by auto
qed

lemma statement_failed_Inl: "statement_failed q \<Longrightarrow> \<exists>e. q = Inl e"
  unfolding statement_failed_def by blast

lemma linearised_move:
  assumes "coverage_move cdc calls failing s s'" "codec_ok cdc" "linearised cdc calls failing v js s"
  shows "\<exists>js'. linearised cdc calls failing v (js @ js') s'"
proof -
  note inv = linearisedD [OF assms(3)]
  from assms(1) show ?thesis
  proof (cases rule: coverage_moveE)
    case (look_up j k faults q c)
    have free: "\<forall>q. cs_pc s j \<noteq> CovDone q" using look_up(2) by simp
    consider "q = Inr ()" "has_concept (cs_db s) k" | "q = Inl (unknown_concept k)" "\<not> has_concept (cs_db s) k"
      | e where "q = Inl e" "failing j" "statement_failed q"
      using lookup_answer [OF look_up(5)] look_up(4) statement_failed_Inl [of q] by (auto split: if_splits)
    then show ?thesis
    proof cases
      case 1
      moreover have "j \<notin> set js" using inv(4) free by blast
      ultimately have "linearised cdc calls failing v js s'" using inv look_up(1-3) unfolding linearised_def by auto
      then show ?thesis by (intro exI [of _ "[]"]) simp
    next
      case 2
      then have "(q, coverage_view cdc (cs_db s)) = spec_coverage (calls j) (coverage_view cdc (cs_db s))"
        using look_up(3) view_None_iff [of cdc "cs_db s" k] by (cases "calls j") auto
      from linearised_answer [OF assms(3) free inv(1) this] show ?thesis using look_up(1) 2 by auto
    next
      case 3
      then have "linearised cdc calls failing v js s'"
        using linearised_failed [OF assms(3) free] look_up(1) by simp
      then show ?thesis by (intro exI [of _ "[]"]) simp
    qed
  next
    case (store j faults q c)
    have free: "\<forall>q. cs_pc s j \<noteq> CovDone q" using store(2) by simp
    have "coverage_inv cdc (c_db c) \<and>
      ((q, coverage_view cdc (c_db c)) = spec_coverage (calls j) (coverage_view cdc (cs_db s)) \<or>
       faults \<noteq> [] \<and> statement_failed q \<and> c_db c = cs_db s)"
      by (rule write_answer [OF assms(2) inv(1) _ store(4)]) (use inv(6) [of j] store(2) in simp)
    then show ?thesis
    proof (elim conjE disjE)
      assume "coverage_inv cdc (c_db c)" "(q, coverage_view cdc (c_db c)) = spec_coverage (calls j) (coverage_view cdc (cs_db s))"
      from linearised_answer [OF assms(3) free this] show ?thesis using store(1) by auto
    next
      assume "faults \<noteq> []" "statement_failed q" "c_db c = cs_db s"
      then have "linearised cdc calls failing v js s'"
        using linearised_failed [OF assms(3) free] store(1,3) by simp
      then show ?thesis by (intro exI [of _ "[]"]) simp
    qed
  qed
qed

lemma linearised_run:
  "(coverage_move cdc calls failing)\<^sup>*\<^sup>* s s' \<Longrightarrow> codec_ok cdc \<Longrightarrow> linearised cdc calls failing v js s \<Longrightarrow>
   \<exists>js'. linearised cdc calls failing v (js @ js') s'"
proof (induction rule: rtranclp_induct)
  case base
  then show ?case by (intro exI [of _ "[]"]) simp
next
  case (step t u)
  then obtain js1 where "linearised cdc calls failing v (js @ js1) t" by blast
  from linearised_move [OF step(2) step.prems(1) this] show ?case by (metis append_assoc)
qed

subsection \<open>Properties\<close>

text \<open>Claim C19.  The map is linearisable.  However the statements of concurrent requests interleave and
  whichever of them fail, there is an order of the answered requests, growing as they are answered, in
  which each of them has the answer of the specification and which leaves the specification as the tables
  are; a request outside it had a failing statement and changed nothing.  A report of the dark concepts
  at any moment is the exact one for the requests answered so far.\<close>

theorem concurrent_coverage_linearises:
  assumes "codec_ok cdc" "coverage_inv cdc db"
    and "(coverage_move cdc calls failing)\<^sup>*\<^sup>* (coverage_start db) s" "(coverage_move cdc calls failing)\<^sup>*\<^sup>* s s'"
  shows "\<exists>js js' ds. distinct (js @ js') \<and>
    coverage_view cdc (cs_db s) = run_requests calls js (coverage_view cdc db) \<and>
    coverage_view cdc (cs_db s') = run_requests calls (js @ js') (coverage_view cdc db) \<and>
    (\<forall>j. j \<in> set js \<longrightarrow> (\<exists>q. cs_pc s j = CovDone q)) \<and>
    (\<forall>j q. cs_pc s' j = CovDone q \<longrightarrow> (j, q) \<in> set (answers calls (js @ js') (coverage_view cdc db)) \<or>
       j \<notin> set (js @ js') \<and> failing j \<and> statement_failed q) \<and>
    dark_concepts cdc (conn_new (cs_db s)) = (Inr ds, conn_new (cs_db s)) \<and>
    listed ds (\<lambda>x. sp_concepts (run_requests calls js (coverage_view cdc db)) (co_id x) = Some x \<and>
      (\<forall>a. (co_id x, a) \<notin> sp_living (run_requests calls js (coverage_view cdc db))))"
proof -
  let ?v = "coverage_view cdc db"
  have "linearised cdc calls failing ?v [] (coverage_start db)"
    using assms(2) by (simp add: linearised_def coverage_start_def)
  from linearised_run [OF assms(3,1) this] obtain js where js: "linearised cdc calls failing ?v js s" by auto
  from linearised_run [OF assms(4,1) js] obtain js' where js': "linearised cdc calls failing ?v (js @ js') s'" ..
  note inv = linearisedD [OF js] and inv' = linearisedD [OF js']
  have "healthy (conn_new (cs_db s))" "c_db (conn_new (cs_db s)) = cs_db s" by simp_all
  from concept_queries [OF assms(1) this(1)] inv(1,2) obtain ds where
    "dark_concepts cdc (conn_new (cs_db s)) = (Inr ds, conn_new (cs_db s))"
    "listed ds (\<lambda>x. sp_concepts (run_requests calls js ?v) (co_id x) = Some x \<and>
      (\<forall>a. (co_id x, a) \<notin> sp_living (run_requests calls js ?v)))" by auto
  then show ?thesis using inv(2,4) inv'(2,3,5)
    by (intro exI [of _ js] exI [of _ js'] exI [of _ ds]) blast
qed

text \<open>While one caller links a human to a concept, another renames the concept in between.\<close>

lemma concurrent_coverage_linearises_witness:
  "\<exists>s ds. (coverage_move demo_codec
      (\<lambda>j. if j = 0 then LinkActor 2 ''auth'' ''ann'' else AddConcept \<lparr>co_id = ''auth'', co_component = ''core'', co_label = ''m'', co_created_at = 9\<rparr>)
      (\<lambda>_. False))\<^sup>*\<^sup>*
      (coverage_start \<lparr>cv_concepts = [concept_row_of demo_codec \<lparr>co_id = ''auth'', co_component = ''core'', co_label = ''l'', co_created_at = 1\<rparr>],
         cv_artifacts = [], cv_actors = []\<rparr>) s \<and>
    cs_pc s 0 = CovDone (Inr ()) \<and> cs_pc s 1 = CovDone (Inr ()) \<and>
    dark_concepts demo_codec (conn_new (cs_db s)) = (Inr ds, conn_new (cs_db s)) \<and> distinct (map co_id ds)"
proof -
  let ?x = "\<lparr>co_id = ''auth'', co_component = ''core'', co_label = ''l'', co_created_at = 1\<rparr>"
  let ?y = "\<lparr>co_id = ''auth'', co_component = ''core'', co_label = ''m'', co_created_at = 9\<rparr>"
  let ?calls = "\<lambda>j :: nat. if j = 0 then LinkActor 2 ''auth'' ''ann'' else AddConcept ?y"
  let ?step = "coverage_move demo_codec ?calls (\<lambda>_. False)"
  let ?db = "\<lparr>cv_concepts = [concept_row_of demo_codec ?x], cv_artifacts = [], cv_actors = []\<rparr>"
  have row: "cr_id (concept_row_of demo_codec c) = co_id c" for c by (simp add: concept_row_of_def)
  have inv: "coverage_inv demo_codec ?db" by (auto simp: coverage_inv_def)
  let ?s0 = "coverage_start ?db"
  let ?s1 = "?s0\<lparr>cs_pc := (cs_pc ?s0)(0 := ConceptSeen)\<rparr>"
  let ?db2 = "upsert_concept (concept_row_of demo_codec ?y) ?db"
  let ?s2 = "?s1\<lparr>cs_db := ?db2, cs_pc := (cs_pc ?s1)(1 := CovDone (Inr ()))\<rparr>"
  let ?r = "\<lparr>ac_concept = ''auth'', ac_actor = ''ann'', ac_living = True, ac_linked_at = ts_str demo_codec 2\<rparr>"
  let ?db3 = "?db2\<lparr>cv_actors := [?r]\<rparr>"
  let ?s3 = "?s2\<lparr>cs_db := ?db3, cs_pc := (cs_pc ?s2)(0 := CovDone (Inr ()))\<rparr>"
  have "ensure_concept_exists ''auth'' (conn_with ?db []) = (Inr (), conn_with ?db [])"
    using ensure_healthy [of "conn_with ?db []" "''auth''"] by (simp add: healthy_def has_concept_def row)
  then have "?step ?s0 ?s1"
    using coverage_move.look_up [of ?s0 0 ?calls "''auth''" "\<lambda>_. False" "[]" "Inr ()" "conn_with ?db []" demo_codec]
    by (simp add: coverage_start_def)
  moreover have "write_statement demo_codec (?calls 1) (conn_with ?db []) = (Inr (), conn_with ?db2 [])"
    by (simp add: add_concept_def conn_with_def conn_new_def)
  then have "?step ?s1 ?s2"
    using coverage_move.store [of ?s1 1 ?calls "\<lambda>_. False" "[]" demo_codec "Inr ()" "conn_with ?db2 []"]
    by (simp add: coverage_start_def)
  moreover have "upsert_actor ?r ?db2 = Inr ((), ?db3)"
    by (simp add: upsert_actor_def upsert_concept_def has_concept_def update_where_def row)
  then have "write_statement demo_codec (?calls 0) (conn_with ?db2 []) = (Inr (), conn_with ?db3 [])"
    by (simp add: conn_with_def conn_new_def)
  then have "?step ?s2 ?s3"
    using coverage_move.store [of ?s2 0 ?calls "\<lambda>_. False" "[]" demo_codec "Inr ()" "conn_with ?db3 []"]
    by (simp add: coverage_start_def)
  ultimately have run: "?step\<^sup>*\<^sup>* ?s0 ?s3" by (meson converse_rtranclp_into_rtranclp rtranclp.rtrancl_refl)
  from concurrent_coverage_linearises [OF demo_codec_ok inv run rtranclp.rtrancl_refl] obtain ds where
    "dark_concepts demo_codec (conn_new (cs_db ?s3)) = (Inr ds, conn_new (cs_db ?s3))" "distinct (map co_id ds)"
    unfolding listed_def by blast
  then show ?thesis using run by (intro exI [of _ ?s3] exI [of _ ds]) simp
qed

end
