(* ===== verification/Insight_Threads.thy ===== *)
theory Insight_Threads
  imports Insight_Artifact
begin

text \<open>
  The insight store of \<open>plugin-insight-artifact/src/lib.rs\<close> used by several callers at once: threads that
  share one store, or several connections on one database.  \<open>supersede\<close> takes the lock up to three times:
  to look the successor up, to store it when it is absent and to mark the predecessor.  Requests of
  others may come in between.  What is safe stays safe; but two supersessions by the same new insight can
  both find it absent, and then only one of them succeeds.
\<close>

subsection \<open>The statements of a supersession\<close>

datatype insight_pc =
    InsightStart
  | SuccessorAbsent
  | SuccessorStored
  | InsightDone "artifact_error abort + unit"

record insight_sys =
  is_rows :: "insight_row list"
  is_pc :: "nat \<Rightarrow> insight_pc"

definition after_lookup :: "artifact_error abort + insight option \<Rightarrow> insight_pc" where
  "after_lookup q = (case q of Inl e \<Rightarrow> InsightDone (Inl e) | Inr None \<Rightarrow> SuccessorAbsent | Inr (Some _) \<Rightarrow> SuccessorStored)"

definition after_store :: "artifact_error abort + unit \<Rightarrow> insight_pc" where
  "after_store q = (case q of Inl e \<Rightarrow> InsightDone (Inl e) | Inr _ \<Rightarrow> SuccessorStored)"

inductive insight_move ::
  "'x insight_codec_scheme \<Rightarrow> (nat \<Rightarrow> insight_request) \<Rightarrow> insight_sys \<Rightarrow> insight_sys \<Rightarrow> bool" for cdc calls where
  plain_store: "is_pc s j = InsightStart \<Longrightarrow> calls j = Store a \<Longrightarrow>
    store_insight cdc a (conn_with (is_rows s) faults) = (q, c) \<Longrightarrow>
    insight_move cdc calls s (s\<lparr>is_rows := c_db c, is_pc := (is_pc s)(j := InsightDone q)\<rparr>)"
| refuse_self: "is_pc s j = InsightStart \<Longrightarrow> calls j = Supersede old new \<Longrightarrow> old = in_id new \<Longrightarrow>
    insight_move cdc calls s (s\<lparr>is_pc := (is_pc s)(j := InsightDone (Inl (Err (SelfSupersede old))))\<rparr>)"
| look_up: "is_pc s j = InsightStart \<Longrightarrow> calls j = Supersede old new \<Longrightarrow> old \<noteq> in_id new \<Longrightarrow>
    get_insight cdc (in_id new) (conn_with (is_rows s) faults) = (q, c) \<Longrightarrow>
    insight_move cdc calls s (s\<lparr>is_pc := (is_pc s)(j := after_lookup q)\<rparr>)"
| store_new: "is_pc s j = SuccessorAbsent \<Longrightarrow> calls j = Supersede old new \<Longrightarrow>
    store_insight cdc new (conn_with (is_rows s) faults) = (q, c) \<Longrightarrow>
    insight_move cdc calls s (s\<lparr>is_rows := c_db c, is_pc := (is_pc s)(j := after_store q)\<rparr>)"
| mark_old: "is_pc s j = SuccessorStored \<Longrightarrow> calls j = Supersede old new \<Longrightarrow>
    mark_superseded cdc old (in_id new) (conn_with (is_rows s) faults) = (q, c) \<Longrightarrow>
    insight_move cdc calls s (s\<lparr>is_rows := c_db c, is_pc := (is_pc s)(j := InsightDone q)\<rparr>)"

inductive_cases insight_move_elim: "insight_move cdc calls s s'"

lemmas insight_moveE = insight_move_elim [consumes 1,
  case_names plain_store refuse_self look_up store_new mark_old]

definition insight_start :: "insight_row list \<Rightarrow> insight_sys" where
  "insight_start rows = \<lparr>is_rows = rows, is_pc = (\<lambda>_. InsightStart)\<rparr>"

subsection \<open>The writes that took effect\<close>

datatype insight_write = Stored insight | Marked uuid uuid

fun apply_write :: "insight_write \<Rightarrow> insight list \<Rightarrow> insight list" where
  "apply_write (Stored a) xs = xs @ [a]"
| "apply_write (Marked old b) xs = mark old b xs"

text \<open>The write a call must have made when it reports success.\<close>

fun promised :: "insight_request \<Rightarrow> insight_write" where
  "promised (Store a) = Stored a"
| "promised (Supersede old new) = Marked old (in_id new)"

text \<open>The writes a call may make.\<close>

fun writes_of :: "insight_request \<Rightarrow> insight_write set" where
  "writes_of (Store a) = {Stored a}"
| "writes_of (Supersede old new) = {Stored new, Marked old (in_id new)}"

definition insights_after :: "insight_write list \<Rightarrow> insight list \<Rightarrow> insight list" where
  "insights_after ws xs = fold apply_write ws xs"

lemma insights_after_simps [simp]:
  "insights_after [] xs = xs" "insights_after (ws @ [w]) xs = apply_write w (insights_after ws xs)"
  by (simp_all add: insights_after_def)

text \<open>
  \<open>store\<close> takes an insight as it is, also one that is already marked as superseded, by whatever identifier.
  So a mark in the table either points at another stored insight or came with an insight that was given.
\<close>

fun given_by :: "insight_write \<Rightarrow> insight list" where
  "given_by (Stored a) = [a]"
| "given_by (Marked old b) = []"

definition links_explained :: "insight list \<Rightarrow> insight list \<Rightarrow> bool" where
  "links_explained given xs \<longleftrightarrow>
     (\<forall>x b. x \<in> set xs \<longrightarrow> in_status x = Superseded b \<longrightarrow>
        known xs b \<and> b \<noteq> in_id x \<or> (\<exists>a \<in> set given. in_id a = in_id x \<and> in_status a = Superseded b))"

lemma links_explained_start: "links_explained xs xs"
  by (auto simp: links_explained_def)

lemma links_explained_snoc: "links_explained given xs \<Longrightarrow> links_explained (given @ [a]) (xs @ [a])"
  by (auto simp: links_explained_def known_def)

lemma links_explained_mark:
  assumes "links_explained given xs" "known xs b" "b \<noteq> old"
  shows "links_explained given (mark old b xs)"
proof -
  have "set (mark old b xs) = (\<lambda>x. if in_id x = old then x\<lparr>in_status := Superseded b\<rparr> else x) ` set xs"
    by (simp add: mark_def update_where_def)
  then show ?thesis using assms unfolding links_explained_def by auto
qed

text \<open>What the callers hold between their statements.\<close>

definition insights_inv ::
  "'x insight_codec_scheme \<Rightarrow> (nat \<Rightarrow> insight_request) \<Rightarrow> insight list \<Rightarrow> insight_write list \<Rightarrow> insight_sys \<Rightarrow> bool" where
  "insights_inv cdc calls xs ws s \<longleftrightarrow>
     holds_insights cdc (insights_after ws xs) (is_rows s) \<and>
     links_explained (xs @ concat (map given_by ws)) (insights_after ws xs) \<and>
     (\<forall>w \<in> set ws. \<exists>j. w \<in> writes_of (calls j)) \<and>
     (\<forall>j old new. calls j = Supersede old new \<longrightarrow>
        (is_pc s j = SuccessorAbsent \<longrightarrow> old \<noteq> in_id new) \<and>
        (is_pc s j = SuccessorStored \<longrightarrow> old \<noteq> in_id new \<and> known (insights_after ws xs) (in_id new))) \<and>
     (\<forall>j. is_pc s j = InsightDone (Inr ()) \<longrightarrow> promised (calls j) \<in> set ws)"

lemma insights_invD:
  assumes "insights_inv cdc calls xs ws s"
  shows "is_rows s = map (insight_row_of cdc) (insights_after ws xs)" "distinct (map in_id (insights_after ws xs))"
    "links_explained (xs @ concat (map given_by ws)) (insights_after ws xs)" "\<forall>w \<in> set ws. \<exists>j. w \<in> writes_of (calls j)"
    "\<And>j old new. calls j = Supersede old new \<Longrightarrow> is_pc s j = SuccessorAbsent \<Longrightarrow> old \<noteq> in_id new"
    "\<And>j old new. calls j = Supersede old new \<Longrightarrow> is_pc s j = SuccessorStored \<Longrightarrow>
       old \<noteq> in_id new \<and> known (insights_after ws xs) (in_id new)"
    "\<And>j. is_pc s j = InsightDone (Inr ()) \<Longrightarrow> promised (calls j) \<in> set ws"
  using assms unfolding insights_inv_def holds_insights_def by blast+

text \<open>A move that changes no row.\<close>

lemma insights_inv_pc:
  assumes "insights_inv cdc calls xs ws s" "p \<noteq> InsightDone (Inr ())"
    and "\<And>old new. calls j = Supersede old new \<Longrightarrow> p = SuccessorAbsent \<Longrightarrow> old \<noteq> in_id new"
    and "\<And>old new. calls j = Supersede old new \<Longrightarrow> p = SuccessorStored \<Longrightarrow>
       old \<noteq> in_id new \<and> known (insights_after ws xs) (in_id new)"
  shows "insights_inv cdc calls xs ws (s\<lparr>is_pc := (is_pc s)(j := p)\<rparr>)"
  using assms unfolding insights_inv_def by auto

text \<open>A move that writes.\<close>

lemma insights_inv_write:
  assumes "insights_inv cdc calls xs ws s"
    and "holds_insights cdc (apply_write w (insights_after ws xs)) rows"
    and "links_explained (xs @ concat (map given_by ws) @ given_by w) (apply_write w (insights_after ws xs))"
    and "w \<in> writes_of (calls j)" "p = InsightDone (Inr ()) \<Longrightarrow> promised (calls j) = w" "p \<noteq> SuccessorAbsent"
    and "\<And>old new. calls j = Supersede old new \<Longrightarrow> p = SuccessorStored \<Longrightarrow>
       old \<noteq> in_id new \<and> known (apply_write w (insights_after ws xs)) (in_id new)"
  shows "insights_inv cdc calls xs (ws @ [w]) (s\<lparr>is_rows := rows, is_pc := (is_pc s)(j := p)\<rparr>)"
proof -
  have "known (apply_write w ys) i" if "known ys i" for ys i
    using that by (cases w) (simp_all, simp add: known_def)
  then show ?thesis using assms unfolding insights_inv_def by auto
qed

subsection \<open>Each move keeps the invariant\<close>

lemma unchanged_rows [simp]: "s\<lparr>is_rows := is_rows s\<rparr> = s"
  by simp

lemma lookup_finds:
  assumes "insight_ok cdc" "get_insight cdc i (conn_with (map (insight_row_of cdc) xs) faults) = (Inr (Some a), c)"
  shows "known xs i"
  using get_insight_found [OF assms(2)] insight_okD(5) [OF assms(1)] by (auto simp: known_def list_ex_iff)

lemma fresh_holds:
  "\<not> known xs (in_id a) \<Longrightarrow> distinct (map in_id xs) \<Longrightarrow> holds_insights cdc (xs @ [a]) (map (insight_row_of cdc) (xs @ [a]))"
  by (auto simp: holds_insights_def known_iff)

lemma insights_move:
  assumes "insight_move cdc calls s s'" "insight_ok cdc" "insights_inv cdc calls xs ws s"
  shows "\<exists>ws'. insights_inv cdc calls xs (ws @ ws') s'"
proof -
  let ?ys = "insights_after ws xs"
  note inv = insights_invD [OF assms(3)]
  have rows: "c_db (conn_with (is_rows s) faults) = map (insight_row_of cdc) ?ys" for faults using inv(1) by simp
  have same: ?thesis if "insights_inv cdc calls xs ws s'"
    using that by (intro exI [of _ "[]"]) simp
  show ?thesis using assms(1)
  proof (cases rule: insight_moveE)
    case (plain_store j a faults q c)
    from store_effect [OF assms(2) rows plain_store(4)] show ?thesis
    proof (elim disjE conjE, goal_cases)
      case 1
      then show ?case
        using same insights_inv_pc [OF assms(3), of "InsightDone q" j] plain_store(1) by auto
    next
      case 2
      then have "insights_inv cdc calls xs (ws @ [Stored a]) s'"
        unfolding plain_store(1)
        by (intro insights_inv_write [OF assms(3)])
          (use fresh_holds [OF 2(2) inv(2)] links_explained_snoc [OF inv(3)] plain_store(3) in auto)
      then show ?case by blast
    qed
  next
    case (refuse_self j new)
    then show ?thesis
      using same insights_inv_pc [OF assms(3), of "InsightDone (Inl (Err (SelfSupersede (in_id new))))" j] by simp
  next
    case (look_up j old new faults q c)
    have "insights_inv cdc calls xs ws s'" unfolding look_up(1)
      by (rule insights_inv_pc [OF assms(3)])
        (use look_up lookup_finds [OF assms(2)] inv(1) in \<open>auto simp: after_lookup_def split: sum.splits option.splits\<close>)
    then show ?thesis by (rule same)
  next
    case (store_new j old new faults q c)
    have differ: "old \<noteq> in_id new" using inv(5) store_new(2,3) by blast
    from store_effect [OF assms(2) rows store_new(4)] show ?thesis
    proof (elim disjE conjE, goal_cases)
      case 1
      then show ?case
        using same insights_inv_pc [OF assms(3), of "after_store q" j] store_new(1) by (auto simp: after_store_def)
    next
      case 2
      have "known (?ys @ [new]) (in_id new)" by (simp add: known_def)
      with 2 have "insights_inv cdc calls xs (ws @ [Stored new]) s'"
        unfolding store_new(1)
        by (intro insights_inv_write [OF assms(3)])
          (use fresh_holds [OF 2(2) inv(2)] links_explained_snoc [OF inv(3)] store_new(3) differ in \<open>auto simp: after_store_def\<close>)
      then show ?case by blast
    qed
  next
    case (mark_old j old new faults q c)
    have ready: "old \<noteq> in_id new" "known ?ys (in_id new)" using inv(6) mark_old(2,3) by blast+
    from mark_effect [OF assms(2) rows mark_old(4)] show ?thesis
    proof (elim disjE conjE, goal_cases)
      case 1
      then show ?case
        using same insights_inv_pc [OF assms(3), of "InsightDone q" j] mark_old(1) by auto
    next
      case 2
      then have "holds_insights cdc (mark old (in_id new) ?ys) (c_db c)" using inv(2) by (simp add: holds_insights_def)
      then have "insights_inv cdc calls xs (ws @ [Marked old (in_id new)]) s'"
        unfolding mark_old(1)
        by (intro insights_inv_write [OF assms(3)])
          (use links_explained_mark [OF inv(3) ready(2)] ready mark_old(3) 2 in auto)
      then show ?case by blast
    qed
  qed
qed

lemma insights_moves:
  "(insight_move cdc calls)\<^sup>*\<^sup>* s s' \<Longrightarrow> insight_ok cdc \<Longrightarrow> insights_inv cdc calls xs ws s \<Longrightarrow>
   \<exists>ws'. insights_inv cdc calls xs (ws @ ws') s'"
proof (induction rule: rtranclp_induct)
  case base
  then show ?case by (intro exI [of _ "[]"]) simp
next
  case (step t u)
  then obtain w1 where "insights_inv cdc calls xs (ws @ w1) t" by blast
  from insights_move [OF step(2) step.prems(1) this] show ?case by (metis append_assoc)
qed

subsection \<open>Properties\<close>

lemma extends_write: "extends xs ys \<Longrightarrow> extends xs (apply_write w ys)"
  by (cases w) (auto simp: extends_def list_all2_conv_all_nth mark_def update_where_def same_insight_def nth_append)

lemma extends_after: "extends xs (insights_after ws xs)"
  by (induction ws rule: rev_induct) (auto intro: extends_write)

lemma known_after: "known xs b \<Longrightarrow> known (insights_after ws xs) b"
proof (induction ws rule: rev_induct)
  case (snoc w ws)
  then show ?case by (cases w) (simp_all, simp add: known_def)
qed simp

lemma given_iff: "a \<in> set (xs @ concat (map given_by ws)) \<longleftrightarrow> a \<in> set xs \<or> Stored a \<in> set ws"
proof -
  have "a \<in> set (given_by w) \<longleftrightarrow> w = Stored a" for w by (cases w) auto
  then show ?thesis by auto
qed

lemma explained_links_valid:
  assumes "links_explained (xs @ concat (map given_by ws)) ys" "\<And>b. known xs b \<Longrightarrow> known ys b" "links_valid xs"
    and "\<forall>w \<in> set ws. \<exists>j. w \<in> writes_of (calls j)" "\<forall>j. stores_living (calls j)"
  shows "links_valid ys"
proof -
  have living: "in_status a = Living" if w: "Stored a \<in> set ws" for a
  proof -
    obtain j where j: "Stored a \<in> writes_of (calls j)" using bspec [OF assms(4) w] ..
    have "stores_living (calls j)" using assms(5) ..
    with j show ?thesis by (cases "calls j") auto
  qed
  have "known ys b \<and> b \<noteq> in_id x" if x: "x \<in> set ys" "in_status x = Superseded b" for x b
  proof (rule ccontr)
    assume "\<not> (known ys b \<and> b \<noteq> in_id x)"
    then have "\<exists>a \<in> set (xs @ concat (map given_by ws)). in_id a = in_id x \<and> in_status a = Superseded b"
      using assms(1) x unfolding links_explained_def by blast
    then obtain a where "a \<in> set (xs @ concat (map given_by ws))" and a: "in_id a = in_id x" "in_status a = Superseded b"
      by (elim bexE conjE)
    then have given: "a \<in> set xs \<or> Stored a \<in> set ws" by (simp only: given_iff)
    have "a \<in> set xs" using given living a(2) by auto
    then have "known xs b" "b \<noteq> in_id a" using assms(3) a(2) by (auto simp: links_valid_def list_all_iff)
    then show False using assms(2) a(1) \<open>\<not> (known ys b \<and> b \<noteq> in_id x)\<close> by simp
  qed
  then show ?thesis unfolding links_valid_def list_all_iff by (auto split: status.splits)
qed

text \<open>Claim C21.  However the statements of concurrent stores and supersessions interleave and whichever of
  them fail, the table is what it was, followed by writes the calls asked for, one at a time: no insight
  is lost or rewritten but for its status, identifiers stay unique, and the write a successful call promises has been
  made.  Every supersede mark points at another stored insight, unless an insight was given with that mark, in the table at
  first or by a caller: \<open>store\<close> does not look at the status.  So if the table had only valid marks
  at first and every stored insight is living, as \<open>InsightArtifact::new\<close> makes it, all marks are valid.\<close>

theorem concurrent_insights_safe:
  assumes "insight_ok cdc" "distinct (map in_id xs)"
    and "(insight_move cdc calls)\<^sup>*\<^sup>* (insight_start (map (insight_row_of cdc) xs)) s" "(insight_move cdc calls)\<^sup>*\<^sup>* s s'"
  shows "\<exists>ws ws'. is_rows s = map (insight_row_of cdc) (insights_after ws xs) \<and>
    is_rows s' = map (insight_row_of cdc) (insights_after (ws @ ws') xs) \<and>
    distinct (map in_id (insights_after (ws @ ws') xs)) \<and>
    extends (insights_after ws xs) (insights_after (ws @ ws') xs) \<and>
    (\<forall>w \<in> set (ws @ ws'). \<exists>j. w \<in> writes_of (calls j)) \<and>
    (\<forall>j. is_pc s' j = InsightDone (Inr ()) \<longrightarrow> promised (calls j) \<in> set (ws @ ws')) \<and>
    (\<forall>x b. x \<in> set (insights_after (ws @ ws') xs) \<longrightarrow> in_status x = Superseded b \<longrightarrow>
       known (insights_after (ws @ ws') xs) b \<and> b \<noteq> in_id x \<or>
       (\<exists>a. (a \<in> set xs \<or> Stored a \<in> set (ws @ ws')) \<and> in_id a = in_id x \<and> in_status a = Superseded b)) \<and>
    (links_valid xs \<and> (\<forall>j. stores_living (calls j)) \<longrightarrow> links_valid (insights_after (ws @ ws') xs))"
proof -
  have "insights_inv cdc calls xs [] (insight_start (map (insight_row_of cdc) xs))"
    using assms(2) links_explained_start by (simp add: insights_inv_def insight_start_def holds_insights_def)
  from insights_moves [OF assms(3,1) this] obtain ws where ws: "insights_inv cdc calls xs ws s" by auto
  from insights_moves [OF assms(4,1) ws] obtain ws' where ws': "insights_inv cdc calls xs (ws @ ws') s'" ..
  note inv = insights_invD [OF ws']
  have "extends (insights_after ws xs) (insights_after (ws @ ws') xs)"
    using extends_after [of "insights_after ws xs" ws'] by (simp add: insights_after_def)
  moreover have "links_valid xs \<and> (\<forall>j. stores_living (calls j)) \<longrightarrow> links_valid (insights_after (ws @ ws') xs)"
    using explained_links_valid [OF inv(3) known_after _ inv(4)] by blast
  moreover have "a \<in> set (xs @ concat (map given_by (ws @ ws'))) \<longleftrightarrow> a \<in> set xs \<or> Stored a \<in> set (ws @ ws')" for a
    by (rule given_iff)
  ultimately show ?thesis using insights_invD(1) [OF ws] inv(1,2,4,7) inv(3) [unfolded links_explained_def]
    by (intro exI [of _ ws] exI [of _ ws'] conjI) blast+
qed

subsection \<open>Two supersessions by one new insight\<close>

text \<open>\<open>a\<close> and \<open>b\<close> are living; both calls look \<open>n\<close> up before either stores it.\<close>

definition both_supersede :: "insight \<Rightarrow> insight \<Rightarrow> insight \<Rightarrow> nat \<Rightarrow> insight_request" where
  "both_supersede a b n j = Supersede (if j = 0 then in_id a else in_id b) n"

lemma race_steps:
  assumes "insight_ok cdc" "distinct (map in_id [a, b, n])"
  shows "\<exists>s. (insight_move cdc (both_supersede a b n))\<^sup>*\<^sup>* (insight_start (map (insight_row_of cdc) [a, b])) s \<and>
    is_pc s 0 = InsightDone (Inr ()) \<and> is_pc s 1 = InsightDone (Inl (Err (ArtStorage ''insert failed''))) \<and>
    is_rows s = map (insight_row_of cdc) [a\<lparr>in_status := Superseded (in_id n)\<rparr>, b, n]"
proof -
  let ?step = "insight_move cdc (both_supersede a b n)" and ?rows = "map (insight_row_of cdc)"
  let ?refused = "Inl (Err (ArtStorage ''insert failed''))"
  let ?a = "a\<lparr>in_status := Superseded (in_id n)\<rparr>"
  have conn: "healthy (conn_with db [])" "(conn_with db [])\<lparr>c_db := db'\<rparr> = conn_with db' []" for db db' :: "insight_row list"
    by (simp_all add: healthy_def conn_with_def conn_new_def)
  have ids: "in_id a \<noteq> in_id b" "in_id a \<noteq> in_id n" "in_id b \<noteq> in_id n" using assms(2) by simp_all
  have absent: "get_insight cdc (in_id n) (conn_with (?rows [a, b]) []) = (Inr None, conn_with (?rows [a, b]) [])"
    using get_insight_healthy [OF assms(1) conn(1), of "?rows [a, b]" "[a, b]" "in_id n"] ids by simp
  have new: "store_insight cdc n (conn_with (?rows [a, b]) []) = (Inr (), conn_with (?rows [a, b, n]) [])"
    using store_healthy [OF assms(1) conn(1), of "?rows [a, b]" "[a, b]" n] ids by (simp add: known_def conn(2))
  have again: "store_insight cdc n (conn_with (?rows [a, b, n]) []) = (?refused, conn_with (?rows [a, b, n]) [])"
    using store_healthy [OF assms(1) conn(1), of "?rows [a, b, n]" "[a, b, n]" n] by (simp add: known_def)
  have mark: "mark_superseded cdc (in_id a) (in_id n) (conn_with (?rows [a, b, n]) []) = (Inr (), conn_with (?rows [?a, b, n]) [])"
    using mark_healthy [OF assms(1) conn(1), of "?rows [a, b, n]" "[a, b, n]" "in_id a" "in_id n"] ids
    by (simp add: known_def conn(2) mark_def update_where_def)
  let ?s0 = "insight_start (?rows [a, b])"
  let ?s1 = "?s0\<lparr>is_pc := (is_pc ?s0)(0 := SuccessorAbsent)\<rparr>"
  let ?s2 = "?s1\<lparr>is_pc := (is_pc ?s1)(1 := SuccessorAbsent)\<rparr>"
  let ?s3 = "?s2\<lparr>is_rows := ?rows [a, b, n], is_pc := (is_pc ?s2)(0 := SuccessorStored)\<rparr>"
  let ?s4 = "?s3\<lparr>is_rows := ?rows [a, b, n], is_pc := (is_pc ?s3)(1 := InsightDone ?refused)\<rparr>"
  let ?s5 = "?s4\<lparr>is_rows := ?rows [?a, b, n], is_pc := (is_pc ?s4)(0 := InsightDone (Inr ()))\<rparr>"
  have "?step ?s0 ?s1"
    using insight_move.look_up [of ?s0 0 "both_supersede a b n" "in_id a" n cdc "[]"] absent ids
    by (simp add: insight_start_def both_supersede_def after_lookup_def)
  moreover have "?step ?s1 ?s2"
    using insight_move.look_up [of ?s1 1 "both_supersede a b n" "in_id b" n cdc "[]"] absent ids
    by (simp add: insight_start_def both_supersede_def after_lookup_def)
  moreover have "?step ?s2 ?s3"
    using insight_move.store_new [of ?s2 0 "both_supersede a b n" "in_id a" n cdc "[]"] new
    by (simp add: insight_start_def both_supersede_def after_store_def)
  moreover have "?step ?s3 ?s4"
    using insight_move.store_new [of ?s3 1 "both_supersede a b n" "in_id b" n cdc "[]"] again
    by (simp add: insight_start_def both_supersede_def after_store_def)
  moreover have "?step ?s4 ?s5"
    using insight_move.mark_old [of ?s4 0 "both_supersede a b n" "in_id a" n cdc "[]"] mark
    by (simp add: insight_start_def both_supersede_def)
  ultimately have "?step\<^sup>*\<^sup>* ?s0 ?s5" by (meson converse_rtranclp_into_rtranclp rtranclp.rtrancl_refl)
  then show ?thesis by (intro exI [of _ ?s5]) simp
qed

text \<open>Property.  Superseding two insights by one new insight, from two callers at once, can fail without a
  failing statement: one of them is refused with a storage error and its predecessor stays living, while one
  after the other both succeed and mark both predecessors.\<close>

theorem concurrent_supersession_refused:
  assumes "insight_ok cdc" "distinct (map in_id [a, b, n])" "in_status b = Living"
  shows "(\<exists>s. (insight_move cdc (both_supersede a b n))\<^sup>*\<^sup>* (insight_start (map (insight_row_of cdc) [a, b])) s \<and>
      is_pc s 0 = InsightDone (Inr ()) \<and> is_pc s 1 = InsightDone (Inl (Err (ArtStorage ''insert failed''))) \<and>
      (\<exists>xs. is_rows s = map (insight_row_of cdc) xs \<and> map in_status xs ! 1 = Living)) \<and>
    c_db (insight_steps cdc [both_supersede a b n 0, both_supersede a b n 1] (conn_new (map (insight_row_of cdc) [a, b]))) =
      map (insight_row_of cdc) [a\<lparr>in_status := Superseded (in_id n)\<rparr>, b\<lparr>in_status := Superseded (in_id n)\<rparr>, n]"
proof -
  have "in_id a \<noteq> in_id b" "in_id a \<noteq> in_id n" "in_id b \<noteq> in_id n" using assms(2) by simp_all
  note ids = this this [symmetric]
  have spec: "fold (\<lambda>req xs. snd (spec_insight req xs)) [both_supersede a b n 0, both_supersede a b n 1] [a, b] =
      [a\<lparr>in_status := Superseded (in_id n)\<rparr>, b\<lparr>in_status := Superseded (in_id n)\<rparr>, n]"
    using ids by (simp add: both_supersede_def known_def mark_def update_where_def)
  have "c_db (insight_steps cdc [both_supersede a b n 0, both_supersede a b n 1] (conn_new (map (insight_row_of cdc) [a, b]))) =
      map (insight_row_of cdc) [a\<lparr>in_status := Superseded (in_id n)\<rparr>, b\<lparr>in_status := Superseded (in_id n)\<rparr>, n]"
    using insight_steps_spec [OF assms(1) healthy_new(1), of "map (insight_row_of cdc) [a, b]" "[a, b]"
        "[both_supersede a b n 0, both_supersede a b n 1]"] spec by simp
  moreover obtain s where "(insight_move cdc (both_supersede a b n))\<^sup>*\<^sup>* (insight_start (map (insight_row_of cdc) [a, b])) s"
    "is_pc s 0 = InsightDone (Inr ())" "is_pc s 1 = InsightDone (Inl (Err (ArtStorage ''insert failed'')))"
    "is_rows s = map (insight_row_of cdc) [a\<lparr>in_status := Superseded (in_id n)\<rparr>, b, n]"
    using race_steps [OF assms(1,2)] by blast
  moreover have "map in_status [a\<lparr>in_status := Superseded (in_id n)\<rparr>, b, n] ! 1 = Living" using assms(3) by simp
  ultimately show ?thesis by blast
qed

lemma concurrent_supersession_refused_witness:
  "\<exists>s. (insight_move demo_insight_codec (both_supersede (demo_insight 1) (demo_insight 2) (demo_insight 3)))\<^sup>*\<^sup>*
      (insight_start (map (insight_row_of demo_insight_codec) [demo_insight 1, demo_insight 2])) s \<and>
    is_pc s 1 = InsightDone (Inl (Err (ArtStorage ''insert failed'')))"
  using concurrent_supersession_refused [OF demo_insight_ok, of "demo_insight 1" "demo_insight 2" "demo_insight 3"] by auto

lemma concurrent_insights_safe_witness:
  "\<exists>s xs. (insight_move demo_insight_codec (both_supersede (demo_insight 1) (demo_insight 2) (demo_insight 3)))\<^sup>*\<^sup>*
      (insight_start (map (insight_row_of demo_insight_codec) [demo_insight 1, demo_insight 2])) s \<and>
    is_rows s = map (insight_row_of demo_insight_codec) xs \<and> links_valid xs \<and> 2 \<le> length xs"
proof -
  let ?a = "demo_insight 1" and ?b = "demo_insight 2" and ?n = "demo_insight 3"
  obtain s where run: "(insight_move demo_insight_codec (both_supersede ?a ?b ?n))\<^sup>*\<^sup>*
      (insight_start (map (insight_row_of demo_insight_codec) [?a, ?b])) s"
    using race_steps [OF demo_insight_ok, of ?a ?b ?n] by auto
  have "distinct (map in_id [?a, ?b])" by simp
  moreover have "links_valid [?a, ?b]" "\<forall>j. stores_living (both_supersede ?a ?b ?n j)"
    by (simp_all add: links_valid_def both_supersede_def)
  ultimately obtain ws ws' where
    ws: "is_rows s = map (insight_row_of demo_insight_codec) (insights_after (ws @ ws') [?a, ?b])"
    "links_valid (insights_after (ws @ ws') [?a, ?b])" using concurrent_insights_safe [OF demo_insight_ok _ run rtranclp.rtrancl_refl] by blast
  moreover have "2 \<le> length (insights_after (ws @ ws') [?a, ?b])"
    using extends_after [of "[?a, ?b]" "ws @ ws'"] unfolding extends_def
    by (drule_tac list_all2_lengthD) (simp add: min_def split: if_splits)
  ultimately show ?thesis using run by blast
qed

end
