(* ===== verification/Calibration_Threads.thy ===== *)
theory Calibration_Threads
  imports Calibration_Ledger
begin

text \<open>
  The team view of \<open>plugin-calibration-ledger/src/lib.rs\<close> while others use the ledger.  Recording, erasing,
  pruning, exporting and a single mastery take the lock once.  \<open>team_concept_redundancy\<close> takes it once for
  the pairs of actor and concept and then once for every pair, so each of these reads may meet another
  state of the ledger: \<open>cs i\<close> is the connection as the \<open>i\<close>-th read finds it.
\<close>

fun count_at ::
  "(real \<Rightarrow> real) \<Rightarrow> bkt_params \<Rightarrow> (nat \<Rightarrow> event_row list conn) \<Rightarrow> nat \<Rightarrow> (string \<times> string) list \<Rightarrow> (string \<rightharpoonup> u64) \<Rightarrow>
   ledger_error abort + (string \<rightharpoonup> u64)" where
  "count_at rnd P cs i [] counts = Inr counts"
| "count_at rnd P cs i ((a, k) # ps) counts =
     (case fst (mastery rnd P a k (cs i)) of
        Inl e \<Rightarrow> Inl e
      | Inr m \<Rightarrow> count_at rnd P cs (Suc i) ps (counts(k \<mapsto> (case counts k of Some n \<Rightarrow> n | None \<Rightarrow> 0) +
          (if REDUNDANCY_THRESHOLD \<le> m then 1 else 0))))"

definition redundancy_at ::
  "(real \<Rightarrow> real) \<Rightarrow> bkt_params \<Rightarrow> (nat \<Rightarrow> event_row list conn) \<Rightarrow> ledger_error abort + concept_redundancy list" where
  "redundancy_at rnd P cs =
     (case fst (actor_concept_pairs (cs 0)) of
        Inl e \<Rightarrow> Inl e
      | Inr ps \<Rightarrow>
          (case count_at rnd P cs 1 ps Map.empty of
             Inl e \<Rightarrow> Inl e
           | Inr counts \<Rightarrow> Inr (map (\<lambda>k. \<lparr>rd_concept = k, redundant_actors = the (counts k)\<rparr>) (sorted_list_of_set (dom counts)))))"

subsection \<open>Undisturbed, this is the view\<close>

lemma count_at_same:
  assumes "holds_events ec es c"
  shows "count_redundant rnd P ps counts c = (count_at rnd P (\<lambda>_. c) i ps counts, c)"
proof (induction ps arbitrary: counts i)
  case (Cons p ps)
  obtain a k where p: "p = (a, k)" by fastforce
  show ?case
    unfolding p count_redundant.simps count_at.simps bindE_step [where m = "mastery rnd P a k", OF mastery_events [OF assms]]
      mastery_events [OF assms] fst_conv sum.case
    by (rule Cons.IH)
qed simp

lemma redundancy_at_same:
  assumes "holds_events ec es c"
  shows "team_concept_redundancy rnd P c = (redundancy_at rnd P (\<lambda>_. c) , c)"
proof -
  obtain ps where ps: "actor_concept_pairs c = (Inr ps, c)" using pairs_events [OF assms] by blast
  show ?thesis
    unfolding team_concept_redundancy_def bindE_step [where m = actor_concept_pairs, OF ps] redundancy_at_def ps
    using count_at_same [OF assms, of rnd P ps Map.empty 1] by (simp add: bindE_def split: sum.splits)
qed

subsection \<open>The view over several moments\<close>

definition counted_at ::
  "(real \<Rightarrow> real) \<Rightarrow> bkt_params \<Rightarrow> (nat \<Rightarrow> probe_event list) \<Rightarrow> (string \<times> string) list \<Rightarrow> nat \<Rightarrow> string \<Rightarrow> nat" where
  "counted_at rnd P es ps i k =
     length (filter (\<lambda>((a, k'), n). k' = k \<and> redundant rnd P (es n) a k) (zip ps [i..<i + length ps]))"

lemma counted_at_simps [simp]:
  "counted_at rnd P es [] i k = 0"
  "counted_at rnd P es ((a, k') # ps) i k = (if k' = k \<and> redundant rnd P (es i) a k then 1 else 0) + counted_at rnd P es ps (Suc i) k"
proof -
  have "[i..<i + length ((a, k') # ps)] = i # [Suc i..<Suc i + length ps]" by (simp add: upt_conv_Cons del: upt_Suc)
  then show "counted_at rnd P es ((a, k') # ps) i k =
      (if k' = k \<and> redundant rnd P (es i) a k then 1 else 0) + counted_at rnd P es ps (Suc i) k"
    unfolding counted_at_def by (simp del: upt_Suc)
qed (simp add: counted_at_def)

lemma count_at_run:
  assumes "\<forall>i. holds_events ec (es i) (cs i)"
  shows "count_at rnd P cs i ps counts = Inr (\<lambda>k. if k \<in> snd ` set ps \<or> counts k \<noteq> None
    then Some ((case counts k of None \<Rightarrow> 0 | Some n \<Rightarrow> n) + word_of_nat (counted_at rnd P es ps i k)) else None)"
proof (induction ps arbitrary: counts i)
  case Nil
  have "(\<lambda>k. if counts k \<noteq> None then Some (case counts k of None \<Rightarrow> 0 | Some n \<Rightarrow> n) else None) = counts"
    by (auto simp: fun_eq_iff split: option.splits)
  then show ?case by (simp cong: if_cong)
next
  case (Cons p ps)
  obtain a k where p: "p = (a, k)" by fastforce
  have m: "fst (mastery rnd P a k (cs i)) = Inr (bkt_replay rnd P (own_outcomes (es i) a k))"
    using mastery_events assms by (metis fst_conv)
  show ?case
    unfolding p count_at.simps m sum.case Cons.IH
    by (auto simp: fun_eq_iff redundant_def split: option.splits)
qed

text \<open>Property.  While others record and erase, the team view lists the concepts of its first read; each
  count is the number of pairs whose person has mastered the concept at the moment the pair was looked at,
  so a person is counted at most once for a concept, and one who is erased in between is not.  If the
  whole ledger is erased after the first read, every concept is still listed, with the count 0.\<close>

theorem redundancy_spans_moments:
  assumes "\<forall>i. holds_events ec (es i) (cs i)"
  shows "\<exists>ps. distinct ps \<and> set ps = (\<lambda>e. (ev_actor e, ev_concept e)) ` set (es 0) \<and>
    redundancy_at rnd P cs = Inr (map (\<lambda>k. \<lparr>rd_concept = k, redundant_actors = word_of_nat
        (card {i. i < length ps \<and> snd (ps ! i) = k \<and> redundant rnd P (es (Suc i)) (fst (ps ! i)) k})\<rparr>)
      (sorted_list_of_set (ev_concept ` set (es 0)))) \<and>
    (p_l0 P < REDUNDANCY_THRESHOLD \<and> (\<forall>i > 0. es i = []) \<longrightarrow>
      redundancy_at rnd P cs = Inr (map (\<lambda>k. \<lparr>rd_concept = k, redundant_actors = 0\<rparr>) (sorted_list_of_set (ev_concept ` set (es 0)))))"
proof -
  obtain ps where ps: "actor_concept_pairs (cs 0) = (Inr ps, cs 0)" "distinct ps"
      "set ps = (\<lambda>e. (ev_actor e, ev_concept e)) ` set (es 0)" using pairs_events assms by metis
  have counted: "counted_at rnd P es ps 1 k =
      card {i. i < length ps \<and> snd (ps ! i) = k \<and> redundant rnd P (es (Suc i)) (fst (ps ! i)) k}" for k
    unfolding counted_at_def length_filter_conv_card
    by (rule arg_cong [where f = card]) (auto simp: case_prod_beta simp del: upt_Suc)
  have concepts: "snd ` set ps = ev_concept ` set (es 0)" by (simp add: ps(3) image_image)
  let ?counts = "\<lambda>k. if k \<in> snd ` set ps then Some (word_of_nat (counted_at rnd P es ps 1 k) :: u64) else None"
  have run: "count_at rnd P cs 1 ps Map.empty = Inr ?counts"
    unfolding count_at_run [OF assms] by (simp cong: if_cong)
  have dom: "dom ?counts = ev_concept ` set (es 0)" using concepts by (auto simp: dom_def)
  have view: "redundancy_at rnd P cs = Inr (map (\<lambda>k. \<lparr>rd_concept = k, redundant_actors = word_of_nat
        (card {i. i < length ps \<and> snd (ps ! i) = k \<and> redundant rnd P (es (Suc i)) (fst (ps ! i)) k})\<rparr>)
      (sorted_list_of_set (ev_concept ` set (es 0))))"
    unfolding redundancy_at_def ps(1) fst_conv sum.case run dom by (simp add: concepts counted [unfolded One_nat_def])
  have "\<not> redundant rnd P [] a k" if "p_l0 P < REDUNDANCY_THRESHOLD" for a k
    using that by (simp add: redundant_def own_outcomes_def bkt_replay_def)
  then show ?thesis using ps(2,3) view by (intro exI [of _ ps]) simp
qed

lemma redundancy_spans_moments_witness:
  "\<exists>e. redundancy_at (\<lambda>x. x) bkt_default (\<lambda>i. conn_new (if i = 0 then [event_row_of demo_events e] else [])) =
     Inr [\<lparr>rd_concept = ''auth'', redundant_actors = 0\<rparr>]"
proof -
  let ?e = "\<lparr>ev_actor = ''ann'', ev_concept = ''auth'', predicted_correct = True, was_correct = True, ev_at = 5\<rparr>"
  let ?es = "\<lambda>i :: nat. if i = 0 then [?e] else []"
  have h: "\<forall>i. holds_events demo_events (?es i) (conn_new (if i = 0 then [event_row_of demo_events ?e] else []))"
    by (simp add: holds_events_def in_years_def)
  have "p_l0 bkt_default < REDUNDANCY_THRESHOLD" by (simp add: bkt_default_def REDUNDANCY_THRESHOLD_def)
  with redundancy_spans_moments [OF h, of "\<lambda>x. x" bkt_default] show ?thesis
    by (intro exI [of _ ?e]) auto
qed

end
