(* ===== verification/Spec2Isabelle.thy ===== *)
theory Spec2Isabelle
  imports Bootstrap Pipeline Kanban_Faults Bus Escalation_Cli Workflow_Profile Mastery_Policy Rotation
    Withdrawal Probe_Ladder Interest_Router Hunt_Harness Digest
    Main_Program Gate_Threads Pipeline_Threads Sandbox_Ticker Kanban_Live Coverage_Map Calibration_Ledger Rationale_Ledger Insight_Artifact
    Kanban_Reads Rationale_Connections Security_Threads Audit_File Money Redaction
    Pipeline_Faults Coverage_Threads Insight_Threads Calibration_Threads
begin

text \<open>
  \<^bold>\<open>A verification library for wyrtloom\<close>

  wyrtloom runs agent tasks under audit.  \<open>src/main.rs\<close> boots a security module, a message bus and the
  plugin registry, opens a task board and a call logger in SQLite, connects to a language model, shows
  the sandbox at work and takes one task through \<open>src/pipeline.rs\<close>; when the model is unsure the
  pipeline asks the human at the terminal.  The crates under \<open>crates/\<close> are the contracts (\<open>core\<close>) and
  their implementations (\<open>plugin-*\<close>).  Beside the pipeline stands the workflow of guarded approvals,
  ledgers and schedulers: gates, withdrawal sessions, probes, rotation of roles, breaking hunts,
  digests, interest routing, and four SQLite ledgers.

  \<^bold>\<open>How the model reads\<close>

  \<^item> A struct is a record, an enum a datatype, a Rust string the list of its bytes, a machine integer a
    word of its width (or a natural where the code bounds it first), \<open>f64\<close> a real with an explicit
    rounding or, where the code looks at special values, \<open>f64\<close> of \<open>F64\<close>.
  \<^item> \<open>Result<T, E>\<close> is \<open>'e + 'a\<close> with \<open>Inl\<close> the error.  An operation on a state is a function
    \<open>'s \<Rightarrow> ('e + 'a) \<times> 's\<close>; \<open>bindE\<close>, \<open>retE\<close>, \<open>throwE\<close> of \<open>Prelude\<close> are the \<open>?\<close> operator, \<open>Ok\<close> and \<open>Err\<close>.
    A panic is an error value of its own.
  \<^item> Clocks, random identifiers and random keys are arguments of the operation that reads them.
  \<^item> \<open>Sqlite\<close> models the connection behind its mutex: the tables, the saved tables of an open transaction,
    and a schedule of failing statements and failing commits, so every property says what it says for
    every place where SQLite may fail.  There one database is used through one connection;
    \<open>Kanban_Connections\<close> is about several.

  \<^bold>\<open>Theories and the code they model\<close>

  \<^item> \<open>Prelude\<close> (results, operations, lists, maps), \<open>Text\<close> (\<open>core/util.rs\<close>, \<open>core/storage.rs\<close>,
    \<open>core/persistence.rs\<close>: UTF-8, terminal filters, identifiers, database paths), \<open>F64\<close>,
    \<open>Demo_Codec\<close> (the encoding the witnesses use in place of JSON).
  \<^item> \<open>Plugin\<close> (\<open>core/types.rs\<close>, \<open>core/plugin.rs\<close>, \<open>core/users.rs\<close>), \<open>Canon\<close> (\<open>core/canon.rs\<close>,
    \<open>core/client_auth.rs\<close>), \<open>Security\<close> (\<open>core/security.rs\<close>), \<open>Security_Threads\<close> (its
    audit log written by several threads), \<open>Audit_File\<close> (its file cut off in a write, or written twice), \<open>Redaction\<close> (the \<open>Debug\<close> texts of secrets), \<open>Bus\<close> (\<open>core/bus.rs\<close>, \<open>plugin-bus-tokio\<close>),
    \<open>Bootstrap\<close> (\<open>core/bootstrap.rs\<close> and the manifests of \<open>main.rs\<close>), \<open>Agent\<close> (\<open>core/agent.rs\<close>,
    \<open>core/provider.rs\<close>, \<open>core/profile.rs\<close>, \<open>core/escalation.rs\<close>), \<open>Money\<close> (the conversions of \<open>core/types.rs\<close>), \<open>Escalation_Cli\<close>
    (\<open>plugin-escalation-cli\<close>).
  \<^item> \<open>Kanban\<close> (\<open>core/kanban.rs\<close> and the board contract), \<open>Sqlite\<close> and \<open>Kanban_Sqlite\<close>
    (\<open>plugin-kanban-sqlite\<close>), \<open>Kanban_Faults\<close> (the board under failing statements), \<open>Kanban_Live\<close>
    (which tasks can be finished), \<open>Kanban_Connections\<close> (several connections on one database),
    \<open>Kanban_Reads\<close> (what is read meanwhile),
    \<open>Logger_Sqlite\<close> (\<open>core/logger.rs\<close>, \<open>plugin-logger-sqlite\<close>),
    \<open>Gate_Engine\<close> (\<open>plugin-gate-engine\<close>), \<open>Gate_Threads\<close> (its calls interleaved), \<open>Pipeline\<close> (\<open>src/pipeline.rs\<close>),
    \<open>Pipeline_Threads\<close> (a run among others on one board), \<open>Pipeline_Faults\<close> (a run whose statements fail), \<open>Main_Program\<close> (\<open>src/main.rs\<close>).
  \<^item> \<open>Sandbox\<close> (\<open>core/sandbox.rs\<close>, \<open>plugin-sandbox-wasmtime\<close>), \<open>Sandbox_Ticker\<close> (its background thread and
    \<open>drop\<close>), \<open>Hunt_Harness\<close> (\<open>plugin-hunt-harness\<close>), \<open>Provider_Ollama\<close> (\<open>plugin-provider-ollama\<close>),
    \<open>Digest\<close> (\<open>plugin-digest-generator\<close>), \<open>Interest_Router\<close> (\<open>plugin-interest-router\<close>).
  \<^item> \<open>Workflow_Profile\<close>, \<open>Mastery_Policy\<close>, \<open>Rotation\<close>, \<open>Withdrawal\<close>, \<open>Probe_Ladder\<close>: the plugins
    \<open>workflow-profile\<close>, \<open>mastery-policy\<close>, \<open>rotation-scheduler\<close>, \<open>withdrawal-scheduler\<close>, \<open>probe-ladder\<close>.
  \<^item> \<open>Ledger_Base\<close> (what the ledgers share), \<open>Coverage_Map\<close>, \<open>Calibration_Ledger\<close>, \<open>Rationale_Ledger\<close>,
    \<open>Insight_Artifact\<close>: the plugins of these names; \<open>Rationale_Connections\<close> (appends from several connections),
    \<open>Coverage_Threads\<close>, \<open>Insight_Threads\<close> and \<open>Calibration_Threads\<close> (calls that take the lock more than once, interleaved).

  A path \<open>core/x.rs\<close> is \<open>src/crates/core/src/x.rs\<close>; a plugin is \<open>src/crates/plugin-*/src/lib.rs\<close>.

  \<^bold>\<open>Interfaces\<close>

  \<^item> \<open>kanban_contract\<close> (\<open>Kanban\<close>): a board implements the task map of the specification \<open>spec_step\<close>; provided
    by \<open>sqlite_board\<close>.  \<open>call_log_contract\<close>: the log only grows; provided by \<open>sqlite_log\<close>.
  \<^item> \<open>gate_env\<close> joins the two, \<open>pipeline_env\<close> extends it; the lemmas on gates and pipeline are proved for
    any board and log and used at \<open>sqlite_gate\<close> and \<open>sqlite_pipeline\<close>.
  \<^item> \<open>own_task_board\<close> (\<open>Pipeline_Faults\<close>): a call on a task has its whole effect or none, whatever fails; provided by the
    SQLite board alone (\<open>faulty_sqlite\<close>) and shared (\<open>faulty_shared\<close>).  \<open>faulty_pipeline\<close> extends it by the log and the pipeline and
    is used at \<open>faulty_main\<close> and \<open>faulty_main_shared\<close>.
  \<^item> \<open>text_provider\<close>: a provider returns text without control characters; provided by \<open>ollama\<close>, used by
    the digest.
  \<^item> \<open>sandbox_runtime\<close>: the answer to a call does not depend on the calls before it; provided by
    \<open>wasmtime_sandbox\<close>, extended by \<open>hunt_env\<close> and used at \<open>wasmtime_hunt\<close>.
  \<^item> \<open>row_codec\<close> (\<open>Ledger_Base\<close>): what a ledger writes it reads back; provided for concepts, events,
    outcomes, rationale records and insights.

  \<^bold>\<open>What the lemmas show\<close>

  \<^item> Board: each call refines one step of an abstract task map, the stored history of a task is a path
    of legal moves, a claim is exclusive, a failing call leaves the tables as they were, every task that
    is not archived and whose dependencies are done can be finished, and a task that waits for an
    archived dependency never leaves the backlog.  Several connections, interleaved statement by
    statement, move the board as their successful writes would one after another; a read on another
    connection, which runs two statements outside a transaction, can return a task that never was, and exactly such: of one
    moment, with the history of a later one.
  \<^item> Gates and pipeline: a guarded move needs a token for this task, move and actor, also when calls are
    interleaved section by section (where the check of the source state can be overtaken); the reported
    outcome agrees with the board, save for the one case that is stated, the model call leaves exactly one
    entry with its usage and outcome, and the outcome is not
    changed by what others do on the board to other tasks; when statements fail the report can be ahead
    of the board in listed ways only, one of them a block that is reported and never made; the program's report is the
    truth about the boot, the sandbox and the task.  The scan for a JSON object ends and takes the
    first one.
  \<^item> Security: a stamp is valid until it is revoked, verification is decided by the policy and the stamp,
    the audit log is one hash chain at all times, and it continues over a restart.  Concurrent entries
    can be out of order, but exactly one order of them verifies.  A file
    whose last newline is lost is accepted once and rejected after the next entry, and so is a
    file two processes have written.  Debug texts hide the secrets, and only
    them, on one clean line.
  \<^item> Sandbox and hunts: no access outside the guest's memory, the budgets are passed on, no result depends
    on the calls before, a call is not cut short by more than a tick, and dropping the runtime ends.  Load can
    change a hunt only by timing it out, or by keeping its module from instantiating, which the code counts as a break.
  \<^item> Schedulers: expanding intervals with their cap, sessions spaced by them, roles assigned in rotation.
  \<^item> Ledgers: each refines an abstract store; nothing is rewritten that the code calls append-only, and
    because of that concurrent appends keep the supersede chains; concurrent
    requests to the coverage map have one order in which each has its answer; concurrent supersessions
    lose nothing and mark an insight as superseded by a stored one only, but one can be refused that would succeed alone; a team view taken meanwhile counts
    each person as of the moment of the look; a
    mastery estimate stays a probability under rounding; the aggregate view equals its definition.
  \<^item> Text: nothing that could steer a terminal passes the filters.
  \<^item> Money: an amount shown in dollars converts back to the same number of microdollars.

  \<^bold>\<open>Bounds\<close>

  There is no fuel in a definition.  The scan of \<open>parse_llm_output\<close> is a total function (its
  argument shrinks), and \<open>scan_bounded\<close> states its number of rounds: one more than the text has opening
  braces.  The step relations \<open>ticker_step\<close>, \<open>gate_step\<close>, \<open>conn_step\<close>, \<open>append_step\<close>,
  \<open>audit_step\<close>, \<open>coverage_move\<close> and \<open>insight_move\<close> are unbounded, for any number of threads or connections; \<open>drop_terminates\<close> bounds what is left after the
  stop flag is seen by four steps of the two threads.

  \<^bold>\<open>Parameters and what is assumed of them\<close>

  Third-party code is a parameter: HMAC and SHA-256, JSON, UUID and time formats, the broadcast channel of
  tokio, wasmtime, the HTTP client and the URL parser, the text-format assembler, derived decoders.
  Assumptions about them are named definitions and each is discharged on a concrete instance in a
  witness: \<open>codec_ok\<close>, \<open>kan_ok\<close>, \<open>insight_ok\<close>, \<open>serde_ok\<close> (what is written parses back; a serialised entry is
  one line; for the times this holds of the years 0 to 9999), \<open>one_document\<close> (two entries on one line do not parse), \<open>mac32\<close> (a digest has 32 bytes), \<open>fixed_ok\<close> (the fixed-width time parses back and is ordered
  as the times are, for years 0 to 9999), \<open>rounding\<close> (rounding is monotone, idempotent, exact at 0
  and 1, and at most doubles), \<open>ieee_rounding\<close> (exact up to 2 to the 53, else half a unit in the last
  place), \<open>unicode_tables\<close> (no control character is printable), \<open>broadcast_ok\<close> (a channel keeps what was sent, in order), \<open>decoder_ok\<close> (decoded text is
  UTF-8), \<open>limiter_ok\<close> (wasmtime asks the limiter before it grows a memory or a table), \<open>import_refused\<close>
  (a module with an unknown import does not instantiate), \<open>under_load\<close> (load interrupts an execution or keeps a
  module from instantiating; it does not change a result).

  \<^bold>\<open>Not modelled\<close>

  What is printed (banners, progress lines, \<open>Display\<close> texts no code reads); the traits \<open>PersistenceProvider\<close> (but for its default method), \<open>UserDirectory\<close> and
  \<open>ClientAuthScheme\<close>, which have no implementation in the repository; the module list
  of \<open>core/lib.rs\<close>; tests.
  Trivial accessors (\<open>as_str\<close>, \<open>new\<close> of a newtype) have no definition of their own.  Threads and connections
  interleave at locks and statements; the memory model below them, and the file system under SQLite, are not part of the
  model.  A pipeline run under failing statements assumes that commits succeed (failing commits are
  the subject of \<open>Kanban_Faults\<close> for one call).
\<close>

end
